(* ===== verification/Prelude.thy ===== *)
theory Prelude
  imports Main "HOL-Library.AList" "HOL-Library.Word" "HOL-Library.Char_ord"
    "HOL-Library.List_Lexorder" "HOL-Library.Product_Lexorder" "HOL-Library.Multiset" "HOL-Library.Sublist"
begin

text \<open>
  The vocabulary every component shares: the Python exceptions of the program, results that may
  raise, truth values of optional strings, the string methods the sources call, bounded deques,
  insertion-ordered dictionaries, and the generic lemmas on them. A Python string is modelled by
  a \<^typ>\<open>string\<close> of ASCII characters, so that its order is the code-point order and its UTF-8
  encoding is the string itself; a Python int is an \<^typ>\<open>int\<close>; bytes are lists of 8-bit words.
\<close>

section \<open>Types shared by the components\<close>

type_synonym byte = "8 word"
type_synonym bytes = "8 word list"

text \<open>The exceptions the sources raise, one constructor per Python class.\<close>

datatype exn =
    ValueError string
  | KeyError string
  | IndexError string
  | RuntimeError string
  | FrameScopeConflict string
  | ManifestIntegrityError string
  | IntegrityError string
  | SessionTokenError string
  | CreditRejected string
  | FrameSetExpired string
  | ArchiveIntegrityError string
  | OSError string
  | TypeError string
  | AttributeError string
  | JSONDecodeError
  | PayloadLimitExceeded string
  | OverflowError string
  | RelayCredentialSessionInactive string
  | PermanentRelayError string
  | CaptureRunChanged string
  | FrameIntegrityError string

type_synonym 'a result = "exn + 'a"

fun bind_result :: "'a result \<Rightarrow> ('a \<Rightarrow> 'b result) \<Rightarrow> 'b result" where
  "bind_result (Inl e) f = Inl e"
| "bind_result (Inr x) f = f x"

text \<open>A list comprehension whose element expression may raise: the first exception wins.\<close>

fun map_result :: "('a \<Rightarrow> 'b result) \<Rightarrow> 'a list \<Rightarrow> 'b list result" where
  "map_result f [] = Inr []"
| "map_result f (x # xs) =
     (case f x of Inl e \<Rightarrow> Inl e
      | Inr y \<Rightarrow> (case map_result f xs of Inl e \<Rightarrow> Inl e | Inr ys \<Rightarrow> Inr (y # ys)))"

section \<open>Python truth values and strings\<close>

text \<open>\<open>bool(x)\<close> for \<open>x: str | None\<close>, and \<open>x or default\<close>.\<close>

fun truthy :: "string option \<Rightarrow> bool" where
  "truthy None = False"
| "truthy (Some s) = (s \<noteq> [])"

fun str_or :: "string option \<Rightarrow> string \<Rightarrow> string" where
  "str_or None d = d"
| "str_or (Some s) d = (if s = [] then d else s)"

definition is_space :: "char \<Rightarrow> bool" where
  "is_space c \<longleftrightarrow> (let n = (of_char c :: nat) in (9 \<le> n \<and> n \<le> 13) \<or> (28 \<le> n \<and> n \<le> 32))"

text \<open>\<open>str.strip()\<close>, \<open>str.lower()\<close> and \<open>str.upper()\<close> on ASCII text.\<close>

definition strip :: "string \<Rightarrow> string" where
  "strip s = rev (dropWhile is_space (rev (dropWhile is_space s)))"

definition lower_char :: "char \<Rightarrow> char" where
  "lower_char c = (let n = (of_char c :: nat) in if 65 \<le> n \<and> n \<le> 90 then char_of (n + 32) else c)"

definition upper_char :: "char \<Rightarrow> char" where
  "upper_char c = (let n = (of_char c :: nat) in if 97 \<le> n \<and> n \<le> 122 then char_of (n - 32) else c)"

definition lower :: "string \<Rightarrow> string" where
  "lower s = map lower_char s"

definition upper :: "string \<Rightarrow> string" where
  "upper s = map upper_char s"

text \<open>\<open>str(n)\<close> for an int, and \<open>sep.join(xs)\<close>.\<close>

definition digit_char :: "nat \<Rightarrow> char" where
  "digit_char d = char_of (48 + d)"

fun nat_digits :: "nat \<Rightarrow> string" where
  "nat_digits n = (if n < 10 then [digit_char n] else nat_digits (n div 10) @ [digit_char (n mod 10)])"

declare nat_digits.simps [simp del]

definition py_str_int :: "int \<Rightarrow> string" where
  "py_str_int i = (if i < 0 then CHR ''-'' # nat_digits (nat (- i)) else nat_digits (nat i))"

fun join :: "string \<Rightarrow> string list \<Rightarrow> string" where
  "join sep [] = []"
| "join sep [x] = x"
| "join sep (x # xs) = x @ sep @ join sep xs"

text \<open>Lowercase hexadecimal digits.\<close>

definition hex_char :: "nat \<Rightarrow> char" where
  "hex_char d = (if d < 10 then char_of (48 + d) else char_of (87 + d))"

definition is_hex_lower :: "char \<Rightarrow> bool" where
  "is_hex_lower c \<longleftrightarrow>
     (let n = (of_char c :: nat) in (48 \<le> n \<and> n \<le> 57) \<or> (97 \<le> n \<and> n \<le> 102))"

text \<open>\<open>s.encode("utf-8")\<close> for ASCII text.\<close>

definition encode_utf8 :: "string \<Rightarrow> bytes" where
  "encode_utf8 s = map (\<lambda>c. word_of_nat (of_char c)) s"

section \<open>Bounded deques\<close>

text \<open>\<open>deque(xs, maxlen=n)\<close> keeps the last \<open>n\<close> elements; \<open>append\<close> drops from the left.\<close>

definition deque_of :: "nat \<Rightarrow> 'a list \<Rightarrow> 'a list" where
  "deque_of n xs = drop (length xs - n) xs"

definition deque_append :: "nat \<Rightarrow> 'a list \<Rightarrow> 'a \<Rightarrow> 'a list" where
  "deque_append n xs x = deque_of n (xs @ [x])"

section \<open>Dictionaries\<close>

text \<open>
  A Python dict is an association list in insertion order: an assignment to a present key keeps
  its position (\<^const>\<open>AList.update\<close>), a new key goes last, \<open>pop\<close> is \<^const>\<open>AList.delete\<close>.
\<close>

type_synonym ('k, 'v) dict = "('k \<times> 'v) list"

abbreviation dict_get :: "('k, 'v) dict \<Rightarrow> 'k \<Rightarrow> 'v option" where
  "dict_get d k \<equiv> map_of d k"

abbreviation dict_set :: "('k, 'v) dict \<Rightarrow> 'k \<Rightarrow> 'v \<Rightarrow> ('k, 'v) dict" where
  "dict_set d k v \<equiv> AList.update k v d"

abbreviation dict_pop :: "('k, 'v) dict \<Rightarrow> 'k \<Rightarrow> ('k, 'v) dict" where
  "dict_pop d k \<equiv> AList.delete k d"

abbreviation dict_keys :: "('k, 'v) dict \<Rightarrow> 'k list" where
  "dict_keys d \<equiv> map fst d"

abbreviation dict_values :: "('k, 'v) dict \<Rightarrow> 'v list" where
  "dict_values d \<equiv> map snd d"

section \<open>Lemma collections\<close>

named_theorems dict_simps \<open>lookups and keys of dictionaries after an update\<close>
named_theorems deque_simps \<open>lengths and members of bounded deques\<close>
named_theorems res_split \<open>case splits for results, options and conditionals\<close>

lemmas result_splits [res_split] = sum.splits option.splits if_splits prod.splits

section \<open>Generic lemmas\<close>

lemma bind_result_Inr [simp]: "bind_result m Inr = m"
  by (cases m) auto

lemma bind_result_eq_Inr:
  "bind_result m f = Inr y \<longleftrightarrow> (\<exists>x. m = Inr x \<and> f x = Inr y)"
  by (cases m) auto

lemma map_sum_Inr: "map_sum f g x = Inr y \<longleftrightarrow> (\<exists>z. x = Inr z \<and> y = g z)"
  by (cases x) auto

lemma map_result_Inr_length: "map_result f xs = Inr ys \<Longrightarrow> length ys = length xs"
  by (induction xs arbitrary: ys) (auto split: sum.splits)

lemma map_result_Inr_iff:
  "map_result f xs = Inr ys \<longleftrightarrow> list_all2 (\<lambda>x y. f x = Inr y) xs ys"
proof (induction xs arbitrary: ys)
  case (Cons x xs)
  show ?case by (cases ys) (auto split: sum.splits simp: Cons.IH [symmetric])
qed auto

lemma map_result_total:
  "(\<And>x. x \<in> set xs \<Longrightarrow> \<exists>y. f x = Inr y) \<Longrightarrow> \<exists>ys. map_result f xs = Inr ys"
  by (induction xs) (auto split: sum.splits, force+)

lemma truthy_iff: "truthy s \<longleftrightarrow> (\<exists>t. s = Some t \<and> t \<noteq> [])"
  by (cases s) auto

lemma is_hex_lower_hex_char: "d < 16 \<Longrightarrow> is_hex_lower (hex_char d)"
  by (auto simp: is_hex_lower_def hex_char_def Let_def)

lemma inj_hex_char: "a < 16 \<Longrightarrow> b < 16 \<Longrightarrow> hex_char a = hex_char b \<Longrightarrow> a = b"
  by (auto simp: hex_char_def split: if_splits dest!: arg_cong [where f = "of_char :: char \<Rightarrow> nat"])

lemma deque_of_length [deque_simps]: "length (deque_of n xs) \<le> n"
  by (simp add: deque_of_def)

lemma deque_of_short [deque_simps, simp]: "length xs \<le> n \<Longrightarrow> deque_of n xs = xs"
  by (simp add: deque_of_def)

lemma deque_of_set: "set (deque_of n xs) \<subseteq> set xs"
  by (simp add: deque_of_def set_drop_subset)

lemma deque_append_length [deque_simps]: "length (deque_append n xs x) \<le> n"
  by (simp add: deque_append_def deque_of_length)

lemma deque_append_set: "set (deque_append n xs x) \<subseteq> insert x (set xs)"
  unfolding deque_append_def using deque_of_set [of n "xs @ [x]"] by auto

lemma deque_append_full:
  "length xs = n \<Longrightarrow> 0 < n \<Longrightarrow> deque_append n xs x = tl xs @ [x]"
  by (cases xs) (auto simp: deque_append_def deque_of_def)

lemma deque_append_room:
  "length xs < n \<Longrightarrow> deque_append n xs x = xs @ [x]"
  by (simp add: deque_append_def)

lemma deque_append_last: "0 < n \<Longrightarrow> deque_append n xs x \<noteq> [] \<and> last (deque_append n xs x) = x"
  by (auto simp: deque_append_def deque_of_def)

lemma deque_append_cases:
  assumes "length xs \<le> n" and "0 < n"
  obtains ys where "deque_append n xs x = ys @ [x]" and "suffix ys xs"
proof (cases "length xs < n")
  case True
  then show ?thesis using that [of xs] by (simp add: deque_append_room)
next
  case False
  with assms have "length xs = n" by simp
  then show ?thesis
    using that [of "tl xs"] assms deque_append_full [of xs n x] by (simp add: suffix_tl)
qed

lemma dict_get_set [dict_simps, simp]:
  "dict_get (dict_set d k v) k' = (if k' = k then Some v else dict_get d k')"
  by (simp add: update_conv')

lemma dict_get_pop [dict_simps]:
  "dict_get (dict_pop d k) k' = (if k' = k then None else dict_get d k')"
  by (simp add: delete_conv')

lemma dict_keys_set [dict_simps]: "set (dict_keys (dict_set d k v)) = insert k (set (dict_keys d))"
  by (auto simp: update_keys)

lemma dict_distinct_set: "distinct (dict_keys d) \<Longrightarrow> distinct (dict_keys (dict_set d k v))"
  by (rule distinct_update)

lemma dict_values_set: "set (dict_values (dict_set d k v)) \<subseteq> insert v (set (dict_values d))"
  by (induction d) auto

lemma dict_set_new: "dict_get d k = None \<Longrightarrow> dict_set d k v = d @ [(k, v)]"
  by (induction d) auto

lemma dict_values_get:
  "distinct (dict_keys d) \<Longrightarrow> v \<in> set (dict_values d) \<longleftrightarrow> (\<exists>k. dict_get d k = Some v)"
  by (force simp: map_of_eq_Some_iff)

lemma dict_get_key: "dict_get d k = Some v \<Longrightarrow> k \<in> set (dict_keys d)"
  by (force dest: map_of_SomeD)

text \<open>Lookups stay lookups under simplification; membership is used only where it is asked for.\<close>

declare map_of_eq_Some_iff [simp del] Some_eq_map_of_iff [simp del]

section \<open>Extremes of a list\<close>

text \<open>\<open>max\<close> and \<open>min\<close> of a list; the sources raise on the empty one, which their models rule out.\<close>

fun list_max :: "int list \<Rightarrow> int" where
  "list_max [] = 0"
| "list_max (x # xs) = fold max xs x"

fun list_min :: "int list \<Rightarrow> int" where
  "list_min [] = 0"
| "list_min (x # xs) = fold min xs x"

lemma fold_max_ge: "x \<le> fold max xs (x::int) \<and> (\<forall>y \<in> set xs. y \<le> fold max xs x)
    \<and> fold max xs x \<in> insert x (set xs)"
proof (induction xs arbitrary: x)
  case (Cons y ys)
  from Cons.IH [of "max y x"] show ?case by (auto simp: max_def split: if_splits)
qed simp

lemma fold_min_le: "fold min xs (x::int) \<le> x \<and> (\<forall>y \<in> set xs. fold min xs x \<le> y)
    \<and> fold min xs x \<in> insert x (set xs)"
proof (induction xs arbitrary: x)
  case (Cons y ys)
  from Cons.IH [of "min y x"] show ?case by (auto simp: min_def split: if_splits)
qed simp

lemma list_max_in: "xs \<noteq> [] \<Longrightarrow> list_max xs \<in> set xs"
  by (cases xs) (use fold_max_ge in auto)

lemma list_max_ge: "x \<in> set xs \<Longrightarrow> x \<le> list_max xs"
  by (cases xs) (use fold_max_ge in auto)

lemma list_min_in: "xs \<noteq> [] \<Longrightarrow> list_min xs \<in> set xs"
  by (cases xs) (use fold_min_le in auto)

lemma list_min_le: "x \<in> set xs \<Longrightarrow> list_min xs \<le> x"
  by (cases xs) (use fold_min_le in auto)

lemma list_min_set:
  assumes "set xs = set ys" shows "list_min xs = list_min ys"
proof (cases "xs = []")
  case False
  with assms have "ys \<noteq> []" by auto
  with False assms list_min_in [of xs] list_min_in [of ys] list_min_le [of "list_min xs" ys] list_min_le [of "list_min ys" xs]
  show ?thesis by simp
qed (use assms in simp)

section \<open>State machines and their invariants\<close>

text \<open>
  A component that handles one operation after another: an initial state, the step of one
  operation and an invariant that both keep. The invariant then holds after any sequence of
  operations; each component interprets this interface on its own step function.
\<close>

fun run :: "('s \<Rightarrow> 'e \<Rightarrow> 's) \<Rightarrow> 's \<Rightarrow> 'e list \<Rightarrow> 's" where
  "run step s [] = s"
| "run step s (e # es) = run step (step s e) es"

lemma run_append: "run step s (xs @ ys) = run step (run step s xs) ys"
  by (induction xs arbitrary: s) auto

locale guarded_machine =
  fixes step :: "'s \<Rightarrow> 'e \<Rightarrow> 's"
    and ok :: "'e \<Rightarrow> bool"
    and inv :: "'s \<Rightarrow> bool"
  assumes step_inv: "inv s \<Longrightarrow> ok e \<Longrightarrow> inv (step s e)"
begin

lemma run_inv: "inv s \<Longrightarrow> list_all ok es \<Longrightarrow> inv (run step s es)"
  by (induction es arbitrary: s) (auto intro: step_inv)

end

text \<open>A quantity that no step decreases, on the states of the invariant.\<close>

locale monotone_machine = guarded_machine step ok inv
  for step :: "'s \<Rightarrow> 'e \<Rightarrow> 's" and ok :: "'e \<Rightarrow> bool" and inv :: "'s \<Rightarrow> bool" +
  fixes measure_of :: "'s \<Rightarrow> 'm::preorder"
  assumes step_mono: "inv s \<Longrightarrow> ok e \<Longrightarrow> measure_of s \<le> measure_of (step s e)"
begin

lemma run_mono: "inv s \<Longrightarrow> list_all ok es \<Longrightarrow> measure_of s \<le> measure_of (run step s es)"
proof (induction es arbitrary: s)
  case (Cons e es)
  then have "measure_of s \<le> measure_of (step s e)" and "inv (step s e)"
    by (auto intro: step_mono step_inv)
  with Cons show ?case by (auto intro: order_trans)
qed simp

end

section \<open>Evaluation\<close>

text \<open>Characters by their bits, for evaluation: the general functions bring in the code of many type classes.\<close>

definition nat_of_bits :: "bool list \<Rightarrow> nat" where
  "nat_of_bits bs = foldr (\<lambda>b n. (if b then 1 else 0) + 2 * n) bs 0"

definition char_of_number :: "nat \<Rightarrow> char" where
  "char_of_number n = char_of n"

definition number_of_char :: "char \<Rightarrow> nat" where
  "number_of_char c = of_char c"

lemma char_of_number_code [code]:
  "char_of_number n =
     (let b = (\<lambda>k. n div k mod 2 = 1) in Char (b 1) (b 2) (b 4) (b 8) (b 16) (b 32) (b 64) (b 128))"
  by (simp add: char_of_number_def char_of_def bit_iff_odd odd_iff_mod_2_eq_one Let_def)

lemma number_of_char_code [code]:
  "number_of_char (Char b0 b1 b2 b3 b4 b5 b6 b7) = nat_of_bits [b0, b1, b2, b3, b4, b5, b6, b7]"
  by (simp add: number_of_char_def nat_of_bits_def)

lemma char_number_unfold [code_unfold]: "char_of = char_of_number" "of_char = number_of_char"
  by (rule ext, simp add: char_of_number_def number_of_char_def)+

end
