(* ===== verification/Json.thy ===== *)
theory Json
  imports Prelude
begin

text \<open>
  JSON values and the canonical text \<open>json.dumps(value, ensure_ascii=False,
  separators=(",", ":"), sort_keys=True)\<close> that every digest of the program is computed from.
  The theory shows that the text does not depend on the order of an object's keys and that it
  determines the value up to that order: two values with the same canonical text have the same
  normal form.
\<close>

section \<open>JSON values and canonical text\<close>

text \<open>A float carries the text \<open>repr\<close> gives it; an object is a dictionary.\<close>

datatype json =
    JNull
  | JBool bool
  | JInt int
  | JFloat string
  | JStr string
  | JList "json list"
  | JObj "(string \<times> json) list"

text \<open>\<open>json.dumps(..., ensure_ascii=False)\<close> escapes quotes, backslashes and control characters.\<close>

definition json_escape :: "char \<Rightarrow> string" where
  "json_escape c =
     (let n = (of_char c :: nat)
      in if c = CHR 0x22 then [CHR 0x5C, CHR 0x22]
         else if c = CHR 0x5C then [CHR 0x5C, CHR 0x5C]
         else if n = 10 then [CHR 0x5C, CHR ''n'']
         else if n = 13 then [CHR 0x5C, CHR ''r'']
         else if n = 9 then [CHR 0x5C, CHR ''t'']
         else if n = 12 then [CHR 0x5C, CHR ''f'']
         else if n = 8 then [CHR 0x5C, CHR ''b'']
         else if n < 32 then [CHR 0x5C, CHR ''u'', CHR ''0'', CHR ''0'', hex_char (n div 16), hex_char (n mod 16)]
         else [c])"

definition json_quote :: "string \<Rightarrow> string" where
  "json_quote s = CHR 0x22 # concat (map json_escape s) @ [CHR 0x22]"

lemma sort_key_size [termination_simp]:
  "(a, b) \<in> set (sort_key fst kvs) \<Longrightarrow> size b < Suc (size_list (size_prod (\<lambda>x. 0) size) kvs)"
  by (induction kvs) (auto simp: set_insort_key)

fun canonical_json :: "json \<Rightarrow> string" where
  "canonical_json JNull = ''null''"
| "canonical_json (JBool b) = (if b then ''true'' else ''false'')"
| "canonical_json (JInt i) = py_str_int i"
| "canonical_json (JFloat r) = r"
| "canonical_json (JStr s) = json_quote s"
| "canonical_json (JList vs) = ''['' @ join '','' (map canonical_json vs) @ '']''"
| "canonical_json (JObj kvs) =
     ''{'' @ join '','' (map (\<lambda>(k, v). json_quote k @ '':'' @ canonical_json v) (sort_key fst kvs)) @ ''}''"

section \<open>Decimal text\<close>

lemma digit_char_inj: "a < 10 \<Longrightarrow> b < 10 \<Longrightarrow> digit_char a = digit_char b \<Longrightarrow> a = b"
  by (auto simp: digit_char_def dest!: arg_cong [where f = "of_char :: char \<Rightarrow> nat"])

definition is_digit :: "char \<Rightarrow> bool" where
  "is_digit c \<longleftrightarrow> (let n = (of_char c :: nat) in 48 \<le> n \<and> n \<le> 57)"

lemma is_digit_digit_char [simp]: "d < 10 \<Longrightarrow> is_digit (digit_char d)"
  by (simp add: is_digit_def digit_char_def)

lemma nat_digits_digits: "list_all is_digit (nat_digits n)"
proof (induction n rule: nat_digits.induct)
  case (1 n)
  then show ?case by (subst nat_digits.simps) auto
qed

lemma nat_digits_nonempty [simp]: "nat_digits n \<noteq> []"
  by (subst nat_digits.simps) simp

definition digits_value :: "string \<Rightarrow> nat" where
  "digits_value = foldl (\<lambda>a c. 10 * a + (of_char c - 48)) 0"

lemma digits_value_nat_digits: "digits_value (nat_digits n) = n"
proof (induction n rule: nat_digits.induct)
  case (1 n)
  then show ?case
    by (subst nat_digits.simps) (auto simp: digits_value_def digit_char_def)
qed

lemma nat_digits_inj: "nat_digits a = nat_digits b \<Longrightarrow> a = b"
  by (metis digits_value_nat_digits)

lemma nat_digits_hd_digit: "is_digit (hd (nat_digits n))"
  using nat_digits_digits [of n] nat_digits_nonempty [of n] by (cases "nat_digits n") auto

lemma minus_not_digit [simp]: "\<not> is_digit (CHR ''-'')"
  by (simp add: is_digit_def)

lemma py_str_int_inj: "py_str_int a = py_str_int b \<longleftrightarrow> a = b"
proof
  assume eq: "py_str_int a = py_str_int b"
  have "hd (nat_digits n) \<noteq> CHR ''-''" for n
    using nat_digits_hd_digit [of n] by auto
  then have "nat_digits n \<noteq> CHR ''-'' # s" for n s by (metis list.sel(1))
  with eq show "a = b"
    by (auto simp: py_str_int_def split: if_splits dest!: nat_digits_inj) metis+
qed simp

text \<open>A text that cannot continue a number: what follows a value inside a document.\<close>

definition delimited :: "string \<Rightarrow> bool" where
  "delimited s \<longleftrightarrow> (case s of [] \<Rightarrow> True | c # _ \<Rightarrow> \<not> is_digit c)"

lemma delimited_simps [simp]:
  "delimited []" "delimited (c # s) \<longleftrightarrow> \<not> is_digit c"
  by (simp_all add: delimited_def)

lemma takeWhile_digits:
  "list_all is_digit ds \<Longrightarrow> delimited s \<Longrightarrow> takeWhile is_digit (ds @ s) = ds"
  by (induction ds) (auto simp: delimited_def split: list.splits)

lemma digits_unique:
  assumes "list_all is_digit ds" "list_all is_digit es" "delimited s" "delimited t"
    and "ds @ s = es @ t"
  shows "ds = es \<and> s = t"
  using assms takeWhile_digits [of ds s] takeWhile_digits [of es t] by auto

lemma nat_digits_unique:
  "delimited s \<Longrightarrow> delimited t \<Longrightarrow> nat_digits m @ s = nat_digits n @ t \<Longrightarrow> m = n \<and> s = t"
  using digits_unique [OF nat_digits_digits nat_digits_digits] nat_digits_inj by blast

lemma nat_digits_no_minus [simp]:
  "nat_digits n @ u \<noteq> CHR ''-'' # r" "CHR ''-'' # r \<noteq> nat_digits n @ u"
  using nat_digits_hd_digit [of n] by (cases "nat_digits n"; auto)+

lemma py_str_int_unique:
  assumes "delimited s" "delimited t" "py_str_int a @ s = py_str_int b @ t"
  shows "a = b \<and> s = t"
proof (cases "a < 0")
  case True
  with assms(3) have b: "b < 0" by (auto simp: py_str_int_def split: if_splits)
  with True assms(3) have "nat_digits (nat (- a)) @ s = nat_digits (nat (- b)) @ t"
    by (simp add: py_str_int_def)
  with assms(1,2) have "nat (- a) = nat (- b) \<and> s = t" by (blast dest: nat_digits_unique)
  with True b show ?thesis by (simp add: eq_nat_nat_iff)
next
  case False
  with assms(3) have b: "\<not> b < 0" by (auto simp: py_str_int_def split: if_splits)
  with False assms(3) have "nat_digits (nat a) @ s = nat_digits (nat b) @ t"
    by (simp add: py_str_int_def)
  with assms(1,2) have "nat a = nat b \<and> s = t" by (blast dest: nat_digits_unique)
  with False b show ?thesis by (simp add: eq_nat_nat_iff)
qed

section \<open>Quoted strings\<close>

text \<open>A reader for one escaped character shows that the escapes form a prefix code.\<close>

definition hex_value :: "char \<Rightarrow> nat" where
  "hex_value c = (let n = of_char c in if n < 58 then n - 48 else n - 87)"

lemma hex_value_hex_char [simp]: "d < 16 \<Longrightarrow> hex_value (hex_char d) = d"
  by (auto simp: hex_value_def hex_char_def Let_def)

lemma hex_char_value:
  assumes "is_hex_lower c" shows "hex_value c < 16 \<and> hex_char (hex_value c) = c"
proof (cases "(of_char c :: nat) < 58")
  case True
  then have "48 \<le> (of_char c :: nat)" using assms by (auto simp: is_hex_lower_def Let_def)
  moreover from this True have "(of_char c :: nat) - 48 < 10" by linarith
  ultimately show ?thesis using True by (simp add: hex_value_def hex_char_def)
next
  case False
  then have "97 \<le> (of_char c :: nat)" "(of_char c :: nat) \<le> 102" using assms by (auto simp: is_hex_lower_def Let_def)
  moreover from this have "\<not> (of_char c :: nat) - 87 < 10" "(of_char c :: nat) - 87 < 16" by linarith+
  ultimately show ?thesis using False by (simp add: hex_value_def hex_char_def)
qed

text \<open>The value of a hexadecimal digit of either case.\<close>

definition hex_digit :: "char \<Rightarrow> nat option" where
  "hex_digit c = (if is_hex_lower (lower_char c) then Some (hex_value (lower_char c)) else None)"

lemma hex_digit_hex_char: "d < 16 \<Longrightarrow> hex_digit (hex_char d) = Some d"
  by (auto simp: hex_digit_def hex_char_def is_hex_lower_def lower_char_def hex_value_def Let_def)

fun read_escape :: "string \<Rightarrow> char \<times> string" where
  "read_escape (c # s) =
     (if c \<noteq> CHR 0x5C then (c, s)
      else (case s of
        x # r \<Rightarrow>
          (if x = CHR ''n'' then (char_of (10::nat), r) else if x = CHR ''r'' then (char_of (13::nat), r)
           else if x = CHR ''t'' then (char_of (9::nat), r) else if x = CHR ''f'' then (char_of (12::nat), r)
           else if x = CHR ''b'' then (char_of (8::nat), r)
           else if x = CHR ''u'' then (char_of (16 * hex_value (r ! 2) + hex_value (r ! 3)), drop 4 r)
           else (x, r))
      | [] \<Rightarrow> (c, [])))"
| "read_escape [] = (CHR 0x00, [])"

lemma char_of_char_eq: "(of_char c :: nat) = n \<Longrightarrow> char_of n = c"
  by auto

lemma read_escape_escape: "read_escape (json_escape c @ r) = (c, r)"
proof -
  have "16 * hex_value (hex_char (of_char c div 16)) + hex_value (hex_char (of_char c mod 16)) = of_char c"
    if "(of_char c :: nat) < 32" using that by simp
  then show ?thesis
    by (auto simp: json_escape_def Let_def dest: char_of_char_eq)
qed

lemma json_escape_hd: "json_escape c \<noteq> []" "hd (json_escape c) \<noteq> CHR 0x22"
  by (auto simp: json_escape_def Let_def)

lemma json_escape_not_quote [simp]:
  "json_escape c \<noteq> CHR 0x22 # r" "CHR 0x22 # r \<noteq> json_escape c"
  using json_escape_hd(2) [of c] by (metis list.sel(1))+

lemma escaped_unique:
  "concat (map json_escape a) @ CHR 0x22 # s = concat (map json_escape b) @ CHR 0x22 # t
   \<Longrightarrow> a = b \<and> s = t"
proof (induction a arbitrary: b)
  case Nil
  then show ?case
    by (cases b) (use json_escape_hd(1) in \<open>auto simp: Cons_eq_append_conv\<close>)
next
  case (Cons c a)
  then obtain d b' where b: "b = d # b'"
    by (cases b) (use json_escape_hd(1) in \<open>auto simp: append_eq_Cons_conv\<close>)
  have "(c, concat (map json_escape a) @ CHR 0x22 # s) = (d, concat (map json_escape b') @ CHR 0x22 # t)"
    using arg_cong [OF Cons.prems, of read_escape] read_escape_escape by (simp add: b)
  with Cons.IH b show ?case by simp
qed

lemma json_quote_unique: "json_quote a @ s = json_quote b @ t \<Longrightarrow> a = b \<and> s = t"
  by (auto simp: json_quote_def dest: escaped_unique)

section \<open>Normal forms\<close>

text \<open>The value with every object's entries in key order, and its text without sorting.\<close>

fun jnorm :: "json \<Rightarrow> json" where
  "jnorm (JList vs) = JList (map jnorm vs)"
| "jnorm (JObj kvs) = JObj (sort_key fst (map (\<lambda>(k, v). (k, jnorm v)) kvs))"
| "jnorm v = v"

fun json_text :: "json \<Rightarrow> string" where
  "json_text JNull = ''null''"
| "json_text (JBool b) = (if b then ''true'' else ''false'')"
| "json_text (JInt i) = py_str_int i"
| "json_text (JFloat r) = r"
| "json_text (JStr s) = json_quote s"
| "json_text (JList vs) = ''['' @ join '','' (map json_text vs) @ '']''"
| "json_text (JObj kvs) =
     ''{'' @ join '','' (map (\<lambda>(k, v). json_quote k @ '':'' @ json_text v) kvs) @ ''}''"

text \<open>Values without floats, as every manifest payload and identifier input is.\<close>

fun float_free :: "json \<Rightarrow> bool" where
  "float_free (JFloat r) = False"
| "float_free (JList vs) = list_all float_free vs"
| "float_free (JObj kvs) = list_all (\<lambda>(k, v). float_free v) kvs"
| "float_free _ = True"

lemma insort_key_map_fst:
  "insort_key fst (k, g v) (map (\<lambda>(k, v). (k, g v)) kvs) = map (\<lambda>(k, v). (k, g v)) (insort_key fst (k, v) kvs)"
  by (induction kvs) auto

lemma sort_key_map_fst:
  "sort_key fst (map (\<lambda>(k, v). (k, g v)) kvs) = map (\<lambda>(k, v). (k, g v)) (sort_key fst kvs)"
  by (induction kvs) (auto simp: insort_key_map_fst)

lemma canonical_json_text: "canonical_json v = json_text (jnorm v)"
proof (induction v rule: canonical_json.induct)
  case (7 kvs)
  then show ?case
    by (auto simp: sort_key_map_fst intro!: arg_cong [where f = "join _"] map_cong)
qed (auto intro!: arg_cong [where f = "join _"] map_cong)

lemma float_free_jnorm: "float_free v \<Longrightarrow> float_free (jnorm v)"
proof (induction v rule: jnorm.induct)
  case (2 kvs)
  then show ?case by (auto simp: list_all_iff split: prod.splits)
qed (auto simp: list_all_iff)

section \<open>The canonical text determines the value\<close>

lemma join_Cons: "join sep (x # xs) = x @ concat (map ((@) sep) xs)"
  by (induction xs arbitrary: x) auto

text \<open>Elements that can be read off a text one after another, followed by a closing bracket.\<close>

lemma elements_unique:
  assumes elem: "\<And>x y s t. x \<in> set xs \<Longrightarrow> y \<in> set ys \<Longrightarrow> delimited s \<Longrightarrow> delimited t \<Longrightarrow>
      f x @ s = f y @ t \<Longrightarrow> x = y \<and> s = t"
    and c: "c \<noteq> CHR '',''" "\<not> is_digit c"
    and eq: "concat (map (\<lambda>x. CHR '','' # f x) xs) @ c # s = concat (map (\<lambda>y. CHR '','' # f y) ys) @ c # t"
  shows "xs = ys \<and> s = t"
  using elem eq
proof (induction xs arbitrary: ys)
  case Nil
  then show ?case using c by (cases ys) auto
next
  case (Cons x xs)
  obtain y ys' where ys: "ys = y # ys'" using Cons.prems(2) c(1) by (cases ys) simp_all
  have comma: "\<not> is_digit CHR '',''" by code_simp
  have d: "delimited (concat (map (\<lambda>x. CHR '','' # f x) zs) @ c # r)" for zs r
    using c comma by (cases zs) simp_all
  from Cons.prems(2) ys
  have "f x @ concat (map (\<lambda>x. CHR '','' # f x) xs) @ c # s
      = f y @ concat (map (\<lambda>y. CHR '','' # f y) ys') @ c # t" by simp
  with Cons.prems(1) [of x y] d ys
  have "x = y" and rest: "concat (map (\<lambda>x. CHR '','' # f x) xs) @ c # s
      = concat (map (\<lambda>y. CHR '','' # f y) ys') @ c # t" by force+
  moreover have "xs = ys' \<and> s = t"
    by (rule Cons.IH [OF _ rest]) (use Cons.prems(1) ys in auto)
  ultimately show ?case using ys by simp
qed

lemma join_unique:
  assumes elem: "\<And>x y s t. x \<in> set xs \<Longrightarrow> y \<in> set ys \<Longrightarrow> delimited s \<Longrightarrow> delimited t \<Longrightarrow>
      f x @ s = f y @ t \<Longrightarrow> x = y \<and> s = t"
    and c: "c \<noteq> CHR '',''" "\<not> is_digit c"
    and lead: "\<And>x. x \<in> set xs \<union> set ys \<Longrightarrow> f x \<noteq> [] \<and> hd (f x) \<noteq> c"
    and eq: "join '','' (map f xs) @ c # s = join '','' (map f ys) @ c # t"
  shows "xs = ys \<and> s = t"
proof -
  have tail: "join '','' (map f (z # zs)) = f z @ concat (map (\<lambda>x. CHR '','' # f x) zs)" for z zs
    by (simp add: join_Cons comp_def)
  have mixed: "f z @ u \<noteq> c # r \<and> c # r \<noteq> f z @ u" if "z \<in> set xs \<union> set ys" for z u r
    using lead [OF that] by (cases "f z") auto
  consider "xs = []" "ys = []" | x xs' where "xs = x # xs'" "ys = []" | y ys' where "xs = []" "ys = y # ys'"
    | x xs' y ys' where "xs = x # xs'" "ys = y # ys'" by (metis list.exhaust)
  then show ?thesis
  proof cases
    case 1
    with eq show ?thesis by simp
  next
    case (2 x xs')
    from eq mixed [of x] show ?thesis unfolding 2 tail by simp
  next
    case (3 y ys')
    from eq mixed [of y] show ?thesis unfolding 3 tail by simp
  next
    case (4 x xs' y ys')
    from eq have "concat (map (\<lambda>x. CHR '','' # f x) xs) @ c # s = concat (map (\<lambda>y. CHR '','' # f y) ys) @ c # t"
      unfolding 4 tail by simp
    with elem c show ?thesis by (rule elements_unique)
  qed
qed

text \<open>The leading character of a value's text tells its constructor.\<close>

definition lead_tag :: "char \<Rightarrow> nat" where
  "lead_tag c = (if c = CHR ''n'' then 0 else if c = CHR ''t'' \<or> c = CHR ''f'' then 1
     else if c = CHR ''-'' \<or> is_digit c then 2 else if c = CHR 0x22 then 3
     else if c = CHR ''['' then 4 else if c = CHR ''{'' then 5 else 6)"

fun json_tag :: "json \<Rightarrow> nat" where
  "json_tag JNull = 0"
| "json_tag (JBool b) = 1"
| "json_tag (JInt i) = 2"
| "json_tag (JFloat r) = 6"
| "json_tag (JStr s) = 3"
| "json_tag (JList vs) = 4"
| "json_tag (JObj kvs) = 5"

lemma lead_tag_digit: "is_digit c \<Longrightarrow> lead_tag c = 2"
  by (auto simp: lead_tag_def is_digit_def)

lemma py_str_int_lead: "py_str_int i \<noteq> [] \<and> lead_tag (hd (py_str_int i)) = 2"
  using lead_tag_digit [OF nat_digits_hd_digit] by (simp add: py_str_int_def) (simp add: lead_tag_def)

lemma json_text_lead:
  "float_free v \<Longrightarrow> json_text v \<noteq> [] \<and> lead_tag (hd (json_text v)) = json_tag v"
  by (cases v) (use py_str_int_lead in \<open>auto simp: json_quote_def lead_tag_def is_digit_def\<close>)

lemma json_text_same_tag:
  assumes "float_free v" "float_free w" "json_text v @ s = json_text w @ t"
  shows "json_tag v = json_tag w"
proof -
  have "hd (json_text v) = hd (json_text w)"
    using assms json_text_lead by (metis hd_append)
  then show ?thesis using json_text_lead [OF assms(1)] json_text_lead [OF assms(2)] by simp
qed

lemma json_text_unique:
  "float_free v \<Longrightarrow> float_free w \<Longrightarrow> delimited s \<Longrightarrow> delimited t \<Longrightarrow>
   json_text v @ s = json_text w @ t \<Longrightarrow> v = w \<and> s = t"
proof (induction v arbitrary: w s t rule: json_text.induct)
  case (6 vs)
  obtain ws where w: "w = JList ws"
    using json_text_same_tag [OF "6.prems"(1,2,5)] by (cases w) auto
  have "vs = ws \<and> s = t"
  proof (rule join_unique [where f = json_text and c = "CHR '']''"])
    show "join '','' (map json_text vs) @ CHR '']'' # s = join '','' (map json_text ws) @ CHR '']'' # t"
      using "6.prems"(5) w by simp
    show "x = y \<and> s' = t'" if "x \<in> set vs" "y \<in> set ws" "delimited s'" "delimited t'"
      "json_text x @ s' = json_text y @ t'" for x y s' t'
      using "6.IH" [of x y s' t'] that "6.prems"(1,2) w by (auto simp: list_all_iff)
    show "json_text x \<noteq> [] \<and> hd (json_text x) \<noteq> CHR '']''" if "x \<in> set vs \<union> set ws" for x
    proof -
      have "float_free x" using that "6.prems"(1,2) w by (auto simp: list_all_iff)
      with json_text_lead [OF this] show ?thesis by (cases x) (auto simp: lead_tag_def is_digit_def)
    qed
  qed (auto simp: is_digit_def)
  with w show ?case by simp
next
  case (7 kvs)
  obtain lvs where w: "w = JObj lvs"
    using json_text_same_tag [OF "7.prems"(1,2,5)] by (cases w) auto
  let ?f = "\<lambda>(k, v). json_quote k @ '':'' @ json_text v"
  have "kvs = lvs \<and> s = t"
  proof (rule join_unique [where f = ?f and c = "CHR ''}''"])
    show "join '','' (map ?f kvs) @ CHR ''}'' # s = join '','' (map ?f lvs) @ CHR ''}'' # t"
      using "7.prems"(5) w by simp
    show "x = y \<and> s' = t'" if "x \<in> set kvs" "y \<in> set lvs" "delimited s'" "delimited t'"
      "?f x @ s' = ?f y @ t'" for x y s' t'
    proof -
      obtain k a l b where xy: "x = (k, a)" "y = (l, b)" by fastforce
      from that(5) xy have "k = l" "json_text a @ s' = json_text b @ t'"
        by (auto dest!: json_quote_unique)
      with "7.IH" [of x k a b s' t'] that "7.prems"(1,2) w xy show ?thesis by (auto simp: list_all_iff)
    qed
  qed (auto simp: is_digit_def json_quote_def split: prod.splits)
  with w show ?case by simp
next
  case (3 i)
  then show ?case using json_text_same_tag [OF "3.prems"(1,2,5)] by (cases w) (auto dest: py_str_int_unique)
next
  case (5 a)
  then show ?case using json_text_same_tag [OF "5.prems"(1,2,5)] by (cases w) (auto dest: json_quote_unique)
next
  case 1
  then show ?case using json_text_same_tag [OF "1.prems"(1,2,5)] by (cases w) auto
next
  case (2 b)
  then show ?case using json_text_same_tag [OF "2.prems"(1,2,5)] by (cases w) (auto split: if_splits)
next
  case (4 r)
  then show ?case by simp
qed

theorem canonical_json_determines:
  assumes "float_free v" "float_free w" "canonical_json v = canonical_json w"
  shows "jnorm v = jnorm w"
  using json_text_unique [of "jnorm v" "jnorm w" "[]" "[]"] assms
  by (simp add: canonical_json_text float_free_jnorm)

lemma sort_key_perm:
  assumes "distinct (map fst kvs)" "mset kvs = mset lvs"
  shows "sort_key fst kvs = sort_key fst lvs"
proof (rule map_sorted_distinct_set_unique [where f = fst])
  have "distinct (map fst lvs)" using assms by (metis mset_map mset_eq_imp_distinct_iff)
  with assms show "distinct (map fst (sort_key fst kvs))" "distinct (map fst (sort_key fst lvs))"
    by (metis mset_map mset_sort mset_eq_imp_distinct_iff)+
  show "set (sort_key fst kvs) = set (sort_key fst lvs)" using mset_eq_setD [OF assms(2)] by simp
  have "inj_on fst (set kvs)" using assms(1) by (simp add: distinct_map)
  then show "inj_on fst (set (sort_key fst kvs) \<union> set (sort_key fst lvs))"
    using mset_eq_setD [OF assms(2)] by simp
qed auto

lemma canonical_json_key_order:
  assumes "distinct (map fst kvs)" "mset kvs = mset lvs"
  shows "canonical_json (JObj kvs) = canonical_json (JObj lvs)"
  using sort_key_perm [OF assms] by simp

section \<open>Sameness up to the order of keys\<close>

text \<open>
  When two values are the same for a program that reads objects by key: lists agree entry by
  entry, objects bind the same keys to the same values in whatever order, everything else is
  equal. The definition knows nothing of normal forms or of text. Objects are dictionaries, so
  their keys are distinct.
\<close>

fun json_same :: "json \<Rightarrow> json \<Rightarrow> bool" where
  "json_same (JList vs) w = (case w of JList ws \<Rightarrow> list_all2 json_same vs ws | _ \<Rightarrow> False)"
| "json_same (JObj kvs) w = (case w of
     JObj lvs \<Rightarrow> length kvs = length lvs \<and>
       list_all (\<lambda>(k, a). case map_of lvs k of Some b \<Rightarrow> json_same a b | None \<Rightarrow> False) kvs
   | _ \<Rightarrow> False)"
| "json_same v w = (v = w)"

fun keys_distinct :: "json \<Rightarrow> bool" where
  "keys_distinct (JList vs) = list_all keys_distinct vs"
| "keys_distinct (JObj kvs) = (distinct (map fst kvs) \<and> list_all (\<lambda>(k, v). keys_distinct v) kvs)"
| "keys_distinct _ = True"

lemma sort_key_eq_iff:
  assumes "distinct (map fst kvs)" "distinct (map fst lvs)"
  shows "sort_key fst kvs = sort_key fst lvs \<longleftrightarrow> set kvs = set lvs"
proof
  assume "sort_key fst kvs = sort_key fst lvs"
  then show "set kvs = set lvs" by (metis set_sort)
next
  assume "set kvs = set lvs"
  moreover have "distinct kvs" "distinct lvs" using assms by (simp_all add: distinct_map)
  ultimately have "mset kvs = mset lvs" by (simp add: set_eq_iff_mset_eq_distinct)
  then show "sort_key fst kvs = sort_key fst lvs" by (rule sort_key_perm [OF assms(1)])
qed

lemma same_entries_iff:
  assumes "distinct (map fst kvs)" "distinct (map fst lvs)"
  shows "set kvs = set lvs \<longleftrightarrow> length kvs = length lvs \<and> (\<forall>(k, a) \<in> set kvs. map_of lvs k = Some a)"
proof -
  have d: "distinct kvs" "distinct lvs" using assms by (simp_all add: distinct_map)
  have "(\<forall>(k, a) \<in> set kvs. map_of lvs k = Some a) \<longleftrightarrow> set kvs \<subseteq> set lvs"
    using assms(2) by (fastforce dest: map_of_SomeD)
  moreover have "set kvs = set lvs \<longleftrightarrow> length kvs = length lvs \<and> set kvs \<subseteq> set lvs"
    using d by (metis card_subset_eq distinct_card finite_set order_refl)
  ultimately show ?thesis by blast
qed

lemma map_snd_keys: "map fst (map (\<lambda>(k, v). (k, g v)) kvs) = map fst kvs"
  by (induction kvs) auto

lemma map_of_map_snd: "map_of (map (\<lambda>(k, v). (k, g v)) kvs) k = map_option g (map_of kvs k)"
  by (induction kvs) auto

lemma jnorm_leaf:
  "JNull = jnorm w \<longleftrightarrow> w = JNull" "JBool b = jnorm w \<longleftrightarrow> w = JBool b" "JInt i = jnorm w \<longleftrightarrow> w = JInt i"
  "JFloat r = jnorm w \<longleftrightarrow> w = JFloat r" "JStr s = jnorm w \<longleftrightarrow> w = JStr s"
  by (cases w; auto)+

lemma json_same_norm:
  "keys_distinct v \<Longrightarrow> keys_distinct w \<Longrightarrow> json_same v w \<longleftrightarrow> jnorm v = jnorm w"
proof (induction v w rule: json_same.induct)
  case (1 vs w)
  show ?case
  proof (cases w)
    case (JList ws)
    have "json_same a b \<longleftrightarrow> jnorm a = jnorm b" if "a \<in> set vs" "b \<in> set ws" for a b
      using "1.IH" [OF JList that] "1.prems" JList that by (auto simp: list_all_iff)
    then have "list_all2 json_same vs ws \<longleftrightarrow> list_all2 (\<lambda>a b. jnorm a = jnorm b) vs ws"
      by (auto simp: list_all2_conv_all_nth)
    also have "\<dots> \<longleftrightarrow> map jnorm vs = map jnorm ws"
      by (auto simp: list_eq_iff_nth_eq list_all2_conv_all_nth)
    finally show ?thesis using JList by simp
  qed simp_all
next
  case (2 kvs w)
  show ?case
  proof (cases w)
    case (JObj lvs)
    let ?n = "map (\<lambda>(k, v). (k, jnorm v))"
    have d: "distinct (map fst (?n kvs))" "distinct (map fst (?n lvs))"
      using "2.prems" JObj by (simp_all only: map_snd_keys keys_distinct.simps)
    have "json_same a b \<longleftrightarrow> jnorm a = jnorm b" if "(k, a) \<in> set kvs" "map_of lvs k = Some b" for k a b
      using "2.IH" [OF JObj that(1) refl that(2)] "2.prems" JObj that
      by (auto simp: list_all_iff dest!: map_of_SomeD)
    then have "json_same (JObj kvs) w \<longleftrightarrow> length kvs = length lvs
        \<and> (\<forall>(k, a) \<in> set kvs. map_option jnorm (map_of lvs k) = Some (jnorm a))"
      unfolding JObj by (fastforce simp: list_all_iff split: option.splits)
    also have "\<dots> \<longleftrightarrow> set (?n kvs) = set (?n lvs)"
      unfolding same_entries_iff [OF d] by (auto simp: map_of_map_snd)
    finally show ?thesis using JObj sort_key_eq_iff [OF d] by simp
  qed simp_all
qed (auto simp: jnorm_leaf)

theorem canonical_json_same_iff:
  assumes "float_free v" "float_free w" "keys_distinct v" "keys_distinct w"
  shows "canonical_json v = canonical_json w \<longleftrightarrow> json_same v w"
  using canonical_json_determines [OF assms(1,2)] json_same_norm [OF assms(3,4)]
  by (auto simp: canonical_json_text)

section \<open>No blanks between the parts\<close>

text \<open>What a text holds outside its string literals.\<close>

function (sequential) unquoted :: "bool \<Rightarrow> string \<Rightarrow> string" where
  "unquoted q [] = []"
| "unquoted False (c # s) = (if c = CHR 0x22 then unquoted True s else c # unquoted False s)"
| "unquoted True (c # s) =
     (if c = CHR 0x5C then unquoted True (drop 1 s) else unquoted (c \<noteq> CHR 0x22) s)"
  by pat_completeness auto
termination by (relation "measure (\<lambda>(q, s). length s)") auto

lemma unquoted_escape [simp]: "unquoted True (json_escape c @ r) = unquoted True r"
proof -
  have "hex_char n \<noteq> CHR 0x5C \<and> hex_char n \<noteq> CHR 0x22" if "n < 16" for n
    using that by (auto simp: hex_char_def digit_char_def dest!: arg_cong [where f = "of_char :: char \<Rightarrow> nat"])
  then show ?thesis by (auto simp: json_escape_def Let_def)
qed

lemma unquoted_escapes: "unquoted True (concat (map json_escape s) @ r) = unquoted True r"
  by (induction s) simp_all

lemma unquoted_quote [simp]: "unquoted False (json_quote s @ r) = unquoted False r"
  by (simp add: json_quote_def unquoted_escapes)

text \<open>A text that ends outside a literal and has no blank outside its literals.\<close>

definition compact :: "string \<Rightarrow> bool" where
  "compact s \<longleftrightarrow> (\<exists>u. CHR '' '' \<notin> set u \<and> (\<forall>r. unquoted False (s @ r) = u @ unquoted False r))"

lemma compact_blank: "compact s \<Longrightarrow> CHR '' '' \<notin> set (unquoted False s)"
  unfolding compact_def by (metis append_Nil2 unquoted.simps(1))

lemma compact_Nil: "compact []"
  by (auto simp: compact_def)

lemma compact_quote: "compact (json_quote s)"
  unfolding compact_def by (rule exI [of _ "[]"]) simp

lemma compact_char: "c \<noteq> CHR '' '' \<Longrightarrow> c \<noteq> CHR 0x22 \<Longrightarrow> compact [c]"
  unfolding compact_def by (rule exI [of _ "[c]"]) simp

lemma compact_append: "compact s \<Longrightarrow> compact t \<Longrightarrow> compact (s @ t)"
proof -
  assume "compact s" "compact t"
  then obtain u v where "CHR '' '' \<notin> set u" "\<forall>r. unquoted False (s @ r) = u @ unquoted False r"
    "CHR '' '' \<notin> set v" "\<forall>r. unquoted False (t @ r) = v @ unquoted False r"
    unfolding compact_def by blast
  then show ?thesis unfolding compact_def by (intro exI [of _ "u @ v"]) simp
qed

lemma compact_chars: "list_all (\<lambda>c. c \<noteq> CHR '' '' \<and> c \<noteq> CHR 0x22) s \<Longrightarrow> compact s"
proof (induction s)
  case (Cons c s)
  then show ?case using compact_append [of "[c]" s] compact_char [of c] by simp
qed (rule compact_Nil)

lemma compact_join: "(\<And>x. x \<in> set xs \<Longrightarrow> compact x) \<Longrightarrow> compact (join '','' xs)"
proof (induction xs)
  case (Cons x xs)
  have comma: "compact '',''" by (rule compact_char) simp_all
  show ?case
  proof (cases xs)
    case Nil
    then show ?thesis using Cons.prems by simp
  next
    case (Cons y ys)
    have "compact (join '','' xs)" "compact x" using Cons.IH Cons.prems by simp_all
    with comma have "compact (x @ '','' @ join '','' xs)" by (intro compact_append)
    with Cons show ?thesis by simp
  qed
qed (simp add: compact_Nil)

lemma compact_int: "compact (py_str_int i)"
proof -
  have digits: "list_all (\<lambda>c. c \<noteq> CHR '' '' \<and> c \<noteq> CHR 0x22) (nat_digits n)" for n
    using nat_digits_digits [of n] by (auto simp: list_all_iff is_digit_def)
  then show ?thesis unfolding py_str_int_def by (auto intro!: compact_chars)
qed

lemma compact_canonical: "float_free v \<Longrightarrow> compact (canonical_json v)"
proof (induction v rule: canonical_json.induct)
  case (6 vs)
  have "compact (join '','' (map canonical_json vs))"
    using 6 by (intro compact_join) (auto simp: list_all_iff)
  then show ?case unfolding canonical_json.simps by (intro compact_append compact_char) simp_all
next
  case (7 kvs)
  have "compact (canonical_json v)" if "(k, v) \<in> set (sort_key fst kvs)" for k v
    using 7 that by (auto simp: list_all_iff)
  then have "compact (json_quote k @ '':'' @ canonical_json v)" if "(k, v) \<in> set (sort_key fst kvs)" for k v
    using that by (intro compact_append compact_quote compact_char) simp_all
  then have "compact (join '','' (map (\<lambda>(k, v). json_quote k @ '':'' @ canonical_json v) (sort_key fst kvs)))"
    by (intro compact_join) auto
  then show ?case unfolding canonical_json.simps by (intro compact_append compact_char) simp_all
qed (auto simp: compact_int compact_quote intro!: compact_chars)

theorem canonical_json_unspaced: "float_free v \<Longrightarrow> CHR '' '' \<notin> set (unquoted False (canonical_json v))"
  by (intro compact_blank compact_canonical)

end
