(* ===== verification/Hashing.thy ===== *)
theory Hashing
  imports Prelude
begin

text \<open>
  The digests and UUIDs of Python's standard library that the identity functions use:
  \<open>hashlib.sha256(...).hexdigest()\<close>, and \<open>uuid.uuid5\<close> with its SHA-1. Both hash functions are
  written out on 32-bit words as FIPS 180-4 has them, so every identifier of the model can be
  computed. The lemmas give the shape of their results: 64 lowercase hexadecimal digits for a
  digest, the canonical 36-character form for a UUID.
\<close>

unbundle bit_operations_syntax

section \<open>Bytes and words\<close>

type_synonym u32 = "32 word"

definition rotr32 :: "nat \<Rightarrow> u32 \<Rightarrow> u32" where
  "rotr32 n w = drop_bit n w OR push_bit (32 - n) w"

definition rotl32 :: "nat \<Rightarrow> u32 \<Rightarrow> u32" where
  "rotl32 n w = push_bit n w OR drop_bit (32 - n) w"

fun be32 :: "bytes \<Rightarrow> u32" where
  "be32 (a # b # c # d # _) =
     push_bit 24 (ucast a) OR push_bit 16 (ucast b) OR push_bit 8 (ucast c) OR ucast d"
| "be32 _ = 0"

definition be32_bytes :: "u32 \<Rightarrow> bytes" where
  "be32_bytes w = [ucast (drop_bit 24 w), ucast (drop_bit 16 w), ucast (drop_bit 8 w), ucast w]"

fun be_bytes :: "nat \<Rightarrow> nat \<Rightarrow> bytes" where
  "be_bytes 0 n = []"
| "be_bytes (Suc k) n = be_bytes k (n div 256) @ [word_of_nat n]"

function chunks :: "nat \<Rightarrow> 'a list \<Rightarrow> 'a list list" where
  "chunks k xs = (if k = 0 \<or> xs = [] then [] else take k xs # chunks k (drop k xs))"
  by pat_completeness auto
termination
  by (relation "measure (\<lambda>(k, xs). length xs)") auto

declare chunks.simps [simp del]

text \<open>The padding of both hash functions: a one bit, zeros, the length in bits as 64 bits.\<close>

definition pad512 :: "bytes \<Rightarrow> bytes" where
  "pad512 m = m @ [0x80] @ replicate ((119 - length m mod 64) mod 64) 0 @ be_bytes 8 (8 * length m)"

section \<open>SHA-256\<close>

definition sha256_k :: "u32 list" where
  "sha256_k =
    [0x428A2F98, 0x71374491, 0xB5C0FBCF, 0xE9B5DBA5,
     0x3956C25B, 0x59F111F1, 0x923F82A4, 0xAB1C5ED5,
     0xD807AA98, 0x12835B01, 0x243185BE, 0x550C7DC3,
     0x72BE5D74, 0x80DEB1FE, 0x9BDC06A7, 0xC19BF174,
     0xE49B69C1, 0xEFBE4786, 0x0FC19DC6, 0x240CA1CC,
     0x2DE92C6F, 0x4A7484AA, 0x5CB0A9DC, 0x76F988DA,
     0x983E5152, 0xA831C66D, 0xB00327C8, 0xBF597FC7,
     0xC6E00BF3, 0xD5A79147, 0x06CA6351, 0x14292967,
     0x27B70A85, 0x2E1B2138, 0x4D2C6DFC, 0x53380D13,
     0x650A7354, 0x766A0ABB, 0x81C2C92E, 0x92722C85,
     0xA2BFE8A1, 0xA81A664B, 0xC24B8B70, 0xC76C51A3,
     0xD192E819, 0xD6990624, 0xF40E3585, 0x106AA070,
     0x19A4C116, 0x1E376C08, 0x2748774C, 0x34B0BCB5,
     0x391C0CB3, 0x4ED8AA4A, 0x5B9CCA4F, 0x682E6FF3,
     0x748F82EE, 0x78A5636F, 0x84C87814, 0x8CC70208,
     0x90BEFFFA, 0xA4506CEB, 0xBEF9A3F7, 0xC67178F2]"

definition sha256_init :: "u32 list" where
  "sha256_init =
    [0x6A09E667, 0xBB67AE85, 0x3C6EF372, 0xA54FF53A,
     0x510E527F, 0x9B05688C, 0x1F83D9AB, 0x5BE0CD19]"

fun sha256_schedule :: "nat \<Rightarrow> u32 list \<Rightarrow> u32 list" where
  "sha256_schedule 0 ws = ws"
| "sha256_schedule (Suc n) ws =
     (let t = length ws;
          w15 = ws ! (t - 15); w2 = ws ! (t - 2);
          s0 = rotr32 7 w15 XOR rotr32 18 w15 XOR drop_bit 3 w15;
          s1 = rotr32 17 w2 XOR rotr32 19 w2 XOR drop_bit 10 w2
      in sha256_schedule n (ws @ [ws ! (t - 16) + s0 + ws ! (t - 7) + s1]))"

fun sha256_rounds :: "(u32 \<times> u32) list \<Rightarrow> u32 list \<Rightarrow> u32 list" where
  "sha256_rounds [] st = st"
| "sha256_rounds ((k, w) # kws) st =
     (if length st \<noteq> 8 then st
      else (let a = st ! 0; b = st ! 1; c = st ! 2; d = st ! 3; e = st ! 4; f = st ! 5; g = st ! 6; h = st ! 7;
          s1 = rotr32 6 e XOR rotr32 11 e XOR rotr32 25 e;
          ch = (e AND f) XOR (NOT e AND g);
          t1 = h + s1 + ch + k + w;
          s0 = rotr32 2 a XOR rotr32 13 a XOR rotr32 22 a;
          maj = (a AND b) XOR (a AND c) XOR (b AND c);
          t2 = s0 + maj
      in sha256_rounds kws [t1 + t2, a, b, c, d + t1, e, f, g]))"

definition sha256_block :: "u32 list \<Rightarrow> bytes \<Rightarrow> u32 list" where
  "sha256_block st block =
     map2 (+) st (sha256_rounds (zip sha256_k (sha256_schedule 48 (map be32 (chunks 4 block)))) st)"

definition sha256 :: "bytes \<Rightarrow> bytes" where
  "sha256 m = concat (map be32_bytes (foldl sha256_block sha256_init (chunks 64 (pad512 m))))"

section \<open>SHA-1\<close>

fun sha1_schedule :: "nat \<Rightarrow> u32 list \<Rightarrow> u32 list" where
  "sha1_schedule 0 ws = ws"
| "sha1_schedule (Suc n) ws =
     (let t = length ws
      in sha1_schedule n
           (ws @ [rotl32 1 (ws ! (t - 3) XOR ws ! (t - 8) XOR ws ! (t - 14) XOR ws ! (t - 16))]))"

definition sha1_f :: "nat \<Rightarrow> u32 \<Rightarrow> u32 \<Rightarrow> u32 \<Rightarrow> u32" where
  "sha1_f t b c d =
     (if t < 20 then (b AND c) OR (NOT b AND d)
      else if t < 40 then b XOR c XOR d
      else if t < 60 then (b AND c) OR (b AND d) OR (c AND d)
      else b XOR c XOR d)"

definition sha1_k :: "nat \<Rightarrow> u32" where
  "sha1_k t = (if t < 20 then 0x5A827999 else if t < 40 then 0x6ED9EBA1
               else if t < 60 then 0x8F1BBCDC else 0xCA62C1D6)"

fun sha1_rounds :: "nat \<Rightarrow> u32 list \<Rightarrow> u32 list \<Rightarrow> u32 list" where
  "sha1_rounds t (w # ws) [a, b, c, d, e] =
     sha1_rounds (Suc t) ws [rotl32 5 a + sha1_f t b c d + e + w + sha1_k t, a, rotl32 30 b, c, d]"
| "sha1_rounds t _ st = st"

definition sha1_block :: "u32 list \<Rightarrow> bytes \<Rightarrow> u32 list" where
  "sha1_block st block =
     map2 (+) st (sha1_rounds 0 (sha1_schedule 64 (map be32 (chunks 4 block))) st)"

definition sha1_init :: "u32 list" where
  "sha1_init = [0x67452301, 0xEFCDAB89, 0x98BADCFE, 0x10325476, 0xC3D2E1F0]"

definition sha1 :: "bytes \<Rightarrow> bytes" where
  "sha1 m = concat (map be32_bytes (foldl sha1_block sha1_init (chunks 64 (pad512 m))))"

section \<open>Hexadecimal text and UUIDs\<close>

definition hex_byte :: "byte \<Rightarrow> string" where
  "hex_byte b = [hex_char (unat b div 16), hex_char (unat b mod 16)]"

definition hex :: "bytes \<Rightarrow> string" where
  "hex bs = concat (map hex_byte bs)"

text \<open>A UUID is its sixteen bytes; \<open>str(uuid)\<close> groups its digits 8-4-4-4-12.\<close>

type_synonym uuid = bytes

definition str_uuid :: "uuid \<Rightarrow> string" where
  "str_uuid u = hex (take 4 u) @ ''-'' @ hex (take 2 (drop 4 u)) @ ''-''
     @ hex (take 2 (drop 6 u)) @ ''-'' @ hex (take 2 (drop 8 u)) @ ''-'' @ hex (take 6 (drop 10 u))"

text \<open>\<open>uuid5(namespace, name)\<close>: the SHA-1 digest, cut to 16 bytes, with variant and version set.\<close>

definition uuid5 :: "uuid \<Rightarrow> string \<Rightarrow> uuid" where
  "uuid5 namespace name =
     (let h = take 16 (sha1 (namespace @ encode_utf8 name))
      in h[6 := (h ! 6 AND 0x0F) OR 0x50, 8 := (h ! 8 AND 0x3F) OR 0x80])"

definition NAMESPACE_URL :: uuid where
  "NAMESPACE_URL = [0x6B, 0xA7, 0xB8, 0x11, 0x9D, 0xAD, 0x11, 0xD1,
                    0x80, 0xB4, 0x00, 0xC0, 0x4F, 0xD4, 0x30, 0xC8]"

section \<open>The shape of digests and UUIDs\<close>

lemma hex_byte_shape: "length (hex_byte b) = 2 \<and> list_all is_hex_lower (hex_byte b)"
proof -
  have "unat b < 2 ^ 8" using unsigned_less [where 'a = nat, of b] by simp
  then have "unat b div 16 < 16" "unat b mod 16 < 16" by auto
  then show ?thesis by (simp add: hex_byte_def is_hex_lower_hex_char)
qed

lemma length_hex [simp]: "length (hex bs) = 2 * length bs"
  by (induction bs) (auto simp: hex_def hex_byte_shape)

lemma hex_lower: "list_all is_hex_lower (hex bs)"
  by (induction bs) (auto simp: hex_def hex_byte_shape)

lemma length_be32_bytes: "length (be32_bytes w) = 4"
  by (simp add: be32_bytes_def)

lemma length_concat_be32: "length (concat (map be32_bytes ws)) = 4 * length ws"
  by (induction ws) (auto simp: length_be32_bytes)

lemma length_sha256_rounds: "length st = 8 \<Longrightarrow> length (sha256_rounds kws st) = 8"
proof (induction kws arbitrary: st)
  case (Cons kw kws)
  then show ?case by (cases kw) (simp add: Let_def)
qed simp

lemma length_sha1_rounds: "length st = 5 \<Longrightarrow> length (sha1_rounds t ws st) = 5"
  by (induction t ws st rule: sha1_rounds.induct) auto

lemma length_foldl_block:
  assumes "\<And>st b. length st = n \<Longrightarrow> length (block st b) = n"
  shows "length st = n \<Longrightarrow> length (foldl block st bs) = n"
  using assms by (induction bs arbitrary: st) auto

lemma length_sha256 [simp]: "length (sha256 m) = 32"
  unfolding sha256_def length_concat_be32
  by (subst length_foldl_block [where n = 8])
    (auto simp: sha256_block_def length_sha256_rounds sha256_init_def)

lemma length_sha1 [simp]: "length (sha1 m) = 20"
  unfolding sha1_def length_concat_be32
  by (subst length_foldl_block [where n = 5])
    (auto simp: sha1_block_def length_sha1_rounds sha1_init_def)

lemma length_uuid5 [simp]: "length (uuid5 ns name) = 16"
  by (simp add: uuid5_def Let_def)

lemma length_str_uuid: "length u = 16 \<Longrightarrow> length (str_uuid u) = 36"
  by (simp add: str_uuid_def)

lemma str_uuid_nonempty [simp]: "str_uuid u \<noteq> []"
  by (simp add: str_uuid_def)

lemma str_uuid_chars: "list_all (\<lambda>c. is_hex_lower c \<or> c = CHR ''-'') (str_uuid u)"
  using hex_lower by (auto simp: str_uuid_def list_all_iff)

lemma inj_hex_byte: "hex_byte a = hex_byte b \<Longrightarrow> a = b"
proof -
  assume eq: "hex_byte a = hex_byte b"
  have bounds: "unat a div 16 < 16" "unat b div 16 < 16"
    using unsigned_less [where 'a = nat, of a] unsigned_less [where 'a = nat, of b] by auto
  have "unat a div 16 = unat b div 16"
    using eq inj_hex_char [OF bounds] by (simp add: hex_byte_def)
  moreover have "unat a mod 16 = unat b mod 16"
    using eq inj_hex_char [of "unat a mod 16" "unat b mod 16"] by (simp add: hex_byte_def)
  ultimately have "unat a = unat b" by (metis div_mult_mod_eq)
  then show "a = b" by (rule unsigned_word_eqI)
qed

lemma inj_hex: "hex xs = hex ys \<Longrightarrow> xs = ys"
proof (induction xs arbitrary: ys)
  case Nil
  then show ?case by (cases ys) (auto simp: hex_def hex_byte_def)
next
  case (Cons x xs)
  then obtain y ys' where ys: "ys = y # ys'"
    by (cases ys) (auto simp: hex_def hex_byte_def)
  with Cons.prems have "hex_byte x = hex_byte y" "hex xs = hex ys'"
    by (auto simp: hex_def hex_byte_def)
  with Cons.IH ys show ?case by (auto dest: inj_hex_byte)
qed

text \<open>Two inputs that a function does not tell apart.\<close>

definition collision :: "('a \<Rightarrow> 'b) \<Rightarrow> 'a \<Rightarrow> 'a \<Rightarrow> bool" where
  "collision f x y \<longleftrightarrow> x \<noteq> y \<and> f x = f y"

end
