(* ===== verification/Identity.thy ===== *)
theory Identity
  imports Hashing Json
begin

text \<open>
  \<^verbatim>\<open>src/app/services/identity.py\<close>: canonical JSON, digests and the derived identifiers of
  source frames, capture sessions, manifests and frame sets. The main facts: canonical JSON
  does not depend on the order of an object's keys and determines the value up to that order,
  the capture-session id does not depend on the order of the cameras, and the identifiers have
  the canonical UUID form.
\<close>

section \<open>The identity functions\<close>

definition SOURCE_FRAME_NAMESPACE :: uuid where
  "SOURCE_FRAME_NAMESPACE = uuid5 NAMESPACE_URL ''https://geocap.local/identity/source-frame/v2''"

definition CAPTURE_SESSION_NAMESPACE :: uuid where
  "CAPTURE_SESSION_NAMESPACE = uuid5 NAMESPACE_URL ''https://geocap.local/identity/capture-session/v2''"

definition FRAME_SET_NAMESPACE :: uuid where
  "FRAME_SET_NAMESPACE = uuid5 NAMESPACE_URL ''https://geocap.local/identity/frame-set/v2''"

definition IDENTITY_MODE_V2 :: string where
  "IDENTITY_MODE_V2 = ''V2''"

definition IDENTITY_MODE_LEGACY :: string where
  "IDENTITY_MODE_LEGACY = ''LEGACY''"

definition CAPTURE_CONFIG_FIELDS :: "string list" where
  "CAPTURE_CONFIG_FIELDS =
    [''exposure_lock_requested'', ''exposure_time_ns_requested'', ''focal_length_mm'',
     ''focus_lock_requested'', ''focus_mode'', ''format'', ''fps_target'', ''height'',
     ''iso_requested'', ''manual_exposure_requested'', ''orientation_deg'',
     ''white_balance_lock_requested'', ''width'', ''zoom_disabled'']"

definition required_text :: "string \<Rightarrow> string \<Rightarrow> string result" where
  "required_text name value =
     (let normalized = strip value
      in if normalized = [] then Inl (ValueError (name @ '' must not be empty'')) else Inr normalized)"

definition valid_sequence :: "int \<Rightarrow> int result" where
  "valid_sequence value =
     (if value < 0 then Inl (ValueError ''frame_sequence must be greater than or equal to 0'')
      else Inr value)"

definition canonical_camera_stream_id :: "string \<Rightarrow> string option \<Rightarrow> string result" where
  "canonical_camera_stream_id device_id camera_id =
     bind_result (required_text ''device_id'' device_id) (\<lambda>device.
       let camera = strip (str_or camera_id [])
       in Inr (if camera \<noteq> [] \<and> camera \<noteq> device then device @ ''/'' @ camera else device))"

definition build_source_frame_uid :: "string \<Rightarrow> string \<Rightarrow> int \<Rightarrow> string result" where
  "build_source_frame_uid source_session_id camera_stream_id frame_sequence =
     bind_result (required_text ''source_session_id'' source_session_id) (\<lambda>session.
     bind_result (required_text ''camera_stream_id'' camera_stream_id) (\<lambda>camera.
     bind_result (valid_sequence frame_sequence) (\<lambda>sequence.
       Inr (str_uuid (uuid5 SOURCE_FRAME_NAMESPACE
         (canonical_json (JList [JStr session, JStr camera, JInt sequence])))))))"

definition session_member :: "string \<times> string \<Rightarrow> string list result" where
  "session_member m =
     bind_result (required_text ''camera_stream_id'' (fst m)) (\<lambda>camera.
     bind_result (required_text ''source_session_id'' (snd m)) (\<lambda>session. Inr [camera, session]))"

definition build_capture_session_id :: "(string \<times> string) list \<Rightarrow> string result" where
  "build_capture_session_id source_sessions =
     bind_result (map_result session_member source_sessions) (\<lambda>ms.
       let members = sort ms
       in if members = [] then Inl (ValueError ''source_sessions must not be empty'')
          else Inr (str_uuid (uuid5 CAPTURE_SESSION_NAMESPACE
                 (canonical_json (JList (map (\<lambda>m. JList (map JStr m)) members))))))"

definition build_manifest_digest :: "json \<Rightarrow> string" where
  "build_manifest_digest payload = hex (sha256 (encode_utf8 (canonical_json payload)))"

definition build_capture_config_digest :: "(string \<times> json) list option \<Rightarrow> string" where
  "build_capture_config_digest metadata =
     (let config = filter (\<lambda>(key, value). key \<in> set CAPTURE_CONFIG_FIELDS)
                     (case metadata of None \<Rightarrow> [] | Some m \<Rightarrow> m)
      in hex (sha256 (encode_utf8 (canonical_json (JObj config)))))"

definition build_frame_set_uid :: "string \<Rightarrow> string result" where
  "build_frame_set_uid manifest_digest =
     bind_result (required_text ''manifest_digest'' manifest_digest) (\<lambda>digest.
       Inr (str_uuid (uuid5 FRAME_SET_NAMESPACE digest)))"

definition sha256_bytes :: "bytes \<Rightarrow> string" where
  "sha256_bytes payload = hex (sha256 payload)"

section \<open>Strings that are already normal\<close>

lemma strip_no_space:
  assumes "list_all (\<lambda>c. \<not> is_space c) s"
  shows "strip s = s"
proof -
  have "dropWhile is_space xs = xs" if "list_all (\<lambda>c. \<not> is_space c) xs" for xs
    using that by (cases xs) auto
  then show ?thesis using assms by (simp add: strip_def list_all_rev)
qed

lemma is_hex_lower_not_space: "is_hex_lower c \<Longrightarrow> \<not> is_space c"
  by (auto simp: is_hex_lower_def is_space_def Let_def)

lemma strip_hex [simp]: "strip (hex bs) = hex bs"
  by (rule strip_no_space) (use hex_lower [of bs] is_hex_lower_not_space in \<open>auto simp: list_all_iff\<close>)

lemma dropWhile_strip: "dropWhile is_space (strip s) = strip s"
proof (cases "strip s")
  case (Cons c r)
  let ?t = "dropWhile is_space s"
  have "prefix (strip s) ?t"
    unfolding strip_def by (metis suffix_dropWhile suffix_to_prefix rev_rev_ident)
  then have "\<exists>u. ?t = c # u" using Cons by (auto simp: prefix_def)
  then have "\<not> is_space c" by (metis hd_dropWhile list.distinct(1) list.sel(1))
  then show ?thesis using Cons by simp
qed simp

lemma strip_idem [simp]: "strip (strip s) = strip s"
proof -
  have "dropWhile is_space (rev (strip s)) = rev (strip s)"
    by (simp add: strip_def dropWhile_idem)
  then show ?thesis by (subst strip_def) (simp add: dropWhile_strip)
qed

lemma required_text_Inr: "required_text name v = Inr t \<longleftrightarrow> t = strip v \<and> t \<noteq> []"
  by (auto simp: required_text_def Let_def)

lemma valid_sequence_Inr: "valid_sequence v = Inr n \<longleftrightarrow> n = v \<and> 0 \<le> v"
  by (auto simp: valid_sequence_def)

lemma of_char_byte_inj: "(word_of_nat (of_char c) :: byte) = word_of_nat (of_char d) \<Longrightarrow> c = d"
proof -
  assume "(word_of_nat (of_char c) :: byte) = word_of_nat (of_char d)"
  then have "unat (word_of_nat (of_char c) :: byte) = unat (word_of_nat (of_char d) :: byte)" by simp
  then have "(of_char c :: nat) mod 256 = of_char d mod 256"
    by (simp only: unsigned_of_nat take_bit_eq_mod) simp
  then show ?thesis by simp
qed

lemma encode_utf8_inj: "encode_utf8 s = encode_utf8 t \<Longrightarrow> s = t"
  unfolding encode_utf8_def by (erule map_injective) (auto intro: injI of_char_byte_inj)

section \<open>Facts about the identifiers\<close>

lemma map_result_success:
  "(\<And>x. x \<in> set xs \<Longrightarrow> \<exists>y. f x = Inr y) \<Longrightarrow> map_result f xs = Inr (map (\<lambda>x. projr (f x)) xs)"
  by (induction xs) (auto split: sum.splits, force+)

lemma map_result_perm:
  assumes "map_result f xs = Inr zs" "mset ys = mset xs"
  shows "\<exists>zs'. map_result f ys = Inr zs' \<and> mset zs' = mset zs"
proof -
  have ok: "\<exists>y. f x = Inr y" if "x \<in> set xs" for x
    using assms(1) that by (auto simp: map_result_Inr_iff list_all2_conv_all_nth in_set_conv_nth)
  then have "map_result f ys = Inr (map (\<lambda>x. projr (f x)) ys)"
    using mset_eq_setD [OF assms(2)] by (intro map_result_success) auto
  moreover have "zs = map (\<lambda>x. projr (f x)) xs" using assms(1) map_result_success [of xs f] ok by simp
  ultimately show ?thesis using assms(2) by (auto simp: mset_map)
qed

lemma sort_perm: "mset xs = mset ys \<Longrightarrow> sort xs = sort ys"
  by (metis mset_sort properties_for_sort sorted_sort)

lemma build_capture_session_id_perm:
  assumes "build_capture_session_id xs = Inr u" "mset ys = mset xs"
  shows "build_capture_session_id ys = Inr u"
proof -
  from assms(1) obtain zs where zs: "map_result session_member xs = Inr zs"
    by (auto simp: build_capture_session_id_def bind_result_eq_Inr)
  from map_result_perm [OF zs assms(2)] obtain zs' where zs': "map_result session_member ys = Inr zs'"
    and "mset zs' = mset zs" by blast
  then have "sort zs' = sort zs" by (blast intro: sort_perm)
  with assms(1) zs zs' show ?thesis by (simp add: build_capture_session_id_def)
qed

lemma build_frame_set_uid_digest:
  "build_frame_set_uid (build_manifest_digest p)
   = Inr (str_uuid (uuid5 FRAME_SET_NAMESPACE (build_manifest_digest p)))"
proof -
  have "hex bs \<noteq> []" if "bs \<noteq> []" for bs using that by (metis length_0_conv length_hex mult_eq_0_iff zero_neq_numeral)
  moreover have "sha256 m \<noteq> []" for m using length_sha256 [of m] by fastforce
  ultimately show ?thesis
    by (simp add: build_frame_set_uid_def build_manifest_digest_def required_text_def Let_def)
qed

lemma build_manifest_digest_shape:
  "length (build_manifest_digest p) = 64 \<and> list_all is_hex_lower (build_manifest_digest p)"
  by (simp add: build_manifest_digest_def hex_lower)

lemma manifest_digest_determines:
  assumes "float_free p" "float_free q" "build_manifest_digest p = build_manifest_digest q"
    and "sha256 (encode_utf8 (canonical_json p)) = sha256 (encode_utf8 (canonical_json q)) \<Longrightarrow>
         encode_utf8 (canonical_json p) = encode_utf8 (canonical_json q)"
  shows "jnorm p = jnorm q"
  using assms by (auto simp: build_manifest_digest_def intro: canonical_json_determines
      dest!: inj_hex encode_utf8_inj)

lemma uuid_parts:
  assumes "length w = 16"
  shows "w = take 4 w @ take 2 (drop 4 w) @ take 2 (drop 6 w) @ take 2 (drop 8 w) @ take 6 (drop 10 w)"
proof -
  have "drop 10 w = take 6 (drop 10 w)" "drop 8 w = take 2 (drop 8 w) @ drop 10 w"
    "drop 6 w = take 2 (drop 6 w) @ drop 8 w" "drop 4 w = take 2 (drop 4 w) @ drop 6 w"
    using assms append_take_drop_id [of 2 "drop 8 w"] append_take_drop_id [of 2 "drop 6 w"]
      append_take_drop_id [of 2 "drop 4 w"] by simp_all
  then show ?thesis by (metis append_take_drop_id)
qed

lemma str_uuid_inj:
  assumes "length u = 16" "length v = 16" "str_uuid u = str_uuid v"
  shows "u = v"
proof -
  have "take 4 u = take 4 v" "take 2 (drop 4 u) = take 2 (drop 4 v)" "take 2 (drop 6 u) = take 2 (drop 6 v)"
    "take 2 (drop 8 u) = take 2 (drop 8 v)" "take 6 (drop 10 u) = take 6 (drop 10 v)"
    using assms by (auto simp: str_uuid_def intro!: inj_hex)
  then show ?thesis using uuid_parts [OF assms(1)] uuid_parts [OF assms(2)] by metis
qed

lemma source_frame_name:
  "build_source_frame_uid s c n = Inr u \<longleftrightarrow>
     strip s \<noteq> [] \<and> strip c \<noteq> [] \<and> 0 \<le> n \<and>
     u = str_uuid (uuid5 SOURCE_FRAME_NAMESPACE
           (canonical_json (JList [JStr (strip s), JStr (strip c), JInt n])))"
  by (auto simp: build_source_frame_uid_def bind_result_eq_Inr required_text_Inr valid_sequence_Inr)

lemma source_frame_uid_determines:
  assumes "build_source_frame_uid s c n = Inr u" "build_source_frame_uid s' c' n' = Inr u"
    and "uuid5 SOURCE_FRAME_NAMESPACE (canonical_json (JList [JStr (strip s), JStr (strip c), JInt n])) =
         uuid5 SOURCE_FRAME_NAMESPACE (canonical_json (JList [JStr (strip s'), JStr (strip c'), JInt n'])) \<Longrightarrow>
         canonical_json (JList [JStr (strip s), JStr (strip c), JInt n]) =
         canonical_json (JList [JStr (strip s'), JStr (strip c'), JInt n'])"
  shows "strip s = strip s' \<and> strip c = strip c' \<and> n = n'"
proof -
  have "jnorm (JList [JStr (strip s), JStr (strip c), JInt n]) =
        jnorm (JList [JStr (strip s'), JStr (strip c'), JInt n'])"
  proof (rule canonical_json_determines)
    show "canonical_json (JList [JStr (strip s), JStr (strip c), JInt n]) =
          canonical_json (JList [JStr (strip s'), JStr (strip c'), JInt n'])"
      by (rule assms(3), rule str_uuid_inj) (use assms(1,2) in \<open>auto simp: source_frame_name\<close>)
  qed auto
  then show ?thesis by simp
qed

text \<open>The text whose UUID names a frame.\<close>

definition source_name :: "string \<Rightarrow> string \<Rightarrow> int \<Rightarrow> string" where
  "source_name s c n = canonical_json (JList [JStr (strip s), JStr (strip c), JInt n])"

end
