(* ===== verification/AlertReceiver.thy ===== *)
theory AlertReceiver
  imports Json Identity
begin

text \<open>
  The durable receiver of hazard alerts (services/alerts/relay_v2_receiver.py): a key is answered once
  and for all, and a hazard moves from version to version without a gap.

  The four SQLite tables are dictionaries by primary key (\<open>rd_hazards\<close>, \<open>rd_receipts\<close>,
  \<open>rd_effects\<close>) and a list (\<open>rd_conflicts\<close>). Each SQL statement is a function that may raise;
  \<open>BEGIN IMMEDIATE\<close> makes \<open>receive\<close> one step, and an exception leaves the tables as they were.
  A Python integer that does not fit SQLite's 64 bits raises when it is bound.
\<close>

section \<open>Alerts and the tables\<close>

definition RECEIVER_CONTRACT_VERSION :: int where
  "RECEIVER_CONTRACT_VERSION = 1"

definition VALID_STATES :: "string list" where
  "VALID_STATES = [''CLEAR'', ''WARNING'', ''DANGER'', ''UNKNOWN'']"

definition EXPECTED_SEVERITY :: "(string, string) dict" where
  "EXPECTED_SEVERITY =
     [(''CLEAR'', ''info''), (''WARNING'', ''warning''), (''DANGER'', ''danger''), (''UNKNOWN'', ''warning'')]"

record RelayV2AlertEnvelope =
  ae_contract_version :: int
  ae_idempotency_key :: string
  ae_payload_digest :: string
  ae_processing_job_id :: string
  ae_frame_set_uid :: string
  ae_transition_event_id :: string
  ae_hazard_key :: string
  ae_from_state :: string
  ae_to_state :: string
  ae_from_version :: int
  ae_to_version :: int
  ae_severity :: string
  ae_observation_event_utc_ms :: int
  ae_delivery_deadline_utc_ms :: int
  ae_alert_payload :: json

record RelayV2ReceiveResult =
  rv_contract_version :: int
  rv_idempotency_key :: string
  rv_payload_digest :: string
  rv_status :: string
  rv_receiver_hazard_version :: int
  rv_user_visible_effect_applied :: bool
  rv_received_at_utc_ms :: int
  rv_delivery_deadline_met :: "bool option"

text \<open>The rows of the four tables, each beside its primary key; the key of a conflict is its position.\<close>

record HazardRow =
  hz_state :: string
  hz_version :: int
  hz_updated_at_ms :: int

record ReceiptRow =
  rc_payload_digest :: string
  rc_hazard_key :: string
  rc_status :: string
  rc_receiver_hazard_version :: int
  rc_received_at_ms :: int
  rc_delivery_deadline_met :: "int option"

record EffectRow =
  ef_hazard_key :: string
  ef_hazard_version :: int
  ef_payload_json :: string
  ef_created_at_ms :: int
  ef_delivery_deadline_met :: int

record ConflictRow =
  cn_idempotency_key :: string
  cn_claimed_payload_digest :: string
  cn_reason :: string
  cn_received_at_ms :: int

record ReceiverDb =
  rd_hazards :: "(string, HazardRow) dict"
  rd_receipts :: "(string, ReceiptRow) dict"
  rd_effects :: "(string, EffectRow) dict"
  rd_conflicts :: "ConflictRow list"

text \<open>\<open>_initialize\<close> on a new database.\<close>

definition empty_receiver :: ReceiverDb where
  "empty_receiver = \<lparr> rd_hazards = [], rd_receipts = [], rd_effects = [], rd_conflicts = [] \<rparr>"

section \<open>The statements of a transaction\<close>

text \<open>A Python integer is bound to a 64-bit SQLite INTEGER or not at all.\<close>

definition in_int64 :: "int \<Rightarrow> bool" where
  "in_int64 n \<longleftrightarrow> - (2 ^ 63) \<le> n \<and> n < 2 ^ 63"

definition bind_ints :: "int list \<Rightarrow> unit result" where
  "bind_ints ns =
     (if list_all in_int64 ns then Inr () else Inl (OverflowError ''Python int too large to convert to SQLite INTEGER''))"

definition int_of_bool :: "bool \<Rightarrow> int" where
  "int_of_bool b = (if b then 1 else 0)"

definition hazard_version :: "ReceiverDb \<Rightarrow> string \<Rightarrow> int" where
  "hazard_version db key = (case dict_get (rd_hazards db) key of None \<Rightarrow> 0 | Some row \<Rightarrow> hz_version row)"

definition receipt_row :: "RelayV2AlertEnvelope \<Rightarrow> int \<Rightarrow> string \<Rightarrow> int \<Rightarrow> bool option \<Rightarrow> ReceiptRow" where
  "receipt_row envelope received_at status version deadline_met =
     \<lparr> rc_payload_digest = ae_payload_digest envelope, rc_hazard_key = ae_hazard_key envelope,
       rc_status = status, rc_receiver_hazard_version = version, rc_received_at_ms = received_at,
       rc_delivery_deadline_met = map_option int_of_bool deadline_met \<rparr>"

definition record_receipt ::
  "ReceiverDb \<Rightarrow> RelayV2AlertEnvelope \<Rightarrow> int \<Rightarrow> string \<Rightarrow> int \<Rightarrow> bool option \<Rightarrow> ReceiverDb result" where
  "record_receipt db envelope received_at status version deadline_met =
     bind_result (bind_ints [version, received_at]) (\<lambda>_.
       if dict_get (rd_receipts db) (ae_idempotency_key envelope) \<noteq> None
       then Inl (IntegrityError ''UNIQUE constraint failed: relay_v2_alert_receipts.idempotency_key'')
       else Inr (db\<lparr> rd_receipts := dict_set (rd_receipts db) (ae_idempotency_key envelope)
              (receipt_row envelope received_at status version deadline_met) \<rparr>))"

definition record_rejection ::
  "ReceiverDb \<Rightarrow> RelayV2AlertEnvelope \<Rightarrow> int \<Rightarrow> string \<Rightarrow> int option \<Rightarrow> ReceiverDb result" where
  "record_rejection db envelope received_at status receiver_hazard_version =
     (let version = (case receiver_hazard_version of
                       None \<Rightarrow> hazard_version db (ae_hazard_key envelope) | Some v \<Rightarrow> v)
      in record_receipt db envelope received_at status version None)"

definition record_conflict ::
  "ReceiverDb \<Rightarrow> RelayV2AlertEnvelope \<Rightarrow> int \<Rightarrow> string \<Rightarrow> ReceiverDb result" where
  "record_conflict db envelope received_at reason =
     bind_result (bind_ints [received_at]) (\<lambda>_.
       Inr (db\<lparr> rd_conflicts := rd_conflicts db @
              [\<lparr> cn_idempotency_key = ae_idempotency_key envelope,
                 cn_claimed_payload_digest = ae_payload_digest envelope, cn_reason = reason,
                 cn_received_at_ms = received_at \<rparr>] \<rparr>))"

text \<open>The upsert of a hazard: an existing row changes only when it is at the state and version the alert starts from.\<close>

definition hazard_row :: "RelayV2AlertEnvelope \<Rightarrow> int \<Rightarrow> HazardRow" where
  "hazard_row envelope received_at =
     \<lparr> hz_state = ae_to_state envelope, hz_version = ae_to_version envelope, hz_updated_at_ms = received_at \<rparr>"

definition upsert_hazard :: "ReceiverDb \<Rightarrow> RelayV2AlertEnvelope \<Rightarrow> int \<Rightarrow> ReceiverDb result" where
  "upsert_hazard db envelope received_at =
     bind_result (bind_ints [ae_to_version envelope, received_at, ae_from_version envelope]) (\<lambda>_.
       let row = hazard_row envelope received_at
       in if hz_version row < 0 then Inl (IntegrityError ''CHECK constraint failed: version >= 0'')
          else case dict_get (rd_hazards db) (ae_hazard_key envelope) of
                 None \<Rightarrow> Inr (db\<lparr> rd_hazards := dict_set (rd_hazards db) (ae_hazard_key envelope) row \<rparr>)
               | Some old \<Rightarrow>
                   if hz_version old = ae_from_version envelope \<and> hz_state old = ae_from_state envelope
                   then Inr (db\<lparr> rd_hazards := dict_set (rd_hazards db) (ae_hazard_key envelope) row \<rparr>)
                   else Inr db)"

definition effect_row :: "RelayV2AlertEnvelope \<Rightarrow> string \<Rightarrow> int \<Rightarrow> bool \<Rightarrow> EffectRow" where
  "effect_row envelope payload_json received_at deadline_met =
     \<lparr> ef_hazard_key = ae_hazard_key envelope, ef_hazard_version = ae_to_version envelope,
       ef_payload_json = payload_json, ef_created_at_ms = received_at,
       ef_delivery_deadline_met = int_of_bool deadline_met \<rparr>"

definition insert_effect ::
  "ReceiverDb \<Rightarrow> RelayV2AlertEnvelope \<Rightarrow> string \<Rightarrow> int \<Rightarrow> bool \<Rightarrow> ReceiverDb result" where
  "insert_effect db envelope payload_json received_at deadline_met =
     bind_result (bind_ints [ae_to_version envelope, received_at]) (\<lambda>_.
       if dict_get (rd_effects db) (ae_idempotency_key envelope) \<noteq> None
       then Inl (IntegrityError ''UNIQUE constraint failed: relay_v2_alert_effects.idempotency_key'')
       else Inr (db\<lparr> rd_effects := dict_set (rd_effects db) (ae_idempotency_key envelope)
              (effect_row envelope payload_json received_at deadline_met) \<rparr>))"

text \<open>The commit checks the deferred foreign key of the effects.\<close>

definition commit_receiver :: "ReceiverDb \<Rightarrow> ReceiverDb result" where
  "commit_receiver db =
     (if list_all (\<lambda>key. dict_get (rd_receipts db) key \<noteq> None) (dict_keys (rd_effects db)) then Inr db
      else Inl (IntegrityError ''FOREIGN KEY constraint failed''))"

section \<open>Receiving an alert\<close>

text \<open>\<open>json.dumps\<close> with \<open>allow_nan=False\<close> raises on a float that is not a number or not finite.\<close>

fun json_finite :: "json \<Rightarrow> bool" where
  "json_finite (JFloat r) = (r \<notin> {''NaN'', ''Infinity'', ''-Infinity''})"
| "json_finite (JList vs) = list_all json_finite vs"
| "json_finite (JObj kvs) = list_all (\<lambda>(k, v). json_finite v) kvs"
| "json_finite _ = True"

definition canonical_payload :: "json \<Rightarrow> string result" where
  "canonical_payload payload =
     (if json_finite payload then Inr (canonical_json payload)
      else Inl (ValueError ''alert payload must be canonical JSON data''))"

definition payload_digest :: "json \<Rightarrow> string result" where
  "payload_digest payload = bind_result (canonical_payload payload) (\<lambda>s. Inr (sha256_bytes (encode_utf8 s)))"

definition validate_alert :: "RelayV2AlertEnvelope \<Rightarrow> string \<Rightarrow> string option" where
  "validate_alert envelope actual_digest =
     (if ae_contract_version envelope \<noteq> RECEIVER_CONTRACT_VERSION then Some ''REJECTED''
      else if list_ex (\<lambda>value. value = [] \<or> strip value = [])
           [ae_idempotency_key envelope, ae_payload_digest envelope, ae_processing_job_id envelope,
            ae_frame_set_uid envelope, ae_transition_event_id envelope, ae_hazard_key envelope]
      then Some ''REJECTED''
      else if actual_digest \<noteq> ae_payload_digest envelope then Some ''CONFLICT''
      else if ae_from_state envelope \<notin> set VALID_STATES \<or> ae_to_state envelope \<notin> set VALID_STATES then Some ''REJECTED''
      else if dict_get EXPECTED_SEVERITY (ae_to_state envelope) \<noteq> Some (ae_severity envelope) then Some ''REJECTED''
      else if ae_from_version envelope < 0 \<or> ae_to_version envelope \<noteq> ae_from_version envelope + 1 then Some ''REJECTED''
      else if ae_observation_event_utc_ms envelope \<le> 0 \<or> ae_delivery_deadline_utc_ms envelope \<le> 0 then Some ''REJECTED''
      else None)"

definition receive_result ::
  "RelayV2AlertEnvelope \<Rightarrow> string \<Rightarrow> int \<Rightarrow> int \<Rightarrow> bool option \<Rightarrow> bool \<Rightarrow> RelayV2ReceiveResult" where
  "receive_result envelope status version received_at deadline_met effect_applied =
     \<lparr> rv_contract_version = RECEIVER_CONTRACT_VERSION, rv_idempotency_key = ae_idempotency_key envelope,
       rv_payload_digest = ae_payload_digest envelope, rv_status = status, rv_receiver_hazard_version = version,
       rv_user_visible_effect_applied = effect_applied, rv_received_at_utc_ms = received_at,
       rv_delivery_deadline_met = deadline_met \<rparr>"

text \<open>The transaction of \<open>receive\<close>, in its three parts: a key seen before, a first delivery that is applied, and the choice.\<close>

definition receive_again ::
  "int \<Rightarrow> RelayV2AlertEnvelope \<Rightarrow> ReceiptRow \<Rightarrow> ReceiverDb \<Rightarrow> (RelayV2ReceiveResult \<times> ReceiverDb) result" where
  "receive_again received_at envelope previous db =
     (if rc_payload_digest previous \<noteq> ae_payload_digest envelope
      then bind_result (record_conflict db envelope received_at ''IDEMPOTENCY_DIGEST_CONFLICT'') (\<lambda>db'.
           bind_result (commit_receiver db') (\<lambda>db''.
             Inr (receive_result envelope ''CONFLICT'' (hazard_version db (ae_hazard_key envelope)) received_at None False, db'')))
      else bind_result (commit_receiver db) (\<lambda>db'.
             Inr (receive_result envelope (if rc_status previous = ''APPLIED'' then ''DUPLICATE'' else rc_status previous)
                    (rc_receiver_hazard_version previous) received_at
                    (map_option (\<lambda>n. n \<noteq> 0) (rc_delivery_deadline_met previous)) False, db')))"

definition apply_alert ::
  "int \<Rightarrow> RelayV2AlertEnvelope \<Rightarrow> ReceiverDb \<Rightarrow> (RelayV2ReceiveResult \<times> ReceiverDb) result" where
  "apply_alert received_at envelope db =
     (let deadline_met = received_at < ae_delivery_deadline_utc_ms envelope
      in bind_result (upsert_hazard db envelope received_at) (\<lambda>db1.
         bind_result (canonical_payload (ae_alert_payload envelope)) (\<lambda>payload_json.
         bind_result (insert_effect db1 envelope payload_json received_at deadline_met) (\<lambda>db2.
         bind_result (record_receipt db2 envelope received_at ''APPLIED'' (ae_to_version envelope) (Some deadline_met)) (\<lambda>db3.
         bind_result (commit_receiver db3) (\<lambda>db4.
           Inr (receive_result envelope ''APPLIED'' (ae_to_version envelope) received_at (Some deadline_met) True, db4)))))))"

definition receive_first ::
  "int \<Rightarrow> string \<Rightarrow> RelayV2AlertEnvelope \<Rightarrow> ReceiverDb \<Rightarrow> (RelayV2ReceiveResult \<times> ReceiverDb) result" where
  "receive_first received_at digest envelope db =
     (case validate_alert envelope digest of
        Some rejection \<Rightarrow>
          bind_result (record_rejection db envelope received_at rejection None) (\<lambda>db'.
          bind_result (commit_receiver db') (\<lambda>db''.
            Inr (receive_result envelope rejection (hazard_version db (ae_hazard_key envelope)) received_at None False, db'')))
      | None \<Rightarrow>
          (let hazard = dict_get (rd_hazards db) (ae_hazard_key envelope);
               current_version = (case hazard of None \<Rightarrow> 0 | Some row \<Rightarrow> hz_version row);
               current_state = (case hazard of None \<Rightarrow> ae_from_state envelope | Some row \<Rightarrow> hz_state row)
           in if current_version \<noteq> ae_from_version envelope \<or> current_state \<noteq> ae_from_state envelope
              then bind_result (record_rejection db envelope received_at ''VERSION_GAP'' (Some current_version)) (\<lambda>db'.
                   bind_result (commit_receiver db') (\<lambda>db''.
                     Inr (receive_result envelope ''VERSION_GAP'' current_version received_at None False, db'')))
              else apply_alert received_at envelope db))"

text \<open>\<open>receive\<close>: one transaction; an exception rolls it back.\<close>

definition receive ::
  "int \<Rightarrow> RelayV2AlertEnvelope \<Rightarrow> ReceiverDb \<Rightarrow> RelayV2ReceiveResult result \<times> ReceiverDb" where
  "receive received_at envelope db =
     (if received_at \<le> 0 then (Inl (ValueError ''receiver time must be positive''), db)
      else case payload_digest (ae_alert_payload envelope) of
             Inl e \<Rightarrow> (Inl e, db)
           | Inr digest \<Rightarrow>
               (case (case dict_get (rd_receipts db) (ae_idempotency_key envelope) of
                        Some previous \<Rightarrow> receive_again received_at envelope previous db
                      | None \<Rightarrow> receive_first received_at digest envelope db) of
                  Inl e \<Rightarrow> (Inl e, db)
                | Inr (answer, db') \<Rightarrow> (Inr answer, db')))"

text \<open>A sequence of deliveries, each at the time the receiver's clock shows, and what they are answered.\<close>

definition receive_step :: "ReceiverDb \<Rightarrow> int \<times> RelayV2AlertEnvelope \<Rightarrow> ReceiverDb" where
  "receive_step db delivery = snd (receive (fst delivery) (snd delivery) db)"

fun answers :: "ReceiverDb \<Rightarrow> (int \<times> RelayV2AlertEnvelope) list \<Rightarrow> RelayV2ReceiveResult result list" where
  "answers db [] = []"
| "answers db (d # ds) = fst (receive (fst d) (snd d) db) # answers (receive_step db d) ds"

section \<open>What the tables hold\<close>

definition hazard_effects :: "ReceiverDb \<Rightarrow> string \<Rightarrow> EffectRow list" where
  "hazard_effects db key = filter (\<lambda>e. ef_hazard_key e = key) (dict_values (rd_effects db))"

text \<open>
  Effects and applied receipts go together, and the effects of a hazard carry the versions
  1 up to the version of the hazard, in the order they were made.
\<close>

definition receiver_inv :: "ReceiverDb \<Rightarrow> bool" where
  "receiver_inv db \<longleftrightarrow>
     distinct (dict_keys (rd_effects db))
   \<and> (\<forall>key. dict_get (rd_effects db) key \<noteq> None
        \<longleftrightarrow> (\<exists>r. dict_get (rd_receipts db) key = Some r \<and> rc_status r = ''APPLIED''))
   \<and> (\<forall>h. map ef_hazard_version (hazard_effects db h) = [1..hazard_version db h])
   \<and> (\<forall>h row. dict_get (rd_hazards db) h = Some row \<longrightarrow> 1 \<le> hz_version row)"

text \<open>The columns hold what their declarations and the program's vocabulary allow.\<close>

definition hazard_typed :: "HazardRow \<Rightarrow> bool" where
  "hazard_typed row \<longleftrightarrow> hz_state row \<in> set VALID_STATES \<and> 0 \<le> hz_version row
     \<and> in_int64 (hz_version row) \<and> in_int64 (hz_updated_at_ms row)"

definition receipt_typed :: "ReceiptRow \<Rightarrow> bool" where
  "receipt_typed row \<longleftrightarrow> rc_status row \<in> {''APPLIED'', ''REJECTED'', ''CONFLICT'', ''VERSION_GAP''}
     \<and> in_int64 (rc_receiver_hazard_version row) \<and> in_int64 (rc_received_at_ms row)
     \<and> rc_delivery_deadline_met row \<in> (if rc_status row = ''APPLIED'' then {Some 0, Some 1} else {None})"

definition effect_typed :: "EffectRow \<Rightarrow> bool" where
  "effect_typed row \<longleftrightarrow> in_int64 (ef_hazard_version row) \<and> in_int64 (ef_created_at_ms row)
     \<and> ef_delivery_deadline_met row \<in> {0, 1}"

definition receiver_typed :: "ReceiverDb \<Rightarrow> bool" where
  "receiver_typed db \<longleftrightarrow>
     list_all hazard_typed (dict_values (rd_hazards db)) \<and> list_all receipt_typed (dict_values (rd_receipts db))
   \<and> list_all effect_typed (dict_values (rd_effects db)) \<and> list_all (\<lambda>row. in_int64 (cn_received_at_ms row)) (rd_conflicts db)"

lemma empty_receiver_inv: "receiver_inv empty_receiver" and empty_receiver_typed: "receiver_typed empty_receiver"
  by (simp_all add: empty_receiver_def receiver_inv_def receiver_typed_def hazard_effects_def hazard_version_def)

lemma bind_ints_Inr [simp]: "bind_ints ns = Inr u \<longleftrightarrow> list_all in_int64 ns"
  by (simp add: bind_ints_def)

lemma bind_ints_cases: "bind_ints ns = (if list_all in_int64 ns then Inr ()
    else Inl (OverflowError ''Python int too large to convert to SQLite INTEGER''))"
  by (simp add: bind_ints_def)

lemma receiver_invD:
  assumes "receiver_inv db"
  shows "dict_get (rd_receipts db) k = None \<Longrightarrow> dict_get (rd_effects db) k = None"
    "dict_get (rd_receipts db) k = Some r \<Longrightarrow> rc_status r = ''APPLIED'' \<longleftrightarrow> dict_get (rd_effects db) k \<noteq> None"
    "map ef_hazard_version (hazard_effects db h) = [1..hazard_version db h]"
    "0 \<le> hazard_version db h"
proof -
  from assms have iff: "dict_get (rd_effects db) k \<noteq> None
      \<longleftrightarrow> (\<exists>r. dict_get (rd_receipts db) k = Some r \<and> rc_status r = ''APPLIED'')"
    unfolding receiver_inv_def by blast
  show "dict_get (rd_receipts db) k = None \<Longrightarrow> dict_get (rd_effects db) k = None"
    and "dict_get (rd_receipts db) k = Some r \<Longrightarrow> rc_status r = ''APPLIED'' \<longleftrightarrow> dict_get (rd_effects db) k \<noteq> None"
    using iff by simp_all
  show "map ef_hazard_version (hazard_effects db h) = [1..hazard_version db h]"
    using assms unfolding receiver_inv_def by blast
  have "\<And>row. dict_get (rd_hazards db) h = Some row \<Longrightarrow> 1 \<le> hz_version row"
    using assms unfolding receiver_inv_def by blast
  then show "0 \<le> hazard_version db h" by (force simp: hazard_version_def split: option.splits)
qed

lemma commit_receiver_ok:
  assumes "receiver_inv db" shows "commit_receiver db = Inr db"
proof -
  have "dict_get (rd_receipts db) key \<noteq> None" if "key \<in> set (dict_keys (rd_effects db))" for key
    using receiver_invD(1) [OF assms, of key] that by (metis map_of_eq_None_iff set_map)
  then show ?thesis by (simp add: commit_receiver_def list_all_iff)
qed

text \<open>A receipt that reports no effect keeps the invariant, and so does an applied alert.\<close>

lemma receipt_inv:
  assumes inv: "receiver_inv db" and new: "dict_get (rd_receipts db) k = None" and status: "rc_status r \<noteq> ''APPLIED''"
  shows "receiver_inv (db\<lparr> rd_receipts := dict_set (rd_receipts db) k r \<rparr>)"
  using assms receiver_invD(1) [OF inv new]
  by (auto simp: receiver_inv_def hazard_effects_def hazard_version_def)

lemma conflicts_inv [simp]: "receiver_inv (db\<lparr> rd_conflicts := cs \<rparr>) = receiver_inv db"
  by (simp add: receiver_inv_def hazard_effects_def hazard_version_def)

definition applied_db :: "ReceiverDb \<Rightarrow> RelayV2AlertEnvelope \<Rightarrow> int \<Rightarrow> ReceiverDb" where
  "applied_db db envelope received_at =
     (let met = received_at < ae_delivery_deadline_utc_ms envelope
      in db\<lparr> rd_hazards := dict_set (rd_hazards db) (ae_hazard_key envelope) (hazard_row envelope received_at),
            rd_effects := dict_set (rd_effects db) (ae_idempotency_key envelope)
              (effect_row envelope (canonical_json (ae_alert_payload envelope)) received_at met),
            rd_receipts := dict_set (rd_receipts db) (ae_idempotency_key envelope)
              (receipt_row envelope received_at ''APPLIED'' (ae_to_version envelope) (Some met)) \<rparr>)"

lemma applied_effects:
  assumes "dict_get (rd_effects db) (ae_idempotency_key envelope) = None"
  shows "map ef_hazard_version (hazard_effects (applied_db db envelope received_at) h)
    = map ef_hazard_version (hazard_effects db h) @ (if h = ae_hazard_key envelope then [ae_to_version envelope] else [])"
  using assms by (auto simp: applied_db_def Let_def dict_set_new hazard_effects_def effect_row_def)

lemma applied_version:
  "hazard_version (applied_db db envelope received_at) h
    = (if h = ae_hazard_key envelope then ae_to_version envelope else hazard_version db h)"
  by (simp add: applied_db_def Let_def hazard_version_def hazard_row_def)

lemma applied_inv:
  assumes inv: "receiver_inv db" and new: "dict_get (rd_receipts db) (ae_idempotency_key envelope) = None"
    and v: "hazard_version db (ae_hazard_key envelope) = ae_from_version envelope"
      "ae_to_version envelope = ae_from_version envelope + 1"
  shows "receiver_inv (applied_db db envelope received_at)"
proof -
  note fresh = receiver_invD(1) [OF inv new]
  have versions: "map ef_hazard_version (hazard_effects (applied_db db envelope received_at) h)
      = [1..hazard_version (applied_db db envelope received_at) h]" for h
  proof (cases "h = ae_hazard_key envelope")
    case True
    have "0 \<le> ae_from_version envelope" using receiver_invD(4) [OF inv, of "ae_hazard_key envelope"] v by simp
    then have "[1..ae_to_version envelope] = [1..ae_from_version envelope] @ [ae_to_version envelope]"
      unfolding v(2) by (subst upto_rec2) auto
    with True show ?thesis
      by (simp only: applied_effects [OF fresh] applied_version receiver_invD(3) [OF inv] v(1) if_True simp_thms)
  next
    case False
    then show ?thesis by (simp only: applied_effects [OF fresh] applied_version receiver_invD(3) [OF inv] if_False append_Nil2)
  qed
  have rows: "1 \<le> hz_version row" if "dict_get (rd_hazards (applied_db db envelope received_at)) h = Some row" for h row
  proof -
    have "\<And>row. dict_get (rd_hazards db) h = Some row \<Longrightarrow> 1 \<le> hz_version row" using inv unfolding receiver_inv_def by blast
    with that v receiver_invD(4) [OF inv, of "ae_hazard_key envelope"] show ?thesis
      by (auto simp: applied_db_def Let_def hazard_row_def split: if_splits)
  qed
  have iff: "dict_get (rd_effects db) key \<noteq> None
      \<longleftrightarrow> (\<exists>r. dict_get (rd_receipts db) key = Some r \<and> rc_status r = ''APPLIED'')" for key
    using inv unfolding receiver_inv_def by blast
  have effects: "dict_get (rd_effects (applied_db db envelope received_at)) key \<noteq> None
      \<longleftrightarrow> (\<exists>r. dict_get (rd_receipts (applied_db db envelope received_at)) key = Some r \<and> rc_status r = ''APPLIED'')" for key
    using iff [of key] by (simp add: applied_db_def Let_def receipt_row_def)
  have "distinct (dict_keys (rd_effects db))" using inv unfolding receiver_inv_def by blast
  then have "distinct (dict_keys (rd_effects (applied_db db envelope received_at)))"
    by (simp add: applied_db_def Let_def dict_distinct_set)
  with versions rows effects show ?thesis unfolding receiver_inv_def by blast
qed

section \<open>The outcomes of a delivery\<close>

lemma applied_commit:
  assumes inv: "receiver_inv db" and new: "dict_get (rd_receipts db) (ae_idempotency_key envelope) = None"
    and v: "hazard_version db (ae_hazard_key envelope) = ae_from_version envelope"
      "ae_to_version envelope = ae_from_version envelope + 1"
    and state: "\<And>row. dict_get (rd_hazards db) (ae_hazard_key envelope) = Some row \<Longrightarrow> hz_state row = ae_from_state envelope"
    and finite: "json_finite (ae_alert_payload envelope)"
  shows "apply_alert t envelope db =
    (if list_all in_int64 [ae_to_version envelope, t, ae_from_version envelope]
     then Inr (receive_result envelope ''APPLIED'' (ae_to_version envelope) t (Some (t < ae_delivery_deadline_utc_ms envelope)) True,
               applied_db db envelope t)
     else Inl (OverflowError ''Python int too large to convert to SQLite INTEGER''))"
proof -
  have "0 \<le> ae_to_version envelope" using receiver_invD(4) [OF inv, of "ae_hazard_key envelope"] v by simp
  then have up: "upsert_hazard db envelope t =
      (if list_all in_int64 [ae_to_version envelope, t, ae_from_version envelope]
       then Inr (db\<lparr> rd_hazards := dict_set (rd_hazards db) (ae_hazard_key envelope) (hazard_row envelope t) \<rparr>)
       else Inl (OverflowError ''Python int too large to convert to SQLite INTEGER''))"
    using v(1) state by (auto simp: upsert_hazard_def bind_ints_cases hazard_row_def hazard_version_def Let_def split: option.splits)
  show ?thesis
    using receiver_invD(1) [OF inv new] new commit_receiver_ok [OF applied_inv [OF inv new v, of t]]
    by (auto simp: apply_alert_def up canonical_payload_def finite insert_effect_def record_receipt_def bind_ints_cases
        applied_db_def Let_def)
qed

lemma refused_commit:
  assumes "receiver_inv db" "dict_get (rd_receipts db) (ae_idempotency_key envelope) = None" "status \<noteq> ''APPLIED''"
  shows "bind_result (record_receipt db envelope t status v met) (\<lambda>db'. bind_result (commit_receiver db') (\<lambda>db''. Inr (f db''))) =
    (if list_all in_int64 [v, t]
     then Inr (f (db\<lparr> rd_receipts := dict_set (rd_receipts db) (ae_idempotency_key envelope) (receipt_row envelope t status v met) \<rparr>))
     else Inl (OverflowError ''Python int too large to convert to SQLite INTEGER''))"
  using assms commit_receiver_ok [OF receipt_inv [OF assms(1,2)]]
  by (auto simp: record_receipt_def bind_ints_cases receipt_row_def)

lemma conflict_commit:
  assumes "receiver_inv db"
  shows "bind_result (record_conflict db envelope t reason) (\<lambda>db'. bind_result (commit_receiver db') (\<lambda>db''. Inr (f db''))) =
    (if in_int64 t
     then Inr (f (db\<lparr> rd_conflicts := rd_conflicts db @
              [\<lparr> cn_idempotency_key = ae_idempotency_key envelope,
                 cn_claimed_payload_digest = ae_payload_digest envelope, cn_reason = reason,
                 cn_received_at_ms = t \<rparr>] \<rparr>))
     else Inl (OverflowError ''Python int too large to convert to SQLite INTEGER''))"
  using assms by (auto simp: record_conflict_def bind_ints_cases commit_receiver_ok)

lemma validate_alert_accepts:
  assumes "validate_alert envelope digest = None"
  shows "ae_from_state envelope \<in> set VALID_STATES" "ae_to_state envelope \<in> set VALID_STATES"
    "0 \<le> ae_from_version envelope" "ae_to_version envelope = ae_from_version envelope + 1"
    "digest = ae_payload_digest envelope"
  using assms by (auto simp: validate_alert_def split: if_splits)

lemma validate_alert_rejects: "validate_alert envelope digest = Some status \<Longrightarrow> status \<in> {''REJECTED'', ''CONFLICT''}"
  by (auto simp: validate_alert_def split: if_splits)

lemma receive_cases [consumes 2, case_names raises conflict again refused applied]:
  assumes inv: "receiver_inv db" and r: "receive t envelope db = (answer, db')"
  obtains
    (raises) e where "answer = Inl e" "db' = db" "(\<exists>m. e = ValueError m) \<or> (\<exists>m. e = OverflowError m)"
  | (conflict) previous where "dict_get (rd_receipts db) (ae_idempotency_key envelope) = Some previous"
      "rc_payload_digest previous \<noteq> ae_payload_digest envelope" "in_int64 t"
      "answer = Inr (receive_result envelope ''CONFLICT'' (hazard_version db (ae_hazard_key envelope)) t None False)"
      "db' = db\<lparr> rd_conflicts := rd_conflicts db @ [\<lparr> cn_idempotency_key = ae_idempotency_key envelope,
         cn_claimed_payload_digest = ae_payload_digest envelope, cn_reason = ''IDEMPOTENCY_DIGEST_CONFLICT'', cn_received_at_ms = t \<rparr>] \<rparr>"
  | (again) previous where "dict_get (rd_receipts db) (ae_idempotency_key envelope) = Some previous"
      "rc_payload_digest previous = ae_payload_digest envelope"
      "answer = Inr (receive_result envelope (if rc_status previous = ''APPLIED'' then ''DUPLICATE'' else rc_status previous)
         (rc_receiver_hazard_version previous) t (map_option (\<lambda>n. n \<noteq> 0) (rc_delivery_deadline_met previous)) False)" "db' = db"
  | (refused) status where "dict_get (rd_receipts db) (ae_idempotency_key envelope) = None"
      "status \<in> {''REJECTED'', ''CONFLICT'', ''VERSION_GAP''}"
      "list_all in_int64 [hazard_version db (ae_hazard_key envelope), t]"
      "answer = Inr (receive_result envelope status (hazard_version db (ae_hazard_key envelope)) t None False)"
      "db' = db\<lparr> rd_receipts := dict_set (rd_receipts db) (ae_idempotency_key envelope)
         (receipt_row envelope t status (hazard_version db (ae_hazard_key envelope)) None) \<rparr>"
  | (applied) digest where "dict_get (rd_receipts db) (ae_idempotency_key envelope) = None"
      "validate_alert envelope digest = None" "payload_digest (ae_alert_payload envelope) = Inr digest"
      "hazard_version db (ae_hazard_key envelope) = ae_from_version envelope"
      "list_all in_int64 [ae_to_version envelope, t, ae_from_version envelope]"
      "answer = Inr (receive_result envelope ''APPLIED'' (ae_to_version envelope) t (Some (t < ae_delivery_deadline_utc_ms envelope)) True)"
      "db' = applied_db db envelope t"
proof (cases "0 < t \<and> json_finite (ae_alert_payload envelope)")
  case False
  with r have "answer = Inl (ValueError ''receiver time must be positive'') \<or>
      answer = Inl (ValueError ''alert payload must be canonical JSON data'')" "db' = db"
    by (auto simp: receive_def payload_digest_def canonical_payload_def split: if_splits)
  then show ?thesis using raises by blast
next
  case True
  then obtain digest where d: "payload_digest (ae_alert_payload envelope) = Inr digest"
    by (simp add: payload_digest_def canonical_payload_def)
  let ?prev = "dict_get (rd_receipts db) (ae_idempotency_key envelope)"
  let ?v = "hazard_version db (ae_hazard_key envelope)"
  show ?thesis
  proof (cases ?prev)
    case (Some previous)
    have eq: "receive t envelope db = (case receive_again t envelope previous db of Inl e \<Rightarrow> (Inl e, db) | Inr (a, d) \<Rightarrow> (Inr a, d))"
      using True d Some by (simp add: receive_def)
    show ?thesis
    proof (cases "rc_payload_digest previous = ae_payload_digest envelope")
      case True
      with r eq Some show ?thesis by (intro again) (auto simp: receive_again_def commit_receiver_ok [OF inv])
    next
      case False
      show ?thesis
      proof (cases "in_int64 t")
        case True
        with False r eq Some show ?thesis by (intro conflict) (auto simp: receive_again_def conflict_commit [OF inv])
      next
        case out: False
        with False r eq have "answer = Inl (OverflowError ''Python int too large to convert to SQLite INTEGER'')" "db' = db"
          by (auto simp: receive_again_def conflict_commit [OF inv])
        then show ?thesis using raises by blast
      qed
    qed
  next
    case None
    have eq: "receive t envelope db = (case receive_first t digest envelope db of Inl e \<Rightarrow> (Inl e, db) | Inr (a, d) \<Rightarrow> (Inr a, d))"
      using True d None by (simp add: receive_def)
    have refuse: thesis
      if status: "status \<in> {''REJECTED'', ''CONFLICT'', ''VERSION_GAP''}"
        and first: "receive_first t digest envelope db =
          bind_result (record_receipt db envelope t status ?v None) (\<lambda>db'. bind_result (commit_receiver db') (\<lambda>db''.
            Inr (receive_result envelope status ?v t None False, db'')))" for status
    proof -
      have na: "status \<noteq> ''APPLIED''" using status by auto
      have out: "receive t envelope db =
          (if list_all in_int64 [?v, t]
           then (Inr (receive_result envelope status ?v t None False),
                 db\<lparr> rd_receipts := dict_set (rd_receipts db) (ae_idempotency_key envelope) (receipt_row envelope t status ?v None) \<rparr>)
           else (Inl (OverflowError ''Python int too large to convert to SQLite INTEGER''), db))"
        unfolding eq first refused_commit [OF inv None na] by simp
      show thesis
      proof (cases "list_all in_int64 [?v, t]")
        case True
        with out r show thesis by (intro refused [OF None status True]) simp_all
      next
        case False
        with out r show thesis by (intro raises) auto
      qed
    qed
    show ?thesis
    proof (cases "validate_alert envelope digest")
      case (Some status)
      with validate_alert_rejects [OF Some] show ?thesis
        by (intro refuse [of status]) (auto simp: receive_first_def record_rejection_def Let_def)
    next
      case valid: None
      show ?thesis
      proof (cases "?v = ae_from_version envelope \<and> (\<forall>row. dict_get (rd_hazards db) (ae_hazard_key envelope) = Some row \<longrightarrow> hz_state row = ae_from_state envelope)")
        case False
        then show ?thesis
          by (intro refuse [of "''VERSION_GAP''"])
            (auto simp: receive_first_def valid record_rejection_def Let_def hazard_version_def split: option.splits)
      next
        case same: True
        then have "receive_first t digest envelope db = apply_alert t envelope db"
          by (auto simp: receive_first_def valid Let_def hazard_version_def split: option.splits)
        then have out: "receive t envelope db =
           (if list_all in_int64 [ae_to_version envelope, t, ae_from_version envelope]
            then (Inr (receive_result envelope ''APPLIED'' (ae_to_version envelope) t (Some (t < ae_delivery_deadline_utc_ms envelope)) True),
                  applied_db db envelope t)
            else (Inl (OverflowError ''Python int too large to convert to SQLite INTEGER''), db))"
          unfolding eq using applied_commit [OF inv None, of t] same True validate_alert_accepts(4) [OF valid] by simp
        show ?thesis
        proof (cases "list_all in_int64 [ae_to_version envelope, t, ae_from_version envelope]")
          case True
          with out r same show ?thesis by (intro applied [OF None valid d _ True]) simp_all
        next
          case False
          with out r show ?thesis by (intro raises) auto
        qed
      qed
    qed
  qed
qed

section \<open>The receiver as a machine\<close>

lemma receive_step_inv:
  assumes "receiver_inv db" shows "receiver_inv (receive_step db d)"
proof -
  obtain answer db' where r: "receive (fst d) (snd d) db = (answer, db')" by fastforce
  from assms r have "receiver_inv db'"
  proof (cases rule: receive_cases)
    case (refused status)
    then show ?thesis using receipt_inv [OF assms] by (auto simp: receipt_row_def)
  next
    case (applied digest)
    then show ?thesis using applied_inv [OF assms] validate_alert_accepts(4) by blast
  qed (simp_all add: assms)
  then show ?thesis by (simp add: receive_step_def r)
qed

text \<open>A receipt is never changed or removed.\<close>

definition receipts :: "ReceiverDb \<Rightarrow> (string \<times> ReceiptRow) set" where
  "receipts db = {(k, r). dict_get (rd_receipts db) k = Some r}"

lemma receive_step_keeps:
  assumes "receiver_inv db" shows "receipts db \<subseteq> receipts (receive_step db d)"
proof -
  obtain answer db' where r: "receive (fst d) (snd d) db = (answer, db')" by fastforce
  from assms r have "receipts db \<subseteq> receipts db'"
    by (cases rule: receive_cases) (auto simp: receipts_def applied_db_def Let_def)
  then show ?thesis by (simp add: receive_step_def r)
qed

interpretation receiver: monotone_machine receive_step "\<lambda>_. True" receiver_inv receipts
  by unfold_locales (auto dest: receive_step_inv receive_step_keeps)

lemma typed_set: "list_all P (dict_values d) \<Longrightarrow> P r \<Longrightarrow> list_all P (dict_values (dict_set d k r))"
  using dict_values_set [of k r d] unfolding list_all_iff by blast

lemma receive_step_typed:
  assumes inv: "receiver_inv db" and typed: "receiver_typed db" shows "receiver_typed (receive_step db d)"
proof -
  obtain answer db' where r: "receive (fst d) (snd d) db = (answer, db')" by fastforce
  from inv r have "receiver_typed db'"
  proof (cases rule: receive_cases)
    case (conflict previous)
    then show ?thesis using typed by (simp add: receiver_typed_def)
  next
    case (refused status)
    then have "receipt_typed (receipt_row (snd d) (fst d) status (hazard_version db (ae_hazard_key (snd d))) None)"
      by (auto simp: receipt_typed_def receipt_row_def)
    with typed refused(5) show ?thesis by (simp add: receiver_typed_def typed_set)
  next
    case (applied digest)
    have "hazard_typed (hazard_row (snd d) (fst d))" "effect_typed (effect_row (snd d) payload (fst d) met)"
      "receipt_typed (receipt_row (snd d) (fst d) ''APPLIED'' (ae_to_version (snd d)) (Some met))" for payload met
      using applied(5) validate_alert_accepts [OF applied(2)]
      by (simp_all add: hazard_typed_def effect_typed_def receipt_typed_def hazard_row_def effect_row_def receipt_row_def int_of_bool_def)
    with typed applied(7) show ?thesis by (simp add: receiver_typed_def typed_set applied_db_def Let_def)
  qed (simp_all add: typed)
  then show ?thesis by (simp add: receive_step_def r)
qed

interpretation receiver_tables: guarded_machine receive_step "\<lambda>_. True" "\<lambda>db. receiver_inv db \<and> receiver_typed db"
  by unfold_locales (auto dest: receive_step_inv receive_step_typed)

section \<open>One alert, one effect\<close>

text \<open>A delivery with an effect leaves an applied receipt, and a delivery that finds one has no effect.\<close>

lemma applied_receipt:
  assumes "receiver_inv db" "receive t envelope db = (Inr a, db')" "rv_user_visible_effect_applied a"
  shows "(ae_idempotency_key envelope,
      receipt_row envelope t ''APPLIED'' (rv_receiver_hazard_version a) (rv_delivery_deadline_met a)) \<in> receipts db'"
    "rv_status a = ''APPLIED''" "rv_delivery_deadline_met a = Some (t < ae_delivery_deadline_utc_ms envelope)"
  using assms by (cases rule: receive_cases; auto simp: receive_result_def receipts_def applied_db_def Let_def)+

lemma known_delivery:
  assumes "receiver_inv db" "receive t envelope db = (Inr a, db')" "(ae_idempotency_key envelope, r) \<in> receipts db"
  shows "\<not> rv_user_visible_effect_applied a
    \<and> (if rc_payload_digest r = ae_payload_digest envelope
       then db' = db \<and> rv_status a = (if rc_status r = ''APPLIED'' then ''DUPLICATE'' else rc_status r)
         \<and> rv_receiver_hazard_version a = rc_receiver_hazard_version r
         \<and> rv_delivery_deadline_met a = map_option (\<lambda>n. n \<noteq> 0) (rc_delivery_deadline_met r)
       else rv_status a = ''CONFLICT'')"
  using assms by (cases rule: receive_cases) (auto simp: receive_result_def receipts_def)

lemma answers_nth:
  "i < length ds \<Longrightarrow> answers db ds ! i = fst (receive (fst (ds ! i)) (snd (ds ! i)) (run receive_step db (take i ds)))"
  by (induction ds arbitrary: db i) (auto simp: nth_Cons split: nat.splits)

lemma answers_receive:
  assumes "answers db ds ! i = x" "i < length ds"
  shows "\<exists>d. receive (fst (ds ! i)) (snd (ds ! i)) (run receive_step db (take i ds)) = (x, d)"
  using assms answers_nth [OF assms(2)] by (cases "receive (fst (ds ! i)) (snd (ds ! i)) (run receive_step db (take i ds))") auto

lemma run_split: "i \<le> j \<Longrightarrow> run step s (take j ds) = run step (run step s (take i ds)) (take (j - i) (drop i ds))"
  by (metis le_add_diff_inverse run_append take_add)

end
