(* ===== verification/SyncModels.thy ===== *)
theory SyncModels
  imports Identity
begin

text \<open>
  \<^verbatim>\<open>src/app/services/sync/models.py\<close>: the frames the synchronizer receives and stores and the
  frame sets it emits. A field \<open>x\<close> of a frame is \<open>f_x\<close>, of a frame set \<open>fs_x\<close>. A stored frame
  has every field of an input frame and two more, so its record extends the input's.
\<close>

section \<open>Frames\<close>

record SyncInputFrame =
  f_frame_id :: "int option"
  f_device_id :: string
  f_timestamp_ms :: int
  f_sequence :: "int option"
  f_content_type :: string
  f_image_bytes :: bytes
  f_file_path :: "string option"
  f_source_session_id :: "string option"
  f_camera_stream_id :: "string option"
  f_source_frame_uid :: "string option"
  f_content_digest :: "string option"
  f_identity_mode :: string
  f_archive_state :: string
  f_archive_error :: "string option"
  f_received_at_ms :: "int option"
  f_capture_config_digest :: "string option"
  f_capture_metadata_json :: "string option"
  f_tenant_id :: "string option"
  f_site_id :: "string option"
  f_capture_session_id :: "string option"
  f_processing_job_id :: "string option"
  f_profile_digest :: "string option"
  f_authorized_subject :: "string option"
  f_session_token_jti :: "string option"
  f_authorized_camera_id :: "string option"
  f_camera_claim_id :: "string option"

record StoredSyncFrame = SyncInputFrame +
  f_image_size :: int
  f_buffer_key :: string

section \<open>Frame sets\<close>

record SynchronizedFrameSet =
  fs_frame_set_id :: int
  fs_anchor_timestamp_ms :: int
  fs_max_delta_ms :: int
  fs_frames :: "(string, StoredSyncFrame) dict"
  fs_span_ms :: "int option"
  fs_capture_session_id :: "string option"
  fs_capture_run_id :: "string option"
  fs_frame_set_uid :: "string option"
  fs_manifest_digest :: "string option"
  fs_manifest_json :: "string option"
  fs_identity_mode :: string
  fs_archive_state :: string
  fs_archive_error :: "string option"
  fs_sync_window_ms :: int
  fs_synchronized_at_ms :: int
  fs_member_count :: int
  fs_tenant_id :: "string option"
  fs_site_id :: "string option"
  fs_processing_job_id :: "string option"
  fs_profile_digest :: "string option"
  fs_authorized_subject :: "string option"
  fs_session_token_jti :: "string option"

text \<open>The archive states of \<^verbatim>\<open>src/app/services/ingest/archive.py\<close>.\<close>

definition ARCHIVE_DURABLE :: string where "ARCHIVE_DURABLE = ''ARCHIVE_DURABLE''"
definition ARCHIVE_PENDING :: string where "ARCHIVE_PENDING = ''ARCHIVE_PENDING''"
definition ARCHIVE_DEGRADED_LIVE_ONLY :: string where
  "ARCHIVE_DEGRADED_LIVE_ONLY = ''ARCHIVE_DEGRADED_LIVE_ONLY''"

lemmas archive_state_defs = ARCHIVE_DURABLE_def ARCHIVE_PENDING_def ARCHIVE_DEGRADED_LIVE_ONLY_def

lemma archive_states_distinct [simp]:
  "ARCHIVE_DURABLE \<noteq> ARCHIVE_PENDING" "ARCHIVE_PENDING \<noteq> ARCHIVE_DURABLE"
  "ARCHIVE_DURABLE \<noteq> ARCHIVE_DEGRADED_LIVE_ONLY" "ARCHIVE_DEGRADED_LIVE_ONLY \<noteq> ARCHIVE_DURABLE"
  "ARCHIVE_PENDING \<noteq> ARCHIVE_DEGRADED_LIVE_ONLY" "ARCHIVE_DEGRADED_LIVE_ONLY \<noteq> ARCHIVE_PENDING"
  by (simp_all add: archive_state_defs)

lemma identity_modes_distinct [simp]:
  "IDENTITY_MODE_V2 \<noteq> IDENTITY_MODE_LEGACY" "IDENTITY_MODE_LEGACY \<noteq> IDENTITY_MODE_V2"
  by (simp_all add: IDENTITY_MODE_V2_def IDENTITY_MODE_LEGACY_def)

end
