(* ===== verification/FrameBuffer.thy ===== *)
theory FrameBuffer
  imports SyncModels
begin

text \<open>
  \<^verbatim>\<open>src/app/services/sync/frame_buffer.py\<close>: the per-camera ring buffers and the manager that
  indexes every retained frame by its key. Fields of \<open>CameraSyncBuffer\<close> are \<open>cb_x\<close>, of
  \<open>SyncFrameBufferManager\<close> \<open>bm_x\<close>. Every method of the manager holds its lock from its first
  read to its last write, so each is one atomic function on the state.
\<close>

section \<open>CameraSyncBuffer\<close>

type_synonym source_identity = "string option \<times> string option"

record CameraSyncBuffer =
  cb_max_frames :: nat
  cb_frames :: "StoredSyncFrame list"
  cb_received_count :: int
  cb_last_sequence :: "int option"
  cb_last_timestamp_ms :: "int option"
  cb_sequence_gap_count :: int
  cb_source_identity :: "source_identity option"
  cb_retained_keys :: "string list"

definition new_camera_buffer :: "nat \<Rightarrow> CameraSyncBuffer" where
  "new_camera_buffer max_frames =
     \<lparr> cb_max_frames = max_frames, cb_frames = [], cb_received_count = 0,
       cb_last_sequence = None, cb_last_timestamp_ms = None, cb_sequence_gap_count = 0,
       cb_source_identity = None, cb_retained_keys = [] \<rparr>"

definition frame_identity :: "StoredSyncFrame \<Rightarrow> source_identity" where
  "frame_identity frame = (f_source_session_id frame, f_camera_stream_id frame)"

definition is_out_of_order :: "CameraSyncBuffer \<Rightarrow> StoredSyncFrame \<Rightarrow> bool" where
  "is_out_of_order b frame \<longleftrightarrow>
     f_identity_mode frame = IDENTITY_MODE_V2
     \<and> Some (frame_identity frame) = cb_source_identity b
     \<and> ((case (f_sequence frame, cb_last_sequence b) of
           (Some s, Some l) \<Rightarrow> s \<le> l | _ \<Rightarrow> False)
        \<or> (case cb_last_timestamp_ms b of Some l \<Rightarrow> f_timestamp_ms frame < l | None \<Rightarrow> False))"

definition rebind_identity :: "CameraSyncBuffer \<Rightarrow> StoredSyncFrame \<Rightarrow> CameraSyncBuffer" where
  "rebind_identity b frame =
     (if Some (frame_identity frame) \<noteq> cb_source_identity b
      then b\<lparr> cb_frames := [], cb_last_sequence := None, cb_last_timestamp_ms := None,
              cb_source_identity := Some (frame_identity frame) \<rparr>
      else b)"

definition sequence_gap :: "int option \<Rightarrow> int option \<Rightarrow> int" where
  "sequence_gap previous current =
     (case (previous, current) of
        (Some l, Some s) \<Rightarrow> if s > l + 1 then s - l - 1 else 0 | _ \<Rightarrow> 0)"

definition buffer_append :: "CameraSyncBuffer \<Rightarrow> StoredSyncFrame \<Rightarrow> CameraSyncBuffer" where
  "buffer_append b frame =
     (let b = rebind_identity b frame
      in b\<lparr> cb_sequence_gap_count :=
              cb_sequence_gap_count b + sequence_gap (cb_last_sequence b) (f_sequence frame),
            cb_frames := deque_append (cb_max_frames b) (cb_frames b) frame,
            cb_received_count := cb_received_count b + 1,
            cb_last_sequence :=
              (if f_sequence frame \<noteq> None then f_sequence frame else cb_last_sequence b),
            cb_last_timestamp_ms := Some (f_timestamp_ms frame) \<rparr>)"

text \<open>The loop of \<open>nearest_frame\<close>, with the best frame and its distance so far.\<close>

fun nearest_loop ::
  "int \<Rightarrow> int \<Rightarrow> string set \<Rightarrow> (StoredSyncFrame \<times> int) option \<Rightarrow> StoredSyncFrame list
   \<Rightarrow> (StoredSyncFrame \<times> int) option" where
  "nearest_loop anchor window excluded best [] = best"
| "nearest_loop anchor window excluded best (frame # frames) =
     (if f_buffer_key frame \<in> excluded then nearest_loop anchor window excluded best frames
      else (let delta = \<bar>f_timestamp_ms frame - anchor\<bar>
            in nearest_loop anchor window excluded
                 (if delta \<le> window \<and> (case best of None \<Rightarrow> True | Some (_, d) \<Rightarrow> delta < d)
                  then Some (frame, delta) else best) frames))"

definition buffer_nearest_frame ::
  "CameraSyncBuffer \<Rightarrow> int \<Rightarrow> int \<Rightarrow> string set \<Rightarrow> StoredSyncFrame option" where
  "buffer_nearest_frame b anchor window excluded =
     map_option fst (nearest_loop anchor window excluded None (cb_frames b))"

definition frame_order :: "StoredSyncFrame \<Rightarrow> int \<times> string" where
  "frame_order frame = (f_timestamp_ms frame, f_buffer_key frame)"

definition buffer_available_frames :: "CameraSyncBuffer \<Rightarrow> string set \<Rightarrow> StoredSyncFrame list" where
  "buffer_available_frames b excluded =
     sort_key frame_order (filter (\<lambda>frame. f_buffer_key frame \<notin> excluded) (cb_frames b))"

fun drop_loop :: "int \<Rightarrow> string set \<Rightarrow> StoredSyncFrame list \<Rightarrow> StoredSyncFrame list \<times> int" where
  "drop_loop ts counted_excluded [] = ([], 0)"
| "drop_loop ts counted_excluded (frame # frames) =
     (let (kept, dropped) = drop_loop ts counted_excluded frames
      in if f_timestamp_ms frame < ts
         then (kept, if f_buffer_key frame \<notin> counted_excluded then dropped + 1 else dropped)
         else (frame # kept, dropped))"

definition buffer_drop_frames_older_than ::
  "CameraSyncBuffer \<Rightarrow> int \<Rightarrow> string set \<Rightarrow> int \<times> CameraSyncBuffer" where
  "buffer_drop_frames_older_than b ts counted_excluded =
     (let (kept, dropped) = drop_loop ts counted_excluded (cb_frames b)
      in (dropped, b\<lparr> cb_frames := deque_of (cb_max_frames b) kept \<rparr>))"

record CameraStatus =
  cs_device_id :: string
  cs_buffered_count :: int
  cs_received_count :: int
  cs_sequence_gap_count :: int
  cs_last_sequence :: "int option"
  cs_last_timestamp_ms :: "int option"

definition buffer_status :: "CameraSyncBuffer \<Rightarrow> string \<Rightarrow> CameraStatus" where
  "buffer_status b device_id =
     \<lparr> cs_device_id = device_id, cs_buffered_count = int (length (cb_frames b)),
       cs_received_count = cb_received_count b, cs_sequence_gap_count = cb_sequence_gap_count b,
       cs_last_sequence = cb_last_sequence b, cs_last_timestamp_ms = cb_last_timestamp_ms b \<rparr>"

section \<open>SyncFrameBufferManager\<close>

record SyncFrameBufferManager =
  bm_buffer_size :: nat
  bm_buffers :: "(string, CameraSyncBuffer) dict"
  bm_frames_by_key :: "(string, StoredSyncFrame) dict"
  bm_received_count :: int
  bm_duplicate_frame_count :: int
  bm_out_of_order_frame_count :: int
  bm_evicted_frame_count :: int

definition new_buffer_manager :: "int \<Rightarrow> SyncFrameBufferManager result" where
  "new_buffer_manager buffer_size =
     (if buffer_size < 1 then Inl (ValueError ''buffer_size must be positive'')
      else Inr \<lparr> bm_buffer_size = nat buffer_size, bm_buffers = [], bm_frames_by_key = [],
                 bm_received_count = 0, bm_duplicate_frame_count = 0,
                 bm_out_of_order_frame_count = 0, bm_evicted_frame_count = 0 \<rparr>)"

definition build_buffer_key :: "SyncInputFrame \<Rightarrow> string" where
  "build_buffer_key frame =
     (if truthy (f_source_frame_uid frame) then ''source:'' @ str_or (f_source_frame_uid frame) []
      else (case f_frame_id frame of
        Some i \<Rightarrow> ''db:'' @ py_str_int i
      | None \<Rightarrow>
          (let digest = str_or (f_content_digest frame) (sha256_bytes (f_image_bytes frame))
           in ''legacy:'' @ f_device_id frame @ '':'' @ py_str_int (f_timestamp_ms frame) @ '':''
              @ (case f_sequence frame of Some s \<Rightarrow> py_str_int s | None \<Rightarrow> ''-'') @ '':'' @ digest)))"

definition stored_of_input :: "SyncInputFrame \<Rightarrow> StoredSyncFrame" where
  "stored_of_input frame =
     SyncInputFrame.extend frame
       (StoredSyncFrame.fields (int (length (f_image_bytes frame))) (build_buffer_key frame))"

text \<open>The loop that forgets the oldest retained keys beyond the buffer size.\<close>

fun trim_retained ::
  "nat \<Rightarrow> string list \<Rightarrow> (string, StoredSyncFrame) dict \<Rightarrow> string list \<times> (string, StoredSyncFrame) dict" where
  "trim_retained n [] index = ([], index)"
| "trim_retained n (k # ks) index =
     (if length (k # ks) > n then trim_retained n ks (dict_pop index k) else (k # ks, index))"

definition setdefault_buffer :: "SyncFrameBufferManager \<Rightarrow> string \<Rightarrow> SyncFrameBufferManager \<times> CameraSyncBuffer" where
  "setdefault_buffer m device_id =
     (case dict_get (bm_buffers m) device_id of
        Some b \<Rightarrow> (m, b)
      | None \<Rightarrow> (let b = new_camera_buffer (bm_buffer_size m)
                 in (m\<lparr> bm_buffers := dict_set (bm_buffers m) device_id b \<rparr>, b)))"

text \<open>The frame passed both checks: append it, index it, trim the retained keys.\<close>

definition accept_stored ::
  "SyncFrameBufferManager \<Rightarrow> CameraSyncBuffer \<Rightarrow> StoredSyncFrame \<Rightarrow> SyncFrameBufferManager" where
  "accept_stored m b stored =
     (let key = f_buffer_key stored;
          evicted = (if length (cb_frames b) = bm_buffer_size m then 1 else 0);
          b = buffer_append b stored;
          (retained, index) =
            trim_retained (bm_buffer_size m) (cb_retained_keys b @ [key])
              (dict_set (bm_frames_by_key m) key stored);
          b = b\<lparr> cb_retained_keys := retained \<rparr>
      in m\<lparr> bm_evicted_frame_count := bm_evicted_frame_count m + evicted,
            bm_buffers := dict_set (bm_buffers m) (f_device_id stored) b,
            bm_frames_by_key := index,
            bm_received_count := bm_received_count m + 1 \<rparr>)"

definition add_frame ::
  "SyncFrameBufferManager \<Rightarrow> SyncInputFrame \<Rightarrow> StoredSyncFrame option \<times> SyncFrameBufferManager" where
  "add_frame m frame =
     (let stored = stored_of_input frame
      in if dict_get (bm_frames_by_key m) (f_buffer_key stored) \<noteq> None
         then (None, m\<lparr> bm_duplicate_frame_count := bm_duplicate_frame_count m + 1 \<rparr>)
         else
           (let (m, b) = setdefault_buffer m (f_device_id stored)
            in if is_out_of_order b stored
               then (None, m\<lparr> bm_out_of_order_frame_count := bm_out_of_order_frame_count m + 1 \<rparr>)
               else (Some stored, accept_stored m b stored)))"

definition nearest_frame ::
  "SyncFrameBufferManager \<Rightarrow> string \<Rightarrow> int \<Rightarrow> int \<Rightarrow> string set \<Rightarrow> StoredSyncFrame option" where
  "nearest_frame m device_id anchor window excluded =
     (case dict_get (bm_buffers m) device_id of
        None \<Rightarrow> None | Some b \<Rightarrow> buffer_nearest_frame b anchor window excluded)"

definition available_frames ::
  "SyncFrameBufferManager \<Rightarrow> string \<Rightarrow> string set \<Rightarrow> StoredSyncFrame list" where
  "available_frames m device_id excluded =
     (case dict_get (bm_buffers m) device_id of
        None \<Rightarrow> [] | Some b \<Rightarrow> buffer_available_frames b excluded)"

fun latest_timestamps_loop ::
  "SyncFrameBufferManager \<Rightarrow> (string, int) dict \<Rightarrow> string list \<Rightarrow> (string, int) dict" where
  "latest_timestamps_loop m latest [] = latest"
| "latest_timestamps_loop m latest (device_id # ds) =
     latest_timestamps_loop m
       (case dict_get (bm_buffers m) device_id of
          None \<Rightarrow> latest
        | Some b \<Rightarrow> (case cb_last_timestamp_ms b of
            None \<Rightarrow> latest | Some ts \<Rightarrow> dict_set latest device_id ts)) ds"

definition latest_timestamps :: "SyncFrameBufferManager \<Rightarrow> string list \<Rightarrow> (string, int) dict" where
  "latest_timestamps m device_ids = latest_timestamps_loop m [] device_ids"

fun drop_frames_older_than ::
  "SyncFrameBufferManager \<Rightarrow> string list \<Rightarrow> int \<Rightarrow> string set \<Rightarrow> int \<times> SyncFrameBufferManager" where
  "drop_frames_older_than m [] ts counted_excluded = (0, m)"
| "drop_frames_older_than m (device_id # ds) ts counted_excluded =
     (case dict_get (bm_buffers m) device_id of
        None \<Rightarrow> drop_frames_older_than m ds ts counted_excluded
      | Some b \<Rightarrow>
          (let (n, b) = buffer_drop_frames_older_than b ts counted_excluded;
               (rest, m) = drop_frames_older_than
                 (m\<lparr> bm_buffers := dict_set (bm_buffers m) device_id b \<rparr>) ds ts counted_excluded
           in (n + rest, m)))"

record BufferSnapshot =
  bs_camera_count :: int
  bs_received_count :: int
  bs_duplicate_frame_count :: int
  bs_out_of_order_frame_count :: int
  bs_evicted_frame_count :: int
  bs_retained_frame_count :: int
  bs_buffer_size :: nat
  bs_cameras :: "CameraStatus list"

definition buffer_snapshot :: "SyncFrameBufferManager \<Rightarrow> BufferSnapshot" where
  "buffer_snapshot m =
     \<lparr> bs_camera_count = int (length (bm_buffers m)), bs_received_count = bm_received_count m,
       bs_duplicate_frame_count = bm_duplicate_frame_count m,
       bs_out_of_order_frame_count = bm_out_of_order_frame_count m,
       bs_evicted_frame_count = bm_evicted_frame_count m,
       bs_retained_frame_count = int (length (bm_frames_by_key m)),
       bs_buffer_size = bm_buffer_size m,
       bs_cameras = map (\<lambda>(device_id, b). buffer_status b device_id) (sort_key fst (bm_buffers m)) \<rparr>"

definition clear_buffers :: "SyncFrameBufferManager \<Rightarrow> SyncFrameBufferManager" where
  "clear_buffers m =
     m\<lparr> bm_buffers := [], bm_frames_by_key := [], bm_received_count := 0,
        bm_duplicate_frame_count := 0, bm_out_of_order_frame_count := 0,
        bm_evicted_frame_count := 0 \<rparr>"

definition consume_buffer :: "CameraSyncBuffer \<Rightarrow> StoredSyncFrame \<Rightarrow> int \<times> CameraSyncBuffer" where
  "consume_buffer b chosen =
     (int (length (filter (\<lambda>frame. f_timestamp_ms frame \<le> f_timestamp_ms chosen
                             \<and> f_buffer_key frame \<noteq> f_buffer_key chosen) (cb_frames b))),
      b\<lparr> cb_frames := deque_of (cb_max_frames b)
           (filter (\<lambda>frame. \<not> f_timestamp_ms frame \<le> f_timestamp_ms chosen) (cb_frames b)) \<rparr>)"

text \<open>A missing buffer raises \<open>KeyError\<close>, with the buffers handled before it already changed.\<close>

fun consume_through ::
  "SyncFrameBufferManager \<Rightarrow> (string, StoredSyncFrame) dict \<Rightarrow> int result \<times> SyncFrameBufferManager" where
  "consume_through m [] = (Inr 0, m)"
| "consume_through m ((device_id, chosen) # selected) =
     (case dict_get (bm_buffers m) device_id of
        None \<Rightarrow> (Inl (KeyError device_id), m)
      | Some b \<Rightarrow>
          (let (n, b) = consume_buffer b chosen;
               (r, m) = consume_through (m\<lparr> bm_buffers := dict_set (bm_buffers m) device_id b \<rparr>) selected
           in (case r of Inl e \<Rightarrow> Inl e | Inr rest \<Rightarrow> Inr (n + rest), m)))"

definition archived ::
  "int option \<Rightarrow> string option \<Rightarrow> string \<Rightarrow> string option \<Rightarrow> StoredSyncFrame \<Rightarrow> StoredSyncFrame" where
  "archived frame_id file_path state error stored =
     stored\<lparr> f_frame_id := frame_id, f_file_path := file_path,
             f_archive_state := state, f_archive_error := error \<rparr>"

definition finalize_archive ::
  "SyncFrameBufferManager \<Rightarrow> string \<Rightarrow> int option \<Rightarrow> string option \<Rightarrow> string \<Rightarrow> string option
   \<Rightarrow> StoredSyncFrame option \<times> SyncFrameBufferManager" where
  "finalize_archive m frame_key frame_id file_path state error =
     (case dict_get (bm_frames_by_key m) frame_key of
        None \<Rightarrow> (None, m)
      | Some stored \<Rightarrow>
          (let updated = archived frame_id file_path state error stored;
               m = m\<lparr> bm_frames_by_key := dict_set (bm_frames_by_key m) frame_key updated \<rparr>
           in (Some updated,
               case dict_get (bm_buffers m) (f_device_id stored) of
                 None \<Rightarrow> m
               | Some b \<Rightarrow>
                   m\<lparr> bm_buffers := dict_set (bm_buffers m) (f_device_id stored)
                        (b\<lparr> cb_frames := deque_of (cb_max_frames b)
                             (map (\<lambda>item. if f_buffer_key item = frame_key then updated else item)
                                (cb_frames b)) \<rparr>) \<rparr>)))"

section \<open>Operations as steps\<close>

datatype buffer_op =
    OpAdd SyncInputFrame
  | OpDrop "string list" int "string set"
  | OpConsume "(string, StoredSyncFrame) dict"
  | OpFinalize string "int option" "string option" string "string option"
  | OpClear

fun buffer_step :: "SyncFrameBufferManager \<Rightarrow> buffer_op \<Rightarrow> SyncFrameBufferManager" where
  "buffer_step m (OpAdd frame) = snd (add_frame m frame)"
| "buffer_step m (OpDrop ds ts ex) = snd (drop_frames_older_than m ds ts ex)"
| "buffer_step m (OpConsume selected) = snd (consume_through m selected)"
| "buffer_step m (OpFinalize k i p st e) = snd (finalize_archive m k i p st e)"
| "buffer_step m OpClear = clear_buffers m"

section \<open>The invariant of the manager\<close>

text \<open>
  Each camera's ring holds at most \<open>buffer_size\<close> frames of that camera, and at most as many keys
  are retained for it; the index holds exactly the retained keys, under their own key.
\<close>

definition camera_inv :: "nat \<Rightarrow> (string, StoredSyncFrame) dict \<Rightarrow> string \<Rightarrow> CameraSyncBuffer \<Rightarrow> bool" where
  "camera_inv n index d b \<longleftrightarrow>
     cb_max_frames b = n \<and> length (cb_frames b) \<le> n \<and> length (cb_retained_keys b) \<le> n
     \<and> distinct (cb_retained_keys b)
     \<and> (\<forall>f \<in> set (cb_frames b). f_device_id f = d)
     \<and> (\<forall>k \<in> set (cb_retained_keys b).
          \<exists>f. dict_get index k = Some f \<and> f_buffer_key f = k \<and> f_device_id f = d)"

definition manager_inv :: "SyncFrameBufferManager \<Rightarrow> bool" where
  "manager_inv m \<longleftrightarrow>
     0 < bm_buffer_size m \<and> distinct (dict_keys (bm_buffers m)) \<and> distinct (dict_keys (bm_frames_by_key m))
     \<and> (\<forall>d b. dict_get (bm_buffers m) d = Some b \<longrightarrow> camera_inv (bm_buffer_size m) (bm_frames_by_key m) d b)
     \<and> (\<forall>k f. dict_get (bm_frames_by_key m) k = Some f \<longrightarrow>
          (\<exists>b. dict_get (bm_buffers m) (f_device_id f) = Some b \<and> k \<in> set (cb_retained_keys b)))"

lemma manager_invD:
  assumes "manager_inv m"
  shows "0 < bm_buffer_size m" "distinct (dict_keys (bm_buffers m))"
    "distinct (dict_keys (bm_frames_by_key m))"
    "dict_get (bm_buffers m) d = Some b \<Longrightarrow> camera_inv (bm_buffer_size m) (bm_frames_by_key m) d b"
    "dict_get (bm_frames_by_key m) k = Some f \<Longrightarrow>
       \<exists>b. dict_get (bm_buffers m) (f_device_id f) = Some b \<and> k \<in> set (cb_retained_keys b)"
  using assms by (auto simp: manager_inv_def)

text \<open>Replacing the frames of one camera by frames of the same camera keeps the invariant.\<close>

lemma manager_inv_frames:
  assumes inv: "manager_inv m" and b: "dict_get (bm_buffers m) d = Some b"
    and b': "cb_max_frames b' = cb_max_frames b" "cb_retained_keys b' = cb_retained_keys b"
      "length (cb_frames b') \<le> bm_buffer_size m" "\<forall>f \<in> set (cb_frames b'). f_device_id f = d"
  shows "manager_inv (m\<lparr> bm_buffers := dict_set (bm_buffers m) d b' \<rparr>)"
proof -
  have "camera_inv (bm_buffer_size m) (bm_frames_by_key m) d b'"
    using manager_invD(4) [OF inv b] b' by (simp add: camera_inv_def)
  then show ?thesis
    using inv b b' unfolding manager_inv_def
    by (auto simp: dict_distinct_set split: if_splits) (metis option.sel)
qed

lemma new_buffer_manager_inv: "new_buffer_manager n = Inr m \<Longrightarrow> manager_inv m"
  by (auto simp: new_buffer_manager_def manager_inv_def split: if_splits)

lemma clear_buffers_inv: "manager_inv m \<Longrightarrow> manager_inv (clear_buffers m)"
  by (simp add: clear_buffers_def manager_inv_def)

lemma drop_loop_eq:
  "drop_loop ts ex fs =
     (filter (\<lambda>f. \<not> f_timestamp_ms f < ts) fs,
      int (length (filter (\<lambda>f. f_timestamp_ms f < ts \<and> f_buffer_key f \<notin> ex) fs)))"
  by (induction fs) auto

lemma filter_deque: "length xs \<le> n \<Longrightarrow> deque_of n (filter P xs) = filter P xs"
  by (rule deque_of_short) (meson length_filter_le order_trans)

lemma drop_frames_inv: "manager_inv m \<Longrightarrow> manager_inv (snd (drop_frames_older_than m ds ts ex))"
proof (induction m ds ts ex rule: drop_frames_older_than.induct)
  case (2 m d ds ts ex)
  show ?case
  proof (cases "dict_get (bm_buffers m) d")
    case None
    with 2 show ?thesis by simp
  next
    case (Some b)
    have c: "camera_inv (bm_buffer_size m) (bm_frames_by_key m) d b"
      using manager_invD(4) [OF "2.prems" Some] .
    obtain n b' where b': "buffer_drop_frames_older_than b ts ex = (n, b')" by fastforce
    have "manager_inv (m\<lparr> bm_buffers := dict_set (bm_buffers m) d b' \<rparr>)"
      by (rule manager_inv_frames [OF "2.prems" Some])
        (use b' c in \<open>auto simp: buffer_drop_frames_older_than_def drop_loop_eq camera_inv_def filter_deque
          intro: order_trans [OF length_filter_le]\<close>)
    with "2.IH"(2) [OF Some b' [symmetric] refl] Some b' show ?thesis by (auto split: prod.splits)
  qed
qed simp

lemma consume_through_inv: "manager_inv m \<Longrightarrow> manager_inv (snd (consume_through m selected))"
proof (induction m selected rule: consume_through.induct)
  case (2 m d chosen selected)
  show ?case
  proof (cases "dict_get (bm_buffers m) d")
    case None
    with 2 show ?thesis by simp
  next
    case (Some b)
    have c: "camera_inv (bm_buffer_size m) (bm_frames_by_key m) d b"
      using manager_invD(4) [OF "2.prems" Some] .
    obtain n b' where b': "consume_buffer b chosen = (n, b')" by fastforce
    have "manager_inv (m\<lparr> bm_buffers := dict_set (bm_buffers m) d b' \<rparr>)"
      by (rule manager_inv_frames [OF "2.prems" Some])
        (use b' c in \<open>auto simp: consume_buffer_def camera_inv_def filter_deque
          intro: order_trans [OF length_filter_le]\<close>)
    with "2.IH" [OF Some b' [symmetric] refl] Some b' show ?thesis
      by (auto split: prod.splits)
  qed
qed simp

lemma archived_simps [simp]:
  "f_buffer_key (archived i p st e f) = f_buffer_key f"
  "f_device_id (archived i p st e f) = f_device_id f"
  "f_timestamp_ms (archived i p st e f) = f_timestamp_ms f"
  "f_sequence (archived i p st e f) = f_sequence f"
  "f_identity_mode (archived i p st e f) = f_identity_mode f"
  "frame_identity (archived i p st e f) = frame_identity f"
  "f_archive_state (archived i p st e f) = st"
  by (simp_all add: archived_def frame_identity_def)

lemma index_entry:
  assumes "manager_inv m" "dict_get (bm_frames_by_key m) k = Some f"
  shows "f_buffer_key f = k"
    and "\<exists>b. dict_get (bm_buffers m) (f_device_id f) = Some b \<and> k \<in> set (cb_retained_keys b)"
proof -
  show ex: "\<exists>b. dict_get (bm_buffers m) (f_device_id f) = Some b \<and> k \<in> set (cb_retained_keys b)"
    by (rule manager_invD(5) [OF assms])
  then show "f_buffer_key f = k"
    using manager_invD(4) [OF assms(1)] assms(2) by (fastforce simp: camera_inv_def)
qed

lemma camera_inv_index_upd:
  assumes "camera_inv n index d b" "dict_get index k = Some f"
    "f_buffer_key g = f_buffer_key f" "f_device_id g = f_device_id f"
  shows "camera_inv n (dict_set index k g) d b"
  using assms by (auto simp: camera_inv_def)

lemma finalize_archive_inv:
  assumes inv: "manager_inv m"
  shows "manager_inv (snd (finalize_archive m key i p st e))"
proof (cases "dict_get (bm_frames_by_key m) key")
  case None
  with inv show ?thesis by (simp add: finalize_archive_def)
next
  case (Some f)
  let ?g = "archived i p st e f"
  let ?m = "m\<lparr> bm_frames_by_key := dict_set (bm_frames_by_key m) key ?g \<rparr>"
  obtain b where b: "dict_get (bm_buffers m) (f_device_id f) = Some b"
    using index_entry(2) [OF inv Some] by blast
  have "manager_inv ?m"
    using inv Some unfolding manager_inv_def
    by (auto intro: camera_inv_index_upd dict_distinct_set split: if_splits)
  moreover have "camera_inv (bm_buffer_size m) (bm_frames_by_key m) (f_device_id f) b"
    using manager_invD(4) [OF inv b] .
  ultimately have "manager_inv (?m\<lparr> bm_buffers := dict_set (bm_buffers ?m) (f_device_id f)
      (b\<lparr> cb_frames := deque_of (cb_max_frames b)
           (map (\<lambda>item. if f_buffer_key item = key then ?g else item) (cb_frames b)) \<rparr>) \<rparr>)"
    using b by (intro manager_inv_frames [where b = b]) (auto simp: camera_inv_def)
  with Some b show ?thesis by (simp add: finalize_archive_def Let_def)
qed

lemma trim_retained_noop: "length ks \<le> n \<Longrightarrow> trim_retained n ks index = (ks, index)"
  by (cases ks) auto

lemma trim_retained_snoc:
  assumes "length ks \<le> n" "0 < n"
  shows "trim_retained n (ks @ [k]) index =
    (if length ks < n then (ks @ [k], index) else (tl ks @ [k], dict_pop index (hd ks)))"
  using assms by (cases ks) (auto simp: trim_retained_noop)

lemma buffer_append_simps [simp]:
  "cb_max_frames (buffer_append b f) = cb_max_frames b"
  "cb_retained_keys (buffer_append b f) = cb_retained_keys b"
  by (simp_all add: buffer_append_def rebind_identity_def Let_def)

lemma buffer_append_frames:
  "cb_frames (buffer_append b f) =
     deque_append (cb_max_frames b) (cb_frames (rebind_identity b f)) f"
  by (simp add: buffer_append_def rebind_identity_def Let_def)

lemma rebind_frames_subset: "set (cb_frames (rebind_identity b f)) \<subseteq> set (cb_frames b)"
  by (simp add: rebind_identity_def)

lemma buffer_append_subset: "set (cb_frames (buffer_append b f)) \<subseteq> insert f (set (cb_frames b))"
  unfolding buffer_append_frames
  using deque_append_set [of "cb_max_frames b" "cb_frames (rebind_identity b f)" f]
    rebind_frames_subset [of b f] by blast

text \<open>What the manager forgets when it accepts a frame: nothing, or the oldest retained key.\<close>

lemma accept_stored_eq:
  assumes "length (cb_retained_keys b) \<le> bm_buffer_size m" "0 < bm_buffer_size m"
  obtains R gone index where
    "accept_stored m b f = m\<lparr>
       bm_evicted_frame_count := bm_evicted_frame_count m
         + (if length (cb_frames b) = bm_buffer_size m then 1 else 0),
       bm_buffers := dict_set (bm_buffers m) (f_device_id f)
         ((buffer_append b f)\<lparr> cb_retained_keys := R @ [f_buffer_key f] \<rparr>),
       bm_frames_by_key := index,
       bm_received_count := bm_received_count m + 1 \<rparr>"
    "cb_retained_keys b = gone @ R" "length (R @ [f_buffer_key f]) \<le> bm_buffer_size m"
    "gone = [] \<or> length (cb_retained_keys b) = bm_buffer_size m \<and> length gone = 1"
    "\<And>k. dict_get index k = (if k \<in> set gone then None
            else dict_get (dict_set (bm_frames_by_key m) (f_buffer_key f) f) k)"
    "distinct (dict_keys (bm_frames_by_key m)) \<Longrightarrow> distinct (dict_keys index)"
proof (cases "length (cb_retained_keys b) < bm_buffer_size m")
  case True
  then show ?thesis
    using that [of "dict_set (bm_frames_by_key m) (f_buffer_key f) f" "cb_retained_keys b" "[]"] assms
    by (simp add: accept_stored_def trim_retained_snoc dict_distinct_set Let_def)
next
  case False
  with assms have len: "length (cb_retained_keys b) = bm_buffer_size m" by simp
  with assms obtain h R where R: "cb_retained_keys b = h # R" by (cases "cb_retained_keys b") auto
  show ?thesis
    using that [of "dict_pop (dict_set (bm_frames_by_key m) (f_buffer_key f) f) h" R "[h]"] assms len R
    by (simp add: accept_stored_def trim_retained_snoc dict_distinct_set distinct_delete
        dict_get_pop Let_def)
qed

lemma accept_stored_inv:
  assumes inv: "manager_inv m" and b: "dict_get (bm_buffers m) (f_device_id f) = Some b"
    and fresh: "dict_get (bm_frames_by_key m) (f_buffer_key f) = None"
  shows "manager_inv (accept_stored m b f)"
proof -
  let ?n = "bm_buffer_size m" and ?d = "f_device_id f" and ?k = "f_buffer_key f"
  have c: "camera_inv ?n (bm_frames_by_key m) ?d b" using manager_invD(4) [OF inv b] .
  have lens: "length (cb_retained_keys b) \<le> ?n" "0 < ?n"
    using c manager_invD(1) [OF inv] by (auto simp: camera_inv_def)
  obtain R gone index where eq: "accept_stored m b f = m\<lparr>
       bm_evicted_frame_count := bm_evicted_frame_count m
         + (if length (cb_frames b) = ?n then 1 else 0),
       bm_buffers := dict_set (bm_buffers m) ?d ((buffer_append b f)\<lparr> cb_retained_keys := R @ [?k] \<rparr>),
       bm_frames_by_key := index, bm_received_count := bm_received_count m + 1 \<rparr>"
    and R: "cb_retained_keys b = gone @ R" "length (R @ [?k]) \<le> ?n"
    and index: "\<And>k. dict_get index k = (if k \<in> set gone then None
            else dict_get (dict_set (bm_frames_by_key m) ?k f) k)"
    and dist: "distinct (dict_keys index)"
    by (rule accept_stored_eq [OF lens, of f]) (blast intro: manager_invD(3) [OF inv])
  have own: "dict_get (bm_frames_by_key m) k = Some g \<Longrightarrow> k \<in> set (cb_retained_keys b) \<longleftrightarrow> f_device_id g = ?d"
    for k g
    using c b manager_invD(5) [OF inv, of k g] by (fastforce simp: camera_inv_def)
  have k_new: "?k \<notin> set (cb_retained_keys b)" using c fresh by (fastforce simp: camera_inv_def)
  have "camera_inv ?n index ?d ((buffer_append b f)\<lparr> cb_retained_keys := R @ [?k] \<rparr>)"
    using c R k_new buffer_append_subset [of b f] index
    by (auto simp: camera_inv_def buffer_append_frames deque_append_length)
  moreover have "camera_inv ?n index d b'" if "d \<noteq> ?d" "dict_get (bm_buffers m) d = Some b'" for d b'
  proof -
    have c': "camera_inv ?n (bm_frames_by_key m) d b'" using manager_invD(4) [OF inv that(2)] .
    have "dict_get index k = dict_get (bm_frames_by_key m) k" if "k \<in> set (cb_retained_keys b')" for k
      using c' own [of k] \<open>d \<noteq> ?d\<close> that index R(1) fresh by (fastforce simp: camera_inv_def)
    with c' show ?thesis by (simp add: camera_inv_def)
  qed
  moreover have "\<exists>b'. dict_get (dict_set (bm_buffers m) ?d ((buffer_append b f)\<lparr> cb_retained_keys := R @ [?k] \<rparr>))
      (f_device_id g) = Some b' \<and> k \<in> set (cb_retained_keys b')" if "dict_get index k = Some g" for k g
    using that index manager_invD(5) [OF inv, of k g] own [of k g] R(1) by (auto split: if_splits)
  ultimately show ?thesis
    using manager_invD(1,2) [OF inv] dist unfolding eq manager_inv_def
    by (auto intro: dict_distinct_set split: if_splits)
qed

lemma setdefault_buffer_inv:
  assumes "manager_inv m" "setdefault_buffer m d = (m', b)"
  shows "manager_inv m'" "dict_get (bm_buffers m') d = Some b"
    "bm_frames_by_key m' = bm_frames_by_key m" "bm_buffer_size m' = bm_buffer_size m"
proof -
  have new: "camera_inv n index d (new_camera_buffer n)" for n index
    by (simp add: camera_inv_def new_camera_buffer_def)
  show "manager_inv m'"
    using assms new unfolding manager_inv_def
    by (auto simp: setdefault_buffer_def Let_def intro: dict_distinct_set split: option.splits if_splits)
       (metis option.distinct(1))+
qed (use assms in \<open>auto simp: setdefault_buffer_def Let_def split: option.splits\<close>)

lemma stored_of_input_simps [simp]:
  "f_device_id (stored_of_input frame) = f_device_id frame"
  "f_timestamp_ms (stored_of_input frame) = f_timestamp_ms frame"
  "f_sequence (stored_of_input frame) = f_sequence frame"
  "f_identity_mode (stored_of_input frame) = f_identity_mode frame"
  "f_buffer_key (stored_of_input frame) = build_buffer_key frame"
  by (simp_all add: stored_of_input_def SyncInputFrame.defs StoredSyncFrame.defs)

text \<open>The three outcomes of \<open>add_frame\<close>.\<close>

lemma add_frame_cases:
  assumes "manager_inv m"
  obtains (duplicate) "dict_get (bm_frames_by_key m) (build_buffer_key frame) \<noteq> None"
      "add_frame m frame = (None, m\<lparr> bm_duplicate_frame_count := bm_duplicate_frame_count m + 1 \<rparr>)"
  | (out_of_order) m' b where "setdefault_buffer m (f_device_id frame) = (m', b)" "manager_inv m'"
      "dict_get (bm_buffers m') (f_device_id frame) = Some b" "is_out_of_order b (stored_of_input frame)"
      "add_frame m frame = (None, m'\<lparr> bm_out_of_order_frame_count := bm_out_of_order_frame_count m' + 1 \<rparr>)"
  | (accepted) m' b where "setdefault_buffer m (f_device_id frame) = (m', b)" "manager_inv m'"
      "dict_get (bm_buffers m') (f_device_id frame) = Some b"
      "dict_get (bm_frames_by_key m') (build_buffer_key frame) = None"
      "\<not> is_out_of_order b (stored_of_input frame)"
      "add_frame m frame = (Some (stored_of_input frame), accept_stored m' b (stored_of_input frame))"
proof (cases "dict_get (bm_frames_by_key m) (build_buffer_key frame)")
  case None
  obtain m' b where sd: "setdefault_buffer m (f_device_id frame) = (m', b)" by fastforce
  show ?thesis
    using out_of_order [OF sd] accepted [OF sd] setdefault_buffer_inv [OF assms sd] None sd
    by (cases "is_out_of_order b (stored_of_input frame)") (simp_all add: add_frame_def Let_def)
next
  case (Some f)
  then show ?thesis by (intro duplicate) (simp_all add: add_frame_def Let_def)
qed

lemma manager_inv_counters [simp]:
  "manager_inv (m\<lparr> bm_duplicate_frame_count := x \<rparr>) = manager_inv m"
  "manager_inv (m\<lparr> bm_out_of_order_frame_count := x \<rparr>) = manager_inv m"
  by (simp_all add: manager_inv_def)

lemma add_frame_inv:
  assumes "manager_inv m" shows "manager_inv (snd (add_frame m frame))"
  by (rule add_frame_cases [OF assms, of frame]) (use assms in \<open>auto intro: accept_stored_inv\<close>)

lemma buffer_step_inv: "manager_inv m \<Longrightarrow> manager_inv (buffer_step m op)"
  by (cases op) (auto intro: add_frame_inv drop_frames_inv consume_through_inv finalize_archive_inv
      clear_buffers_inv)

interpretation bufm: guarded_machine buffer_step "\<lambda>_. True" manager_inv
  by unfold_locales (rule buffer_step_inv)

section \<open>Ordered cameras\<close>

text \<open>
  With V2 identities the manager rejects frames that go back in sequence or time. Then each
  camera's ring is ordered by arrival, its keys are the most recent retained keys, and the index
  and the ring agree on every buffered frame.
\<close>

definition frame_before :: "StoredSyncFrame \<Rightarrow> StoredSyncFrame \<Rightarrow> bool" where
  "frame_before f g \<longleftrightarrow> f_timestamp_ms f \<le> f_timestamp_ms g
     \<and> (\<forall>s t. f_sequence f = Some s \<longrightarrow> f_sequence g = Some t \<longrightarrow> s < t)"

definition camera_ordered :: "(string, StoredSyncFrame) dict \<Rightarrow> CameraSyncBuffer \<Rightarrow> bool" where
  "camera_ordered index b \<longleftrightarrow>
     (\<forall>f \<in> set (cb_frames b).
        f_identity_mode f = IDENTITY_MODE_V2 \<and> cb_source_identity b = Some (frame_identity f)
        \<and> dict_get index (f_buffer_key f) = Some f
        \<and> (\<exists>l. cb_last_timestamp_ms b = Some l \<and> f_timestamp_ms f \<le> l)
        \<and> (\<forall>s. f_sequence f = Some s \<longrightarrow> (\<exists>l. cb_last_sequence b = Some l \<and> s \<le> l)))
     \<and> sorted_wrt frame_before (cb_frames b)
     \<and> suffix (map f_buffer_key (cb_frames b)) (cb_retained_keys b)"

definition ordered_inv :: "SyncFrameBufferManager \<Rightarrow> bool" where
  "ordered_inv m \<longleftrightarrow> manager_inv m
     \<and> (\<forall>d b. dict_get (bm_buffers m) d = Some b \<longrightarrow> camera_ordered (bm_frames_by_key m) b)"

fun v2_op :: "buffer_op \<Rightarrow> bool" where
  "v2_op (OpAdd frame) = (f_identity_mode frame = IDENTITY_MODE_V2)"
| "v2_op _ = True"

lemma sorted_filter_suffix:
  assumes "\<And>f g. frame_before f g \<Longrightarrow> P f \<Longrightarrow> P g"
  shows "sorted_wrt frame_before fs \<Longrightarrow> suffix (filter P fs) fs"
proof (induction fs)
  case (Cons f fs)
  then show ?case
  proof (cases "P f")
    case True
    with Cons.prems assms have "filter P fs = fs" by (auto simp: filter_id_conv)
    with True show ?thesis by simp
  qed (auto intro: suffix_ConsI)
qed simp

lemma camera_ordered_suffix:
  assumes "camera_ordered index b" "suffix fs (cb_frames b)"
  shows "camera_ordered index (b\<lparr> cb_frames := fs \<rparr>)"
proof -
  from assms(2) obtain zs where zs: "cb_frames b = zs @ fs" by (auto simp: suffix_def)
  have "suffix (map f_buffer_key fs) (map f_buffer_key (cb_frames b))"
    unfolding zs by (simp add: suffix_def)
  with assms(1) have "suffix (map f_buffer_key fs) (cb_retained_keys b)"
    by (auto simp: camera_ordered_def intro: suffix_order.trans)
  with assms(1) show ?thesis
    by (auto simp: camera_ordered_def zs sorted_wrt_append)
qed

lemma camera_ordered_filter:
  assumes "camera_ordered index b" "\<And>f g. frame_before f g \<Longrightarrow> P f \<Longrightarrow> P g"
  shows "camera_ordered index (b\<lparr> cb_frames := filter P (cb_frames b) \<rparr>)"
  by (rule camera_ordered_suffix [OF assms(1)], rule sorted_filter_suffix)
    (use assms in \<open>auto simp: camera_ordered_def\<close>)

lemma ordered_inv_manager: "ordered_inv m \<Longrightarrow> manager_inv m"
  by (simp add: ordered_inv_def)

lemma ordered_inv_buffer:
  assumes "ordered_inv m" "dict_get (bm_buffers m) d = Some b"
    "camera_ordered (bm_frames_by_key m) b'" "manager_inv (m\<lparr> bm_buffers := dict_set (bm_buffers m) d b' \<rparr>)"
  shows "ordered_inv (m\<lparr> bm_buffers := dict_set (bm_buffers m) d b' \<rparr>)"
  using assms by (auto simp: ordered_inv_def split: if_splits)

lemma drop_frames_ordered: "ordered_inv m \<Longrightarrow> ordered_inv (snd (drop_frames_older_than m ds ts ex))"
proof (induction m ds ts ex rule: drop_frames_older_than.induct)
  case (2 m d ds ts ex)
  show ?case
  proof (cases "dict_get (bm_buffers m) d")
    case None
    with 2 show ?thesis by simp
  next
    case (Some b)
    obtain n b' where b': "buffer_drop_frames_older_than b ts ex = (n, b')" by fastforce
    have len: "length (cb_frames b) \<le> cb_max_frames b"
      using manager_invD(4) [OF ordered_inv_manager [OF "2.prems"] Some] by (simp add: camera_inv_def)
    then have eq: "b' = b\<lparr> cb_frames := filter (\<lambda>f. \<not> f_timestamp_ms f < ts) (cb_frames b) \<rparr>"
      using b' by (auto simp: buffer_drop_frames_older_than_def drop_loop_eq filter_deque)
    have "camera_ordered (bm_frames_by_key m) b'" unfolding eq
      by (rule camera_ordered_filter) (use "2.prems" Some in \<open>auto simp: ordered_inv_def frame_before_def\<close>)
    moreover have "manager_inv (m\<lparr> bm_buffers := dict_set (bm_buffers m) d b' \<rparr>)"
      using drop_frames_inv [OF ordered_inv_manager [OF "2.prems"], of "[d]" ts ex] Some b' by simp
    ultimately have "ordered_inv (m\<lparr> bm_buffers := dict_set (bm_buffers m) d b' \<rparr>)"
      by (rule ordered_inv_buffer [OF "2.prems" Some])
    with "2.IH"(2) [OF Some b' [symmetric] refl] Some b' show ?thesis by (auto split: prod.splits)
  qed
qed simp

lemma consume_through_ordered: "ordered_inv m \<Longrightarrow> ordered_inv (snd (consume_through m selected))"
proof (induction m selected rule: consume_through.induct)
  case (2 m d chosen selected)
  show ?case
  proof (cases "dict_get (bm_buffers m) d")
    case None
    with 2 show ?thesis by simp
  next
    case (Some b)
    obtain n b' where b': "consume_buffer b chosen = (n, b')" by fastforce
    have "length (cb_frames b) \<le> cb_max_frames b"
      using manager_invD(4) [OF ordered_inv_manager [OF "2.prems"] Some] by (simp add: camera_inv_def)
    then have eq: "b' = b\<lparr> cb_frames := filter (\<lambda>f. \<not> f_timestamp_ms f \<le> f_timestamp_ms chosen) (cb_frames b) \<rparr>"
      using b' by (auto simp: consume_buffer_def filter_deque)
    have "camera_ordered (bm_frames_by_key m) b'" unfolding eq
      by (rule camera_ordered_filter) (use "2.prems" Some in \<open>auto simp: ordered_inv_def frame_before_def\<close>)
    moreover have "manager_inv (m\<lparr> bm_buffers := dict_set (bm_buffers m) d b' \<rparr>)"
      using consume_through_inv [OF ordered_inv_manager [OF "2.prems"], of "[(d, chosen)]"] Some b' by simp
    ultimately have "ordered_inv (m\<lparr> bm_buffers := dict_set (bm_buffers m) d b' \<rparr>)"
      by (rule ordered_inv_buffer [OF "2.prems" Some])
    with "2.IH" [OF Some b' [symmetric] refl] Some b' show ?thesis by (auto split: prod.splits)
  qed
qed simp

lemma frame_device:
  assumes "manager_inv m" "dict_get (bm_buffers m) d = Some b" "f \<in> set (cb_frames b)"
  shows "f_device_id f = d"
  using manager_invD(4) [OF assms(1,2)] assms(3) by (auto simp: camera_inv_def)

lemma finalize_archive_ordered:
  assumes inv: "ordered_inv m"
  shows "ordered_inv (snd (finalize_archive m key i p st e))"
proof (cases "dict_get (bm_frames_by_key m) key")
  case None
  with inv show ?thesis by (simp add: finalize_archive_def)
next
  case (Some f)
  let ?g = "archived i p st e f" and ?d = "f_device_id f"
  note mi = ordered_inv_manager [OF inv]
  obtain b where b: "dict_get (bm_buffers m) ?d = Some b"
    using index_entry(2) [OF mi Some] by blast
  have key: "f_buffer_key f = key" by (rule index_entry(1) [OF mi Some])
  let ?upd = "\<lambda>item. if f_buffer_key item = key then ?g else item"
  let ?fs = "map ?upd (cb_frames b)"
  have ord: "camera_ordered (bm_frames_by_key m) b" using inv b by (auto simp: ordered_inv_def)
  have same: "item = f" if "item \<in> set (cb_frames b)" "f_buffer_key item = key" for item
    using ord that Some by (auto simp: camera_ordered_def)
  have keys: "map f_buffer_key ?fs = map f_buffer_key (cb_frames b)" using key by auto
  have "f_timestamp_ms (?upd x) = f_timestamp_ms x \<and> f_sequence (?upd x) = f_sequence x"
    if "x \<in> set (cb_frames b)" for x using same [OF that] by simp
  then have "frame_before (?upd x) (?upd y)"
    if "x \<in> set (cb_frames b)" "y \<in> set (cb_frames b)" "frame_before x y" for x y
    using that by (simp only: frame_before_def) simp
  with ord have "sorted_wrt frame_before ?fs"
    unfolding camera_ordered_def sorted_wrt_map by (blast intro: sorted_wrt_mono_rel)
  moreover have "suffix (map f_buffer_key ?fs) (cb_retained_keys b)"
    using ord unfolding keys by (simp add: camera_ordered_def)
  ultimately have mine: "camera_ordered (dict_set (bm_frames_by_key m) key ?g) (b\<lparr> cb_frames := ?fs \<rparr>)"
    using ord same key by (fastforce simp: camera_ordered_def simp del: map_map)
  have other: "camera_ordered (dict_set (bm_frames_by_key m) key ?g) b'"
    if "dict_get (bm_buffers m) d' = Some b'" "d' \<noteq> ?d" for d' b'
  proof -
    have ord': "camera_ordered (bm_frames_by_key m) b'" using inv that by (auto simp: ordered_inv_def)
    then have "f_buffer_key h \<noteq> key" if "h \<in> set (cb_frames b')" for h
      using that frame_device [OF mi \<open>dict_get (bm_buffers m) d' = Some b'\<close> that] \<open>d' \<noteq> ?d\<close> Some
      by (auto simp: camera_ordered_def)
    with ord' show ?thesis by (simp add: camera_ordered_def)
  qed
  have "length (cb_frames b) \<le> cb_max_frames b"
    using manager_invD(4) [OF mi b] by (simp add: camera_inv_def)
  then have "snd (finalize_archive m key i p st e) =
      m\<lparr> bm_frames_by_key := dict_set (bm_frames_by_key m) key ?g,
         bm_buffers := dict_set (bm_buffers m) ?d (b\<lparr> cb_frames := ?fs \<rparr>) \<rparr>"
    using Some b by (simp add: finalize_archive_def Let_def)
  with finalize_archive_inv [OF mi, of key i p st e] mine other show ?thesis
    by (auto simp: ordered_inv_def split: if_splits)
qed
lemma retained_device:
  assumes "camera_inv n index d b" "k \<in> set (cb_retained_keys b)" "dict_get index k = Some g"
  shows "f_device_id g = d"
  using assms by (auto simp: camera_inv_def)

lemma accept_stored_ordered:
  assumes inv: "ordered_inv m" and b: "dict_get (bm_buffers m) (f_device_id f) = Some b"
    and fresh: "dict_get (bm_frames_by_key m) (f_buffer_key f) = None"
    and v2: "f_identity_mode f = IDENTITY_MODE_V2" and in_order: "\<not> is_out_of_order b f"
  shows "ordered_inv (accept_stored m b f)"
proof -
  note mi = ordered_inv_manager [OF inv]
  let ?n = "bm_buffer_size m" and ?d = "f_device_id f" and ?k = "f_buffer_key f"
  have c: "camera_inv ?n (bm_frames_by_key m) ?d b" using manager_invD(4) [OF mi b] .
  then have lens: "length (cb_retained_keys b) \<le> ?n" "0 < ?n" "length (cb_frames b) \<le> ?n"
    "cb_max_frames b = ?n" "distinct (cb_retained_keys b)"
    using manager_invD(1) [OF mi] by (auto simp: camera_inv_def)
  have ord: "camera_ordered (bm_frames_by_key m) b" using inv b by (auto simp: ordered_inv_def)
  obtain R gone index where eq: "accept_stored m b f = m\<lparr>
       bm_evicted_frame_count := bm_evicted_frame_count m
         + (if length (cb_frames b) = ?n then 1 else 0),
       bm_buffers := dict_set (bm_buffers m) ?d ((buffer_append b f)\<lparr> cb_retained_keys := R @ [?k] \<rparr>),
       bm_frames_by_key := index, bm_received_count := bm_received_count m + 1 \<rparr>"
    and R: "cb_retained_keys b = gone @ R" "length (R @ [?k]) \<le> ?n"
    and gone: "gone = [] \<or> length (cb_retained_keys b) = ?n \<and> length gone = 1"
    and index: "\<And>k. dict_get index k = (if k \<in> set gone then None
            else dict_get (dict_set (bm_frames_by_key m) ?k f) k)"
    by (rule accept_stored_eq [OF lens(1,2), of f]) blast
  have rb: "camera_ordered (bm_frames_by_key m) (rebind_identity b f)"
    using ord by (auto simp: rebind_identity_def camera_ordered_def)
  have rlen: "length (cb_frames (rebind_identity b f)) \<le> ?n"
    using lens by (simp add: rebind_identity_def)
  obtain ys where ys: "cb_frames (buffer_append b f) = ys @ [f]"
    and suf: "suffix ys (cb_frames (rebind_identity b f))"
    using deque_append_cases [OF rlen lens(2), of f] lens(4) unfolding buffer_append_frames by metis
  have yord: "camera_ordered (bm_frames_by_key m) ((rebind_identity b f)\<lparr> cb_frames := ys \<rparr>)"
    by (rule camera_ordered_suffix [OF rb suf])
  have "length (ys @ [f]) \<le> ?n"
    using ys lens(4) deque_append_length [of ?n "cb_frames (rebind_identity b f)" f]
    by (simp add: buffer_append_frames)
  moreover have ysuf: "suffix (map f_buffer_key ys) (gone @ R)"
    using yord R(1) by (simp add: camera_ordered_def rebind_identity_def split: if_splits)
  ultimately have Rsuf: "suffix (map f_buffer_key ys) R"
    using gone R by (auto intro: suffix_length_suffix suffix_appendI)
  have idx: "dict_get index (f_buffer_key g) = Some g" if "g \<in> set ys" for g
  proof -
    have "dict_get (bm_frames_by_key m) (f_buffer_key g) = Some g" using yord that by (simp add: camera_ordered_def)
    moreover have "f_buffer_key g \<in> set R" using that set_mono_suffix [OF Rsuf] by auto
    ultimately show ?thesis using index lens(5) R(1) fresh by auto
  qed
  have before: "frame_before g f" if "g \<in> set ys" for g
  proof -
    have "g \<in> set (cb_frames (rebind_identity b f))" using that set_mono_suffix [OF suf] by auto
    then have "Some (frame_identity f) = cb_source_identity b" "g \<in> set (cb_frames b)"
      by (auto simp: rebind_identity_def split: if_splits)
    with in_order v2 ord show ?thesis
      by (fastforce simp: is_out_of_order_def camera_ordered_def frame_before_def split: option.splits)
  qed
  have last: "cb_last_timestamp_ms (buffer_append b f) = Some (f_timestamp_ms f)"
    "cb_source_identity (buffer_append b f) = Some (frame_identity f)"
    "cb_last_sequence (buffer_append b f) = (if f_sequence f \<noteq> None then f_sequence f
       else cb_last_sequence (rebind_identity b f))"
    by (auto simp: buffer_append_def rebind_identity_def Let_def)
  have "?k \<notin> set (cb_retained_keys b)" using c fresh by (fastforce simp: camera_inv_def)
  then have k_new: "?k \<notin> set (gone @ R)" using R(1) by simp
  have idf: "dict_get index ?k = Some f" using index [of ?k] k_new by simp
  have rid: "cb_source_identity (rebind_identity b f) = Some (frame_identity f)"
    by (simp add: rebind_identity_def)
  have member: "f_identity_mode g = IDENTITY_MODE_V2 \<and> frame_identity g = frame_identity f
      \<and> f_timestamp_ms g \<le> f_timestamp_ms f
      \<and> (\<forall>s. f_sequence g = Some s \<longrightarrow> (\<exists>l. cb_last_sequence (buffer_append b f) = Some l \<and> s \<le> l))"
    if "g \<in> set ys" for g
    using yord rid before [OF that] that unfolding last camera_ordered_def frame_before_def by fastforce
  have "sorted_wrt frame_before (ys @ [f])"
    using yord before by (simp add: camera_ordered_def sorted_wrt_append)
  moreover have "suffix (map f_buffer_key (ys @ [f])) (R @ [?k])" using Rsuf by simp
  ultimately have "camera_ordered index ((buffer_append b f)\<lparr> cb_retained_keys := R @ [?k] \<rparr>)"
    unfolding camera_ordered_def using member idx idf v2 last by (auto simp: ys)
  moreover have "camera_ordered index b'" if "d \<noteq> ?d" "dict_get (bm_buffers m) d = Some b'" for d b'
  proof -
    have ord': "camera_ordered (bm_frames_by_key m) b'" using inv that by (auto simp: ordered_inv_def)
    have "dict_get index (f_buffer_key g) = Some g" if "g \<in> set (cb_frames b')" for g
    proof -
      have g: "dict_get (bm_frames_by_key m) (f_buffer_key g) = Some g" using ord' that by (simp add: camera_ordered_def)
      have "f_device_id g \<noteq> ?d"
        using frame_device [OF mi \<open>dict_get (bm_buffers m) d = Some b'\<close> that] \<open>d \<noteq> ?d\<close> by simp
      then have "f_buffer_key g \<notin> set gone" using retained_device [OF c _ g] R(1) by auto
      with g fresh index show ?thesis by auto
    qed
    with ord' show ?thesis by (simp add: camera_ordered_def)
  qed
  ultimately show ?thesis using accept_stored_inv [OF mi b fresh] inv
    unfolding eq ordered_inv_def by (auto split: if_splits)
qed
lemma add_frame_ordered:
  assumes inv: "ordered_inv m" and v2: "f_identity_mode frame = IDENTITY_MODE_V2"
  shows "ordered_inv (snd (add_frame m frame))"
proof -
  have counters: "ordered_inv (n\<lparr> bm_duplicate_frame_count := x \<rparr>) = ordered_inv n"
    "ordered_inv (n\<lparr> bm_out_of_order_frame_count := x \<rparr>) = ordered_inv n" for n x
    by (simp_all add: ordered_inv_def)
  have sd: "ordered_inv m'" if "setdefault_buffer m d = (m', b)" "manager_inv m'" for d m' b
    using inv that
    by (auto simp: ordered_inv_def setdefault_buffer_def Let_def camera_ordered_def new_camera_buffer_def
        split: option.splits if_splits)
  show ?thesis
    by (rule add_frame_cases [OF ordered_inv_manager [OF inv], of frame])
      (use inv v2 counters sd in \<open>auto intro: accept_stored_ordered\<close>)
qed

lemma buffer_step_ordered: "ordered_inv m \<Longrightarrow> v2_op op \<Longrightarrow> ordered_inv (buffer_step m op)"
  by (cases op) (auto intro: add_frame_ordered drop_frames_ordered consume_through_ordered
      finalize_archive_ordered, simp add: ordered_inv_def clear_buffers_def manager_inv_def)

interpretation bufo: guarded_machine buffer_step v2_op ordered_inv
  by unfold_locales (rule buffer_step_ordered)

section \<open>Retention and counting\<close>

lemma index_size_bound:
  assumes inv: "manager_inv m"
  shows "length (bm_frames_by_key m) \<le> length (bm_buffers m) * bm_buffer_size m"
proof -
  let ?A = "\<lambda>(d, b). set (cb_retained_keys b)"
  have "set (dict_keys (bm_frames_by_key m)) \<subseteq> (\<Union>e \<in> set (bm_buffers m). ?A e)"
  proof
    fix k assume "k \<in> set (dict_keys (bm_frames_by_key m))"
    then obtain f where f: "dict_get (bm_frames_by_key m) k = Some f"
      by (metis map_of_eq_None_iff not_None_eq set_map)
    then show "k \<in> (\<Union>e \<in> set (bm_buffers m). ?A e)"
      using index_entry(2) [OF inv f] by (fastforce dest: map_of_SomeD)
  qed
  then have "card (set (dict_keys (bm_frames_by_key m))) \<le> card (\<Union>e \<in> set (bm_buffers m). ?A e)"
    by (intro card_mono) auto
  also have "\<dots> \<le> (\<Sum>e \<in> set (bm_buffers m). card (?A e))"
    by (rule card_UN_le) simp
  also have "\<dots> \<le> of_nat (card (set (bm_buffers m))) * bm_buffer_size m"
  proof (rule sum_bounded_above)
    fix e assume e: "e \<in> set (bm_buffers m)"
    obtain d b where "e = (d, b)" by fastforce
    with e have "dict_get (bm_buffers m) d = Some b"
      using manager_invD(2) [OF inv] by (simp add: map_of_eq_Some_iff)
    then have "length (cb_retained_keys b) \<le> bm_buffer_size m"
      using manager_invD(4) [OF inv] by (simp add: camera_inv_def)
    then show "card (?A e) \<le> bm_buffer_size m"
      using \<open>e = (d, b)\<close> card_length [of "cb_retained_keys b"] by simp
  qed
  also have "\<dots> \<le> length (bm_buffers m) * bm_buffer_size m"
    using card_length [of "bm_buffers m"] by simp
  finally show ?thesis
    unfolding distinct_card [OF manager_invD(3) [OF inv]] by simp
qed

definition handled_count :: "SyncFrameBufferManager \<Rightarrow> int" where
  "handled_count m = bm_received_count m + bm_duplicate_frame_count m + bm_out_of_order_frame_count m"

lemma accept_stored_counts [simp]:
  "bm_received_count (accept_stored m b f) = bm_received_count m + 1"
  "bm_duplicate_frame_count (accept_stored m b f) = bm_duplicate_frame_count m"
  "bm_out_of_order_frame_count (accept_stored m b f) = bm_out_of_order_frame_count m"
  "bm_buffer_size (accept_stored m b f) = bm_buffer_size m"
  by (simp_all add: accept_stored_def Let_def split: prod.splits)

lemma setdefault_counts:
  "setdefault_buffer m d = (m', b) \<Longrightarrow> bm_received_count m' = bm_received_count m
     \<and> bm_duplicate_frame_count m' = bm_duplicate_frame_count m
     \<and> bm_out_of_order_frame_count m' = bm_out_of_order_frame_count m"
  by (auto simp: setdefault_buffer_def Let_def split: option.splits)

lemma add_frame_counts:
  assumes "manager_inv m"
  shows "handled_count (snd (add_frame m frame)) = handled_count m + 1
    \<and> bm_received_count (snd (add_frame m frame))
        = bm_received_count m + (if fst (add_frame m frame) = None then 0 else 1)"
  by (rule add_frame_cases [OF assms, of frame])
    (auto simp: handled_count_def dest: setdefault_counts)

lemma add_frame_accepts:
  assumes inv: "manager_inv m" and acc: "add_frame m frame = (Some f, m')"
  shows "f = stored_of_input frame" "dict_get (bm_frames_by_key m') (f_buffer_key f) = Some f"
    "\<exists>b. dict_get (bm_buffers m') (f_device_id f) = Some b \<and> f \<in> set (cb_frames b)"
proof -
  obtain m0 b where m0: "manager_inv m0" "dict_get (bm_buffers m0) (f_device_id frame) = Some b"
      "dict_get (bm_frames_by_key m0) (build_buffer_key frame) = None"
    and eq: "f = stored_of_input frame" "m' = accept_stored m0 b (stored_of_input frame)"
    by (rule add_frame_cases [OF inv, of frame]) (use acc in auto)
  show "f = stored_of_input frame" by (rule eq(1))
  have c: "camera_inv (bm_buffer_size m0) (bm_frames_by_key m0) (f_device_id frame) b"
    using manager_invD(4) [OF m0(1,2)] .
  have lens: "length (cb_retained_keys b) \<le> bm_buffer_size m0" "0 < bm_buffer_size m0"
    using c manager_invD(1) [OF m0(1)] by (auto simp: camera_inv_def)
  obtain R gone index where acc': "m' = m0\<lparr>
       bm_evicted_frame_count := bm_evicted_frame_count m0
         + (if length (cb_frames b) = bm_buffer_size m0 then 1 else 0),
       bm_buffers := dict_set (bm_buffers m0) (f_device_id f)
         ((buffer_append b f)\<lparr> cb_retained_keys := R @ [f_buffer_key f] \<rparr>),
       bm_frames_by_key := index,
       bm_received_count := bm_received_count m0 + 1 \<rparr>"
    "cb_retained_keys b = gone @ R"
    "\<And>k. dict_get index k = (if k \<in> set gone then None
            else dict_get (dict_set (bm_frames_by_key m0) (f_buffer_key f) f) k)"
    unfolding eq by (rule accept_stored_eq [OF lens, of "stored_of_input frame"]) blast
  have "f_buffer_key f \<notin> set (cb_retained_keys b)"
    using c m0(3) eq(1) by (fastforce simp: camera_inv_def)
  then show "dict_get (bm_frames_by_key m') (f_buffer_key f) = Some f"
    using acc' by simp
  have "f \<in> set (cb_frames (buffer_append b f))"
    using deque_append_last [OF lens(2), of "cb_frames (rebind_identity b f)" f] c
    unfolding buffer_append_frames by (metis camera_inv_def last_in_set)
  then show "\<exists>b. dict_get (bm_buffers m') (f_device_id f) = Some b \<and> f \<in> set (cb_frames b)"
    using acc' by simp
qed

text \<open>Delivering an accepted frame again is a counted no-op.\<close>

lemma add_frame_replay:
  assumes "manager_inv m" "add_frame m frame = (Some f, m')"
  shows "add_frame m' frame = (None, m'\<lparr> bm_duplicate_frame_count := bm_duplicate_frame_count m' + 1 \<rparr>)"
  using add_frame_accepts(1,2) [OF assms] by (simp add: add_frame_def Let_def)

section \<open>Nearest and available frames\<close>

definition near_candidate :: "int \<Rightarrow> int \<Rightarrow> string set \<Rightarrow> StoredSyncFrame \<Rightarrow> bool" where
  "near_candidate anchor window excluded f \<longleftrightarrow>
     f_buffer_key f \<notin> excluded \<and> \<bar>f_timestamp_ms f - anchor\<bar> \<le> window"

text \<open>The loop is a fold over the candidates that keeps the first closest one.\<close>

definition closer :: "int \<Rightarrow> (StoredSyncFrame \<times> int) option \<Rightarrow> StoredSyncFrame \<Rightarrow> (StoredSyncFrame \<times> int) option" where
  "closer anchor best f =
     (let d = \<bar>f_timestamp_ms f - anchor\<bar>
      in if (case best of None \<Rightarrow> True | Some (_, d') \<Rightarrow> d < d') then Some (f, d) else best)"

lemma nearest_loop_fold:
  "nearest_loop anchor window excluded best fs =
     foldl (closer anchor) best (filter (near_candidate anchor window excluded) fs)"
  by (induction anchor window excluded best fs rule: nearest_loop.induct)
    (auto simp: near_candidate_def closer_def Let_def)

lemma closer_fold:
  "\<exists>g'. foldl (closer anchor) (Some (g, \<bar>f_timestamp_ms g - anchor\<bar>)) cs = Some (g', \<bar>f_timestamp_ms g' - anchor\<bar>)
     \<and> g' \<in> insert g (set cs)
     \<and> (\<forall>f \<in> insert g (set cs). \<bar>f_timestamp_ms g' - anchor\<bar> \<le> \<bar>f_timestamp_ms f - anchor\<bar>)"
proof (induction cs arbitrary: g)
  case (Cons c cs)
  show ?case
  proof (cases "\<bar>f_timestamp_ms c - anchor\<bar> < \<bar>f_timestamp_ms g - anchor\<bar>")
    case True
    with Cons.IH [of c] show ?thesis by (auto simp: closer_def)
  next
    case False
    with Cons.IH [of g] show ?thesis by (auto simp: closer_def)
  qed
qed simp

lemma buffer_nearest_frame_spec:
  "case buffer_nearest_frame b anchor window excluded of
     None \<Rightarrow> \<forall>f \<in> set (cb_frames b). \<not> near_candidate anchor window excluded f
   | Some g \<Rightarrow> g \<in> set (cb_frames b) \<and> near_candidate anchor window excluded g
       \<and> (\<forall>f \<in> set (cb_frames b). near_candidate anchor window excluded f \<longrightarrow>
            \<bar>f_timestamp_ms g - anchor\<bar> \<le> \<bar>f_timestamp_ms f - anchor\<bar>)"
proof (cases "filter (near_candidate anchor window excluded) (cb_frames b)")
  case Nil
  then show ?thesis by (simp add: buffer_nearest_frame_def nearest_loop_fold filter_empty_conv)
next
  case (Cons c cs)
  have mem: "f \<in> insert c (set cs) \<longleftrightarrow> f \<in> set (cb_frames b) \<and> near_candidate anchor window excluded f" for f
    using arg_cong [OF Cons, of set] by auto
  have "foldl (closer anchor) None (c # cs) = foldl (closer anchor) (Some (c, \<bar>f_timestamp_ms c - anchor\<bar>)) cs"
    by (simp add: closer_def)
  with closer_fold [of anchor c cs] obtain g where
    g: "foldl (closer anchor) None (c # cs) = Some (g, \<bar>f_timestamp_ms g - anchor\<bar>)"
    "g \<in> insert c (set cs)"
    "\<forall>f \<in> insert c (set cs). \<bar>f_timestamp_ms g - anchor\<bar> \<le> \<bar>f_timestamp_ms f - anchor\<bar>" by metis
  have "g \<in> set (cb_frames b) \<and> near_candidate anchor window excluded g" using mem g(2) by blast
  moreover have "\<forall>f \<in> set (cb_frames b). near_candidate anchor window excluded f \<longrightarrow>
      \<bar>f_timestamp_ms g - anchor\<bar> \<le> \<bar>f_timestamp_ms f - anchor\<bar>" using mem g(3) by blast
  ultimately show ?thesis
    using g(1) by (simp add: buffer_nearest_frame_def nearest_loop_fold Cons)
qed

lemma available_frames_set:
  "set (available_frames m d excluded) =
     (case dict_get (bm_buffers m) d of None \<Rightarrow> {}
      | Some b \<Rightarrow> {f \<in> set (cb_frames b). f_buffer_key f \<notin> excluded})"
  by (auto simp: available_frames_def buffer_available_frames_def split: option.splits)

lemma available_frames_sorted: "sorted (map f_timestamp_ms (available_frames m d excluded))"
proof -
  have "sorted_wrt (\<lambda>f g. frame_order f \<le> frame_order g) (sort_key frame_order fs)" for fs :: "StoredSyncFrame list"
    using sorted_sort_key [of frame_order fs] by (simp add: sorted_map)
  then have "sorted_wrt (\<lambda>f g. f_timestamp_ms f \<le> f_timestamp_ms g) (sort_key frame_order fs)" for fs :: "StoredSyncFrame list"
    by (rule sorted_wrt_mono_rel [rotated]) (auto simp: frame_order_def)
  then show ?thesis
    by (simp add: available_frames_def buffer_available_frames_def sorted_map split: option.splits)
qed

section \<open>Consuming a selection\<close>

text \<open>After a selection is consumed, a selected camera holds exactly its later frames.\<close>

lemma consume_through_spec:
  assumes "manager_inv m" "distinct (map fst selected)"
    and "\<forall>d \<in> set (map fst selected). dict_get (bm_buffers m) d \<noteq> None"
  shows "\<exists>n m'. consume_through m selected = (Inr n, m') \<and> 0 \<le> n
    \<and> bm_frames_by_key m' = bm_frames_by_key m
    \<and> (\<forall>d. dict_get (bm_buffers m') d =
         (case dict_get (bm_buffers m) d of None \<Rightarrow> None
          | Some b \<Rightarrow> Some (case map_of selected d of None \<Rightarrow> b
              | Some c \<Rightarrow> b\<lparr> cb_frames := filter (\<lambda>f. f_timestamp_ms c < f_timestamp_ms f) (cb_frames b) \<rparr>)))"
  using assms
proof (induction m selected rule: consume_through.induct)
  case (2 m d chosen selected)
  then obtain b where b: "dict_get (bm_buffers m) d = Some b" by auto
  obtain n b' where b': "consume_buffer b chosen = (n, b')" by fastforce
  let ?m = "m\<lparr> bm_buffers := dict_set (bm_buffers m) d b' \<rparr>"
  have "length (cb_frames b) \<le> cb_max_frames b"
    using manager_invD(4) [OF "2.prems"(1) b] by (simp add: camera_inv_def)
  then have eq: "b' = b\<lparr> cb_frames := filter (\<lambda>f. f_timestamp_ms chosen < f_timestamp_ms f) (cb_frames b) \<rparr>"
    and n: "0 \<le> n"
    using b' by (auto simp: consume_buffer_def filter_deque not_le)
  have "manager_inv ?m"
    using consume_through_inv [OF "2.prems"(1), of "[(d, chosen)]"] b b' by simp
  with "2.IH" [OF b b' [symmetric] refl] "2.prems"
  obtain n' m' where m': "consume_through ?m selected = (Inr n', m')" "0 \<le> n'"
    "bm_frames_by_key m' = bm_frames_by_key m"
    "\<And>x. dict_get (bm_buffers m') x =
       (case dict_get (bm_buffers ?m) x of None \<Rightarrow> None
        | Some b \<Rightarrow> Some (case map_of selected x of None \<Rightarrow> b
            | Some c \<Rightarrow> b\<lparr> cb_frames := filter (\<lambda>f. f_timestamp_ms c < f_timestamp_ms f) (cb_frames b) \<rparr>))"
    by (fastforce split: if_splits)
  have "map_of selected d = None" using "2.prems"(2) by (auto simp: map_of_eq_None_iff)
  with m' b b' eq n show ?case by (auto split: option.splits)
qed (auto split: option.splits)
section \<open>Buffer keys\<close>

lemma last_colon_unique:
  assumes "xs @ CHR '':'' # c = ys @ CHR '':'' # d" "CHR '':'' \<notin> set c" "CHR '':'' \<notin> set d"
  shows "xs = ys \<and> c = d"
proof -
  have tw: "takeWhile (\<lambda>x. x \<noteq> CHR '':'') (rev e @ CHR '':'' # zs) = rev e" if "CHR '':'' \<notin> set e" for e zs
    using that by (subst takeWhile_append2) auto
  have "rev c @ CHR '':'' # rev xs = rev d @ CHR '':'' # rev ys"
    using arg_cong [OF assms(1), of rev] by simp
  then have "rev c = rev d" using tw [OF assms(2)] tw [OF assms(3)] by metis
  then show ?thesis using assms(1) by simp
qed

lemma py_str_int_no_colon: "CHR '':'' \<notin> set (py_str_int i)"
proof -
  have "\<not> is_digit (CHR '':'')" by (simp add: is_digit_def)
  then have "CHR '':'' \<notin> set (nat_digits n)" for n
    using nat_digits_digits [of n] by (auto simp: list_all_iff)
  then show ?thesis by (simp add: py_str_int_def)
qed

definition sequence_text :: "int option \<Rightarrow> string" where
  "sequence_text s = (case s of Some n \<Rightarrow> py_str_int n | None \<Rightarrow> ''-'')"

lemma sequence_text_no_colon: "CHR '':'' \<notin> set (sequence_text s)"
  using py_str_int_no_colon by (cases s) (auto simp: sequence_text_def)

lemma py_str_int_not_dash: "py_str_int n \<noteq> ''-''"
  using nat_digits_hd_digit [of "nat n"] by (auto simp: py_str_int_def)

lemma sequence_text_inj: "sequence_text a = sequence_text b \<Longrightarrow> a = b"
  using py_str_int_not_dash by (cases a; cases b) (auto simp: sequence_text_def py_str_int_inj dest: sym)

definition frame_digest :: "SyncInputFrame \<Rightarrow> string" where
  "frame_digest frame = str_or (f_content_digest frame) (sha256_bytes (f_image_bytes frame))"

lemma build_buffer_key_alt:
  "build_buffer_key frame =
     (case (f_source_frame_uid frame, f_frame_id frame) of
        (Some (c # u), _) \<Rightarrow> ''source:'' @ c # u
      | (_, Some i) \<Rightarrow> ''db:'' @ py_str_int i
      | (_, None) \<Rightarrow> (''legacy:'' @ f_device_id frame @ '':'' @ py_str_int (f_timestamp_ms frame)
          @ '':'' @ sequence_text (f_sequence frame)) @ '':'' @ frame_digest frame)"
  by (auto simp: build_buffer_key_def sequence_text_def frame_digest_def Let_def truthy_iff
      split: option.splits list.splits)

lemma legacy_text_unique:
  assumes "(p @ d @ '':'' @ py_str_int t @ '':'' @ sequence_text s) @ '':'' @ c =
           (p @ d' @ '':'' @ py_str_int t' @ '':'' @ sequence_text s') @ '':'' @ c'"
    and "CHR '':'' \<notin> set c" "CHR '':'' \<notin> set c'"
  shows "d = d' \<and> t = t' \<and> s = s' \<and> c = c'"
proof -
  have c: "p @ d @ '':'' @ py_str_int t @ '':'' @ sequence_text s =
      p @ d' @ '':'' @ py_str_int t' @ '':'' @ sequence_text s' \<and> c = c'"
    by (rule last_colon_unique) (use assms in auto)
  have s: "d @ '':'' @ py_str_int t = d' @ '':'' @ py_str_int t' \<and> sequence_text s = sequence_text s'"
    by (rule last_colon_unique) (use c sequence_text_no_colon in auto)
  have "d = d' \<and> py_str_int t = py_str_int t'"
    by (rule last_colon_unique) (use s py_str_int_no_colon in auto)
  with c s show ?thesis by (auto simp: py_str_int_inj dest: sequence_text_inj)
qed

end
