(* ===== verification/MinSpan.thy ===== *)
theory MinSpan
  imports FrameBuffer
begin

text \<open>
  \<open>SyncMatcher._select_min_span_candidate\<close> of \<^verbatim>\<open>src/app/services/sync/matcher.py\<close>: one frame per
  expected camera with the smallest timestamp span, by merging the cameras' sorted candidate
  lists through a heap. The theory shows that the search is total and optimal: the selection it
  returns takes one available frame of each camera, and no selection has a smaller span.
\<close>

section \<open>The heap\<close>

text \<open>
  A heap entry is \<open>(timestamp_ms, buffer_key, device_id, index, frame)\<close>. Tuples compare
  lexicographically, and two entries never have the same device, so the frame itself is never
  compared. What \<open>heappop\<close> returns depends on the contents only, so the heap is kept as the list
  of its entries in order.
\<close>

type_synonym heap_entry = "int \<times> string \<times> string \<times> nat \<times> StoredSyncFrame"

fun entry_key :: "heap_entry \<Rightarrow> int \<times> string \<times> string \<times> nat" where
  "entry_key (ts, key, device, index, frame) = (ts, key, device, index)"

definition heappush :: "heap_entry list \<Rightarrow> heap_entry \<Rightarrow> heap_entry list" where
  "heappush heap e = insort_key entry_key e heap"

definition heappop :: "heap_entry list \<Rightarrow> (heap_entry \<times> heap_entry list) option" where
  "heappop heap = (case heap of [] \<Rightarrow> None | e # rest \<Rightarrow> Some (e, rest))"

text \<open>What the search relies on: a priority queue over its contents.\<close>

locale priority_queue =
  fixes push :: "'h \<Rightarrow> 'e \<Rightarrow> 'h"
    and pop :: "'h \<Rightarrow> ('e \<times> 'h) option"
    and contents :: "'h \<Rightarrow> 'e multiset"
    and key :: "'e \<Rightarrow> 'k::linorder"
    and invar :: "'h \<Rightarrow> bool"
  assumes push_contents: "contents (push h e) = add_mset e (contents h)"
    and push_invar: "invar h \<Longrightarrow> invar (push h e)"
    and pop_empty: "pop h = None \<longleftrightarrow> contents h = {#}"
    and pop_contents: "pop h = Some (e, h') \<Longrightarrow> contents h = add_mset e (contents h')"
    and pop_invar: "invar h \<Longrightarrow> pop h = Some (e, h') \<Longrightarrow> invar h'"
    and pop_least: "invar h \<Longrightarrow> pop h = Some (e, h') \<Longrightarrow> e' \<in># contents h \<Longrightarrow> key e \<le> key e'"
begin

text \<open>Replacing the least entry: one step of a merge.\<close>

lemma replace_contents:
  "pop h = Some (e, h') \<Longrightarrow> contents (push h' e') = add_mset e' (contents h - {#e#})"
  using pop_contents [of h e h'] by (simp add: push_contents)

lemma replace_sum:
  fixes w :: "'e \<Rightarrow> nat"
  assumes "pop h = Some (e, h')" "w e' < w e"
  shows "sum_mset (image_mset w (contents (push h' e'))) < sum_mset (image_mset w (contents h))"
  using pop_contents [OF assms(1)] assms(2) by (simp add: push_contents)

end

interpretation heapq: priority_queue heappush heappop mset entry_key "\<lambda>h. sorted (map entry_key h)"
proof
  fix h e h' e'
  show "mset (heappush h e) = add_mset e (mset h)" by (simp add: heappush_def)
  show "sorted (map entry_key h) \<Longrightarrow> sorted (map entry_key (heappush h e))"
    by (simp add: heappush_def sorted_insort_key)
  show "heappop h = None \<longleftrightarrow> mset h = {#}" by (simp add: heappop_def split: list.splits)
  show "heappop h = Some (e, h') \<Longrightarrow> mset h = add_mset e (mset h')"
    by (auto simp: heappop_def split: list.splits)
  show "sorted (map entry_key h) \<Longrightarrow> heappop h = Some (e, h') \<Longrightarrow> sorted (map entry_key h')"
    by (auto simp: heappop_def split: list.splits)
  show "sorted (map entry_key h) \<Longrightarrow> heappop h = Some (e, h') \<Longrightarrow> e' \<in># mset h \<Longrightarrow> entry_key e \<le> entry_key e'"
    by (auto simp: heappop_def split: list.splits)
qed

section \<open>The search\<close>

type_synonym candidates = "(string, StoredSyncFrame list) dict"
type_synonym selection = "(string, StoredSyncFrame) dict"

text \<open>The first loop: the candidate lists, and the cameras that have none.\<close>

fun collect_candidates ::
  "SyncFrameBufferManager \<Rightarrow> string list \<Rightarrow> candidates \<Rightarrow> string list \<Rightarrow> candidates \<times> string list" where
  "collect_candidates m [] cands missing = (cands, missing)"
| "collect_candidates m (device_id # ds) cands missing =
     (let frames = available_frames m device_id {}
      in if frames = [] then collect_candidates m ds cands (missing @ [device_id])
         else collect_candidates m ds (dict_set cands device_id frames) missing)"

definition entry_of :: "string \<Rightarrow> nat \<Rightarrow> StoredSyncFrame \<Rightarrow> heap_entry" where
  "entry_of device_id index frame = (f_timestamp_ms frame, f_buffer_key frame, device_id, index, frame)"

text \<open>The second loop: the first frame of every list enters the heap.\<close>

fun seed_heap ::
  "candidates \<Rightarrow> heap_entry list \<Rightarrow> selection \<Rightarrow> int option \<Rightarrow> (heap_entry list \<times> selection \<times> int option) result" where
  "seed_heap [] heap current current_max = Inr (heap, current, current_max)"
| "seed_heap ((device_id, frames) # cands) heap current current_max =
     (case frames of
        [] \<Rightarrow> Inl (IndexError ''frames[0]'')
      | frame # _ \<Rightarrow>
          seed_heap cands (heappush heap (entry_of device_id 0 frame)) (dict_set current device_id frame)
            (case current_max of None \<Rightarrow> Some (f_timestamp_ms frame)
             | Some mx \<Rightarrow> Some (max mx (f_timestamp_ms frame))))"

definition entry_left :: "candidates \<Rightarrow> heap_entry \<Rightarrow> nat" where
  "entry_left cands e =
     (case e of (ts, key, device, index, frame) \<Rightarrow>
        (case dict_get cands device of None \<Rightarrow> 0 | Some frames \<Rightarrow> length frames - index))"

text \<open>The third loop: pop the earliest frame, note the span, advance that camera.\<close>

function select_loop ::
  "candidates \<Rightarrow> heap_entry list \<Rightarrow> selection \<Rightarrow> int \<Rightarrow> (selection \<times> int) option
   \<Rightarrow> (selection \<times> int) option result" where
  "select_loop cands heap current current_max best =
     (case heappop heap of
        None \<Rightarrow> Inr best
      | Some ((min_ts, key, device_id, index, frame), rest) \<Rightarrow>
          (let span_ms = current_max - min_ts;
               better = (case best of None \<Rightarrow> True | Some (_, b) \<Rightarrow> span_ms < b);
               best = (if better then Some (current, span_ms) else best)
           in if better \<and> span_ms = 0 then Inr best
              else (case dict_get cands device_id of
                None \<Rightarrow> Inl (KeyError device_id)
              | Some frames \<Rightarrow>
                  if index + 1 \<ge> length frames then Inr best
                  else (let next_frame = frames ! (index + 1)
                        in select_loop cands
                             (heappush rest (entry_of device_id (index + 1) next_frame))
                             (dict_set current device_id next_frame)
                             (max current_max (f_timestamp_ms next_frame)) best))))"
  by pat_completeness auto
termination
proof (relation "measure (\<lambda>(cands, heap, current, mx, best). \<Sum>\<^sub># (image_mset (entry_left cands) (mset heap)))",
    goal_cases)
  case 1
  show ?case by simp
next
  case (2 cands heap current mx best p e rest ts r1 key r2 device r3 index frame span better best' frames nf)
  then show ?case
    by (auto intro!: heapq.replace_sum simp: entry_left_def entry_of_def)
qed

declare select_loop.simps [simp del]

definition select_min_span_candidate ::
  "SyncFrameBufferManager \<Rightarrow> string list \<Rightarrow> int \<Rightarrow> ((selection \<times> int) option \<times> string list) result" where
  "select_min_span_candidate m expected_cameras window_ms =
     (case collect_candidates m expected_cameras [] [] of
        (cands, missing) \<Rightarrow>
          if missing \<noteq> [] then Inr (None, missing)
          else
            bind_result (seed_heap cands [] [] None) (\<lambda>(heap, current, current_max).
            bind_result
              (case current_max of None \<Rightarrow> Inr None | Some mx \<Rightarrow> select_loop cands heap current mx None)
              (\<lambda>best. case best of
                 None \<Rightarrow> Inr (None, [])
               | Some (frames, span) \<Rightarrow>
                   if span > window_ms then Inr (None, []) else Inr (Some (frames, span), []))))"

section \<open>Selections and spans\<close>

text \<open>
  A choice takes a position in every candidate list; it lies within a span when no two of its
  timestamps are further apart.
\<close>

definition sorted_candidates :: "candidates \<Rightarrow> bool" where
  "sorted_candidates cands \<longleftrightarrow> distinct (dict_keys cands)
     \<and> (\<forall>d fs. dict_get cands d = Some fs \<longrightarrow> fs \<noteq> [] \<and> sorted (map f_timestamp_ms fs))"

definition choice_ts :: "candidates \<Rightarrow> (string \<Rightarrow> nat) \<Rightarrow> string \<Rightarrow> int" where
  "choice_ts cands j d = f_timestamp_ms (the (dict_get cands d) ! j d)"

definition valid_choice :: "candidates \<Rightarrow> (string \<Rightarrow> nat) \<Rightarrow> bool" where
  "valid_choice cands j \<longleftrightarrow> (\<forall>d fs. dict_get cands d = Some fs \<longrightarrow> j d < length fs)"

definition choice_within :: "candidates \<Rightarrow> (string \<Rightarrow> nat) \<Rightarrow> int \<Rightarrow> bool" where
  "choice_within cands j s \<longleftrightarrow>
     (\<forall>d \<in> set (dict_keys cands). \<forall>e \<in> set (dict_keys cands). choice_ts cands j d - choice_ts cands j e \<le> s)"

definition selection_span :: "selection \<Rightarrow> int \<Rightarrow> bool" where
  "selection_span sel s \<longleftrightarrow>
     (\<forall>f \<in> set (dict_values sel). \<forall>g \<in> set (dict_values sel). f_timestamp_ms f - f_timestamp_ms g \<le> s)
     \<and> (\<exists>f \<in> set (dict_values sel). \<exists>g \<in> set (dict_values sel). f_timestamp_ms f - f_timestamp_ms g = s)"

definition covers :: "candidates \<Rightarrow> selection \<Rightarrow> bool" where
  "covers cands sel \<longleftrightarrow> dict_keys sel = dict_keys cands
     \<and> (\<forall>d f. dict_get sel d = Some f \<longrightarrow> (\<exists>fs. dict_get cands d = Some fs \<and> f \<in> set fs))"

section \<open>The invariant of the merge\<close>

definition entry_ok :: "candidates \<Rightarrow> selection \<Rightarrow> heap_entry \<Rightarrow> bool" where
  "entry_ok cands current e =
     (case e of (ts, key, d, i, f) \<Rightarrow>
        ts = f_timestamp_ms f \<and> dict_get current d = Some f
        \<and> (\<exists>fs. dict_get cands d = Some fs \<and> i < length fs \<and> f = fs ! i))"

fun entry_device :: "heap_entry \<Rightarrow> string" where
  "entry_device (ts, key, d, i, f) = d"

fun entry_index :: "heap_entry \<Rightarrow> nat" where
  "entry_index (ts, key, d, i, f) = i"

fun entry_ts :: "heap_entry \<Rightarrow> int" where
  "entry_ts (ts, key, d, i, f) = ts"

definition merge_inv :: "candidates \<Rightarrow> heap_entry list \<Rightarrow> selection \<Rightarrow> int \<Rightarrow> bool" where
  "merge_inv cands heap current mx \<longleftrightarrow>
     sorted_candidates cands \<and> sorted (map entry_key heap)
     \<and> image_mset entry_device (mset heap) = mset (dict_keys cands)
     \<and> dict_keys current = dict_keys cands
     \<and> (\<forall>e \<in> set heap. entry_ok cands current e \<and> entry_ts e \<le> mx)
     \<and> (\<exists>e \<in> set heap. entry_ts e = mx)"

text \<open>Every choice that lies behind some cursor is no better than the best span so far.\<close>

definition pruned :: "candidates \<Rightarrow> heap_entry list \<Rightarrow> (selection \<times> int) option \<Rightarrow> bool" where
  "pruned cands heap best \<longleftrightarrow>
     (\<forall>j s. valid_choice cands j \<and> choice_within cands j s
        \<and> (\<exists>e \<in> set heap. j (entry_device e) < entry_index e)
        \<longrightarrow> (\<exists>c b. best = Some (c, b) \<and> b \<le> s))"

definition best_ok :: "candidates \<Rightarrow> (selection \<times> int) option \<Rightarrow> bool" where
  "best_ok cands best \<longleftrightarrow> (\<forall>c b. best = Some (c, b) \<longrightarrow> covers cands c \<and> selection_span c b)"

definition better_of :: "selection \<Rightarrow> int \<Rightarrow> (selection \<times> int) option \<Rightarrow> (selection \<times> int) option" where
  "better_of current span best =
     (if (case best of None \<Rightarrow> True | Some (_, b) \<Rightarrow> span < b) then Some (current, span) else best)"

lemma merge_inv_key:
  assumes "merge_inv cands heap current mx" "dict_get current d = Some f"
  shows "d \<in> set (dict_keys cands)"
proof -
  have "dict_keys current = dict_keys cands" using assms(1) by (simp add: merge_inv_def)
  with dict_get_key [OF assms(2)] show ?thesis by simp
qed

lemma merge_inv_devices:
  assumes "merge_inv cands heap current mx"
  shows "set (map entry_device heap) = set (dict_keys cands)"
proof (rule mset_eq_setD)
  show "mset (map entry_device heap) = mset (dict_keys cands)" using assms by (simp add: merge_inv_def)
qed

lemma merge_inv_current:
  assumes "merge_inv cands heap current mx" "d \<in> set (dict_keys cands)"
  shows "\<exists>e \<in> set heap. entry_device e = d \<and> entry_ok cands current e"
proof -
  have "d \<in># image_mset entry_device (mset heap)" using assms by (simp add: merge_inv_def)
  then show ?thesis using assms(1) by (auto simp: merge_inv_def)
qed

lemma entry_key_ts: "entry_key e \<le> entry_key e' \<Longrightarrow> entry_ts e \<le> entry_ts e'"
  by (cases e; cases e') (auto simp: less_eq_prod_def)

lemma entry_ok_ts: "entry_ok cands current e \<Longrightarrow>
    \<exists>f. dict_get current (entry_device e) = Some f \<and> f_timestamp_ms f = entry_ts e"
  by (cases e) (auto simp: entry_ok_def)

lemma current_covers:
  assumes "merge_inv cands heap current mx"
  shows "covers cands current"
proof -
  have "\<exists>fs. dict_get cands d = Some fs \<and> f \<in> set fs" if f: "dict_get current d = Some f" for d f
  proof -
    have "d \<in> set (dict_keys cands)" by (rule merge_inv_key [OF assms f])
    from merge_inv_current [OF assms this] obtain e where e: "entry_device e = d" "entry_ok cands current e" by blast
    then show ?thesis using f by (cases e) (auto simp: entry_ok_def)
  qed
  with assms show ?thesis by (simp add: covers_def merge_inv_def)
qed

lemma current_span:
  assumes inv: "merge_inv cands heap current mx" and pop: "heappop heap = Some (e, rest)"
  shows "selection_span current (mx - entry_ts e)"
proof -
  have dist: "distinct (dict_keys current)" using inv by (auto simp: merge_inv_def sorted_candidates_def)
  have e: "e \<in> set heap" using pop by (auto simp: heappop_def split: list.splits)
  have bounds: "entry_ts e \<le> f_timestamp_ms f \<and> f_timestamp_ms f \<le> mx" if f: "f \<in> set (dict_values current)" for f
  proof -
    obtain d where d: "dict_get current d = Some f" using f unfolding dict_values_get [OF dist] by blast
    then have "d \<in> set (dict_keys cands)" by (rule merge_inv_key [OF inv])
    from merge_inv_current [OF inv this] obtain e' where e': "e' \<in> set heap" "entry_device e' = d"
      "entry_ok cands current e'" by blast
    have "f_timestamp_ms f = entry_ts e'" using entry_ok_ts [OF e'(3)] e'(2) d by auto
    moreover have "entry_ts e \<le> entry_ts e'"
      using heapq.pop_least [OF _ pop, of e'] e'(1) inv by (auto simp: merge_inv_def intro: entry_key_ts)
    ultimately show ?thesis using inv e'(1) by (auto simp: merge_inv_def)
  qed
  have hit: "\<exists>f \<in> set (dict_values current). f_timestamp_ms f = entry_ts e'" if "e' \<in> set heap" for e'
  proof -
    have "entry_ok cands current e'" using that inv by (simp add: merge_inv_def)
    then obtain f where "dict_get current (entry_device e') = Some f" "f_timestamp_ms f = entry_ts e'"
      using entry_ok_ts by blast
    then show ?thesis unfolding Bex_def dict_values_get [OF dist] by blast
  qed
  obtain em where em: "em \<in> set heap" "entry_ts em = mx" using inv by (auto simp: merge_inv_def)
  have "f_timestamp_ms f - f_timestamp_ms g \<le> mx - entry_ts e"
    if "f \<in> set (dict_values current)" "g \<in> set (dict_values current)" for f g
    using bounds [OF that(1)] bounds [OF that(2)] by linarith
  moreover have "\<exists>f \<in> set (dict_values current). \<exists>g \<in> set (dict_values current).
      f_timestamp_ms f - f_timestamp_ms g = mx - entry_ts e"
    using hit [OF e] hit [OF em(1)] em(2) by metis
  ultimately show ?thesis unfolding selection_span_def by blast
qed
text \<open>The popped entry is the earliest: a choice at or after every cursor that keeps it costs the span.\<close>

lemma popped_bound:
  assumes inv: "merge_inv cands heap current mx" and pop: "heappop heap = Some (e, rest)"
    and j: "valid_choice cands j" "choice_within cands j s"
    and ahead: "\<forall>e' \<in> set heap. entry_index e' \<le> j (entry_device e')"
    and keep: "j (entry_device e) = entry_index e"
  shows "mx - entry_ts e \<le> s"
proof -
  have e: "e \<in> set heap" using pop by (auto simp: heappop_def split: list.splits)
  obtain em where em: "em \<in> set heap" "entry_ts em = mx" using inv by (auto simp: merge_inv_def)
  have later: "entry_ts e' \<le> choice_ts cands j (entry_device e')" if "e' \<in> set heap" for e'
  proof -
    obtain ts k d i f where e': "e' = (ts, k, d, i, f)" by (cases e')
    from that inv obtain fs where fs: "dict_get cands d = Some fs" "i < length fs" "f = fs ! i" "ts = f_timestamp_ms f"
      by (auto simp: merge_inv_def entry_ok_def e')
    have "sorted (map f_timestamp_ms fs)" "j d < length fs" "i \<le> j d"
      using inv fs j(1) ahead that by (auto simp: merge_inv_def sorted_candidates_def valid_choice_def e')
    then show ?thesis using fs by (auto simp: choice_ts_def e' sorted_iff_nth_mono)
  qed
  have at_e: "choice_ts cands j (entry_device e) = entry_ts e"
    using e inv keep by (cases e) (auto simp: merge_inv_def entry_ok_def choice_ts_def)
  have dev: "entry_device e' \<in> set (dict_keys cands)" if "e' \<in> set heap" for e'
    using that merge_inv_devices [OF inv] by auto
  have "choice_ts cands j (entry_device em) - choice_ts cands j (entry_device e) \<le> s"
    using j(2) dev [OF e] dev [OF em(1)] unfolding choice_within_def by blast
  with later [OF em(1)] at_e em(2) show ?thesis by simp
qed

lemma better_of_le:
  "better_of current span best = Some (c, b) \<Longrightarrow> b \<le> span"
  "best = Some (c', b') \<Longrightarrow> better_of current span best = Some (c, b) \<Longrightarrow> b \<le> b'"
  "\<exists>c b. better_of current span best = Some (c, b)"
  by (auto simp: better_of_def split: option.splits if_splits)

text \<open>Every choice not yet ruled out lies at or after the cursors; the popped position costs the span.\<close>

lemma step_bound:
  assumes inv: "merge_inv cands heap current mx" and pop: "heappop heap = Some (e, rest)"
    and pr: "pruned cands heap best"
    and j: "valid_choice cands j" "choice_within cands j s" "j (entry_device e) \<le> entry_index e"
  shows "\<exists>c b. better_of current (mx - entry_ts e) best = Some (c, b) \<and> b \<le> s"
proof (cases "\<exists>e' \<in> set heap. j (entry_device e') < entry_index e'")
  case True
  with pr j(1,2) obtain c' b' where "best = Some (c', b')" "b' \<le> s" unfolding pruned_def by blast
  with better_of_le(2,3) show ?thesis by (meson order_trans)
next
  case False
  moreover have "e \<in> set heap" using pop by (auto simp: heappop_def split: list.splits)
  ultimately have "\<forall>e' \<in> set heap. entry_index e' \<le> j (entry_device e')" "j (entry_device e) = entry_index e"
    using j(3) by (auto simp: not_less intro: antisym)
  then have "mx - entry_ts e \<le> s" by (rule popped_bound [OF inv pop j(1,2)])
  with better_of_le(1,3) show ?thesis by (meson order_trans)
qed

lemma merge_step:
  assumes inv: "merge_inv cands heap current mx"
    and pop: "heappop heap = Some ((ts, k, d, i, f), rest)"
    and fs: "dict_get cands d = Some fs" "i + 1 < length fs"
  shows "merge_inv cands (heappush rest (entry_of d (i + 1) (fs ! (i + 1))))
           (dict_set current d (fs ! (i + 1))) (max mx (f_timestamp_ms (fs ! (i + 1))))"
proof -
  let ?nf = "fs ! (i + 1)" and ?e = "(ts, k, d, i, f)"
  let ?e' = "entry_of d (i + 1) ?nf"
  have heap: "mset heap = add_mset ?e (mset rest)" using heapq.pop_contents [OF pop] .
  have devs: "image_mset entry_device (mset heap) = mset (dict_keys cands)"
    and sc: "sorted_candidates cands" using inv by (auto simp: merge_inv_def)
  have "distinct (map entry_device heap)"
    using devs sc by (metis mset_map mset_eq_imp_distinct_iff sorted_candidates_def)
  then have "d \<notin> set (map entry_device rest)"
    using pop by (auto simp: heappop_def split: list.splits)
  then have rest_ok: "entry_ok cands (dict_set current d ?nf) e'" if "e' \<in> set rest" for e'
  proof -
    have "entry_ok cands current e'"
      using that inv pop by (auto simp: merge_inv_def heappop_def split: list.splits)
    moreover have "entry_device e' \<noteq> d" using that \<open>d \<notin> set (map entry_device rest)\<close> by auto
    ultimately show ?thesis by (cases e') (auto simp: entry_ok_def)
  qed
  have new_ok: "entry_ok cands (dict_set current d ?nf) ?e'"
    using fs by (auto simp: entry_ok_def entry_of_def)
  have nxt: "ts \<le> f_timestamp_ms ?nf"
  proof -
    have "?e \<in> set heap" using pop by (auto simp: heappop_def split: list.splits)
    then have "ts = f_timestamp_ms (fs ! i)" using inv fs by (auto simp: merge_inv_def entry_ok_def)
    moreover have "sorted (map f_timestamp_ms fs)" using sc fs by (auto simp: sorted_candidates_def)
    ultimately show ?thesis using fs(2) by (auto simp: sorted_iff_nth_mono)
  qed
  have "\<exists>e' \<in> insert ?e' (set rest). entry_ts e' = max mx (f_timestamp_ms ?nf)"
  proof -
    obtain em where em: "em \<in> set heap" "entry_ts em = mx" using inv by (auto simp: merge_inv_def)
    then have "em = ?e \<or> em \<in> set rest" using pop by (auto simp: heappop_def split: list.splits)
    then show ?thesis using em(2) nxt by (auto simp: entry_of_def max_def)
  qed
  moreover have "entry_ts e' \<le> max mx (f_timestamp_ms ?nf)" if "e' \<in> insert ?e' (set rest)" for e'
    using that inv pop by (auto simp: merge_inv_def heappop_def entry_of_def max_def split: list.splits)
  moreover have "set (heappush rest ?e') = insert ?e' (set rest)"
    by (simp add: heappush_def set_insort_key)
  moreover have "dict_keys (dict_set current d ?nf) = dict_keys cands"
    using inv fs dict_get_key [OF fs(1)] by (simp add: merge_inv_def update_keys)
  moreover have "sorted (map entry_key (heappush rest ?e'))"
    using heapq.push_invar [OF heapq.pop_invar [OF _ pop]] inv by (simp add: merge_inv_def)
  moreover have "image_mset entry_device (mset (heappush rest ?e')) = mset (dict_keys cands)"
    using devs unfolding heapq.push_contents heap by (simp add: entry_of_def)
  moreover have "\<forall>e' \<in> insert ?e' (set rest). entry_ok cands (dict_set current d ?nf) e'"
    using rest_ok new_ok by blast
  ultimately show ?thesis using sc unfolding merge_inv_def by metis
qed

section \<open>The search is total and optimal\<close>

definition optimal :: "candidates \<Rightarrow> selection \<Rightarrow> int \<Rightarrow> bool" where
  "optimal cands c b \<longleftrightarrow> covers cands c \<and> selection_span c b
     \<and> (\<forall>j s. valid_choice cands j \<and> choice_within cands j s \<longrightarrow> b \<le> s)"

lemma merge_inv_pop:
  assumes "merge_inv cands heap current mx"
  obtains ts k d i f rest fs where "heappop heap = Some ((ts, k, d, i, f), rest)"
    "dict_get cands d = Some fs" "i < length fs"
proof -
  obtain e rest where e: "heap = e # rest" using assms by (cases heap) (auto simp: merge_inv_def)
  obtain ts k d i f where "e = (ts, k, d, i, f)" by (cases e)
  moreover have "entry_ok cands current e" using assms e by (simp add: merge_inv_def)
  ultimately show ?thesis using that e by (auto simp: heappop_def entry_ok_def)
qed

lemma better_of_ok:
  assumes "merge_inv cands heap current mx" "heappop heap = Some (e, rest)" "best_ok cands best"
  shows "best_ok cands (better_of current (mx - entry_ts e) best)"
  using assms current_covers [OF assms(1)] current_span [OF assms(1,2)]
  by (auto simp: best_ok_def better_of_def split: if_splits)

text \<open>One iteration, with the best selection named.\<close>

lemma select_loop_step:
  assumes "heappop heap = Some ((ts, k, d, i, f), rest)" "dict_get cands d = Some fs"
  shows "select_loop cands heap current mx best =
    (let best' = better_of current (mx - ts) best
     in if (case best of None \<Rightarrow> True | Some (_, b) \<Rightarrow> mx - ts < b) \<and> mx - ts = 0 \<or> i + 1 \<ge> length fs
        then Inr best'
        else select_loop cands (heappush rest (entry_of d (i + 1) (fs ! (i + 1))))
               (dict_set current d (fs ! (i + 1))) (max mx (f_timestamp_ms (fs ! (i + 1)))) best')"
  using assms by (subst select_loop.simps) (simp add: better_of_def Let_def)

lemma zero_span_optimal:
  assumes "merge_inv cands heap current mx" "valid_choice cands j" "choice_within cands j s"
  shows "0 \<le> s"
proof -
  obtain e where "e \<in> set heap" using assms(1) by (auto simp: merge_inv_def)
  then have "entry_device e \<in> set (dict_keys cands)" using merge_inv_devices [OF assms(1)] by auto
  with assms(3) have "choice_ts cands j (entry_device e) - choice_ts cands j (entry_device e) \<le> s"
    unfolding choice_within_def by blast
  then show ?thesis by simp
qed

lemma pruned_step:
  assumes inv: "merge_inv cands heap current mx" and pr: "pruned cands heap best"
    and pop: "heappop heap = Some ((ts, k, d, i, f), rest)"
  shows "pruned cands (heappush rest (entry_of d (i + 1) nf)) (better_of current (mx - ts) best)"
  unfolding pruned_def
proof (intro allI impI)
  fix j s
  assume j: "valid_choice cands j \<and> choice_within cands j s \<and>
    (\<exists>e \<in> set (heappush rest (entry_of d (i + 1) nf)). j (entry_device e) < entry_index e)"
  then have cases: "j d \<le> i \<or> (\<exists>e \<in> set rest. j (entry_device e) < entry_index e)"
    by (auto simp: heappush_def set_insort_key entry_of_def)
  show "\<exists>c b. better_of current (mx - ts) best = Some (c, b) \<and> b \<le> s"
  proof (cases "j d \<le> i")
    case True
    then show ?thesis using step_bound [OF inv pop pr, of j s] j by simp
  next
    case False
    then have "\<exists>e \<in> set heap. j (entry_device e) < entry_index e"
      using cases pop by (auto simp: heappop_def split: list.splits)
    with pr j obtain c b where "best = Some (c, b)" "b \<le> s" unfolding pruned_def by blast
    then show ?thesis by (meson better_of_le(2,3) order_trans)
  qed
qed

lemma select_loop_optimal:
  assumes "merge_inv cands heap current mx" "best_ok cands best" "pruned cands heap best"
  shows "\<exists>c b. select_loop cands heap current mx best = Inr (Some (c, b)) \<and> optimal cands c b"
  using assms
proof (induction cands heap current mx best rule: select_loop.induct)
  case (1 cands heap current mx best)
  note inv = "1.prems"(1) and ok = "1.prems"(2) and pr = "1.prems"(3)
  from merge_inv_pop [OF inv] obtain ts k d i f rest fs where
    pop: "heappop heap = Some ((ts, k, d, i, f), rest)" and fs: "dict_get cands d = Some fs" "i < length fs"
    by blast
  let ?best = "better_of current (mx - ts) best"
  let ?new = "case best of None \<Rightarrow> True | Some (_, b) \<Rightarrow> mx - ts < b"
  have ok': "best_ok cands ?best" using better_of_ok [OF inv pop ok] by simp
  obtain c b where cb: "?best = Some (c, b)" using better_of_le(3) by blast
  have covered: "covers cands c \<and> selection_span c b" using ok' cb by (simp add: best_ok_def)
  show ?case
  proof (cases "?new \<and> mx - ts = 0 \<or> i + 1 \<ge> length fs")
    case True
    then have "b \<le> s" if j: "valid_choice cands j" "choice_within cands j s" for j s
    proof
      assume "?new \<and> mx - ts = 0"
      then have "b = 0" using cb by (cases best) (auto simp: better_of_def)
      then show "b \<le> s" using zero_span_optimal [OF inv j] by simp
    next
      assume "i + 1 \<ge> length fs"
      then have "j d \<le> i" using j(1) fs by (fastforce simp: valid_choice_def)
      then show "b \<le> s" using step_bound [OF inv pop pr j] cb by auto
    qed
    with True covered cb show ?thesis
      unfolding select_loop_step [OF pop fs(1)] optimal_def by (auto simp: Let_def)
  next
    case False
    then have more: "i + 1 < length fs" by simp
    have step: "select_loop cands heap current mx best =
        select_loop cands (heappush rest (entry_of d (i + 1) (fs ! (i + 1))))
          (dict_set current d (fs ! (i + 1))) (max mx (f_timestamp_ms (fs ! (i + 1)))) ?best"
      unfolding select_loop_step [OF pop fs(1)] using False by (auto simp: Let_def)
    show ?thesis unfolding step
      by (rule "1.IH" [OF pop refl refl refl refl refl refl refl refl _ fs(1) _ refl, unfolded better_of_def [symmetric]])
        (use False more ok' merge_step [OF inv pop fs(1) more] pruned_step [OF inv pr pop] in auto)
  qed
qed
section \<open>Seeding the heap\<close>

lemma sorted_candidates_snoc:
  assumes "sorted_candidates (xs @ ys)"
  shows "sorted_candidates xs"
  using assms unfolding sorted_candidates_def
  by (auto simp: map_add_def split: option.splits)

lemma sorted_candidates_nonempty: "sorted_candidates cands \<Longrightarrow> dict_get cands d = Some l \<Longrightarrow> l \<noteq> []"
  unfolding sorted_candidates_def by blast

lemma seed_step:
  assumes inv: "merge_inv xs heap current mx" and sc: "sorted_candidates (xs @ [(d, f # fs)])"
  shows "merge_inv (xs @ [(d, f # fs)]) (heappush heap (entry_of d 0 f)) (dict_set current d f)
           (max mx (f_timestamp_ms f))"
proof -
  let ?xs = "xs @ [(d, f # fs)]" and ?e = "entry_of d 0 f"
  have new: "d \<notin> set (dict_keys xs)" using sc by (auto simp: sorted_candidates_def)
  then have none: "dict_get xs d = None" by (simp add: map_of_eq_None_iff)
  have keys: "dict_keys current = dict_keys xs" using inv by (simp add: merge_inv_def)
  have old: "entry_ok ?xs (dict_set current d f) e" if "e \<in> set heap" for e
  proof -
    have "entry_ok xs current e" using that inv by (simp add: merge_inv_def)
    moreover have "entry_device e \<noteq> d" using that merge_inv_devices [OF inv] new by force
    ultimately show ?thesis by (cases e) (auto simp: entry_ok_def map_add_def)
  qed
  have new_ok: "entry_ok ?xs (dict_set current d f) ?e"
    using none by (auto simp: entry_ok_def entry_of_def map_add_def)
  have set_push: "set (heappush heap ?e) = insert ?e (set heap)" by (simp add: heappush_def set_insort_key)
  have "\<forall>e \<in> insert ?e (set heap). entry_ok ?xs (dict_set current d f) e \<and> entry_ts e \<le> max mx (f_timestamp_ms f)"
    using old new_ok inv by (auto simp: merge_inv_def entry_of_def max_def)
  moreover have "\<exists>e \<in> insert ?e (set heap). entry_ts e = max mx (f_timestamp_ms f)"
    using inv by (auto simp: merge_inv_def entry_of_def max_def)
  moreover have "dict_keys (dict_set current d f) = dict_keys ?xs"
    using keys new by (auto simp: update_keys)
  moreover have "sorted (map entry_key (heappush heap ?e))"
    using inv by (intro heapq.push_invar) (simp add: merge_inv_def)
  moreover have "image_mset entry_device (mset (heappush heap ?e)) = mset (dict_keys ?xs)"
    using inv unfolding heapq.push_contents by (simp add: merge_inv_def entry_of_def)
  ultimately show ?thesis using sc unfolding merge_inv_def set_push by metis
qed

lemma seed_heap_inv:
  assumes "merge_inv xs heap current mx" "\<forall>e \<in> set heap. entry_index e = 0" "sorted_candidates (xs @ ys)"
  shows "\<exists>heap' current' mx'. seed_heap ys heap current (Some mx) = Inr (heap', current', Some mx')
    \<and> merge_inv (xs @ ys) heap' current' mx' \<and> (\<forall>e \<in> set heap'. entry_index e = 0)"
  using assms
proof (induction ys arbitrary: xs heap current mx)
  case (Cons y ys)
  obtain d l where y: "y = (d, l)" by fastforce
  have sc: "sorted_candidates (xs @ [y])" using Cons.prems(3) sorted_candidates_snoc [of "xs @ [y]" ys] by simp
  have "distinct (dict_keys (xs @ [y]))" using sc by (simp only: sorted_candidates_def)
  then have "dict_get (xs @ [y]) d = Some l" by (rule map_of_is_SomeI) (simp add: y)
  from sorted_candidates_nonempty [OF sc this] obtain f fs where l: "l = f # fs" by (auto simp: neq_Nil_conv)
  have "merge_inv (xs @ [y]) (heappush heap (entry_of d 0 f)) (dict_set current d f) (max mx (f_timestamp_ms f))"
    using seed_step [of xs heap current mx d f fs] Cons.prems(1) sc y l by simp
  moreover have "\<forall>e \<in> set (heappush heap (entry_of d 0 f)). entry_index e = 0"
    using Cons.prems(2) by (auto simp: heappush_def set_insort_key entry_of_def)
  ultimately show ?case using Cons.IH [of "xs @ [y]"] Cons.prems(3) y l by simp
qed simp

lemma seed_heap_start:
  assumes "sorted_candidates cands" "cands \<noteq> []"
  shows "\<exists>heap current mx. seed_heap cands [] [] None = Inr (heap, current, Some mx)
    \<and> merge_inv cands heap current mx \<and> (\<forall>e \<in> set heap. entry_index e = 0)"
proof -
  obtain d l ys where c: "cands = (d, l) # ys" using assms(2) by (cases cands) auto
  then have sc: "sorted_candidates [(d, l)]" using assms(1) sorted_candidates_snoc [of "[(d, l)]" ys] by simp
  from sorted_candidates_nonempty [OF this, of d l] obtain f fs where l: "l = f # fs" by (auto simp: neq_Nil_conv)
  have "merge_inv [(d, l)] (heappush [] (entry_of d 0 f)) [(d, f)] (f_timestamp_ms f)"
    using sc by (simp add: merge_inv_def heappush_def entry_of_def entry_ok_def l)
  from seed_heap_inv [OF this, of ys] show ?thesis
    using assms(1) by (simp add: c l heappush_def entry_of_def)
qed

lemma search_optimal:
  assumes "sorted_candidates cands" "cands \<noteq> []"
  shows "\<exists>heap current mx c b. seed_heap cands [] [] None = Inr (heap, current, Some mx)
    \<and> select_loop cands heap current mx None = Inr (Some (c, b)) \<and> optimal cands c b"
proof -
  from seed_heap_start [OF assms] obtain heap current mx where
    seed: "seed_heap cands [] [] None = Inr (heap, current, Some mx)"
    and inv: "merge_inv cands heap current mx" and zero: "\<forall>e \<in> set heap. entry_index e = 0" by blast
  have "pruned cands heap None" using zero by (auto simp: pruned_def)
  from select_loop_optimal [OF inv _ this] seed show ?thesis by (simp add: best_ok_def)
qed
section \<open>The whole selection\<close>

lemma collect_candidates_spec:
  assumes "collect_candidates m ds cands missing = (cands', missing')" "distinct (dict_keys cands)"
  shows "missing' = missing @ filter (\<lambda>d. available_frames m d {} = []) ds"
    and "distinct (dict_keys cands')"
    and "dict_get cands' d = (if d \<in> set ds \<and> available_frames m d {} \<noteq> [] then Some (available_frames m d {})
           else dict_get cands d)"
  using assms
  by (induction m ds cands missing rule: collect_candidates.induct)
    (auto simp: Let_def dict_distinct_set split: if_splits)

text \<open>A selection of the expected cameras: one available frame for each.\<close>

definition selects :: "SyncFrameBufferManager \<Rightarrow> string list \<Rightarrow> selection \<Rightarrow> bool" where
  "selects m expected sel \<longleftrightarrow> distinct (dict_keys sel) \<and> set (dict_keys sel) = set expected
     \<and> (\<forall>d f. dict_get sel d = Some f \<longrightarrow> f \<in> set (available_frames m d {}))"

lemma collected_sorted:
  assumes "collect_candidates m expected [] [] = (cands, missing)"
  shows "sorted_candidates cands"
  unfolding sorted_candidates_def
  using collect_candidates_spec(2,3) [OF assms] available_frames_sorted by (auto split: if_splits)

lemma collected_complete:
  assumes "collect_candidates m expected [] [] = (cands, [])"
  shows "dict_get cands d = (if d \<in> set expected then Some (available_frames m d {}) else None)"
proof -
  have "filter (\<lambda>d. available_frames m d {} = []) expected = []"
    using collect_candidates_spec(1) [OF assms] by simp
  then have "available_frames m x {} \<noteq> []" if "x \<in> set expected" for x
    using that by (auto simp: filter_empty_conv)
  then show ?thesis using collect_candidates_spec(3) [OF assms] by simp
qed

lemma dict_keys_dom: "set (dict_keys d) = {k. dict_get d k \<noteq> None}"
  by (force simp: map_of_eq_None_iff)

lemma covers_selects:
  assumes "collect_candidates m expected [] [] = (cands, [])" "covers cands sel"
  shows "selects m expected sel"
proof -
  have "set (dict_keys cands) = set expected"
    unfolding dict_keys_dom using collected_complete [OF assms(1)] by (auto split: if_splits)
  moreover have "distinct (dict_keys cands)" using collected_sorted [OF assms(1)] by (simp add: sorted_candidates_def)
  ultimately show ?thesis
    using assms(2) collected_complete [OF assms(1)] by (auto simp: covers_def selects_def split: if_splits)
qed

text \<open>A selection is a choice of positions in the candidate lists, within its span.\<close>

lemma selects_choice:
  assumes cands: "collect_candidates m expected [] [] = (cands, [])"
    and sel: "selects m expected sel" "selection_span sel s"
  shows "\<exists>j. valid_choice cands j \<and> choice_within cands j s"
proof -
  have keys: "set (dict_keys cands) = set expected"
    unfolding dict_keys_dom using collected_complete [OF cands] by (auto split: if_splits)
  have "\<exists>i f. dict_get sel d = Some f \<and> i < length (available_frames m d {}) \<and> available_frames m d {} ! i = f"
    if "d \<in> set expected" for d
  proof -
    have "d \<in> set (dict_keys sel)" using sel(1) that by (simp add: selects_def)
    then obtain f where f: "dict_get sel d = Some f" unfolding dict_keys_dom by auto
    then have "f \<in> set (available_frames m d {})" using sel(1) unfolding selects_def by blast
    then show ?thesis using f by (auto simp: in_set_conv_nth)
  qed
  then obtain j where j: "\<And>d. d \<in> set expected \<Longrightarrow> j d < length (available_frames m d {})
      \<and> dict_get sel d = Some (available_frames m d {} ! j d)" by metis
  have "valid_choice cands j"
    using j collected_complete [OF cands] by (auto simp: valid_choice_def split: if_splits)
  moreover have "choice_within cands j s"
    unfolding choice_within_def keys
  proof (intro ballI)
    fix d e assume de: "d \<in> set expected" "e \<in> set expected"
    have dist: "distinct (dict_keys sel)" using sel(1) by (simp add: selects_def)
    have v: "available_frames m x {} ! j x \<in> set (dict_values sel)" if "x \<in> set expected" for x
      unfolding dict_values_get [OF dist] using j [OF that] by blast
    have "f_timestamp_ms (available_frames m d {} ! j d) - f_timestamp_ms (available_frames m e {} ! j e) \<le> s"
      using sel(2) v [OF de(1)] v [OF de(2)] unfolding selection_span_def by blast
    then show "choice_ts cands j d - choice_ts cands j e \<le> s"
      using de by (simp add: choice_ts_def collected_complete [OF cands])
  qed
  ultimately show ?thesis by blast
qed

lemma select_min_span_candidate_correct:
  "case select_min_span_candidate m expected window of
     Inl e \<Rightarrow> False
   | Inr (Some (sel, span), missing) \<Rightarrow>
       missing = [] \<and> selects m expected sel \<and> selection_span sel span \<and> span \<le> window
       \<and> (\<forall>sel' s. selects m expected sel' \<and> selection_span sel' s \<longrightarrow> span \<le> s)
   | Inr (None, missing) \<Rightarrow>
       missing = filter (\<lambda>d. available_frames m d {} = []) expected
       \<and> (missing = [] \<longrightarrow> (\<forall>sel' s. selects m expected sel' \<and> selection_span sel' s \<longrightarrow> window < s))"
proof -
  obtain cands missing where c: "collect_candidates m expected [] [] = (cands, missing)" by fastforce
  have miss: "missing = filter (\<lambda>d. available_frames m d {} = []) expected"
    using collect_candidates_spec(1) [OF c] by simp
  consider (missing) "missing \<noteq> []" | (none) "missing = []" "cands = []" | (some) "missing = []" "cands \<noteq> []"
    by blast
  then show ?thesis
  proof cases
    case missing
    with c miss show ?thesis by (simp add: select_min_span_candidate_def)
  next
    case none
    then have "set expected = {}" using collected_complete [of m expected cands] c
      by (metis map_of.simps(1) none(2) option.distinct(1) equals0I)
    then have "\<not> selection_span sel s" if "selects m expected sel" for sel s
      using that by (auto simp: selects_def selection_span_def)
    with none c miss show ?thesis by (auto simp: select_min_span_candidate_def)
  next
    case some
    then have c': "collect_candidates m expected [] [] = (cands, [])" using c by simp
    from search_optimal [OF collected_sorted [OF c] some(2)] obtain heap current mx sel b where
      run: "seed_heap cands [] [] None = Inr (heap, current, Some mx)"
        "select_loop cands heap current mx None = Inr (Some (sel, b))" and opt: "optimal cands sel b" by blast
    have best: "b \<le> s" if "selects m expected sel'" "selection_span sel' s" for sel' s
      using selects_choice [OF c' that] opt unfolding optimal_def by blast
    have "selects m expected sel" "selection_span sel b"
      using covers_selects [OF c'] opt by (auto simp: optimal_def)
    with run c' miss some best show ?thesis
      by (auto simp: select_min_span_candidate_def dest: best)
  qed
qed

end
