(* ===== verification/Matcher.thy ===== *)
theory Matcher
  imports MinSpan
begin

text \<open>
  \<open>SyncMatcher\<close> of \<^verbatim>\<open>src/app/services/sync/matcher.py\<close>: it turns the buffered frames into
  synchronized frame sets. Fields of the matcher are \<open>mt_x\<close>. The matcher shares its buffer
  manager with the service, so the operations take and return both. The wall clock
  (\<open>int(time.time() * 1000)\<close>) and the fresh \<open>str(uuid4())\<close> an operation may use are arguments.
\<close>

section \<open>State\<close>

record AuthorizationKey =
  ak_tenant_id :: "string option"
  ak_site_id :: "string option"
  ak_capture_session_id :: "string option"
  ak_processing_job_id :: "string option"
  ak_profile_digest :: "string option"
  ak_authorized_subject :: "string option"
  ak_session_token_jti :: "string option"

type_synonym config_key = "(string \<times> string) list"

record SyncMatcher =
  mt_expected_cameras :: "string list"
  mt_window_ms :: int
  mt_recent_limit :: nat
  mt_next_frame_set_id :: int
  mt_capture_session_id :: "string option"
  mt_capture_config_key :: "config_key option"
  mt_authorization_key :: "AuthorizationKey option"
  mt_capture_run_id :: string
  mt_last_synchronized_at_ms :: int
  mt_recent_frame_sets :: "SynchronizedFrameSet list"
  mt_matched_count :: int
  mt_missed_count :: int
  mt_duplicate_count :: int
  mt_ignored_count :: int
  mt_last_frame_set_id :: "int option"
  mt_last_anchor_timestamp_ms :: "int option"
  mt_last_max_delta_ms :: "int option"
  mt_last_span_ms :: "int option"
  mt_last_watermark_timestamp_ms :: "int option"
  mt_dropped_stale_count :: int
  mt_dropped_superseded_count :: int
  mt_last_missing_cameras :: "string list"
  mt_last_reason :: "string option"
  mt_last_identity_mode :: "string option"
  mt_legacy_identity_count :: int
  mt_last_archive_state :: "string option"
  mt_last_archive_error :: "string option"
  mt_archive_degraded_count :: int

definition new_matcher :: "string list \<Rightarrow> int \<Rightarrow> int \<Rightarrow> string \<Rightarrow> SyncMatcher result" where
  "new_matcher expected_cameras window_ms recent_limit run_id =
     (if recent_limit < 0 then Inl (ValueError ''maxlen must be non-negative'')
      else Inr \<lparr> mt_expected_cameras = expected_cameras, mt_window_ms = window_ms,
        mt_recent_limit = nat recent_limit, mt_next_frame_set_id = 1, mt_capture_session_id = None,
        mt_capture_config_key = None, mt_authorization_key = None, mt_capture_run_id = run_id,
        mt_last_synchronized_at_ms = 0, mt_recent_frame_sets = [], mt_matched_count = 0,
        mt_missed_count = 0, mt_duplicate_count = 0, mt_ignored_count = 0,
        mt_last_frame_set_id = None, mt_last_anchor_timestamp_ms = None, mt_last_max_delta_ms = None,
        mt_last_span_ms = None, mt_last_watermark_timestamp_ms = None, mt_dropped_stale_count = 0,
        mt_dropped_superseded_count = 0, mt_last_missing_cameras = [], mt_last_reason = None,
        mt_last_identity_mode = None, mt_legacy_identity_count = 0, mt_last_archive_state = None,
        mt_last_archive_error = None, mt_archive_degraded_count = 0 \<rparr>)"

section \<open>The capture identity of a selection\<close>

definition identity_complete :: "StoredSyncFrame \<Rightarrow> bool" where
  "identity_complete f \<longleftrightarrow>
     f_identity_mode f = IDENTITY_MODE_V2 \<and> truthy (f_source_session_id f)
     \<and> truthy (f_camera_stream_id f) \<and> f_sequence f \<noteq> None
     \<and> truthy (f_source_frame_uid f) \<and> truthy (f_content_digest f)"

type_synonym group_key =
  "string option \<times> string option \<times> string option \<times> string option \<times> string option"

definition group_key_of :: "StoredSyncFrame \<Rightarrow> group_key" where
  "group_key_of f = (f_tenant_id f, f_site_id f, f_capture_session_id f, f_processing_job_id f,
     f_profile_digest f)"

definition scope_values :: "StoredSyncFrame \<Rightarrow> string option list" where
  "scope_values f = [f_tenant_id f, f_site_id f, f_capture_session_id f, f_processing_job_id f,
     f_profile_digest f, f_authorized_subject f, f_session_token_jti f, f_authorized_camera_id f]"

definition participant_of :: "StoredSyncFrame \<Rightarrow> string option \<times> string option" where
  "participant_of f = (f_authorized_subject f, f_session_token_jti f)"

definition authorization_of_group ::
  "group_key \<Rightarrow> string option \<times> string option \<Rightarrow> AuthorizationKey" where
  "authorization_of_group g p =
     (case g of (tenant, site, session, job, profile) \<Rightarrow> (case p of (subject, jti) \<Rightarrow>
        \<lparr> ak_tenant_id = tenant, ak_site_id = site, ak_capture_session_id = session,
          ak_processing_job_id = job, ak_profile_digest = profile,
          ak_authorized_subject = subject, ak_session_token_jti = jti \<rparr>))"

text \<open>The authorization scope the members share, \<open>None\<close> when no member carries any.\<close>

definition resolve_authorization :: "StoredSyncFrame list \<Rightarrow> AuthorizationKey option result" where
  "resolve_authorization fs =
     (let group_keys = remdups (map group_key_of (filter (\<lambda>f. list_ex truthy (scope_values f)) fs))
      in if group_keys = [] then Inr None
         else if length group_keys \<noteq> 1 \<or> list_ex (\<lambda>f. \<not> list_all truthy (scope_values f)) fs
         then Inl (FrameScopeConflict ''authorization scope conflict across frame set'')
         else if \<not> distinct (map f_authorized_camera_id fs)
         then Inl (FrameScopeConflict ''authorized camera was reused across frame set'')
         else
           (let participants = remdups (map participant_of fs);
                member_scoped = list_ex (\<lambda>f. truthy (f_camera_claim_id f)) fs
            in if member_scoped \<and> list_ex (\<lambda>f. \<not> truthy (f_camera_claim_id f)) fs
               then Inl (FrameScopeConflict ''camera credential scope conflict across frame set'')
               else Inr (Some (authorization_of_group (hd group_keys)
                      (if length participants = 1 \<and> \<not> member_scoped then hd participants
                       else (None, None))))))"

definition config_key_of :: "StoredSyncFrame list \<Rightarrow> config_key" where
  "config_key_of fs =
     sort (map (\<lambda>f. (str_or (f_camera_stream_id f) [], str_or (f_capture_config_digest f) [])) fs)"

type_synonym resolved_identity =
  "string \<times> string option \<times> config_key option \<times> AuthorizationKey option"

definition resolve_capture_identity :: "selection \<Rightarrow> resolved_identity result" where
  "resolve_capture_identity frames =
     (let fs = dict_values frames
      in if \<not> list_all identity_complete fs then Inr (IDENTITY_MODE_LEGACY, None, None, None)
         else
           bind_result (resolve_authorization fs) (\<lambda>authorization.
             case authorization of
               Some key \<Rightarrow> Inr (IDENTITY_MODE_V2, ak_capture_session_id key, Some (config_key_of fs), Some key)
             | None \<Rightarrow>
                 bind_result
                   (build_capture_session_id
                     (map (\<lambda>f. (str_or (f_camera_stream_id f) [], str_or (f_source_session_id f) [])) fs))
                   (\<lambda>session. Inr (IDENTITY_MODE_V2, Some session, Some (config_key_of fs), None))))"

section \<open>The manifest\<close>

definition jopt :: "string option \<Rightarrow> json" where
  "jopt s = (case s of None \<Rightarrow> JNull | Some t \<Rightarrow> JStr t)"

definition jint_opt :: "int option \<Rightarrow> json" where
  "jint_opt i = (case i of None \<Rightarrow> JNull | Some n \<Rightarrow> JInt n)"

definition manifest_member :: "StoredSyncFrame \<Rightarrow> json" where
  "manifest_member f = JObj
     [(''device_id'', JStr (f_device_id f)),
      (''source_session_id'', jopt (f_source_session_id f)),
      (''camera_stream_id'', jopt (f_camera_stream_id f)),
      (''frame_sequence'', jint_opt (f_sequence f)),
      (''source_frame_uid'', jopt (f_source_frame_uid f)),
      (''capture_timestamp_ms'', JInt (f_timestamp_ms f)),
      (''content_type'', JStr (f_content_type f)),
      (''image_size'', JInt (f_image_size f)),
      (''content_digest'', jopt (f_content_digest f)),
      (''capture_config_digest'', jopt (f_capture_config_digest f)),
      (''authorized_camera_id'', jopt (f_authorized_camera_id f)),
      (''camera_claim_id'', jopt (f_camera_claim_id f)),
      (''authorized_subject'', jopt (f_authorized_subject f)),
      (''session_token_jti'', jopt (f_session_token_jti f)),
      (''capture_metadata_json'',
        JStr (case f_capture_metadata_json f of Some j \<Rightarrow> j | None \<Rightarrow> ''{}''))]"

definition member_order :: "StoredSyncFrame \<Rightarrow> string" where
  "member_order f = str_or (f_camera_stream_id f) (f_device_id f)"

definition build_manifest_payload ::
  "string option \<Rightarrow> selection \<Rightarrow> string \<Rightarrow> int \<Rightarrow> int \<Rightarrow> int \<Rightarrow> AuthorizationKey option \<Rightarrow> json" where
  "build_manifest_payload capture_session_id frames identity_mode sync_window_ms
     synchronization_span_ms anchor_timestamp_ms authorization_key =
     JObj
       [(''schema_version'', JInt 2),
        (''identity_mode'', JStr identity_mode),
        (''capture_session_id'', jopt capture_session_id),
        (''authorization'',
          (case authorization_key of
             None \<Rightarrow> JNull
           | Some k \<Rightarrow> JObj
               [(''tenant_id'', jopt (ak_tenant_id k)), (''site_id'', jopt (ak_site_id k)),
                (''capture_session_id'', jopt (ak_capture_session_id k)),
                (''processing_job_id'', jopt (ak_processing_job_id k)),
                (''profile_digest'', jopt (ak_profile_digest k)),
                (''authorized_subject'', jopt (ak_authorized_subject k)),
                (''session_token_jti'', jopt (ak_session_token_jti k))])),
        (''synchronization'', JObj
          [(''algorithm'', JStr ''minimum-span-v1''),
           (''window_ms'', JInt sync_window_ms),
           (''span_ms'', JInt synchronization_span_ms),
           (''anchor_timestamp_ms'', JInt anchor_timestamp_ms),
           (''freshness_origin_ms'', JInt (list_min (map f_timestamp_ms (dict_values frames))))]),
        (''members'', JList (map manifest_member (sort_key member_order (dict_values frames))))]"

section \<open>Misses and stale frames\<close>

definition record_miss :: "SyncMatcher \<Rightarrow> StoredSyncFrame \<Rightarrow> string \<Rightarrow> string list \<Rightarrow> SyncMatcher" where
  "record_miss mt trigger reason missing =
     mt\<lparr> mt_missed_count := mt_missed_count mt + 1,
         mt_last_anchor_timestamp_ms := Some (f_timestamp_ms trigger),
         mt_last_missing_cameras := missing, mt_last_reason := Some reason \<rparr>"

definition drop_stale_frames ::
  "SyncMatcher \<times> SyncFrameBufferManager \<Rightarrow> SyncMatcher \<times> SyncFrameBufferManager" where
  "drop_stale_frames st =
     (case st of (mt, m) \<Rightarrow>
       (let latest = latest_timestamps m (mt_expected_cameras mt)
        in if length latest \<noteq> length (mt_expected_cameras mt) then (mt, m)
           else
             (let watermark = list_min (dict_values latest);
                  (dropped, m) = drop_frames_older_than m (mt_expected_cameras mt)
                                   (watermark - mt_window_ms mt) {}
              in (mt\<lparr> mt_last_watermark_timestamp_ms := Some watermark,
                      mt_dropped_stale_count := mt_dropped_stale_count mt + dropped \<rparr>, m))))"

section \<open>Emitting a frame set\<close>

definition degraded :: "StoredSyncFrame list \<Rightarrow> StoredSyncFrame list" where
  "degraded fs = filter (\<lambda>f. f_archive_state f = ARCHIVE_DEGRADED_LIVE_ONLY) fs"

definition archive_error_text :: "StoredSyncFrame list \<Rightarrow> string option" where
  "archive_error_text fs =
     (if degraded fs = [] then None
      else Some (join ''; '' (sort (remdups
             (map (\<lambda>f. str_or (f_archive_error f) ''member archive unavailable'') (degraded fs))))))"

definition archive_state_of :: "StoredSyncFrame list \<Rightarrow> string" where
  "archive_state_of fs = (if degraded fs \<noteq> [] then ARCHIVE_DEGRADED_LIVE_ONLY else ARCHIVE_PENDING)"

text \<open>A changed capture session, configuration or authorization starts a new capture run.\<close>

definition rotate_run :: "string \<Rightarrow> resolved_identity \<Rightarrow> SyncMatcher \<Rightarrow> SyncMatcher" where
  "rotate_run fresh_uuid ident mt =
     (case ident of (identity_mode, session, config, auth) \<Rightarrow>
       (let mt =
          (if session \<noteq> None \<and> mt_capture_session_id mt \<noteq> None
              \<and> (session \<noteq> mt_capture_session_id mt \<or> config \<noteq> mt_capture_config_key mt
                 \<or> auth \<noteq> mt_authorization_key mt)
           then mt\<lparr> mt_capture_run_id := fresh_uuid, mt_next_frame_set_id := 1 \<rparr> else mt)
        in if session \<noteq> None
           then mt\<lparr> mt_capture_session_id := session, mt_capture_config_key := config,
                    mt_authorization_key := auth \<rparr>
           else mt))"

definition auth_field :: "(AuthorizationKey \<Rightarrow> string option) \<Rightarrow> AuthorizationKey option \<Rightarrow> string option" where
  "auth_field sel auth = (case auth of None \<Rightarrow> None | Some k \<Rightarrow> sel k)"

definition build_frame_set ::
  "SyncMatcher \<Rightarrow> resolved_identity \<Rightarrow> selection \<Rightarrow> int \<Rightarrow> int \<Rightarrow> string option \<Rightarrow> json \<Rightarrow> SynchronizedFrameSet" where
  "build_frame_set mt ident selected span_ms synchronized_at_ms uid payload =
     (case ident of (identity_mode, session, config, auth) \<Rightarrow>
       \<lparr> fs_frame_set_id = mt_next_frame_set_id mt,
         fs_anchor_timestamp_ms = list_max (map f_timestamp_ms (dict_values selected)),
         fs_max_delta_ms = span_ms, fs_frames = selected, fs_span_ms = Some span_ms,
         fs_capture_session_id = session, fs_capture_run_id = Some (mt_capture_run_id mt),
         fs_frame_set_uid = uid,
         fs_manifest_digest = Some (build_manifest_digest payload),
         fs_manifest_json = Some (canonical_json payload),
         fs_identity_mode = identity_mode,
         fs_archive_state = archive_state_of (dict_values selected),
         fs_archive_error = archive_error_text (dict_values selected),
         fs_sync_window_ms = mt_window_ms mt, fs_synchronized_at_ms = synchronized_at_ms,
         fs_member_count = int (length selected),
         fs_tenant_id = auth_field ak_tenant_id auth, fs_site_id = auth_field ak_site_id auth,
         fs_processing_job_id = auth_field ak_processing_job_id auth,
         fs_profile_digest = auth_field ak_profile_digest auth,
         fs_authorized_subject = auth_field ak_authorized_subject auth,
         fs_session_token_jti = auth_field ak_session_token_jti auth \<rparr>)"

text \<open>The counters and the recent list after a frame set was built.\<close>

definition record_match :: "SyncMatcher \<Rightarrow> SynchronizedFrameSet \<Rightarrow> SyncMatcher" where
  "record_match mt fset =
     mt\<lparr> mt_next_frame_set_id := mt_next_frame_set_id mt + 1,
         mt_matched_count := mt_matched_count mt + 1,
         mt_last_frame_set_id := Some (fs_frame_set_id fset),
         mt_last_anchor_timestamp_ms := Some (fs_anchor_timestamp_ms fset),
         mt_last_max_delta_ms := fs_span_ms fset, mt_last_span_ms := fs_span_ms fset,
         mt_last_missing_cameras := [], mt_last_reason := Some ''matched'',
         mt_last_identity_mode := Some (fs_identity_mode fset),
         mt_legacy_identity_count := mt_legacy_identity_count mt
           + (if fs_identity_mode fset = IDENTITY_MODE_LEGACY then 1 else 0),
         mt_last_archive_state := Some (fs_archive_state fset),
         mt_last_archive_error := fs_archive_error fset,
         mt_archive_degraded_count := mt_archive_degraded_count mt
           + (if fs_archive_state fset = ARCHIVE_DEGRADED_LIVE_ONLY then 1 else 0),
         mt_recent_frame_sets := deque_append (mt_recent_limit mt) (mt_recent_frame_sets mt) fset \<rparr>"

text \<open>The part of \<open>try_match\<close> after the selection was resolved and consumed.\<close>

definition emit_frame_set ::
  "int \<Rightarrow> string \<Rightarrow> resolved_identity \<Rightarrow> selection \<Rightarrow> int \<Rightarrow> SyncMatcher \<times> SyncFrameBufferManager
   \<Rightarrow> SynchronizedFrameSet option result \<times> SyncMatcher \<times> SyncFrameBufferManager" where
  "emit_frame_set now_ms fresh_uuid ident selected span_ms st =
     (case st of (mt, m) \<Rightarrow>
      (let mt = rotate_run fresh_uuid ident mt;
           anchor = list_max (map f_timestamp_ms (dict_values selected));
           payload = build_manifest_payload (fst (snd ident)) selected (fst ident) (mt_window_ms mt)
                       span_ms anchor (snd (snd (snd ident)));
           synchronized_at_ms = max now_ms (mt_last_synchronized_at_ms mt + 1);
           mt = mt\<lparr> mt_last_synchronized_at_ms := synchronized_at_ms \<rparr>
       in case (if fst ident = IDENTITY_MODE_V2
                then map_sum id Some (build_frame_set_uid (build_manifest_digest payload))
                else Inr None) of
            Inl e \<Rightarrow> (Inl e, mt, m)
          | Inr uid \<Rightarrow>
              (let fset = build_frame_set mt ident selected span_ms synchronized_at_ms uid payload
               in (Inr (Some fset), drop_stale_frames (record_match mt fset, m)))))"

definition try_match ::
  "int \<Rightarrow> string \<Rightarrow> SyncMatcher \<times> SyncFrameBufferManager \<Rightarrow> StoredSyncFrame
   \<Rightarrow> SynchronizedFrameSet option result \<times> SyncMatcher \<times> SyncFrameBufferManager" where
  "try_match now_ms fresh_uuid st trigger =
     (case st of (mt, m) \<Rightarrow>
      if mt_expected_cameras mt = []
      then (Inr None, record_miss mt trigger ''expected cameras are not configured'' [], m)
      else if f_device_id trigger \<notin> set (mt_expected_cameras mt)
      then (Inr None, mt\<lparr> mt_ignored_count := mt_ignored_count mt + 1,
                          mt_last_anchor_timestamp_ms := Some (f_timestamp_ms trigger),
                          mt_last_missing_cameras := [],
                          mt_last_reason := Some (''unexpected camera: '' @ f_device_id trigger) \<rparr>, m)
      else case select_min_span_candidate m (mt_expected_cameras mt) (mt_window_ms mt) of
        Inl e \<Rightarrow> (Inl e, mt, m)
      | Inr (selected, missing) \<Rightarrow>
          if missing \<noteq> []
          then (Inr None, drop_stale_frames
                 (record_miss mt trigger ''missing cameras inside sync window'' missing, m))
          else (case selected of
            None \<Rightarrow> (Inr None, drop_stale_frames
                 (record_miss mt trigger ''no frame set inside sync window'' [], m))
          | Some (frames, span_ms) \<Rightarrow>
              (case resolve_capture_identity frames of
                 Inl (FrameScopeConflict reason) \<Rightarrow>
                   (Inr None, drop_stale_frames (record_miss mt trigger reason [], m))
               | Inl e \<Rightarrow> (Inl e, mt, m)
               | Inr ident \<Rightarrow>
                   (case consume_through m frames of
                      (Inl e, m) \<Rightarrow> (Inl e, mt, m)
                    | (Inr superseded, m) \<Rightarrow>
                        emit_frame_set now_ms fresh_uuid ident frames span_ms
                          (mt\<lparr> mt_dropped_superseded_count := mt_dropped_superseded_count mt + superseded \<rparr>, m)))))"

section \<open>Late archive results\<close>

definition replace_recent_frame_set :: "SyncMatcher \<Rightarrow> SynchronizedFrameSet \<Rightarrow> SyncMatcher" where
  "replace_recent_frame_set mt updated =
     mt\<lparr> mt_recent_frame_sets := deque_of (mt_recent_limit mt)
          (map (\<lambda>item. if fs_capture_run_id item = fs_capture_run_id updated
                         \<and> fs_frame_set_id item = fs_frame_set_id updated then updated else item)
             (mt_recent_frame_sets mt)) \<rparr>"

definition recent_frame_sets :: "SyncMatcher \<Rightarrow> SynchronizedFrameSet list" where
  "recent_frame_sets mt = mt_recent_frame_sets mt"

text \<open>Both updates count a frame set once, when it becomes degraded.\<close>

definition note_archive :: "SyncMatcher \<Rightarrow> SynchronizedFrameSet \<Rightarrow> SynchronizedFrameSet \<Rightarrow> SyncMatcher" where
  "note_archive mt before updated =
     replace_recent_frame_set
       (mt\<lparr> mt_archive_degraded_count := mt_archive_degraded_count mt
              + (if fs_archive_state before \<noteq> ARCHIVE_DEGRADED_LIVE_ONLY
                    \<and> fs_archive_state updated = ARCHIVE_DEGRADED_LIVE_ONLY then 1 else 0),
            mt_last_archive_state := Some (fs_archive_state updated),
            mt_last_archive_error := fs_archive_error updated \<rparr>) updated"

definition finalize_archive_state ::
  "SyncMatcher \<Rightarrow> SynchronizedFrameSet \<Rightarrow> string \<Rightarrow> string option \<Rightarrow> SynchronizedFrameSet \<times> SyncMatcher" where
  "finalize_archive_state mt fset state error =
     (let updated = fset\<lparr> fs_archive_state := state, fs_archive_error := error \<rparr>
      in (updated, note_archive mt fset updated))"

fun replace_first_member :: "StoredSyncFrame \<Rightarrow> selection \<Rightarrow> selection" where
  "replace_first_member frame [] = []"
| "replace_first_member frame ((d, member) # rest) =
     (if f_buffer_key member = f_buffer_key frame then (d, frame) # rest
      else (d, member) # replace_first_member frame rest)"

definition replace_frame_member ::
  "SyncMatcher \<Rightarrow> SynchronizedFrameSet \<Rightarrow> StoredSyncFrame \<Rightarrow> SynchronizedFrameSet \<times> SyncMatcher" where
  "replace_frame_member mt fset frame =
     (let frames = replace_first_member frame (fs_frames fset);
          updated = fset\<lparr> fs_frames := frames, fs_archive_state := archive_state_of (dict_values frames),
                          fs_archive_error := archive_error_text (dict_values frames) \<rparr>
      in (updated, note_archive mt fset updated))"

definition has_member :: "string \<Rightarrow> SynchronizedFrameSet \<Rightarrow> bool" where
  "has_member key fset \<longleftrightarrow> list_ex (\<lambda>member. f_buffer_key member = key) (dict_values (fs_frames fset))"

definition replace_recent_frame_member ::
  "SyncMatcher \<Rightarrow> StoredSyncFrame \<Rightarrow> SynchronizedFrameSet option \<times> SyncMatcher" where
  "replace_recent_frame_member mt frame =
     (case List.find (has_member (f_buffer_key frame)) (rev (mt_recent_frame_sets mt)) of
        None \<Rightarrow> (None, mt)
      | Some fset \<Rightarrow> map_prod Some id (replace_frame_member mt fset frame))"

definition matcher_status :: "SyncMatcher \<Rightarrow> (string, json) dict" where
  "matcher_status mt =
     [(''matched_count'', JInt (mt_matched_count mt)),
      (''missed_count'', JInt (mt_missed_count mt)),
      (''duplicate_count'', JInt (mt_duplicate_count mt)),
      (''ignored_count'', JInt (mt_ignored_count mt)),
      (''last_frame_set_id'', jint_opt (mt_last_frame_set_id mt)),
      (''last_anchor_timestamp_ms'', jint_opt (mt_last_anchor_timestamp_ms mt)),
      (''last_max_delta_ms'', jint_opt (mt_last_max_delta_ms mt)),
      (''last_span_ms'', jint_opt (mt_last_span_ms mt)),
      (''watermark_timestamp_ms'', jint_opt (mt_last_watermark_timestamp_ms mt)),
      (''dropped_stale_count'', JInt (mt_dropped_stale_count mt)),
      (''dropped_superseded_count'', JInt (mt_dropped_superseded_count mt)),
      (''last_missing_cameras'', JList (map JStr (mt_last_missing_cameras mt))),
      (''last_reason'', jopt (mt_last_reason mt)),
      (''capture_session_id'', jopt (mt_capture_session_id mt)),
      (''capture_run_id'', JStr (mt_capture_run_id mt)),
      (''last_identity_mode'', jopt (mt_last_identity_mode mt)),
      (''legacy_identity_count'', JInt (mt_legacy_identity_count mt)),
      (''last_archive_state'', jopt (mt_last_archive_state mt)),
      (''last_archive_error'', jopt (mt_last_archive_error mt)),
      (''archive_degraded_count'', JInt (mt_archive_degraded_count mt))]"

section \<open>Helper facts\<close>

lemma selection_span_max_min:
  assumes "selection_span sel s"
  shows "s = list_max (map f_timestamp_ms (dict_values sel)) - list_min (map f_timestamp_ms (dict_values sel))"
proof -
  let ?ts = "map f_timestamp_ms (dict_values sel)"
  obtain f g where fg: "f \<in> set (dict_values sel)" "g \<in> set (dict_values sel)"
    "f_timestamp_ms f - f_timestamp_ms g = s" using assms unfolding selection_span_def by blast
  then have ne: "?ts \<noteq> []" by auto
  obtain f' g' where f': "f' \<in> set (dict_values sel)" "f_timestamp_ms f' = list_max ?ts"
    and g': "g' \<in> set (dict_values sel)" "f_timestamp_ms g' = list_min ?ts"
    using list_max_in [OF ne] list_min_in [OF ne] by (metis (no_types, lifting) imageE set_map)
  have "f_timestamp_ms f \<in> set ?ts" "f_timestamp_ms g \<in> set ?ts" using fg(1,2) by force+
  then have "f_timestamp_ms f \<le> list_max ?ts" "list_min ?ts \<le> f_timestamp_ms g"
    by (blast intro: list_max_ge list_min_le)+
  moreover have "list_max ?ts - list_min ?ts \<le> s"
    using assms f' g' unfolding selection_span_def by metis
  ultimately show ?thesis using fg(3) by linarith
qed

text \<open>What dropping stale frames changes: the buffers of the expected cameras and two counters.\<close>

lemma drop_stale_frames_inv:
  "manager_inv m \<Longrightarrow> manager_inv (snd (drop_stale_frames (mt, m)))"
  using drop_frames_inv [of m] by (auto simp: drop_stale_frames_def Let_def split: prod.splits)
    (metis snd_conv)

lemma drop_stale_frames_ordered:
  "ordered_inv m \<Longrightarrow> ordered_inv (snd (drop_stale_frames (mt, m)))"
  using drop_frames_ordered [of m] by (auto simp: drop_stale_frames_def Let_def split: prod.splits)
    (metis snd_conv)

lemma drop_stale_frames_matcher:
  "\<exists>w c. fst (drop_stale_frames (mt, m)) = mt\<lparr> mt_last_watermark_timestamp_ms := w, mt_dropped_stale_count := c \<rparr>"
proof (cases "length (latest_timestamps m (mt_expected_cameras mt)) \<noteq> length (mt_expected_cameras mt)")
  case True
  then have "fst (drop_stale_frames (mt, m)) = mt\<lparr> mt_last_watermark_timestamp_ms := mt_last_watermark_timestamp_ms mt,
      mt_dropped_stale_count := mt_dropped_stale_count mt \<rparr>"
    by (simp add: drop_stale_frames_def)
  then show ?thesis by blast
next
  case False
  then show ?thesis by (auto simp: drop_stale_frames_def Let_def split: prod.splits)
qed

lemma drop_frames_subset:
  assumes "dict_get (bm_buffers (snd (drop_frames_older_than m ds ts ex))) d = Some b'"
  shows "\<exists>b. dict_get (bm_buffers m) d = Some b \<and> set (cb_frames b') \<subseteq> set (cb_frames b)"
  using assms
proof (induction m ds ts ex rule: drop_frames_older_than.induct)
  case (2 m x ds ts ex)
  show ?case
  proof (cases "dict_get (bm_buffers m) x")
    case None
    with 2 show ?thesis by simp
  next
    case (Some b)
    obtain n c where c: "buffer_drop_frames_older_than b ts ex = (n, c)" by fastforce
    have sub: "set (cb_frames c) \<subseteq> set (cb_frames b)"
      using c deque_of_set by (fastforce simp: buffer_drop_frames_older_than_def drop_loop_eq)
    from "2.IH"(2) [OF Some c [symmetric] refl] "2.prems" Some c
    obtain b0 where "dict_get (bm_buffers (m\<lparr> bm_buffers := dict_set (bm_buffers m) x c \<rparr>)) d = Some b0"
      "set (cb_frames b') \<subseteq> set (cb_frames b0)" by (auto split: prod.splits)
    with sub Some show ?thesis by (auto split: if_splits)
  qed
qed auto

section \<open>The shape of an emission\<close>

text \<open>The matcher an emitted frame set is built from: run and identity rotated, clock advanced.\<close>

definition advance :: "int \<Rightarrow> string \<Rightarrow> resolved_identity \<Rightarrow> SyncMatcher \<Rightarrow> SyncMatcher" where
  "advance now_ms fresh_uuid ident mt =
     (let mt = rotate_run fresh_uuid ident mt
      in mt\<lparr> mt_last_synchronized_at_ms := max now_ms (mt_last_synchronized_at_ms mt + 1) \<rparr>)"

definition selection_payload :: "SyncMatcher \<Rightarrow> resolved_identity \<Rightarrow> selection \<Rightarrow> int \<Rightarrow> json" where
  "selection_payload mt ident selected span_ms =
     build_manifest_payload (fst (snd ident)) selected (fst ident) (mt_window_ms mt) span_ms
       (list_max (map f_timestamp_ms (dict_values selected))) (snd (snd (snd ident)))"

definition emitted :: "SyncMatcher \<Rightarrow> resolved_identity \<Rightarrow> selection \<Rightarrow> int \<Rightarrow> SynchronizedFrameSet" where
  "emitted mt ident selected span_ms =
     build_frame_set mt ident selected span_ms (mt_last_synchronized_at_ms mt)
       (if fst ident = IDENTITY_MODE_V2
        then Some (str_uuid (uuid5 FRAME_SET_NAMESPACE
               (build_manifest_digest (selection_payload mt ident selected span_ms))))
        else None)
       (selection_payload mt ident selected span_ms)"

lemma rotate_run_simps [simp]:
  "mt_expected_cameras (rotate_run u ident mt) = mt_expected_cameras mt"
  "mt_window_ms (rotate_run u ident mt) = mt_window_ms mt"
  "mt_recent_limit (rotate_run u ident mt) = mt_recent_limit mt"
  "mt_last_synchronized_at_ms (rotate_run u ident mt) = mt_last_synchronized_at_ms mt"
  "mt_recent_frame_sets (rotate_run u ident mt) = mt_recent_frame_sets mt"
  "mt_matched_count (rotate_run u ident mt) = mt_matched_count mt"
  "mt_missed_count (rotate_run u ident mt) = mt_missed_count mt"
  "mt_ignored_count (rotate_run u ident mt) = mt_ignored_count mt"
  by (simp_all add: rotate_run_def Let_def split: prod.splits)

lemma advance_simps [simp]:
  "mt_expected_cameras (advance t u ident mt) = mt_expected_cameras mt"
  "mt_window_ms (advance t u ident mt) = mt_window_ms mt"
  "mt_recent_limit (advance t u ident mt) = mt_recent_limit mt"
  "mt_last_synchronized_at_ms (advance t u ident mt) = max t (mt_last_synchronized_at_ms mt + 1)"
  "mt_recent_frame_sets (advance t u ident mt) = mt_recent_frame_sets mt"
  "mt_matched_count (advance t u ident mt) = mt_matched_count mt"
  "mt_missed_count (advance t u ident mt) = mt_missed_count mt"
  "mt_ignored_count (advance t u ident mt) = mt_ignored_count mt"
  "mt_capture_run_id (advance t u ident mt) = mt_capture_run_id (rotate_run u ident mt)"
  "mt_next_frame_set_id (advance t u ident mt) = mt_next_frame_set_id (rotate_run u ident mt)"
  by (simp_all add: advance_def Let_def)

lemma emit_frame_set_eq:
  "emit_frame_set t u ident sel span (mt, m) =
     (let mt' = advance t u ident mt; fset = emitted mt' ident sel span
      in (Inr (Some fset), drop_stale_frames (record_match mt' fset, m)))"
  by (auto simp: emit_frame_set_def advance_def emitted_def selection_payload_def Let_def
      build_frame_set_uid_digest split: prod.splits)

lemma select_never_raises: "\<exists>r. select_min_span_candidate m expected window = Inr r"
  using select_min_span_candidate_correct [of m expected window] by (auto split: sum.splits)

lemma selects_buffered:
  assumes "selects m expected sel" "dict_get sel d = Some f"
  shows "\<exists>b. dict_get (bm_buffers m) d = Some b \<and> f \<in> set (cb_frames b)"
proof -
  have "f \<in> set (available_frames m d {})" using assms unfolding selects_def by blast
  then show ?thesis by (auto simp: available_frames_set split: option.splits)
qed

lemma selection_consumed:
  assumes inv: "manager_inv m" and sel: "selects m expected sel"
  obtains n m' where "consume_through m sel = (Inr n, m')" "0 \<le> n" "manager_inv m'"
    "bm_frames_by_key m' = bm_frames_by_key m"
    "\<And>d b'. dict_get (bm_buffers m') d = Some b' \<Longrightarrow>
       \<exists>b. dict_get (bm_buffers m) d = Some b \<and> set (cb_frames b') \<subseteq> set (cb_frames b)
         \<and> (\<forall>c. dict_get sel d = Some c \<longrightarrow> (\<forall>f \<in> set (cb_frames b'). f_timestamp_ms c < f_timestamp_ms f))"
proof -
  have dist: "distinct (map fst sel)" using sel by (simp add: selects_def)
  have "\<forall>d \<in> set (map fst sel). dict_get (bm_buffers m) d \<noteq> None"
    using selects_buffered [OF sel] unfolding dict_keys_dom by fastforce
  from consume_through_spec [OF inv dist this] obtain n m' where
    c: "consume_through m sel = (Inr n, m')" "0 \<le> n" "bm_frames_by_key m' = bm_frames_by_key m"
    and bufs: "\<And>d. dict_get (bm_buffers m') d =
         (case dict_get (bm_buffers m) d of None \<Rightarrow> None
          | Some b \<Rightarrow> Some (case map_of sel d of None \<Rightarrow> b
              | Some c \<Rightarrow> b\<lparr> cb_frames := filter (\<lambda>f. f_timestamp_ms c < f_timestamp_ms f) (cb_frames b) \<rparr>))"
    by blast
  show ?thesis
  proof (rule that [OF c(1,2) _ c(3)])
    show "manager_inv m'" using consume_through_inv [OF inv, of sel] c(1) by simp
    show "\<exists>b. dict_get (bm_buffers m) d = Some b \<and> set (cb_frames b') \<subseteq> set (cb_frames b)
         \<and> (\<forall>c. dict_get sel d = Some c \<longrightarrow> (\<forall>f \<in> set (cb_frames b'). f_timestamp_ms c < f_timestamp_ms f))"
      if "dict_get (bm_buffers m') d = Some b'" for d b'
      using that unfolding bufs by (auto split: option.splits)
  qed
qed

text \<open>A text field that is not empty but holds nothing but white space.\<close>

definition blank :: "string option \<Rightarrow> bool" where
  "blank s \<longleftrightarrow> truthy s \<and> strip (str_or s []) = []"

lemma map_result_Inl: "map_result f xs = Inl e \<Longrightarrow> \<exists>x \<in> set xs. f x = Inl e"
  by (induction xs) (auto split: sum.splits)

lemma build_capture_session_id_Inl:
  assumes "build_capture_session_id xs = Inl e" "xs \<noteq> []"
  shows "(\<exists>r. e = ValueError r) \<and> (\<exists>(c, s) \<in> set xs. strip c = [] \<or> strip s = [])"
proof (cases "map_result session_member xs")
  case (Inl e')
  then have "e = e'" using assms by (simp add: build_capture_session_id_def)
  with map_result_Inl [OF Inl] obtain c s where x: "(c, s) \<in> set xs" "session_member (c, s) = Inl e" by fastforce
  then have "\<exists>r. e = ValueError r" "strip c = [] \<or> strip s = []"
    by (auto simp: session_member_def required_text_def Let_def split: if_splits)
  with x(1) show ?thesis by blast
next
  case (Inr ys)
  then have "length ys = length xs" using map_result_Inr_length by blast
  then have "sort ys \<noteq> []" using assms(2) by (metis length_0_conv length_sort)
  then show ?thesis using assms(1) Inr by (simp add: build_capture_session_id_def Let_def)
qed

lemma resolve_authorization_Inl:
  "resolve_authorization fs = Inl e \<Longrightarrow> \<exists>r. e = FrameScopeConflict r"
  by (auto simp: resolve_authorization_def Let_def split: if_splits)

lemma resolve_capture_identity_Inl:
  assumes "resolve_capture_identity sel = Inl e" "sel \<noteq> []"
  shows "(\<exists>r. e = FrameScopeConflict r) \<or>
    (\<exists>r. e = ValueError r) \<and> list_all identity_complete (dict_values sel)
      \<and> list_ex (\<lambda>f. blank (f_camera_stream_id f) \<or> blank (f_source_session_id f)) (dict_values sel)"
proof (cases "resolve_authorization (dict_values sel)")
  case (Inl e')
  with assms show ?thesis
    by (auto simp: resolve_capture_identity_def Let_def dest: resolve_authorization_Inl split: if_splits)
next
  case (Inr auth)
  let ?ms = "map (\<lambda>f. (str_or (f_camera_stream_id f) [], str_or (f_source_session_id f) [])) (dict_values sel)"
  have all: "list_all identity_complete (dict_values sel)" and err: "build_capture_session_id ?ms = Inl e"
    using assms(1) Inr by (auto simp: resolve_capture_identity_def Let_def split: if_splits option.splits
        elim!: bind_result.elims)
  from build_capture_session_id_Inl [OF err] assms(2) obtain r f where "e = ValueError r"
    "f \<in> set (dict_values sel)"
    "strip (str_or (f_camera_stream_id f) []) = [] \<or> strip (str_or (f_source_session_id f) []) = []"
    by auto
  moreover from this all have "truthy (f_camera_stream_id f)" "truthy (f_source_session_id f)"
    by (auto simp: list_all_iff identity_complete_def)
  ultimately show ?thesis using all by (auto simp: list_ex_iff blank_def)
qed

lemma selects_nonempty: "selects m expected sel \<Longrightarrow> expected \<noteq> [] \<Longrightarrow> sel \<noteq> []"
  by (auto simp: selects_def)

text \<open>The outcomes of \<open>try_match\<close>.\<close>

lemma try_match_cases:
  assumes inv: "manager_inv m"
  obtains (unconfigured) "mt_expected_cameras mt = []"
      "try_match t u (mt, m) trigger = (Inr None, record_miss mt trigger ''expected cameras are not configured'' [], m)"
  | (ignored) "f_device_id trigger \<notin> set (mt_expected_cameras mt)"
      "try_match t u (mt, m) trigger = (Inr None, mt\<lparr> mt_ignored_count := mt_ignored_count mt + 1,
         mt_last_anchor_timestamp_ms := Some (f_timestamp_ms trigger), mt_last_missing_cameras := [],
         mt_last_reason := Some (''unexpected camera: '' @ f_device_id trigger) \<rparr>, m)"
  | (missed) reason missing where
      "try_match t u (mt, m) trigger = (Inr None, drop_stale_frames (record_miss mt trigger reason missing, m))"
  | (raised) sel span e where "selects m (mt_expected_cameras mt) sel"
      "resolve_capture_identity sel = Inl (ValueError e)"
      "list_all identity_complete (dict_values sel)"
      "list_ex (\<lambda>f. blank (f_camera_stream_id f) \<or> blank (f_source_session_id f)) (dict_values sel)"
      "try_match t u (mt, m) trigger = (Inl (ValueError e), mt, m)"
  | (matched) sel span ident n m1 mt' where
      "mt_expected_cameras mt \<noteq> []" "f_device_id trigger \<in> set (mt_expected_cameras mt)"
      "select_min_span_candidate m (mt_expected_cameras mt) (mt_window_ms mt) = Inr (Some (sel, span), [])"
      "selects m (mt_expected_cameras mt) sel" "selection_span sel span" "span \<le> mt_window_ms mt"
      "resolve_capture_identity sel = Inr ident" "consume_through m sel = (Inr n, m1)"
      "mt' = advance t u ident (mt\<lparr> mt_dropped_superseded_count := mt_dropped_superseded_count mt + n \<rparr>)"
      "try_match t u (mt, m) trigger =
         (Inr (Some (emitted mt' ident sel span)), drop_stale_frames (record_match mt' (emitted mt' ident sel span), m1))"
proof -
  let ?ex = "mt_expected_cameras mt" and ?w = "mt_window_ms mt"
  consider "?ex = []" | "?ex \<noteq> []" "f_device_id trigger \<notin> set ?ex" | "?ex \<noteq> []" "f_device_id trigger \<in> set ?ex" by blast
  then show ?thesis
  proof cases
    case 1
    then show ?thesis by (intro unconfigured) (simp_all add: try_match_def)
  next
    case 2
    then show ?thesis by (intro ignored) (simp_all add: try_match_def)
  next
    case 3
    obtain selected missing where s: "select_min_span_candidate m ?ex ?w = Inr (selected, missing)"
      using select_never_raises by fastforce
    consider "missing \<noteq> []" | "missing = []" "selected = None" | "missing = []" "selected \<noteq> None" by blast
    then show ?thesis
    proof cases
      case 1
      then show ?thesis using 3 s by (intro missed [of "''missing cameras inside sync window''" missing]) (simp add: try_match_def)
    next
      case 2
      then show ?thesis using 3 s by (intro missed [of "''no frame set inside sync window''" "[]"]) (simp add: try_match_def)
    next
      case sub: 3
      then obtain sel span where sel: "selected = Some (sel, span)" "missing = []" by auto
      have ok: "selects m ?ex sel" "selection_span sel span" "span \<le> ?w"
        using select_min_span_candidate_correct [of m ?ex ?w] s sel by auto
      note ne = selects_nonempty [OF ok(1) 3(1)]
      obtain n m1 where c: "consume_through m sel = (Inr n, m1)"
        by (rule selection_consumed [OF inv ok(1)])
      show ?thesis
      proof (cases "resolve_capture_identity sel")
        case (Inl e)
        from resolve_capture_identity_Inl [OF Inl ne] show ?thesis
        proof
          assume "\<exists>r. e = FrameScopeConflict r"
          then obtain r where "e = FrameScopeConflict r" ..
          then show ?thesis using 3 s sel Inl by (intro missed [of r "[]"]) (simp add: try_match_def)
        next
          assume "(\<exists>r. e = ValueError r) \<and> list_all identity_complete (dict_values sel) \<and>
            list_ex (\<lambda>f. blank (f_camera_stream_id f) \<or> blank (f_source_session_id f)) (dict_values sel)"
          then show ?thesis using 3 s sel Inl ok(1) by (elim conjE exE, intro raised) (auto simp: try_match_def)
        qed
      next
        case (Inr ident)
        then show ?thesis using 3 s sel ok c
          by (intro matched [OF 3 _ ok Inr c refl]) (simp_all add: try_match_def emit_frame_set_eq Let_def)
      qed
    qed
  qed
qed

section \<open>What every call keeps\<close>

lemma record_simps [simp]:
  "mt_expected_cameras (record_miss mt tr r ms) = mt_expected_cameras mt"
  "mt_window_ms (record_miss mt tr r ms) = mt_window_ms mt"
  "mt_recent_limit (record_miss mt tr r ms) = mt_recent_limit mt"
  "mt_recent_frame_sets (record_miss mt tr r ms) = mt_recent_frame_sets mt"
  "mt_capture_run_id (record_miss mt tr r ms) = mt_capture_run_id mt"
  "mt_next_frame_set_id (record_miss mt tr r ms) = mt_next_frame_set_id mt"
  "mt_last_synchronized_at_ms (record_miss mt tr r ms) = mt_last_synchronized_at_ms mt"
  "mt_matched_count (record_miss mt tr r ms) = mt_matched_count mt"
  "mt_missed_count (record_miss mt tr r ms) = mt_missed_count mt + 1"
  "mt_ignored_count (record_miss mt tr r ms) = mt_ignored_count mt"
  "mt_expected_cameras (record_match mt fset) = mt_expected_cameras mt"
  "mt_window_ms (record_match mt fset) = mt_window_ms mt"
  "mt_recent_limit (record_match mt fset) = mt_recent_limit mt"
  "mt_recent_frame_sets (record_match mt fset) = deque_append (mt_recent_limit mt) (mt_recent_frame_sets mt) fset"
  "mt_capture_run_id (record_match mt fset) = mt_capture_run_id mt"
  "mt_next_frame_set_id (record_match mt fset) = mt_next_frame_set_id mt + 1"
  "mt_last_synchronized_at_ms (record_match mt fset) = mt_last_synchronized_at_ms mt"
  "mt_matched_count (record_match mt fset) = mt_matched_count mt + 1"
  "mt_missed_count (record_match mt fset) = mt_missed_count mt"
  "mt_ignored_count (record_match mt fset) = mt_ignored_count mt"
  by (simp_all add: record_miss_def record_match_def)

lemma drop_stale_simps [simp]:
  "mt_expected_cameras (fst (drop_stale_frames (mt, m))) = mt_expected_cameras mt"
  "mt_window_ms (fst (drop_stale_frames (mt, m))) = mt_window_ms mt"
  "mt_recent_limit (fst (drop_stale_frames (mt, m))) = mt_recent_limit mt"
  "mt_recent_frame_sets (fst (drop_stale_frames (mt, m))) = mt_recent_frame_sets mt"
  "mt_capture_run_id (fst (drop_stale_frames (mt, m))) = mt_capture_run_id mt"
  "mt_next_frame_set_id (fst (drop_stale_frames (mt, m))) = mt_next_frame_set_id mt"
  "mt_last_synchronized_at_ms (fst (drop_stale_frames (mt, m))) = mt_last_synchronized_at_ms mt"
  "mt_matched_count (fst (drop_stale_frames (mt, m))) = mt_matched_count mt"
  "mt_missed_count (fst (drop_stale_frames (mt, m))) = mt_missed_count mt"
  "mt_ignored_count (fst (drop_stale_frames (mt, m))) = mt_ignored_count mt"
  using drop_stale_frames_matcher [of mt m] by auto

lemma emitted_simps [simp]:
  "fs_frames (emitted mt ident sel span) = sel"
  "fs_frame_set_id (emitted mt ident sel span) = mt_next_frame_set_id mt"
  "fs_capture_run_id (emitted mt ident sel span) = Some (mt_capture_run_id mt)"
  "fs_synchronized_at_ms (emitted mt ident sel span) = mt_last_synchronized_at_ms mt"
  "fs_span_ms (emitted mt ident sel span) = Some span"
  "fs_max_delta_ms (emitted mt ident sel span) = span"
  "fs_sync_window_ms (emitted mt ident sel span) = mt_window_ms mt"
  "fs_anchor_timestamp_ms (emitted mt ident sel span) = list_max (map f_timestamp_ms (dict_values sel))"
  "fs_identity_mode (emitted mt ident sel span) = fst ident"
  "fs_capture_session_id (emitted mt ident sel span) = fst (snd ident)"
  "fs_member_count (emitted mt ident sel span) = int (length sel)"
  "fs_tenant_id (emitted mt ident sel span) = auth_field ak_tenant_id (snd (snd (snd ident)))"
  "fs_site_id (emitted mt ident sel span) = auth_field ak_site_id (snd (snd (snd ident)))"
  "fs_processing_job_id (emitted mt ident sel span) = auth_field ak_processing_job_id (snd (snd (snd ident)))"
  "fs_profile_digest (emitted mt ident sel span) = auth_field ak_profile_digest (snd (snd (snd ident)))"
  "fs_archive_state (emitted mt ident sel span) = archive_state_of (dict_values sel)"
  by (simp_all add: emitted_def build_frame_set_def split: prod.splits)

lemma try_match_inv:
  assumes "manager_inv m"
  shows "manager_inv (snd (snd (try_match t u (mt, m) trigger)))"
  using assms
proof (cases rule: try_match_cases [where mt = mt and t = t and u = u and trigger = trigger])
  case (matched sel span ident n m1 mt')
  have "manager_inv m1" using consume_through_inv [OF assms, of sel] matched(8) by simp
  then show ?thesis using matched by (simp add: drop_stale_frames_inv)
qed (use assms in \<open>simp_all add: drop_stale_frames_inv\<close>)

lemma try_match_ordered:
  assumes "ordered_inv m"
  shows "ordered_inv (snd (snd (try_match t u (mt, m) trigger)))"
  using ordered_inv_manager [OF assms]
proof (cases rule: try_match_cases [where mt = mt and t = t and u = u and trigger = trigger])
  case (matched sel span ident n m1 mt')
  have "ordered_inv m1" using consume_through_ordered [OF assms, of sel] matched(8) by simp
  then show ?thesis using matched by (simp add: drop_stale_frames_ordered)
qed (use assms in \<open>simp_all add: drop_stale_frames_ordered\<close>)

text \<open>An emitted frame set and the state it was built from.\<close>

lemma try_match_SomeE:
  assumes inv: "manager_inv m" and fs: "try_match t u (mt, m) trigger = (Inr (Some fset), mt1, m1)"
  obtains ident span n mc mt' where
    "selects m (mt_expected_cameras mt) (fs_frames fset)" "selection_span (fs_frames fset) span"
    "span \<le> mt_window_ms mt" "fs_frames fset \<noteq> []"
    "\<And>sel' s. selects m (mt_expected_cameras mt) sel' \<Longrightarrow> selection_span sel' s \<Longrightarrow> span \<le> s"
    "resolve_capture_identity (fs_frames fset) = Inr ident"
    "consume_through m (fs_frames fset) = (Inr n, mc)"
    "mt' = advance t u ident (mt\<lparr> mt_dropped_superseded_count := mt_dropped_superseded_count mt + n \<rparr>)"
    "fset = emitted mt' ident (fs_frames fset) span"
    "(mt1, m1) = drop_stale_frames (record_match mt' fset, mc)"
  using inv
proof (cases rule: try_match_cases [where mt = mt and t = t and u = u and trigger = trigger])
  case (matched sel span ident n mc mt')
  have best: "span \<le> s" if "selects m (mt_expected_cameras mt) sel'" "selection_span sel' s" for sel' s
    using select_min_span_candidate_correct [of m "mt_expected_cameras mt" "mt_window_ms mt"]
      matched(3) that by auto
  have fset: "fset = emitted mt' ident sel span" using fs matched(10) by simp
  show ?thesis
  proof (rule that [of span ident n mc mt'])
    show "fs_frames fset \<noteq> []" using selects_nonempty [OF matched(4,1)] fset by simp
    show "(mt1, m1) = drop_stale_frames (record_match mt' fset, mc)" using fs matched(10) fset by auto
  qed (use matched(1-9) best fset in auto)
qed (use fs in auto)

text \<open>Each call that does not raise adds one to exactly one of the three counters.\<close>

lemma try_match_counts:
  assumes inv: "manager_inv m" and ok: "try_match t u (mt, m) trigger = (Inr r, mt1, m1)"
  shows "mt_matched_count mt1 = mt_matched_count mt + (if r = None then 0 else 1)"
    and "mt_missed_count mt1 + mt_ignored_count mt1
       = mt_missed_count mt + mt_ignored_count mt + (if r = None then 1 else 0)"
  using inv
  by (cases rule: try_match_cases [where mt = mt and t = t and u = u and trigger = trigger];
      use ok drop_stale_simps in \<open>fastforce dest: arg_cong [where f = fst]\<close>)+

section \<open>What an emitted frame set promises\<close>

lemma emitted_span:
  assumes "manager_inv m" "try_match t u (mt, m) trigger = (Inr (Some fset), mt1, m1)"
  defines "ts \<equiv> map f_timestamp_ms (dict_values (fs_frames fset))"
  shows "fs_span_ms fset = Some (list_max ts - list_min ts)" "fs_anchor_timestamp_ms fset = list_max ts"
    "list_max ts - list_min ts \<le> mt_window_ms mt"
proof -
  obtain ident span mt' where e: "selection_span (fs_frames fset) span" "span \<le> mt_window_ms mt"
      "fset = emitted mt' ident (fs_frames fset) span"
    by (rule try_match_SomeE [OF assms(1,2)])
  have "span = list_max ts - list_min ts" using selection_span_max_min [OF e(1)] by (simp add: ts_def)
  moreover have "fs_span_ms fset = Some span" "fs_anchor_timestamp_ms fset = list_max ts"
    unfolding ts_def by (subst e(3), simp)+
  ultimately show "fs_span_ms fset = Some (list_max ts - list_min ts)" "fs_anchor_timestamp_ms fset = list_max ts"
    "list_max ts - list_min ts \<le> mt_window_ms mt" using e(2) by simp_all
qed

text \<open>Members leave the buffers with every older frame of their camera; newer frames may stay.\<close>

lemma drop_stale_subset:
  assumes "dict_get (bm_buffers (snd (drop_stale_frames (mt, m)))) d = Some b'"
  shows "\<exists>b. dict_get (bm_buffers m) d = Some b \<and> set (cb_frames b') \<subseteq> set (cb_frames b)"
  using assms drop_frames_subset [of m "mt_expected_cameras mt" _ "{}" d b']
  by (auto simp: drop_stale_frames_def Let_def split: if_splits prod.splits) (metis snd_conv)

lemma emitted_consumed:
  assumes inv: "manager_inv m" and fs: "try_match t u (mt, m) trigger = (Inr (Some fset), mt1, m1)"
    and c: "dict_get (fs_frames fset) d = Some c"
    and f: "dict_get (bm_buffers m1) d = Some b" "f \<in> set (cb_frames b)"
  shows "f_timestamp_ms c < f_timestamp_ms f"
proof -
  obtain n mc mt' where e: "selects m (mt_expected_cameras mt) (fs_frames fset)"
      "consume_through m (fs_frames fset) = (Inr n, mc)"
      "(mt1, m1) = drop_stale_frames (record_match mt' fset, mc)"
    by (rule try_match_SomeE [OF inv fs])
  from drop_stale_subset [of "record_match mt' fset" mc d b] e(3) f obtain b0 where
    b0: "dict_get (bm_buffers mc) d = Some b0" "f \<in> set (cb_frames b0)" by (metis snd_conv subsetD)
  obtain n' mc' where "consume_through m (fs_frames fset) = (Inr n', mc')"
    "\<And>d b'. dict_get (bm_buffers mc') d = Some b' \<Longrightarrow>
       \<exists>b. dict_get (bm_buffers m) d = Some b \<and> set (cb_frames b') \<subseteq> set (cb_frames b)
         \<and> (\<forall>c. dict_get (fs_frames fset) d = Some c \<longrightarrow> (\<forall>f \<in> set (cb_frames b'). f_timestamp_ms c < f_timestamp_ms f))"
    by (rule selection_consumed [OF inv e(1)]) (erule that, blast)
  with e(2) b0 c show ?thesis by fastforce
qed

section \<open>Authorization scope\<close>

lemma resolve_authorization_None:
  assumes "resolve_authorization fs = Inr None" "f \<in> set fs"
  shows "\<not> list_ex truthy (scope_values f)"
  using assms by (auto simp: resolve_authorization_def Let_def filter_empty_conv split: if_splits)

lemma resolve_authorization_Some:
  assumes "resolve_authorization fs = Inr (Some key)"
  shows "f \<in> set fs \<Longrightarrow> list_all truthy (scope_values f)"
    and "f \<in> set fs \<Longrightarrow> group_key_of f =
      (ak_tenant_id key, ak_site_id key, ak_capture_session_id key, ak_processing_job_id key, ak_profile_digest key)"
    and "distinct (map f_authorized_camera_id fs)"
proof -
  let ?g = "remdups (map group_key_of (filter (\<lambda>f. list_ex truthy (scope_values f)) fs))"
  have g: "length ?g = 1" and noex: "\<not> list_ex (\<lambda>f. \<not> list_all truthy (scope_values f)) fs"
    and dist: "distinct (map f_authorized_camera_id fs)"
    using assms unfolding resolve_authorization_def Let_def by (simp_all split: if_splits)
  then have all: "f \<in> set fs \<Longrightarrow> list_all truthy (scope_values f)" for f by (auto simp: list_ex_iff)
  from g obtain g where g1: "?g = [g]" by (cases ?g) auto
  have set_g: "set (map group_key_of (filter (\<lambda>f. list_ex truthy (scope_values f)) fs)) = {g}"
    using arg_cong [OF g1, of set] by simp
  have hd_g: "hd ?g = g" using g1 by simp
  obtain p where "key = authorization_of_group (hd ?g) p"
    using assms unfolding resolve_authorization_def Let_def by (simp split: if_splits) metis+
  then have key: "g = (ak_tenant_id key, ak_site_id key, ak_capture_session_id key, ak_processing_job_id key, ak_profile_digest key)"
    unfolding hd_g by (simp add: authorization_of_group_def split: prod.splits)
  show "distinct (map f_authorized_camera_id fs)" by (rule dist)
  assume f: "f \<in> set fs"
  show "list_all truthy (scope_values f)" by (rule all [OF f])
  then have "list_ex truthy (scope_values f)" by (simp add: scope_values_def)
  then have "group_key_of f \<in> {g}" using f set_g by fastforce
  then show "group_key_of f = (ak_tenant_id key, ak_site_id key, ak_capture_session_id key, ak_processing_job_id key, ak_profile_digest key)"
    using key by simp
qed

lemma resolve_capture_identity_cases:
  assumes "resolve_capture_identity sel = Inr ident"
  obtains (legacy) "ident = (IDENTITY_MODE_LEGACY, None, None, None)" "\<not> list_all identity_complete (dict_values sel)"
  | (authorized) key where "resolve_authorization (dict_values sel) = Inr (Some key)" "list_all identity_complete (dict_values sel)"
      "ident = (IDENTITY_MODE_V2, ak_capture_session_id key, Some (config_key_of (dict_values sel)), Some key)"
  | (unscoped) session where "resolve_authorization (dict_values sel) = Inr None" "list_all identity_complete (dict_values sel)"
      "ident = (IDENTITY_MODE_V2, Some session, Some (config_key_of (dict_values sel)), None)"
  using assms
  by (cases "resolve_authorization (dict_values sel)")
    (auto simp: resolve_capture_identity_def Let_def split: if_splits option.splits elim!: bind_result.elims)

lemma identity_modes_differ [simp]: "IDENTITY_MODE_LEGACY \<noteq> IDENTITY_MODE_V2" "IDENTITY_MODE_V2 \<noteq> IDENTITY_MODE_LEGACY"
  by (simp_all add: IDENTITY_MODE_LEGACY_def IDENTITY_MODE_V2_def)

lemma emitted_scope:
  assumes "manager_inv m" "try_match t u (mt, m) trigger = (Inr (Some fset), mt1, m1)"
    and v2: "fs_identity_mode fset = IDENTITY_MODE_V2"
  shows "(\<forall>f \<in> set (dict_values (fs_frames fset)). identity_complete f) \<and>
    (if fs_tenant_id fset = None
     then (\<forall>f \<in> set (dict_values (fs_frames fset)). \<not> list_ex truthy (scope_values f))
     else distinct (map f_authorized_camera_id (dict_values (fs_frames fset)))
        \<and> (\<forall>f \<in> set (dict_values (fs_frames fset)). list_all truthy (scope_values f)
             \<and> f_tenant_id f = fs_tenant_id fset \<and> f_site_id f = fs_site_id fset
             \<and> f_capture_session_id f = fs_capture_session_id fset
             \<and> f_processing_job_id f = fs_processing_job_id fset
             \<and> f_profile_digest f = fs_profile_digest fset))"
proof -
  obtain ident span mt' where e: "fs_frames fset \<noteq> []" "resolve_capture_identity (fs_frames fset) = Inr ident"
      "fset = emitted mt' ident (fs_frames fset) span"
    by (rule try_match_SomeE [OF assms(1,2)])
  have fields: "fs_identity_mode fset = fst ident" "fs_capture_session_id fset = fst (snd ident)"
    "fs_tenant_id fset = auth_field ak_tenant_id (snd (snd (snd ident)))"
    "fs_site_id fset = auth_field ak_site_id (snd (snd (snd ident)))"
    "fs_processing_job_id fset = auth_field ak_processing_job_id (snd (snd (snd ident)))"
    "fs_profile_digest fset = auth_field ak_profile_digest (snd (snd (snd ident)))"
    by (subst e(3), simp)+
  obtain f0 where f0: "f0 \<in> set (dict_values (fs_frames fset))" using e(1) by (cases "fs_frames fset") auto
  from e(2) show ?thesis
  proof (cases rule: resolve_capture_identity_cases)
    case legacy
    with v2 fields(1) show ?thesis by simp
  next
    case (authorized key)
    note r = resolve_authorization_Some [OF authorized(1)]
    have "ak_tenant_id key \<noteq> None"
      using r(1,2) [OF f0] by (cases "ak_tenant_id key") (auto simp: group_key_of_def scope_values_def)
    moreover have "fs_tenant_id fset = ak_tenant_id key" "fs_site_id fset = ak_site_id key"
      "fs_capture_session_id fset = ak_capture_session_id key" "fs_profile_digest fset = ak_profile_digest key"
      "fs_processing_job_id fset = ak_processing_job_id key"
      unfolding fields authorized(3) by (simp_all add: auth_field_def)
    moreover have "\<forall>f \<in> set (dict_values (fs_frames fset)). identity_complete f"
      using authorized(2) by (simp add: list_all_iff)
    ultimately show ?thesis using r by (auto simp: group_key_of_def simp del: set_map)
  next
    case (unscoped session)
    then show ?thesis using fields resolve_authorization_None [OF unscoped(1)]
      by (auto simp: auth_field_def list_all_iff)
  qed
qed

section \<open>The manifest of a frame set\<close>

lemma sort_key_mset_eq:
  assumes "mset xs = mset ys" "distinct (map k xs)"
  shows "sort_key k xs = sort_key k ys"
  using assms by (intro sort_key_inj_key_eq) (auto simp: distinct_map sorted_sort_key)

text \<open>The payload, and with it digest and identifier, does not depend on the order of the selection.\<close>

lemma manifest_payload_perm:
  assumes "mset (dict_values sel) = mset (dict_values sel')" "distinct (map member_order (dict_values sel))"
  shows "build_manifest_payload s sel im w sp a au = build_manifest_payload s sel' im w sp a au"
proof -
  have "set (map f_timestamp_ms (dict_values sel)) = set (map f_timestamp_ms (dict_values sel'))"
    using mset_eq_setD [OF assms(1)] unfolding set_map [of f_timestamp_ms] by simp
  from list_min_set [OF this] show ?thesis
    by (simp only: build_manifest_payload_def sort_key_mset_eq [OF assms])
qed

lemma emitted_manifest:
  assumes "manager_inv m" "try_match t u (mt, m) trigger = (Inr (Some fset), mt1, m1)"
  shows "\<exists>text. fs_manifest_json fset = Some text
    \<and> fs_manifest_digest fset = Some (sha256_bytes (encode_utf8 text))
    \<and> fs_frame_set_uid fset = (if fs_identity_mode fset = IDENTITY_MODE_V2
        then Some (str_uuid (uuid5 FRAME_SET_NAMESPACE (sha256_bytes (encode_utf8 text)))) else None)"
proof -
  obtain ident span mt' where e: "fset = emitted mt' ident (fs_frames fset) span"
    by (rule try_match_SomeE [OF assms(1,2)])
  show ?thesis
    by (subst (1 2 3 4) e) (simp add: emitted_def build_frame_set_def build_manifest_digest_def sha256_bytes_def split: prod.splits)
qed

section \<open>The recent frame sets\<close>

lemma try_match_recent:
  assumes "manager_inv m" "length (mt_recent_frame_sets mt) \<le> mt_recent_limit mt"
    "try_match t u (mt, m) trigger = (r, mt1, m1)"
  shows "length (mt_recent_frame_sets mt1) \<le> mt_recent_limit mt1 \<and> mt_recent_limit mt1 = mt_recent_limit mt"
  using assms(1)
  by (cases rule: try_match_cases [where mt = mt and t = t and u = u and trigger = trigger])
    (use assms(2,3) drop_stale_simps(3,4) in
      \<open>fastforce simp: deque_append_length dest: arg_cong [where f = fst]\<close>)+

lemma replace_recent_simps [simp]:
  "mt_recent_limit (replace_recent_frame_set mt fset) = mt_recent_limit mt"
  "mt_capture_run_id (replace_recent_frame_set mt fset) = mt_capture_run_id mt"
  "mt_next_frame_set_id (replace_recent_frame_set mt fset) = mt_next_frame_set_id mt"
  "mt_expected_cameras (replace_recent_frame_set mt fset) = mt_expected_cameras mt"
  "mt_last_synchronized_at_ms (replace_recent_frame_set mt fset) = mt_last_synchronized_at_ms mt"
  "mt_recent_limit (note_archive mt b fset) = mt_recent_limit mt"
  "mt_capture_run_id (note_archive mt b fset) = mt_capture_run_id mt"
  "mt_next_frame_set_id (note_archive mt b fset) = mt_next_frame_set_id mt"
  "mt_expected_cameras (note_archive mt b fset) = mt_expected_cameras mt"
  "mt_last_synchronized_at_ms (note_archive mt b fset) = mt_last_synchronized_at_ms mt"
  by (simp_all add: replace_recent_frame_set_def note_archive_def)

text \<open>Replacing a recent frame set keeps the list's length, order and identifiers.\<close>

definition set_key :: "SynchronizedFrameSet \<Rightarrow> string option \<times> int" where
  "set_key fset = (fs_capture_run_id fset, fs_frame_set_id fset)"

lemma note_archive_recent:
  assumes "length (mt_recent_frame_sets mt) \<le> mt_recent_limit mt"
  shows "mt_recent_frame_sets (note_archive mt b fset)
      = map (\<lambda>x. if set_key x = set_key fset then fset else x) (mt_recent_frame_sets mt)"
    and "map set_key (mt_recent_frame_sets (note_archive mt b fset)) = map set_key (mt_recent_frame_sets mt)"
  using assms by (auto simp: note_archive_def replace_recent_frame_set_def deque_of_def set_key_def)

lemma replace_member_key [simp]:
  "set_key (fst (replace_frame_member mt fset f)) = set_key fset"
  "set_key (fst (finalize_archive_state mt fset st er)) = set_key fset"
  "snd (replace_frame_member mt fset f) = note_archive mt fset (fst (replace_frame_member mt fset f))"
  "snd (finalize_archive_state mt fset st er) = note_archive mt fset (fst (finalize_archive_state mt fset st er))"
  by (simp_all add: replace_frame_member_def finalize_archive_state_def Let_def set_key_def)

lemma find_SomeD: "List.find P xs = Some x \<Longrightarrow> P x \<and> x \<in> set xs"
  by (induction xs) (auto split: if_splits)

lemma replace_recent_member_cases:
  obtains (none) "replace_recent_frame_member mt f = (None, mt)"
      "\<forall>fset \<in> set (mt_recent_frame_sets mt). \<not> has_member (f_buffer_key f) fset"
  | (some) fset where "fset \<in> set (mt_recent_frame_sets mt)" "has_member (f_buffer_key f) fset"
      "replace_recent_frame_member mt f
         = (Some (fst (replace_frame_member mt fset f)), note_archive mt fset (fst (replace_frame_member mt fset f)))"
proof (cases "List.find (has_member (f_buffer_key f)) (rev (mt_recent_frame_sets mt))")
  case None
  then have "\<forall>fset \<in> set (mt_recent_frame_sets mt). \<not> has_member (f_buffer_key f) fset"
    by (simp add: find_None_iff)
  with None show ?thesis by (intro none) (simp_all add: replace_recent_frame_member_def)
next
  case (Some fset)
  have eq: "replace_frame_member mt fset f
      = (fst (replace_frame_member mt fset f), note_archive mt fset (fst (replace_frame_member mt fset f)))"
    by (metis replace_member_key(3) prod.collapse)
  have "replace_recent_frame_member mt f
      = (Some (fst (replace_frame_member mt fset f)), note_archive mt fset (fst (replace_frame_member mt fset f)))"
    unfolding replace_recent_frame_member_def Some option.case by (subst eq) simp
  then show ?thesis using find_SomeD [OF Some] by (intro some [of fset]) simp_all
qed

end
