(* ===== verification/SyncService.thy ===== *)
theory SyncService
  imports Matcher
begin

text \<open>
  \<open>StreamSyncService\<close> of \<^verbatim>\<open>src/app/services/sync/service.py\<close>: the facade that owns the buffer
  manager and, while synchronization is enabled, the matcher. Fields of the service are \<open>sv_x\<close>.
  Every operation runs under the service's lock, so each is one step of the model; the
  interleavings of the callers are the sequences of steps of \<open>sync_trace\<close>.
\<close>

section \<open>State\<close>

text \<open>
  The matcher normally holds the service's own buffer manager. When building a new matcher raises,
  the old matcher stays in place and keeps the manager it was built with;
  \<open>sv_detached\<close> is that manager then, and \<open>None\<close> when both hold the same one.
\<close>

record StreamSyncService =
  sv_enabled :: bool
  sv_expected_cameras :: "string list"
  sv_window_ms :: int
  sv_buffer_manager :: SyncFrameBufferManager
  sv_matcher :: "SyncMatcher option"
  sv_detached :: "SyncFrameBufferManager option"

definition default_buffer_manager :: SyncFrameBufferManager where
  "default_buffer_manager =
     \<lparr> bm_buffer_size = 120, bm_buffers = [], bm_frames_by_key = [], bm_received_count = 0,
       bm_duplicate_frame_count = 0, bm_out_of_order_frame_count = 0, bm_evicted_frame_count = 0 \<rparr>"

definition new_service :: StreamSyncService where
  "new_service =
     \<lparr> sv_enabled = False, sv_expected_cameras = [], sv_window_ms = 50,
       sv_buffer_manager = default_buffer_manager, sv_matcher = None, sv_detached = None \<rparr>"

text \<open>The manager the matcher works on.\<close>

definition matcher_manager :: "StreamSyncService \<Rightarrow> SyncFrameBufferManager" where
  "matcher_manager s = (case sv_detached s of Some m \<Rightarrow> m | None \<Rightarrow> sv_buffer_manager s)"

definition set_matcher_manager :: "SyncFrameBufferManager \<Rightarrow> StreamSyncService \<Rightarrow> StreamSyncService" where
  "set_matcher_manager m s =
     (case sv_detached s of Some _ \<Rightarrow> s\<lparr> sv_detached := Some m \<rparr> | None \<Rightarrow> s\<lparr> sv_buffer_manager := m \<rparr>)"

section \<open>Operations\<close>

text \<open>The fields assigned before an error keep their new values.\<close>

definition configure ::
  "string \<Rightarrow> bool \<Rightarrow> string list \<Rightarrow> int \<Rightarrow> int \<Rightarrow> int \<Rightarrow> StreamSyncService \<Rightarrow> unit result \<times> StreamSyncService" where
  "configure fresh_uuid enabled expected_cameras window_ms buffer_size recent_limit s =
     (let s = s\<lparr> sv_enabled := enabled, sv_expected_cameras := expected_cameras,
                 sv_window_ms := window_ms \<rparr>
      in case new_buffer_manager buffer_size of
           Inl e \<Rightarrow> (Inl e, s)
         | Inr m \<Rightarrow>
             (let old = matcher_manager s;
                  s = s\<lparr> sv_buffer_manager := m \<rparr>
              in if enabled
                 then (case new_matcher (sv_expected_cameras s) window_ms recent_limit fresh_uuid of
                         Inl e \<Rightarrow> (Inl e, s\<lparr> sv_detached := (if sv_matcher s = None then None else Some old) \<rparr>)
                       | Inr mt \<Rightarrow> (Inr (), s\<lparr> sv_matcher := Some mt, sv_detached := None \<rparr>))
                 else (Inr (), s\<lparr> sv_matcher := None, sv_detached := None \<rparr>)))"

definition clear_service :: "string \<Rightarrow> StreamSyncService \<Rightarrow> unit result \<times> StreamSyncService" where
  "clear_service fresh_uuid s = configure fresh_uuid False [] 50 120 20 s"

definition handle_frame ::
  "int \<Rightarrow> string \<Rightarrow> StreamSyncService \<Rightarrow> SyncInputFrame
   \<Rightarrow> SynchronizedFrameSet option result \<times> StreamSyncService" where
  "handle_frame now_ms fresh_uuid s frame =
     (case sv_matcher s of
        None \<Rightarrow> (Inr None, s)
      | Some mt \<Rightarrow>
          if \<not> sv_enabled s then (Inr None, s)
          else
            (let (stored, m) = add_frame (sv_buffer_manager s) frame;
                 s = s\<lparr> sv_buffer_manager := m \<rparr>
             in case stored of
                  None \<Rightarrow> (Inr None, s)
                | Some trigger \<Rightarrow>
                    (let (r, mt, m) = try_match now_ms fresh_uuid (mt, matcher_manager s) trigger
                     in (r, set_matcher_manager m (s\<lparr> sv_matcher := Some mt \<rparr>)))))"

definition service_recent_frame_sets :: "StreamSyncService \<Rightarrow> SynchronizedFrameSet list" where
  "service_recent_frame_sets s =
     (case sv_matcher s of None \<Rightarrow> [] | Some mt \<Rightarrow> recent_frame_sets mt)"

definition service_finalize_archive_state ::
  "StreamSyncService \<Rightarrow> SynchronizedFrameSet \<Rightarrow> string \<Rightarrow> string option
   \<Rightarrow> SynchronizedFrameSet \<times> StreamSyncService" where
  "service_finalize_archive_state s fset state error =
     (case sv_matcher s of
        None \<Rightarrow> (fset, s)
      | Some mt \<Rightarrow>
          (let (updated, mt) = finalize_archive_state mt fset state error
           in (updated, s\<lparr> sv_matcher := Some mt \<rparr>)))"

text \<open>The first member with the frame's key among the recent frame sets and the one passed in.\<close>

definition late_member ::
  "SyncMatcher \<Rightarrow> SynchronizedFrameSet option \<Rightarrow> string \<Rightarrow> StoredSyncFrame option" where
  "late_member mt fset key =
     List.find (\<lambda>member. f_buffer_key member = key)
       (concat (map (\<lambda>candidate. dict_values (fs_frames candidate))
          (recent_frame_sets mt @ (case fset of None \<Rightarrow> [] | Some x \<Rightarrow> [x]))))"

definition finalize_frame_archive ::
  "StreamSyncService \<Rightarrow> SyncInputFrame \<Rightarrow> SynchronizedFrameSet option \<Rightarrow> int option \<Rightarrow> string option
   \<Rightarrow> string \<Rightarrow> string option \<Rightarrow> SynchronizedFrameSet option \<times> StreamSyncService" where
  "finalize_frame_archive s frame fset frame_id file_path state error =
     (let (stored, m) = finalize_archive (sv_buffer_manager s) (build_buffer_key frame)
                          frame_id file_path state error;
          s = s\<lparr> sv_buffer_manager := m \<rparr>
      in case sv_matcher s of
           None \<Rightarrow> (fset, s)
         | Some mt \<Rightarrow>
             (case (case stored of
                      Some x \<Rightarrow> Some x
                    | None \<Rightarrow> map_option (archived frame_id file_path state error)
                                (late_member mt fset (build_buffer_key frame))) of
                None \<Rightarrow> (fset, s)
              | Some stored \<Rightarrow>
                  (case replace_recent_frame_member mt stored of
                     (Some updated, mt) \<Rightarrow> (Some updated, s\<lparr> sv_matcher := Some mt \<rparr>)
                   | (None, mt) \<Rightarrow>
                       (case fset of
                          None \<Rightarrow> (None, s\<lparr> sv_matcher := Some mt \<rparr>)
                        | Some x \<Rightarrow>
                            (let (updated, mt) = replace_frame_member mt x stored
                             in (Some updated, s\<lparr> sv_matcher := Some mt \<rparr>))))))"

section \<open>Status and progress\<close>

text \<open>The ratio of matched to possible frame sets is kept as numerator and denominator.\<close>

record SyncProgress =
  sp_expected_frame_set_count :: int
  sp_matched_ratio :: "int \<times> int"
  sp_per_expected_camera_received_count :: "(string, int) dict"

definition dict_of :: "('k \<times> 'v) list \<Rightarrow> ('k, 'v) dict" where
  "dict_of pairs = fold (\<lambda>(k, v) d. dict_set d k v) pairs []"

definition camera_counts :: "BufferSnapshot \<Rightarrow> (string, int) dict" where
  "camera_counts snapshot =
     dict_of (map (\<lambda>c. (cs_device_id c, cs_received_count c)) (bs_cameras snapshot))"

definition get_count :: "(string, int) dict \<Rightarrow> string \<Rightarrow> int" where
  "get_count counts d = (case dict_get counts d of None \<Rightarrow> 0 | Some n \<Rightarrow> n)"

definition build_sync_progress :: "BufferSnapshot \<Rightarrow> string list \<Rightarrow> int \<Rightarrow> SyncProgress" where
  "build_sync_progress snapshot expected_cameras matched_count =
     (let expected_counts = map (get_count (camera_counts snapshot)) expected_cameras;
          expected = (if expected_counts \<noteq> [] \<and> list_all (\<lambda>n. 0 < n) expected_counts
                      then list_min expected_counts else 0)
      in \<lparr> sp_expected_frame_set_count = expected,
           sp_matched_ratio = (if 0 < expected then (matched_count, expected) else (0, 1)),
           sp_per_expected_camera_received_count = dict_of (zip expected_cameras expected_counts) \<rparr>)"

definition disabled_sync_status :: "(string, json) dict" where
  "disabled_sync_status =
     [(''matched_count'', JInt 0), (''missed_count'', JInt 0), (''duplicate_count'', JInt 0),
      (''ignored_count'', JInt 0), (''last_frame_set_id'', JNull),
      (''last_anchor_timestamp_ms'', JNull), (''last_max_delta_ms'', JNull),
      (''last_span_ms'', JNull), (''watermark_timestamp_ms'', JNull),
      (''dropped_stale_count'', JInt 0), (''last_missing_cameras'', JList []),
      (''last_reason'', JNull), (''capture_session_id'', JNull), (''capture_run_id'', JNull),
      (''last_identity_mode'', JNull), (''legacy_identity_count'', JInt 0),
      (''last_archive_state'', JNull), (''last_archive_error'', JNull),
      (''archive_degraded_count'', JInt 0)]"

record ServiceStatus =
  ss_enabled :: bool
  ss_expected_cameras :: "string list"
  ss_window_ms :: int
  ss_buffer :: BufferSnapshot
  ss_progress :: SyncProgress
  ss_sync :: "(string, json) dict"

definition service_status :: "StreamSyncService \<Rightarrow> ServiceStatus" where
  "service_status s =
     (let snapshot = buffer_snapshot (sv_buffer_manager s)
      in \<lparr> ss_enabled = sv_enabled s, ss_expected_cameras = sv_expected_cameras s,
           ss_window_ms = sv_window_ms s, ss_buffer = snapshot,
           ss_progress = build_sync_progress snapshot (sv_expected_cameras s)
             (case sv_matcher s of None \<Rightarrow> 0 | Some mt \<Rightarrow> mt_matched_count mt),
           ss_sync = (case sv_matcher s of None \<Rightarrow> disabled_sync_status | Some mt \<Rightarrow> matcher_status mt) \<rparr>)"

section \<open>Identifiers and clock of the emitted frame sets\<close>

lemma try_match_ids:
  assumes inv: "manager_inv m" and fs: "try_match t u (mt, m) trigger = (Inr (Some fset), mt1, m1)"
  shows "fs_capture_run_id fset = Some (mt_capture_run_id mt1)"
    "mt_next_frame_set_id mt1 = fs_frame_set_id fset + 1"
    "mt_last_synchronized_at_ms mt1 = fs_synchronized_at_ms fset"
    "mt_last_synchronized_at_ms mt < fs_synchronized_at_ms fset" "t \<le> fs_synchronized_at_ms fset"
    "mt_capture_run_id mt1 = mt_capture_run_id mt \<and> fs_frame_set_id fset = mt_next_frame_set_id mt
     \<or> mt_capture_run_id mt1 = u \<and> fs_frame_set_id fset = 1"
proof -
  obtain ident span n mc mt' where e:
      "mt' = advance t u ident (mt\<lparr> mt_dropped_superseded_count := mt_dropped_superseded_count mt + n \<rparr>)"
      "fset = emitted mt' ident (fs_frames fset) span"
      "(mt1, m1) = drop_stale_frames (record_match mt' fset, mc)"
    by (rule try_match_SomeE [OF inv fs])
  have mt1: "mt1 = fst (drop_stale_frames (record_match mt' fset, mc))" using e(3) by (metis fst_conv)
  have f: "fs_capture_run_id fset = Some (mt_capture_run_id mt')"
    "fs_frame_set_id fset = mt_next_frame_set_id mt'"
    "fs_synchronized_at_ms fset = mt_last_synchronized_at_ms mt'"
    by (subst e(2), simp)+
  show "fs_capture_run_id fset = Some (mt_capture_run_id mt1)"
    "mt_next_frame_set_id mt1 = fs_frame_set_id fset + 1"
    "mt_last_synchronized_at_ms mt1 = fs_synchronized_at_ms fset"
    unfolding f mt1 by simp_all
  show "mt_last_synchronized_at_ms mt < fs_synchronized_at_ms fset" "t \<le> fs_synchronized_at_ms fset"
    unfolding f e(1) by simp_all
  show "mt_capture_run_id mt1 = mt_capture_run_id mt \<and> fs_frame_set_id fset = mt_next_frame_set_id mt
     \<or> mt_capture_run_id mt1 = u \<and> fs_frame_set_id fset = 1"
    unfolding f mt1 e(1) by (simp add: rotate_run_def Let_def split: prod.splits)
qed

lemma try_match_quiet:
  assumes inv: "manager_inv m" and r: "try_match t u (mt, m) trigger = (r, mt1, m1)"
    and none: "\<And>fset. r \<noteq> Inr (Some fset)"
  shows "mt_capture_run_id mt1 = mt_capture_run_id mt" "mt_next_frame_set_id mt1 = mt_next_frame_set_id mt"
    "mt_last_synchronized_at_ms mt1 = mt_last_synchronized_at_ms mt"
  using inv
  by (cases rule: try_match_cases [where mt = mt and t = t and u = u and trigger = trigger];
      use r none drop_stale_simps in \<open>fastforce dest: arg_cong [where f = fst]\<close>)+

section \<open>Runs of the service\<close>

text \<open>
  \<open>sync_trace used s out\<close>: the service reaches \<open>s\<close> after emitting the frame sets \<open>out\<close>, each
  operation that may draw a \<open>uuid4\<close> having drawn one that is not in \<open>used\<close>.
\<close>

definition emitted_of :: "SynchronizedFrameSet option result \<Rightarrow> SynchronizedFrameSet list" where
  "emitted_of r = (case r of Inr (Some fset) \<Rightarrow> [fset] | _ \<Rightarrow> [])"

lemma emitted_of_simps [simp]:
  "emitted_of (Inl e) = []" "emitted_of (Inr None) = []" "emitted_of (Inr (Some fset)) = [fset]"
  by (simp_all add: emitted_of_def)

inductive sync_trace :: "string set \<Rightarrow> StreamSyncService \<Rightarrow> SynchronizedFrameSet list \<Rightarrow> bool" where
  start: "sync_trace {} new_service []"
| configured: "sync_trace used s out \<Longrightarrow> u \<notin> used \<Longrightarrow>
    sync_trace (insert u used) (snd (configure u enabled cams window bsize limit s)) out"
| handled: "sync_trace used s out \<Longrightarrow> u \<notin> used \<Longrightarrow> handle_frame t u s frame = (r, s') \<Longrightarrow>
    sync_trace (insert u used) s' (out @ emitted_of r)"
| finalized_set: "sync_trace used s out \<Longrightarrow>
    sync_trace used (snd (service_finalize_archive_state s fset state error)) out"
| finalized_frame: "sync_trace used s out \<Longrightarrow>
    sync_trace used (snd (finalize_frame_archive s frame fo i p state error)) out"

definition later_set :: "SynchronizedFrameSet \<Rightarrow> SynchronizedFrameSet \<Rightarrow> bool" where
  "later_set a b \<longleftrightarrow> (fs_capture_run_id a = fs_capture_run_id b \<longrightarrow>
     fs_frame_set_id a < fs_frame_set_id b \<and> fs_synchronized_at_ms a < fs_synchronized_at_ms b)"

lemma sorted_wrt_later_distinct: "sorted_wrt later_set out \<Longrightarrow> distinct (map set_key out)"
  by (induction out) (auto simp: later_set_def set_key_def)

definition matcher_ahead :: "string set \<Rightarrow> SyncMatcher \<Rightarrow> SynchronizedFrameSet list \<Rightarrow> bool" where
  "matcher_ahead used mt out \<longleftrightarrow> mt_capture_run_id mt \<in> used
     \<and> (\<forall>x \<in> set out. fs_capture_run_id x = Some (mt_capture_run_id mt) \<longrightarrow>
          fs_frame_set_id x < mt_next_frame_set_id mt
          \<and> fs_synchronized_at_ms x \<le> mt_last_synchronized_at_ms mt)"

definition service_inv :: "string set \<Rightarrow> StreamSyncService \<Rightarrow> SynchronizedFrameSet list \<Rightarrow> bool" where
  "service_inv used s out \<longleftrightarrow>
     manager_inv (sv_buffer_manager s) \<and> manager_inv (matcher_manager s)
     \<and> sorted_wrt later_set out \<and> (\<forall>x \<in> set out. fs_capture_run_id x \<in> Some ` used)
     \<and> (\<forall>mt. sv_matcher s = Some mt \<longrightarrow> matcher_ahead used mt out)"

lemma service_manager_simps [simp]:
  "matcher_manager (s\<lparr> sv_matcher := x \<rparr>) = matcher_manager s"
  "matcher_manager (s\<lparr> sv_enabled := e \<rparr>) = matcher_manager s"
  "matcher_manager (s\<lparr> sv_expected_cameras := c \<rparr>) = matcher_manager s"
  "matcher_manager (s\<lparr> sv_window_ms := w \<rparr>) = matcher_manager s"
  "matcher_manager (s\<lparr> sv_detached := Some m \<rparr>) = m"
  "matcher_manager (s\<lparr> sv_detached := None \<rparr>) = sv_buffer_manager s"
  "matcher_manager (set_matcher_manager m s) = m"
  "sv_matcher (set_matcher_manager m s) = sv_matcher s"
  by (simp_all add: matcher_manager_def set_matcher_manager_def split: option.splits)

lemma managers_inv_upd:
  "manager_inv (sv_buffer_manager s) \<Longrightarrow> manager_inv m \<Longrightarrow> manager_inv (sv_buffer_manager (set_matcher_manager m s))"
  "manager_inv (matcher_manager s) \<Longrightarrow> manager_inv m \<Longrightarrow> manager_inv (matcher_manager (s\<lparr> sv_buffer_manager := m \<rparr>))"
  by (simp_all add: matcher_manager_def set_matcher_manager_def split: option.splits)

lemma default_manager_inv: "manager_inv default_buffer_manager"
  by (rule new_buffer_manager_inv [of 120]) (simp add: new_buffer_manager_def default_buffer_manager_def)

lemma new_matcher_fields:
  assumes "new_matcher cams w l u = Inr mt"
  shows "mt_capture_run_id mt = u" "mt_next_frame_set_id mt = 1" "mt_expected_cameras mt = cams"
  using assms by (auto simp: new_matcher_def split: if_splits)

lemma matcher_ahead_weaken: "matcher_ahead used mt out \<Longrightarrow> matcher_ahead (insert u used) mt out"
  by (simp add: matcher_ahead_def)

lemma configure_inv:
  assumes inv: "service_inv used s out" and u: "u \<notin> used"
  shows "service_inv (insert u used) (snd (configure u enabled cams window bsize limit s)) out"
proof (cases "new_buffer_manager bsize")
  case (Inl e)
  then show ?thesis using inv
    by (auto simp: configure_def service_inv_def Let_def intro: matcher_ahead_weaken)
next
  case (Inr m)
  note m = new_buffer_manager_inv [OF Inr]
  have fresh: "matcher_ahead (insert u used) mt out" if "new_matcher cams window limit u = Inr mt" for mt
    using inv u new_matcher_fields [OF that] by (fastforce simp: matcher_ahead_def service_inv_def)
  show ?thesis
  proof (cases enabled)
    case True
    then show ?thesis using inv m Inr
      by (cases "new_matcher cams window limit u")
        (auto simp: configure_def service_inv_def Let_def fresh intro: matcher_ahead_weaken)
  next
    case False
    then show ?thesis using inv m Inr
      by (auto simp: configure_def service_inv_def Let_def)
  qed
qed

lemma add_frame_managers:
  assumes "manager_inv (sv_buffer_manager s)" "manager_inv (matcher_manager s)"
    "add_frame (sv_buffer_manager s) frame = (st, m)"
  shows "manager_inv m" "manager_inv (matcher_manager (s\<lparr> sv_buffer_manager := m \<rparr>))"
proof -
  show m: "manager_inv m" using add_frame_inv [OF assms(1), of frame] assms(3) by simp
  show "manager_inv (matcher_manager (s\<lparr> sv_buffer_manager := m \<rparr>))"
    by (rule managers_inv_upd(2) [OF assms(2) m])
qed

lemma matcher_ahead_step:
  assumes "manager_inv m" "try_match t u (mt, m) trigger = (r, mt1, m1)" "u \<notin> used"
    and ahead: "matcher_ahead used mt out" and out: "\<forall>x \<in> set out. fs_capture_run_id x \<in> Some ` used"
  shows "matcher_ahead (insert u used) mt1 (out @ emitted_of r)"
    and "sorted_wrt later_set out \<Longrightarrow> sorted_wrt later_set (out @ emitted_of r)"
    and "\<forall>x \<in> set (out @ emitted_of r). fs_capture_run_id x \<in> Some ` insert u used"
proof -
  have all: "matcher_ahead (insert u used) mt1 (out @ emitted_of r)
    \<and> (sorted_wrt later_set out \<longrightarrow> sorted_wrt later_set (out @ emitted_of r))
    \<and> (\<forall>x \<in> set (out @ emitted_of r). fs_capture_run_id x \<in> Some ` insert u used)"
  proof (cases "\<exists>fset. r = Inr (Some fset)")
    case True
    then obtain fset where r: "r = Inr (Some fset)" ..
    note ids = try_match_ids [OF assms(1) assms(2) [unfolded r]]
    have no_u: "fs_capture_run_id x \<noteq> Some u" if "x \<in> set out" for x using out assms(3) that by auto
    have em: "emitted_of r = [fset]" by (simp add: emitted_of_def r)
    from ids(6) show ?thesis
    proof
      assume same: "mt_capture_run_id mt1 = mt_capture_run_id mt \<and> fs_frame_set_id fset = mt_next_frame_set_id mt"
      have later: "later_set x fset" if "x \<in> set out" for x
        using that ahead ids same by (fastforce simp: matcher_ahead_def later_set_def)
      have "matcher_ahead (insert u used) mt1 (out @ [fset])"
        using ahead ids same unfolding matcher_ahead_def by fastforce
      moreover have "fs_capture_run_id fset \<in> Some ` used" using ids(1) same ahead by (auto simp: matcher_ahead_def)
      ultimately show ?thesis using later out unfolding em by (auto simp: sorted_wrt_append)
    next
      assume new: "mt_capture_run_id mt1 = u \<and> fs_frame_set_id fset = 1"
      have later: "later_set x fset" if "x \<in> set out" for x
        using no_u [OF that] ids(1) new by (simp add: later_set_def)
      have "matcher_ahead (insert u used) mt1 (out @ [fset])"
        using no_u ids new unfolding matcher_ahead_def by auto
      then show ?thesis using later out ids(1) new unfolding em by (auto simp: sorted_wrt_append)
    qed
  next
    case False
    then have none: "\<And>fset. r \<noteq> Inr (Some fset)" by blast
    then have "emitted_of r = []" by (auto simp: emitted_of_def split: sum.splits option.splits)
    then show ?thesis using ahead out try_match_quiet [OF assms(1,2) none]
      by (auto simp: matcher_ahead_def)
  qed
  show "matcher_ahead (insert u used) mt1 (out @ emitted_of r)"
    and "sorted_wrt later_set out \<Longrightarrow> sorted_wrt later_set (out @ emitted_of r)"
    and "\<forall>x \<in> set (out @ emitted_of r). fs_capture_run_id x \<in> Some ` insert u used"
    using all by blast+
qed

lemma handle_frame_inv:
  assumes inv: "service_inv used s out" and u: "u \<notin> used" and h: "handle_frame t u s frame = (r, s')"
  shows "service_inv (insert u used) s' (out @ emitted_of r)"
proof -
  have quiet: "service_inv (insert u used) s'' out"
    if "manager_inv (sv_buffer_manager s'')" "manager_inv (matcher_manager s'')" "sv_matcher s'' = sv_matcher s" for s''
    using inv that by (auto simp: service_inv_def intro: matcher_ahead_weaken)
  show ?thesis
  proof (cases "sv_matcher s")
    case None
    then show ?thesis using h inv by (auto simp: handle_frame_def service_inv_def)
  next
    case (Some mt)
    show ?thesis
    proof (cases "sv_enabled s")
      case False
      then show ?thesis using h inv Some
        by (auto simp: handle_frame_def service_inv_def intro: matcher_ahead_weaken)
    next
      case True
      obtain st m where af: "add_frame (sv_buffer_manager s) frame = (st, m)" by fastforce
      let ?s = "s\<lparr> sv_buffer_manager := m \<rparr>"
      have m: "manager_inv m" "manager_inv (matcher_manager ?s)"
        using add_frame_managers [OF _ _ af] inv by (auto simp: service_inv_def)
      show ?thesis
      proof (cases st)
        case None
        then show ?thesis using h Some True af m by (auto simp: handle_frame_def intro!: quiet)
      next
        case (Some trigger)
        obtain r1 mt1 m1 where tm: "try_match t u (mt, matcher_manager ?s) trigger = (r1, mt1, m1)"
          by (metis prod_cases3)
        have res: "r = r1" "s' = set_matcher_manager m1 (?s\<lparr> sv_matcher := Some mt1 \<rparr>)"
          using h \<open>sv_matcher s = Some mt\<close> True af Some tm by (auto simp: handle_frame_def)
        have m1: "manager_inv m1" using try_match_inv [OF m(2), of t u mt trigger] tm by simp
        have base: "matcher_ahead used mt out" "\<forall>x \<in> set out. fs_capture_run_id x \<in> Some ` used"
          "sorted_wrt later_set out"
          using inv \<open>sv_matcher s = Some mt\<close> by (auto simp: service_inv_def)
        note step = matcher_ahead_step [OF m(2) tm u base(1,2)]
        have "manager_inv (sv_buffer_manager s')"
          unfolding res by (rule managers_inv_upd(1)) (simp_all add: m1 m)
        then show ?thesis using step(1,3) step(2) [OF base(3)] m1
          unfolding service_inv_def res by auto
      qed
    qed
  qed
qed

lemma note_archive_ahead:
  "matcher_ahead used mt out \<Longrightarrow> matcher_ahead used (note_archive mt b fset) out"
  by (simp add: matcher_ahead_def)

lemma finalize_set_inv:
  assumes "service_inv used s out"
  shows "service_inv used (snd (service_finalize_archive_state s fset state error)) out"
proof (cases "sv_matcher s")
  case (Some mt)
  obtain x mt1 where f: "finalize_archive_state mt fset state error = (x, mt1)" by fastforce
  then have "mt1 = note_archive mt fset x" using replace_member_key(4) [of mt fset state error] by simp
  then show ?thesis using assms Some f
    by (auto simp: service_finalize_archive_state_def service_inv_def intro: note_archive_ahead)
qed (use assms in \<open>simp add: service_finalize_archive_state_def\<close>)

lemma finalize_frame_inv:
  assumes inv: "service_inv used s out"
  shows "service_inv used (snd (finalize_frame_archive s frame fo i p state error)) out"
proof -
  obtain st m where fa: "finalize_archive (sv_buffer_manager s) (build_buffer_key frame) i p state error = (st, m)"
    by fastforce
  let ?s = "s\<lparr> sv_buffer_manager := m \<rparr>"
  have m: "manager_inv m"
    using finalize_archive_inv [of "sv_buffer_manager s" "build_buffer_key frame" i p state error] fa inv
    by (simp add: service_inv_def)
  have s1: "service_inv used ?s out"
    using inv m managers_inv_upd(2) [OF _ m, of s] by (simp add: service_inv_def)
  have upd: "service_inv used (?s\<lparr> sv_matcher := Some mt1 \<rparr>) out" if "matcher_ahead used mt1 out" for mt1
    using s1 that by (simp add: service_inv_def)
  show ?thesis
  proof (cases "sv_matcher s")
    case None
    then show ?thesis using s1 fa by (simp add: finalize_frame_archive_def)
  next
    case (Some mt)
    then have ahead: "matcher_ahead used mt out" using inv by (simp add: service_inv_def)
    have upd_mt: "?s\<lparr> sv_matcher := Some mt \<rparr> = ?s" using Some by simp
    let ?late = "case st of Some x \<Rightarrow> Some x
        | None \<Rightarrow> map_option (archived i p state error) (late_member mt fo (build_buffer_key frame))"
    show ?thesis
    proof (cases ?late)
      case None
      then show ?thesis using s1 fa Some by (simp add: finalize_frame_archive_def)
    next
      case (Some stored)
      show ?thesis
      proof (cases rule: replace_recent_member_cases [of mt stored])
        case none
        show ?thesis
        proof (cases fo)
          case None
          then show ?thesis using none fa \<open>?late = Some stored\<close> \<open>sv_matcher s = Some mt\<close> upd [OF ahead]
            by (auto simp: finalize_frame_archive_def)
        next
          case (Some x)
          obtain y mt1 where r: "replace_frame_member mt x stored = (y, mt1)" by fastforce
          then have "mt1 = note_archive mt x y" using replace_member_key(3) [of mt x stored] by simp
          then show ?thesis
            using none fa Some \<open>?late = Some stored\<close> \<open>sv_matcher s = Some mt\<close> r upd [OF note_archive_ahead [OF ahead]]
            by (auto simp: finalize_frame_archive_def)
        qed
      next
        case (some fset)
        then show ?thesis using fa Some \<open>sv_matcher s = Some mt\<close> upd [OF note_archive_ahead [OF ahead]]
          by (simp add: finalize_frame_archive_def)
      qed
    qed
  qed
qed

theorem sync_trace_inv: "sync_trace used s out \<Longrightarrow> service_inv used s out"
proof (induction rule: sync_trace.induct)
  case start
  show ?case by (simp add: service_inv_def new_service_def matcher_manager_def default_manager_inv)
qed (auto intro: configure_inv handle_frame_inv finalize_set_inv finalize_frame_inv)

section \<open>When a frame set is emitted\<close>

text \<open>
  If some selection of buffered frames fits the window, the call commits to a selection of minimum
  span: it emits it, or reports the scope conflict among its members as a miss, or raises the
  \<open>ValueError\<close> its identity fields cause.
\<close>

lemma try_match_commits:
  assumes inv: "manager_inv m" and ex: "f_device_id trigger \<in> set (mt_expected_cameras mt)"
    and sel: "selects m (mt_expected_cameras mt) sel" "selection_span sel s" "s \<le> mt_window_ms mt"
  obtains chosen span where "selects m (mt_expected_cameras mt) chosen" "selection_span chosen span" "span \<le> s"
    "case resolve_capture_identity chosen of
       Inr ident \<Rightarrow> (\<exists>fset mt1 m1. try_match t u (mt, m) trigger = (Inr (Some fset), mt1, m1)
           \<and> fs_frames fset = chosen \<and> fs_identity_mode fset = fst ident \<and> fs_span_ms fset = Some span)
     | Inl (FrameScopeConflict reason) \<Rightarrow> (\<exists>mt1 m1. try_match t u (mt, m) trigger = (Inr None, mt1, m1)
           \<and> mt_last_reason mt1 = Some reason \<and> mt_missed_count mt1 = mt_missed_count mt + 1)
     | Inl e \<Rightarrow> try_match t u (mt, m) trigger = (Inl e, mt, m)"
proof -
  let ?ex = "mt_expected_cameras mt" and ?w = "mt_window_ms mt"
  have ne: "?ex \<noteq> []" using ex by auto
  obtain selected missing where c: "select_min_span_candidate m ?ex ?w = Inr (selected, missing)"
    using select_never_raises by fastforce
  note spec = select_min_span_candidate_correct [of m ?ex ?w, unfolded c, simplified]
  have avail: "available_frames m d {} \<noteq> []" if d: "d \<in> set ?ex" for d
  proof -
    obtain f where "dict_get sel d = Some f"
      using sel(1) d dict_keys_dom [of sel] unfolding selects_def by blast
    then have "f \<in> set (available_frames m d {})" using sel(1) unfolding selects_def by blast
    then show ?thesis by auto
  qed
  have "selected \<noteq> None"
  proof
    assume none: "selected = None"
    with spec have miss: "missing = filter (\<lambda>d. available_frames m d {} = []) ?ex" by simp
    then have "missing = []" using avail by (simp add: filter_empty_conv)
    then show False using spec none sel by force
  qed
  then obtain chosen span where ch: "selected = Some (chosen, span)" by auto
  have ok: "missing = []" "selects m ?ex chosen" "selection_span chosen span" "span \<le> ?w" "span \<le> s"
    using spec sel ch by auto
  obtain n m1 where consumed: "consume_through m chosen = (Inr n, m1)"
    by (rule selection_consumed [OF inv ok(2)])
  have reason: "mt_last_reason (fst (drop_stale_frames x)) = mt_last_reason (fst x)" for x
    using drop_stale_frames_matcher [of "fst x" "snd x"] by auto
  have start: "try_match t u (mt, m) trigger =
      (case resolve_capture_identity chosen of
         Inl (FrameScopeConflict reason) \<Rightarrow> (Inr None, drop_stale_frames (record_miss mt trigger reason [], m))
       | Inl e \<Rightarrow> (Inl e, mt, m)
       | Inr ident \<Rightarrow> emit_frame_set t u ident chosen span
           (mt\<lparr> mt_dropped_superseded_count := mt_dropped_superseded_count mt + n \<rparr>, m1))"
    unfolding try_match_def using ne ex c ok(1) ch consumed by (simp split: sum.split)
  show ?thesis
  proof (rule that [OF ok(2,3,5)])
    show "case resolve_capture_identity chosen of
       Inr ident \<Rightarrow> (\<exists>fset mt1 m1. try_match t u (mt, m) trigger = (Inr (Some fset), mt1, m1)
           \<and> fs_frames fset = chosen \<and> fs_identity_mode fset = fst ident \<and> fs_span_ms fset = Some span)
     | Inl (FrameScopeConflict reason) \<Rightarrow> (\<exists>mt1 m1. try_match t u (mt, m) trigger = (Inr None, mt1, m1)
           \<and> mt_last_reason mt1 = Some reason \<and> mt_missed_count mt1 = mt_missed_count mt + 1)
     | Inl e \<Rightarrow> try_match t u (mt, m) trigger = (Inl e, mt, m)"
    proof (cases "resolve_capture_identity chosen")
      case (Inr ident)
      then show ?thesis unfolding start
        by (simp add: emit_frame_set_eq Let_def)
    next
      case (Inl e)
      show ?thesis
      proof (cases e)
        case (FrameScopeConflict r)
        obtain mt1 m1 where d: "drop_stale_frames (record_miss mt trigger r [], m) = (mt1, m1)" by fastforce
        have "mt_last_reason mt1 = mt_last_reason (record_miss mt trigger r [])"
          "mt_missed_count mt1 = mt_missed_count (record_miss mt trigger r [])"
          using reason [of "(record_miss mt trigger r [], m)"]
            drop_stale_simps(9) [of "record_miss mt trigger r []" m] d by simp_all
        then have "mt_last_reason mt1 = Some r" "mt_missed_count mt1 = mt_missed_count mt + 1"
          by (auto simp: record_miss_def)
        then show ?thesis unfolding start using Inl FrameScopeConflict d by simp
      qed (use Inl start in simp_all)
    qed
  qed
qed

end
