(* ===== verification/ManifestStore.thy ===== *)
theory ManifestStore
  imports SyncService
begin

text \<open>
  The durable ledger of frame sets: the tables of \<^verbatim>\<open>src/app/models/frame_set_manifest.py\<close> and the
  operations of \<^verbatim>\<open>src/app/services/sync/manifest_store.py\<close>. A column \<open>x\<close> is the field \<open>cap_x\<close>,
  \<open>run_x\<close>, \<open>mf_x\<close>, \<open>mm_x\<close> or \<open>pj_x\<close> of its row. The ORM session does not flush before the
  commit, so an operation reads the tables, collects its changes and applies them in one step, in
  which the unique constraints are checked; \<open>others\<close> is what other sessions commit between the
  reads and that step. A raised exception rolls the session back, as every caller does.
\<close>

section \<open>The tables\<close>

text \<open>Each table is a map from its primary key; \<open>frame_set_members\<close> is the list of its rows.\<close>

record CaptureSession =
  cap_state :: string
  cap_source_sessions_json :: string
  cap_started_at_ms :: int
  cap_closed_at_ms :: "int option"
  cap_close_reason :: "string option"

record CaptureRun =
  run_capture_session_id :: string
  run_identity_mode :: string
  run_state :: string
  run_started_at_ms :: int
  run_closed_at_ms :: "int option"
  run_close_reason :: "string option"

record FrameSetManifest =
  mf_frame_set_uid :: string
  mf_capture_session_id :: string
  mf_capture_run_id :: string
  mf_frame_set_id :: int
  mf_anchor_timestamp_ms :: int
  mf_freshness_origin_ms :: int
  mf_synchronization_span_ms :: int
  mf_manifest_digest :: string
  mf_manifest_json :: string
  mf_created_at_ms :: int
  mf_archive_state :: string
  mf_archive_error :: "string option"
  mf_sync_window_ms :: int
  mf_synchronized_at_ms :: int
  mf_member_count :: int
  mf_tenant_id :: "string option"
  mf_site_id :: "string option"
  mf_processing_job_id :: "string option"
  mf_profile_digest :: "string option"
  mf_authorized_subject :: "string option"
  mf_session_token_jti :: "string option"

record FrameSetMember =
  mm_frame_set_uid :: string
  mm_frame_id :: "int option"
  mm_source_frame_uid :: string
  mm_source_session_id :: string
  mm_camera_stream_id :: string
  mm_frame_sequence :: int
  mm_capture_timestamp_ms :: int
  mm_content_type :: string
  mm_image_size :: int
  mm_content_digest :: string
  mm_file_path :: string
  mm_authorized_camera_id :: "string option"
  mm_camera_claim_id :: "string option"
  mm_authorized_subject :: "string option"
  mm_session_token_jti :: "string option"

record FrameSetDeliveryProjection =
  pj_archive_state :: string
  pj_live_state :: string
  pj_legacy_relay_state :: string
  pj_last_reason :: "string option"
  pj_updated_at_ms :: int

record ManifestDb =
  db_sessions :: "(string, CaptureSession) dict"
  db_runs :: "(string, CaptureRun) dict"
  db_manifests :: "(string, FrameSetManifest) dict"
  db_members :: "FrameSetMember list"
  db_projections :: "(string, FrameSetDeliveryProjection) dict"

definition empty_db :: ManifestDb where
  "empty_db = \<lparr> db_sessions = [], db_runs = [], db_manifests = [], db_members = [], db_projections = [] \<rparr>"

section \<open>Checks of a frame set\<close>

definition any_blank :: "(string \<times> string option) list \<Rightarrow> string list" where
  "any_blank required = map fst (filter (\<lambda>(name, value). \<not> truthy value) required)"

definition member_durable :: "StoredSyncFrame \<Rightarrow> bool" where
  "member_durable frame \<longleftrightarrow>
     truthy (f_source_frame_uid frame) \<and> truthy (f_source_session_id frame)
     \<and> truthy (f_camera_stream_id frame) \<and> f_sequence frame \<noteq> None
     \<and> truthy (f_content_digest frame) \<and> f_archive_state frame = ARCHIVE_DURABLE
     \<and> truthy (f_file_path frame)"

definition member_in_scope :: "SynchronizedFrameSet \<Rightarrow> StoredSyncFrame \<Rightarrow> bool" where
  "member_in_scope fset frame \<longleftrightarrow>
     f_tenant_id frame = fs_tenant_id fset \<and> f_site_id frame = fs_site_id fset
     \<and> f_capture_session_id frame = fs_capture_session_id fset
     \<and> f_processing_job_id frame = fs_processing_job_id fset
     \<and> f_profile_digest frame = fs_profile_digest fset
     \<and> truthy (f_authorized_subject frame) \<and> truthy (f_session_token_jti frame)
     \<and> truthy (f_authorized_camera_id frame)"

definition member_participates :: "SynchronizedFrameSet \<Rightarrow> StoredSyncFrame \<Rightarrow> bool" where
  "member_participates fset frame \<longleftrightarrow>
     fs_authorized_subject fset = None
     \<or> f_authorized_subject frame = fs_authorized_subject fset
        \<and> f_session_token_jti frame = fs_session_token_jti fset"

text \<open>Each member is checked for its scope and then for its participant before the next one.\<close>

fun validate_members :: "SynchronizedFrameSet \<Rightarrow> StoredSyncFrame list \<Rightarrow> unit result" where
  "validate_members fset [] = Inr ()"
| "validate_members fset (frame # frames) =
     (if \<not> member_in_scope fset frame
      then Inl (ManifestIntegrityError ''manifest member authorization scope does not match frame set'')
      else if \<not> member_participates fset frame
      then Inl (ManifestIntegrityError ''manifest member participant does not match frame set'')
      else validate_members fset frames)"

definition validate_v2_frame_set :: "SynchronizedFrameSet \<Rightarrow> unit result" where
  "validate_v2_frame_set fset =
     (let missing = any_blank
            [(''capture_session_id'', fs_capture_session_id fset),
             (''capture_run_id'', fs_capture_run_id fset),
             (''frame_set_uid'', fs_frame_set_uid fset),
             (''manifest_digest'', fs_manifest_digest fset),
             (''manifest_json'', fs_manifest_json fset)];
          group_values = [fs_tenant_id fset, fs_site_id fset, fs_processing_job_id fset,
                          fs_profile_digest fset];
          members = dict_values (fs_frames fset)
      in if missing \<noteq> []
         then Inl (ManifestIntegrityError (''v2 frame set is missing '' @ join '', '' (sort missing)))
         else if \<not> list_all member_durable members
         then Inl (ManifestIntegrityError ''v2 manifest member is not identity-complete and archive-durable'')
         else if \<not> list_ex truthy group_values then Inr ()
         else if \<not> list_all truthy group_values
         then Inl (ManifestIntegrityError ''authorized v2 frame set has an incomplete session scope'')
         else if (fs_authorized_subject fset = None) \<noteq> (fs_session_token_jti fset = None)
         then Inl (ManifestIntegrityError ''frame-set participant identity must be complete or member-scoped'')
         else validate_members fset members)"

definition verify_existing_manifest :: "FrameSetManifest \<Rightarrow> SynchronizedFrameSet \<Rightarrow> unit result" where
  "verify_existing_manifest existing fset =
     (if Some (mf_manifest_digest existing) \<noteq> fs_manifest_digest fset
         \<or> Some (mf_manifest_json existing) \<noteq> fs_manifest_json fset
         \<or> mf_tenant_id existing \<noteq> fs_tenant_id fset \<or> mf_site_id existing \<noteq> fs_site_id fset
         \<or> mf_processing_job_id existing \<noteq> fs_processing_job_id fset
         \<or> mf_profile_digest existing \<noteq> fs_profile_digest fset
         \<or> mf_authorized_subject existing \<noteq> fs_authorized_subject fset
         \<or> mf_session_token_jti existing \<noteq> fs_session_token_jti fset
      then Inl (ManifestIntegrityError ''frame_set_uid was reused with different manifest content'')
      else Inr ())"

section \<open>The rows a frame set is stored as\<close>

text \<open>\<open>json.dumps\<close> with its default \<open>ensure_ascii=True\<close> also escapes everything above the tilde.\<close>

definition json_escape_ascii :: "char \<Rightarrow> string" where
  "json_escape_ascii c =
     (let n = (of_char c :: nat)
      in if 126 < n then [CHR 0x5C, CHR ''u'', CHR ''0'', CHR ''0'', hex_char (n div 16), hex_char (n mod 16)]
         else json_escape c)"

definition json_quote_ascii :: "string \<Rightarrow> string" where
  "json_quote_ascii s = CHR 0x22 # concat (map json_escape_ascii s) @ [CHR 0x22]"

definition camera_of :: "StoredSyncFrame \<Rightarrow> string" where
  "camera_of frame = str_or (f_camera_stream_id frame) []"

definition source_session_json :: "StoredSyncFrame \<Rightarrow> string" where
  "source_session_json frame =
     ''{'' @ json_quote_ascii ''camera_stream_id'' @ '':'' @ json_quote_ascii (camera_of frame) @ '',''
     @ json_quote_ascii ''source_session_id'' @ '':''
     @ json_quote_ascii (str_or (f_source_session_id frame) []) @ ''}''"

definition source_sessions_json :: "SynchronizedFrameSet \<Rightarrow> string" where
  "source_sessions_json fset =
     ''['' @ join '','' (map source_session_json (sort_key camera_of (dict_values (fs_frames fset)))) @ '']''"

definition new_delivery_projection :: "int \<Rightarrow> string \<Rightarrow> string option \<Rightarrow> FrameSetDeliveryProjection" where
  "new_delivery_projection updated_at_ms live_state reason =
     \<lparr> pj_archive_state = ARCHIVE_DURABLE, pj_live_state = live_state,
       pj_legacy_relay_state = ''NOT_ENQUEUED'', pj_last_reason = reason,
       pj_updated_at_ms = updated_at_ms \<rparr>"

definition member_row :: "string \<Rightarrow> StoredSyncFrame \<Rightarrow> FrameSetMember" where
  "member_row uid frame =
     \<lparr> mm_frame_set_uid = uid, mm_frame_id = f_frame_id frame,
       mm_source_frame_uid = str_or (f_source_frame_uid frame) [],
       mm_source_session_id = str_or (f_source_session_id frame) [],
       mm_camera_stream_id = camera_of frame,
       mm_frame_sequence = (case f_sequence frame of Some n \<Rightarrow> n | None \<Rightarrow> 0),
       mm_capture_timestamp_ms = f_timestamp_ms frame, mm_content_type = f_content_type frame,
       mm_image_size = f_image_size frame, mm_content_digest = str_or (f_content_digest frame) [],
       mm_file_path = str_or (f_file_path frame) [],
       mm_authorized_camera_id = f_authorized_camera_id frame,
       mm_camera_claim_id = f_camera_claim_id frame,
       mm_authorized_subject = f_authorized_subject frame,
       mm_session_token_jti = f_session_token_jti frame \<rparr>"

section \<open>Collecting the changes\<close>

text \<open>The pending changes of the session, as the flush will write them.\<close>

record ManifestChanges =
  ch_time :: int
  ch_closed_sessions :: "string list"
  ch_new_session :: "(string \<times> CaptureSession) option"
  ch_closed_runs :: "string list"
  ch_new_run :: "(string \<times> CaptureRun) option"
  ch_superseded :: "string list"
  ch_manifest :: FrameSetManifest
  ch_projection :: FrameSetDeliveryProjection
  ch_members :: "FrameSetMember list"

definition open_other :: "('a \<Rightarrow> string) \<Rightarrow> string \<Rightarrow> (string, 'a) dict \<Rightarrow> string list" where
  "open_other state_of key table =
     map fst (filter (\<lambda>(k, row). state_of row = ''OPEN'' \<and> k \<noteq> key) table)"

text \<open>The join of the eligible projections with their manifests.\<close>

definition eligible_rows :: "ManifestDb \<Rightarrow> (string \<times> FrameSetManifest) list" where
  "eligible_rows db = List.map_filter (\<lambda>(uid, pj).
     if pj_live_state pj = ''ELIGIBLE''
     then map_option (Pair uid) (dict_get (db_manifests db) uid) else None) (db_projections db)"

definition newer_eligible_exists :: "ManifestDb \<Rightarrow> SynchronizedFrameSet \<Rightarrow> bool" where
  "newer_eligible_exists db fset \<longleftrightarrow>
     list_ex (\<lambda>(uid, mf). fs_synchronized_at_ms fset < mf_synchronized_at_ms mf) (eligible_rows db)"

definition manifest_row :: "int \<Rightarrow> SynchronizedFrameSet \<Rightarrow> FrameSetManifest" where
  "manifest_row timestamp_ms fset =
     \<lparr> mf_frame_set_uid = str_or (fs_frame_set_uid fset) [],
       mf_capture_session_id = str_or (fs_capture_session_id fset) [],
       mf_capture_run_id = str_or (fs_capture_run_id fset) [],
       mf_frame_set_id = fs_frame_set_id fset, mf_anchor_timestamp_ms = fs_anchor_timestamp_ms fset,
       mf_freshness_origin_ms = list_min (map f_timestamp_ms (dict_values (fs_frames fset))),
       mf_synchronization_span_ms =
         (case fs_span_ms fset of Some n \<Rightarrow> if n = 0 then fs_max_delta_ms fset else n
          | None \<Rightarrow> fs_max_delta_ms fset),
       mf_manifest_digest = str_or (fs_manifest_digest fset) [],
       mf_manifest_json = str_or (fs_manifest_json fset) [], mf_created_at_ms = timestamp_ms,
       mf_archive_state = ARCHIVE_DURABLE, mf_archive_error = None,
       mf_sync_window_ms = fs_sync_window_ms fset, mf_synchronized_at_ms = fs_synchronized_at_ms fset,
       mf_member_count = fs_member_count fset, mf_tenant_id = fs_tenant_id fset,
       mf_site_id = fs_site_id fset, mf_processing_job_id = fs_processing_job_id fset,
       mf_profile_digest = fs_profile_digest fset,
       mf_authorized_subject = fs_authorized_subject fset,
       mf_session_token_jti = fs_session_token_jti fset \<rparr>"

definition new_capture_session :: "int \<Rightarrow> SynchronizedFrameSet \<Rightarrow> CaptureSession" where
  "new_capture_session timestamp_ms fset =
     \<lparr> cap_state = ''OPEN'', cap_source_sessions_json = source_sessions_json fset,
       cap_started_at_ms = timestamp_ms, cap_closed_at_ms = None, cap_close_reason = None \<rparr>"

definition new_capture_run :: "int \<Rightarrow> SynchronizedFrameSet \<Rightarrow> CaptureRun" where
  "new_capture_run timestamp_ms fset =
     \<lparr> run_capture_session_id = str_or (fs_capture_session_id fset) [],
       run_identity_mode = fs_identity_mode fset, run_state = ''OPEN'',
       run_started_at_ms = timestamp_ms, run_closed_at_ms = None, run_close_reason = None \<rparr>"

definition manifest_changes :: "int \<Rightarrow> SynchronizedFrameSet \<Rightarrow> ManifestDb \<Rightarrow> ManifestChanges result" where
  "manifest_changes timestamp_ms fset db =
     (let uid = str_or (fs_frame_set_uid fset) [];
          session_id = str_or (fs_capture_session_id fset) [];
          run_id = str_or (fs_capture_run_id fset) [];
          run = dict_get (db_runs db) run_id;
          newer = newer_eligible_exists db fset
      in if (case run of None \<Rightarrow> False | Some r \<Rightarrow> run_capture_session_id r \<noteq> session_id)
         then Inl (ManifestIntegrityError ''capture_run_id was reused with a different capture_session_id'')
         else if fs_frames fset = [] then Inl (ValueError ''min() arg is an empty sequence'')
         else Inr
           \<lparr> ch_time = timestamp_ms,
             ch_closed_sessions = open_other cap_state session_id (db_sessions db),
             ch_new_session =
               (if dict_get (db_sessions db) session_id = None
                then Some (session_id, new_capture_session timestamp_ms fset) else None),
             ch_closed_runs = open_other run_state run_id (db_runs db),
             ch_new_run = (if run = None then Some (run_id, new_capture_run timestamp_ms fset) else None),
             ch_superseded = (if newer then [] else map fst (eligible_rows db)),
             ch_manifest = manifest_row timestamp_ms fset,
             ch_projection =
               (if newer then new_delivery_projection timestamp_ms ''SUPERSEDED_BEFORE_OFFER''
                               (Some ''NEWER_FRAME_SET_AVAILABLE'')
                else new_delivery_projection timestamp_ms ''ELIGIBLE'' None),
             ch_members = map (member_row uid) (sort_key camera_of (dict_values (fs_frames fset))) \<rparr>)"

section \<open>The commit\<close>

definition update_rows :: "string list \<Rightarrow> ('a \<Rightarrow> 'a) \<Rightarrow> (string, 'a) dict \<Rightarrow> (string, 'a) dict" where
  "update_rows keys f table = map (\<lambda>(k, row). (k, if k \<in> set keys then f row else row)) table"

definition insert_row :: "(string \<times> 'a) option \<Rightarrow> (string, 'a) dict \<Rightarrow> (string, 'a) dict" where
  "insert_row new table = table @ (case new of None \<Rightarrow> [] | Some row \<Rightarrow> [row])"

definition member_keys :: "FrameSetMember \<Rightarrow> string \<times> string" where
  "member_keys row = (mm_frame_set_uid row, mm_camera_stream_id row)"

definition run_sequence :: "FrameSetManifest \<Rightarrow> string \<times> int" where
  "run_sequence mf = (mf_capture_run_id mf, mf_frame_set_id mf)"

text \<open>Primary keys and unique constraints of the rows to insert.\<close>

definition constraints_hold :: "ManifestChanges \<Rightarrow> ManifestDb \<Rightarrow> bool" where
  "constraints_hold ch db \<longleftrightarrow>
     (case ch_new_session ch of None \<Rightarrow> True | Some (k, _) \<Rightarrow> k \<notin> set (dict_keys (db_sessions db)))
     \<and> (case ch_new_run ch of None \<Rightarrow> True | Some (k, _) \<Rightarrow> k \<notin> set (dict_keys (db_runs db)))
     \<and> mf_frame_set_uid (ch_manifest ch) \<notin> set (dict_keys (db_manifests db))
     \<and> mf_manifest_digest (ch_manifest ch) \<notin> mf_manifest_digest ` set (dict_values (db_manifests db))
     \<and> run_sequence (ch_manifest ch) \<notin> run_sequence ` set (dict_values (db_manifests db))
     \<and> mf_frame_set_uid (ch_manifest ch) \<notin> set (dict_keys (db_projections db))
     \<and> distinct (map member_keys (db_members db @ ch_members ch))
     \<and> distinct (map mm_source_frame_uid (db_members db @ ch_members ch))"

definition close_session :: "int \<Rightarrow> CaptureSession \<Rightarrow> CaptureSession" where
  "close_session t row =
     row\<lparr> cap_state := ''CLOSED'', cap_closed_at_ms := Some t,
          cap_close_reason := Some ''SOURCE_SESSION_SET_CHANGED'' \<rparr>"

definition close_run :: "int \<Rightarrow> CaptureRun \<Rightarrow> CaptureRun" where
  "close_run t row =
     row\<lparr> run_state := ''CLOSED'', run_closed_at_ms := Some t,
          run_close_reason := Some ''CAPTURE_RUN_ROTATED'' \<rparr>"

definition supersede :: "int \<Rightarrow> FrameSetDeliveryProjection \<Rightarrow> FrameSetDeliveryProjection" where
  "supersede t row =
     row\<lparr> pj_live_state := ''SUPERSEDED_BEFORE_OFFER'',
          pj_last_reason := Some ''NEWER_FRAME_SET_AVAILABLE'', pj_updated_at_ms := t \<rparr>"

definition commit_changes :: "ManifestChanges \<Rightarrow> ManifestDb \<Rightarrow> ManifestDb result" where
  "commit_changes ch db =
     (let t = ch_time ch; uid = mf_frame_set_uid (ch_manifest ch)
      in if \<not> constraints_hold ch db then Inl (IntegrityError ''UNIQUE constraint failed'')
         else Inr
           \<lparr> db_sessions = insert_row (ch_new_session ch)
               (update_rows (ch_closed_sessions ch) (close_session t) (db_sessions db)),
             db_runs = insert_row (ch_new_run ch)
               (update_rows (ch_closed_runs ch) (close_run t) (db_runs db)),
             db_manifests = insert_row (Some (uid, ch_manifest ch)) (db_manifests db),
             db_members = db_members db @ ch_members ch,
             db_projections = insert_row (Some (uid, ch_projection ch))
               (update_rows (ch_superseded ch) (supersede t) (db_projections db)) \<rparr>)"

section \<open>The operations\<close>

definition persist_frame_set_manifest ::
  "(ManifestDb \<Rightarrow> ManifestDb) \<Rightarrow> int \<Rightarrow> SynchronizedFrameSet \<Rightarrow> ManifestDb \<Rightarrow> bool result \<times> ManifestDb" where
  "persist_frame_set_manifest others timestamp_ms fset db =
     (if fs_identity_mode fset \<noteq> IDENTITY_MODE_V2 then (Inr False, db)
      else case validate_v2_frame_set fset of
        Inl e \<Rightarrow> (Inl e, db)
      | Inr _ \<Rightarrow>
          (let uid = str_or (fs_frame_set_uid fset) []
           in case dict_get (db_manifests db) uid of
                Some existing \<Rightarrow>
                  (case verify_existing_manifest existing fset of
                     Inl e \<Rightarrow> (Inl e, db)
                   | Inr _ \<Rightarrow>
                       if dict_get (db_projections db) uid \<noteq> None then (Inr False, db)
                       else (let db = others db
                             in if uid \<in> set (dict_keys (db_projections db))
                                then (Inl (IntegrityError ''UNIQUE constraint failed''), db)
                                else (Inr False, db\<lparr> db_projections := insert_row
                                       (Some (uid, new_delivery_projection timestamp_ms ''ELIGIBLE'' None))
                                       (db_projections db) \<rparr>)))
              | None \<Rightarrow>
                  (case manifest_changes timestamp_ms fset db of
                     Inl e \<Rightarrow> (Inl e, db)
                   | Inr ch \<Rightarrow>
                       (let db = others db
                        in case commit_changes ch db of
                             Inr stored \<Rightarrow> (Inr True, stored)
                           | Inl _ \<Rightarrow>
                               (case dict_get (db_manifests db) uid of
                                  Some existing \<Rightarrow>
                                    (case verify_existing_manifest existing fset of
                                       Inl e \<Rightarrow> (Inl e, db) | Inr _ \<Rightarrow> (Inr False, db))
                                | None \<Rightarrow>
                                    (Inl (ManifestIntegrityError
                                       ''manifest identity conflicts with existing durable data''), db))))))"

definition update_delivery_projection ::
  "int \<Rightarrow> string \<Rightarrow> string option \<Rightarrow> string option \<Rightarrow> string option \<Rightarrow> string option
   \<Rightarrow> ManifestDb \<Rightarrow> bool \<times> ManifestDb" where
  "update_delivery_projection updated_at_ms uid archive_state live_state legacy_relay_state reason db =
     (let table = db_projections db;
          present = dict_get table uid \<noteq> None
      in if \<not> present \<and> dict_get (db_manifests db) uid = None then (False, db)
         else
           (let pj = (case dict_get table uid of Some pj \<Rightarrow> pj
                      | None \<Rightarrow> new_delivery_projection updated_at_ms ''ELIGIBLE'' None)
            in (True, db\<lparr> db_projections := dict_set table uid
                 (pj\<lparr> pj_archive_state := (case archive_state of None \<Rightarrow> pj_archive_state pj | Some x \<Rightarrow> x),
                      pj_live_state := (case live_state of None \<Rightarrow> pj_live_state pj | Some x \<Rightarrow> x),
                      pj_legacy_relay_state :=
                        (case legacy_relay_state of None \<Rightarrow> pj_legacy_relay_state pj | Some x \<Rightarrow> x),
                      pj_last_reason := (case reason of None \<Rightarrow> pj_last_reason pj | Some x \<Rightarrow> Some x),
                      pj_updated_at_ms := updated_at_ms \<rparr>) \<rparr>)))"

definition delivery_order :: "FrameSetManifest \<Rightarrow> int \<times> int \<times> string" where
  "delivery_order mf = (mf_synchronized_at_ms mf, mf_created_at_ms mf, mf_frame_set_uid mf)"

definition deliverable :: "ManifestDb \<Rightarrow> FrameSetManifest list" where
  "deliverable db = map snd (filter (\<lambda>(uid, mf).
     case dict_get (db_projections db) uid of None \<Rightarrow> False
     | Some pj \<Rightarrow> pj_archive_state pj = ARCHIVE_DURABLE \<and> pj_live_state pj = ''ELIGIBLE'') (db_manifests db))"

definition get_newest_eligible_manifest :: "ManifestDb \<Rightarrow> FrameSetManifest option" where
  "get_newest_eligible_manifest db =
     (case rev (sort_key delivery_order (deliverable db)) of [] \<Rightarrow> None | mf # _ \<Rightarrow> Some mf)"

section \<open>Tables under updates and inserts\<close>

lemma update_rows_keys [simp]: "dict_keys (update_rows ks f t) = dict_keys t"
  by (auto simp: update_rows_def)

lemma update_rows_get [simp]:
  "dict_get (update_rows ks f t) k = map_option (\<lambda>row. if k \<in> set ks then f row else row) (dict_get t k)"
  by (induction t) (auto simp: update_rows_def)

lemma insert_row_get:
  "dict_get (insert_row (Some (k0, r)) t) k = (case dict_get t k of Some x \<Rightarrow> Some x | None \<Rightarrow> if k = k0 then Some r else None)"
  by (auto simp: insert_row_def map_add_def split: option.splits)

lemma insert_row_keys [simp]: "dict_keys (insert_row (Some (k0, r)) t) = dict_keys t @ [k0]"
  by (simp add: insert_row_def)

lemma insert_row_None [simp]: "insert_row None t = t"
  by (simp add: insert_row_def)

lemma not_key_get: "k \<notin> set (dict_keys t) \<longleftrightarrow> dict_get t k = None"
  by (simp add: map_of_eq_None_iff)

section \<open>The invariant of the ledger\<close>

definition at_most_one :: "('k \<Rightarrow> bool) \<Rightarrow> bool" where
  "at_most_one P \<longleftrightarrow> (\<forall>k k'. P k \<longrightarrow> P k' \<longrightarrow> k = k')"

definition eligible :: "ManifestDb \<Rightarrow> string \<Rightarrow> bool" where
  "eligible db uid \<longleftrightarrow> (\<exists>pj. dict_get (db_projections db) uid = Some pj \<and> pj_live_state pj = ''ELIGIBLE'')"

definition open_session :: "ManifestDb \<Rightarrow> string \<Rightarrow> bool" where
  "open_session db k \<longleftrightarrow> (\<exists>r. dict_get (db_sessions db) k = Some r \<and> cap_state r = ''OPEN'')"

definition open_run :: "ManifestDb \<Rightarrow> string \<Rightarrow> bool" where
  "open_run db k \<longleftrightarrow> (\<exists>r. dict_get (db_runs db) k = Some r \<and> run_state r = ''OPEN'')"

definition unique_manifests :: "ManifestDb \<Rightarrow> bool" where
  "unique_manifests db \<longleftrightarrow> distinct (dict_keys (db_manifests db))
     \<and> distinct (map mf_manifest_digest (dict_values (db_manifests db)))
     \<and> distinct (map run_sequence (dict_values (db_manifests db)))"

definition unique_members :: "ManifestDb \<Rightarrow> bool" where
  "unique_members db \<longleftrightarrow> distinct (map member_keys (db_members db))
     \<and> distinct (map mm_source_frame_uid (db_members db))"

definition projected :: "ManifestDb \<Rightarrow> bool" where
  "projected db \<longleftrightarrow> (\<forall>uid. dict_get (db_projections db) uid = None \<longleftrightarrow> dict_get (db_manifests db) uid = None)"

definition run_of_manifest :: "ManifestDb \<Rightarrow> bool" where
  "run_of_manifest db \<longleftrightarrow> (\<forall>uid mf. dict_get (db_manifests db) uid = Some mf \<longrightarrow>
     mf_frame_set_uid mf = uid
     \<and> (\<exists>r. dict_get (db_runs db) (mf_capture_run_id mf) = Some r
          \<and> run_capture_session_id r = mf_capture_session_id mf)
     \<and> dict_get (db_sessions db) (mf_capture_session_id mf) \<noteq> None)"

definition members_stored :: "ManifestDb \<Rightarrow> bool" where
  "members_stored db \<longleftrightarrow> (\<forall>row \<in> set (db_members db). dict_get (db_manifests db) (mm_frame_set_uid row) \<noteq> None)"

definition distinct_keys :: "ManifestDb \<Rightarrow> bool" where
  "distinct_keys db \<longleftrightarrow> distinct (dict_keys (db_sessions db)) \<and> distinct (dict_keys (db_runs db))
     \<and> distinct (dict_keys (db_projections db))"

text \<open>
  \<open>ledger_wf\<close> holds under every operation of the program; \<open>ledger_inv\<close> adds that at most one
  frame set waits for delivery, which the ledger's own operations keep.
\<close>

definition ledger_wf :: "ManifestDb \<Rightarrow> bool" where
  "ledger_wf db \<longleftrightarrow> distinct_keys db \<and> unique_manifests db \<and> unique_members db \<and> projected db
     \<and> run_of_manifest db \<and> members_stored db \<and> at_most_one (open_session db) \<and> at_most_one (open_run db)"

definition ledger_inv :: "ManifestDb \<Rightarrow> bool" where
  "ledger_inv db \<longleftrightarrow> ledger_wf db \<and> at_most_one (eligible db)"

lemma ledger_inv_wf: "ledger_inv db \<Longrightarrow> ledger_wf db"
  by (simp add: ledger_inv_def)

lemmas ledger_parts = distinct_keys_def unique_manifests_def unique_members_def projected_def run_of_manifest_def members_stored_def

lemma projected_iff:
  "projected db \<longleftrightarrow> (\<forall>uid. (\<exists>pj. dict_get (db_projections db) uid = Some pj)
     \<longleftrightarrow> (\<exists>mf. dict_get (db_manifests db) uid = Some mf))"
  unfolding projected_def by (metis not_None_eq)

lemma projected_keys: "projected db \<longleftrightarrow> set (dict_keys (db_projections db)) = set (dict_keys (db_manifests db))"
  unfolding projected_def not_key_get [symmetric] by blast

lemma empty_db_inv: "ledger_inv empty_db"
  by (simp add: ledger_inv_def ledger_wf_def ledger_parts empty_db_def at_most_one_def eligible_def open_session_def open_run_def)

text \<open>What the changes collected for a frame set are.\<close>

lemma manifest_changes_Inr:
  assumes "manifest_changes t fset db = Inr ch"
  defines "uid \<equiv> str_or (fs_frame_set_uid fset) []" and "sid \<equiv> str_or (fs_capture_session_id fset) []"
    and "rid \<equiv> str_or (fs_capture_run_id fset) []"
  shows "ch_time ch = t" "ch_closed_sessions ch = open_other cap_state sid (db_sessions db)"
    "ch_new_session ch = (if dict_get (db_sessions db) sid = None then Some (sid, new_capture_session t fset) else None)"
    "ch_closed_runs ch = open_other run_state rid (db_runs db)"
    "ch_new_run ch = (if dict_get (db_runs db) rid = None then Some (rid, new_capture_run t fset) else None)"
    "ch_superseded ch = (if newer_eligible_exists db fset then [] else map fst (eligible_rows db))"
    "ch_manifest ch = manifest_row t fset"
    "pj_live_state (ch_projection ch) = (if newer_eligible_exists db fset then ''SUPERSEDED_BEFORE_OFFER'' else ''ELIGIBLE'')"
    "ch_members ch = map (member_row uid) (sort_key camera_of (dict_values (fs_frames fset)))"
    "\<And>r. dict_get (db_runs db) rid = Some r \<Longrightarrow> run_capture_session_id r = sid"
    "fs_frames fset \<noteq> []"
  using assms(1) unfolding manifest_changes_def uid_def sid_def rid_def Let_def
  by (auto simp: new_delivery_projection_def split: if_splits option.splits)

lemma open_other_set:
  "distinct (dict_keys t) \<Longrightarrow> set (open_other st key t) = {k. k \<noteq> key \<and> (\<exists>r. dict_get t k = Some r \<and> st r = ''OPEN'')}"
  by (force simp: open_other_def map_of_eq_Some_iff)

lemma eligible_rows_set:
  assumes "distinct (dict_keys (db_projections db))"
  shows "set (eligible_rows db) = {(uid, mf). eligible db uid \<and> dict_get (db_manifests db) uid = Some mf}"
  using assms unfolding eligible_rows_def eligible_def
  by (force simp: List.map_filter_def map_of_eq_Some_iff split: if_splits)

section \<open>A commit keeps the invariant\<close>

text \<open>Closing the other open rows and inserting a row for the key when there is none.\<close>

definition rotate_rows :: "('a \<Rightarrow> string) \<Rightarrow> ('a \<Rightarrow> 'a) \<Rightarrow> string \<Rightarrow> 'a \<Rightarrow> (string, 'a) dict \<Rightarrow> (string, 'a) dict" where
  "rotate_rows st close key new t =
     insert_row (if dict_get t key = None then Some (key, new) else None)
       (update_rows (open_other st key t) close t)"

lemma rotate_rows_get:
  assumes "distinct (dict_keys t)"
  shows "dict_get (rotate_rows st close key new t) k =
    (case dict_get t k of None \<Rightarrow> if k = key then Some new else None
     | Some r \<Rightarrow> Some (if k \<noteq> key \<and> st r = ''OPEN'' then close r else r))"
  by (auto simp: rotate_rows_def insert_row_get open_other_set [OF assms] split: option.splits)

lemma rotate_rows_distinct:
  assumes "distinct (dict_keys t)"
  shows "distinct (dict_keys (rotate_rows st close key new t))"
proof (cases "dict_get t key = None")
  case True
  then have "key \<notin> set (dict_keys t)" by (simp only: not_key_get)
  then show ?thesis using assms True by (simp add: rotate_rows_def del: set_map)
qed (use assms in \<open>auto simp: rotate_rows_def\<close>)

lemma rotate_rows_open:
  assumes "distinct (dict_keys t)" "dict_get (rotate_rows st close key new t) k = Some r" "st r = ''OPEN''"
    "\<And>r. st (close r) \<noteq> ''OPEN''"
  shows "k = key"
  using assms by (auto simp: rotate_rows_get split: option.splits if_splits)

lemma commit_tables:
  assumes "manifest_changes t fset db = Inr ch" "commit_changes ch db = Inr db'"
  shows "db_sessions db' = rotate_rows cap_state (close_session t) (str_or (fs_capture_session_id fset) [])
        (new_capture_session t fset) (db_sessions db)"
    "db_runs db' = rotate_rows run_state (close_run t) (str_or (fs_capture_run_id fset) [])
        (new_capture_run t fset) (db_runs db)"
    "db_manifests db' = db_manifests db @ [(str_or (fs_frame_set_uid fset) [], manifest_row t fset)]"
    "db_members db' = db_members db @ map (member_row (str_or (fs_frame_set_uid fset) [])) (sort_key camera_of (dict_values (fs_frames fset)))"
    "db_projections db' = insert_row (Some (str_or (fs_frame_set_uid fset) [], ch_projection ch))
        (update_rows (ch_superseded ch) (supersede t) (db_projections db))"
    "constraints_hold ch db"
proof -
  note c = manifest_changes_Inr(1-9) [OF assms(1)]
  have uid: "mf_frame_set_uid (ch_manifest ch) = str_or (fs_frame_set_uid fset) []" by (simp add: c manifest_row_def)
  have ok: "constraints_hold ch db" using assms(2) by (simp add: commit_changes_def Let_def split: if_splits)
  show "db_sessions db' = rotate_rows cap_state (close_session t) (str_or (fs_capture_session_id fset) [])
        (new_capture_session t fset) (db_sessions db)"
    "db_runs db' = rotate_rows run_state (close_run t) (str_or (fs_capture_run_id fset) [])
        (new_capture_run t fset) (db_runs db)"
    "db_manifests db' = db_manifests db @ [(str_or (fs_frame_set_uid fset) [], manifest_row t fset)]"
    "db_members db' = db_members db @ map (member_row (str_or (fs_frame_set_uid fset) [])) (sort_key camera_of (dict_values (fs_frames fset)))"
    "db_projections db' = insert_row (Some (str_or (fs_frame_set_uid fset) [], ch_projection ch))
        (update_rows (ch_superseded ch) (supersede t) (db_projections db))"
    using assms(2) ok unfolding commit_changes_def Let_def uid unfolding c rotate_rows_def
    by (auto simp: insert_row_def)
  show "constraints_hold ch db" by (rule ok)
qed

lemma commit_absent:
  assumes "manifest_changes t fset db = Inr ch" "commit_changes ch db = Inr db'"
  shows "dict_get (db_manifests db) (str_or (fs_frame_set_uid fset) []) = None"
    "dict_get (db_projections db) (str_or (fs_frame_set_uid fset) []) = None"
proof -
  have uid: "mf_frame_set_uid (ch_manifest ch) = str_or (fs_frame_set_uid fset) []"
    by (simp add: manifest_changes_Inr(7) [OF assms(1)] manifest_row_def)
  show "dict_get (db_manifests db) (str_or (fs_frame_set_uid fset) []) = None"
    "dict_get (db_projections db) (str_or (fs_frame_set_uid fset) []) = None"
    using commit_tables(6) [OF assms] unfolding constraints_hold_def uid not_key_get by blast+
qed

lemma commit_eligible:
  assumes inv: "ledger_wf db" and ch: "manifest_changes t fset db = Inr ch" "commit_changes ch db = Inr db'"
  shows "eligible db' uid \<longleftrightarrow> (if newer_eligible_exists db fset then eligible db uid
    else uid = str_or (fs_frame_set_uid fset) [])"
proof -
  have dist: "distinct (dict_keys (db_projections db))" using inv by (simp add: ledger_wf_def distinct_keys_def)
  have "fst ` set (eligible_rows db) = {uid. eligible db uid}"
    using inv unfolding eligible_rows_set [OF dist] ledger_wf_def projected_def eligible_def by force
  then have sup: "set (ch_superseded ch) = (if newer_eligible_exists db fset then {} else {uid. eligible db uid})"
    by (simp add: manifest_changes_Inr(6) [OF ch(1)])
  have new: "\<not> eligible db (str_or (fs_frame_set_uid fset) [])"
    using commit_absent(2) [OF ch] by (simp add: eligible_def)
  have "eligible db' uid \<longleftrightarrow>
      eligible db uid \<and> uid \<notin> set (ch_superseded ch)
      \<or> uid = str_or (fs_frame_set_uid fset) [] \<and> pj_live_state (ch_projection ch) = ''ELIGIBLE''"
    using commit_absent(2) [OF ch]
    by (auto simp: eligible_def commit_tables(5) [OF ch] insert_row_get supersede_def split: option.splits)
  then show ?thesis using sup new unfolding manifest_changes_Inr(8) [OF ch(1)] by auto
qed

lemma commit_wf:
  assumes inv: "ledger_wf db" and ch: "manifest_changes t fset db = Inr ch" "commit_changes ch db = Inr db'"
  shows "ledger_wf db'"
proof -
  note parts = inv [unfolded ledger_wf_def]
  have dist: "distinct (dict_keys (db_sessions db))" "distinct (dict_keys (db_runs db))" "distinct (dict_keys (db_projections db))"
    using parts by (auto simp: distinct_keys_def)
  note l = commit_tables [OF ch] and absent = commit_absent [OF ch]
  let ?uid = "str_or (fs_frame_set_uid fset) []"
  have get: "dict_get (db_manifests db') uid = (if uid = ?uid then Some (manifest_row t fset) else dict_get (db_manifests db) uid)" for uid
    using absent(1) by (auto simp: l(3) map_add_def split: option.splits)
  have fresh: "?uid \<notin> set (dict_keys (db_projections db))" "?uid \<notin> set (dict_keys (db_manifests db))"
    using absent by (simp_all only: not_key_get)
  have "distinct_keys db'"
    using dist fresh(1) by (simp add: distinct_keys_def l rotate_rows_distinct del: set_map)
  moreover have "unique_manifests db'"
    using parts l(6) fresh(2) by (auto simp: unique_manifests_def l(3) constraints_hold_def manifest_changes_Inr(7) [OF ch(1)])
  moreover have "unique_members db'"
    using l(6) unfolding unique_members_def constraints_hold_def l(4) manifest_changes_Inr(9) [OF ch(1)] by blast
  moreover have "projected db'"
    using parts unfolding projected_keys l(3,5) insert_row_keys update_rows_keys by simp
  moreover have "run_of_manifest db'"
    unfolding run_of_manifest_def
  proof (intro allI impI)
    fix uid mf
    assume mf: "dict_get (db_manifests db') uid = Some mf"
    show "mf_frame_set_uid mf = uid
      \<and> (\<exists>r. dict_get (db_runs db') (mf_capture_run_id mf) = Some r \<and> run_capture_session_id r = mf_capture_session_id mf)
      \<and> dict_get (db_sessions db') (mf_capture_session_id mf) \<noteq> None"
    proof (cases "uid = ?uid")
      case True
      have "mf = manifest_row t fset" using mf True by (simp add: get)
      then show ?thesis using True manifest_changes_Inr(10) [OF ch(1)]
        by (auto simp: l rotate_rows_get dist manifest_row_def new_capture_run_def split: option.splits)
    next
      case False
      then have "dict_get (db_manifests db) uid = Some mf" using mf get by simp
      then have "mf_frame_set_uid mf = uid" "dict_get (db_sessions db) (mf_capture_session_id mf) \<noteq> None"
        "\<exists>r. dict_get (db_runs db) (mf_capture_run_id mf) = Some r \<and> run_capture_session_id r = mf_capture_session_id mf"
        using parts unfolding run_of_manifest_def by blast+
      then show ?thesis by (auto simp: l rotate_rows_get dist close_run_def split: option.splits)
    qed
  qed
  moreover have "members_stored db'"
    using parts by (auto simp: members_stored_def l(4) get member_row_def)
  moreover have "k = str_or (fs_capture_session_id fset) []" if "open_session db' k" for k
    using that rotate_rows_open [OF dist(1), of cap_state "close_session t"]
    by (auto simp: open_session_def l close_session_def)
  then have "at_most_one (open_session db')" unfolding at_most_one_def by blast
  moreover have "k = str_or (fs_capture_run_id fset) []" if "open_run db' k" for k
    using that rotate_rows_open [OF dist(2), of run_state "close_run t"]
    by (auto simp: open_run_def l close_run_def)
  then have "at_most_one (open_run db')" unfolding at_most_one_def by blast
  ultimately show ?thesis by (simp add: ledger_wf_def)
qed

lemma commit_inv:
  assumes inv: "ledger_inv db" and ch: "manifest_changes t fset db = Inr ch" "commit_changes ch db = Inr db'"
  shows "ledger_inv db'"
  using inv commit_wf [OF ledger_inv_wf [OF inv] ch]
  by (simp add: ledger_inv_def at_most_one_def commit_eligible [OF ledger_inv_wf [OF inv] ch])

section \<open>Operations as steps\<close>

datatype ledger_op =
    Persist int SynchronizedFrameSet
  | Project int string "string option" "string option" "string option" "string option"

fun ledger_step :: "ManifestDb \<Rightarrow> ledger_op \<Rightarrow> ManifestDb" where
  "ledger_step db (Persist t fset) = snd (persist_frame_set_manifest id t fset db)"
| "ledger_step db (Project t uid archive live legacy reason) =
     snd (update_delivery_projection t uid archive live legacy reason db)"

text \<open>No caller makes a projection eligible again.\<close>

fun ledger_op_ok :: "ledger_op \<Rightarrow> bool" where
  "ledger_op_ok (Persist t fset) = True"
| "ledger_op_ok (Project t uid archive live legacy reason) = (live \<noteq> Some ''ELIGIBLE'')"

text \<open>The outcomes of a persist that no other session interferes with.\<close>

lemma persist_cases:
  assumes inv: "ledger_wf db"
  obtains (legacy) "fs_identity_mode fset \<noteq> IDENTITY_MODE_V2" "persist_frame_set_manifest id t fset db = (Inr False, db)"
  | (invalid) e where "validate_v2_frame_set fset = Inl e" "persist_frame_set_manifest id t fset db = (Inl e, db)"
  | (reused) existing e where "validate_v2_frame_set fset = Inr ()"
      "dict_get (db_manifests db) (str_or (fs_frame_set_uid fset) []) = Some existing"
      "verify_existing_manifest existing fset = Inl e" "persist_frame_set_manifest id t fset db = (Inl e, db)"
  | (known) existing where "validate_v2_frame_set fset = Inr ()"
      "dict_get (db_manifests db) (str_or (fs_frame_set_uid fset) []) = Some existing"
      "verify_existing_manifest existing fset = Inr ()" "persist_frame_set_manifest id t fset db = (Inr False, db)"
  | (rejected) e where "validate_v2_frame_set fset = Inr ()"
      "dict_get (db_manifests db) (str_or (fs_frame_set_uid fset) []) = None"
      "manifest_changes t fset db = Inl e" "persist_frame_set_manifest id t fset db = (Inl e, db)"
  | (conflict) ch where "validate_v2_frame_set fset = Inr ()" "fs_identity_mode fset = IDENTITY_MODE_V2"
      "dict_get (db_manifests db) (str_or (fs_frame_set_uid fset) []) = None"
      "manifest_changes t fset db = Inr ch" "\<not> constraints_hold ch db"
      "persist_frame_set_manifest id t fset db
         = (Inl (ManifestIntegrityError ''manifest identity conflicts with existing durable data''), db)"
  | (stored) ch db' where "validate_v2_frame_set fset = Inr ()" "fs_identity_mode fset = IDENTITY_MODE_V2"
      "dict_get (db_manifests db) (str_or (fs_frame_set_uid fset) []) = None"
      "manifest_changes t fset db = Inr ch" "commit_changes ch db = Inr db'"
      "persist_frame_set_manifest id t fset db = (Inr True, db')"
proof -
  let ?uid = "str_or (fs_frame_set_uid fset) []" and ?p = "persist_frame_set_manifest id t fset db"
  show ?thesis
  proof (cases "fs_identity_mode fset \<noteq> IDENTITY_MODE_V2")
    case True
    then show ?thesis by (intro legacy) (simp_all add: persist_frame_set_manifest_def)
  next
    case v2: False
    show ?thesis
    proof (cases "validate_v2_frame_set fset")
      case (Inl e)
      then show ?thesis using v2 by (intro invalid) (simp_all add: persist_frame_set_manifest_def)
    next
      case valid: (Inr u)
      show ?thesis
      proof (cases "dict_get (db_manifests db) ?uid")
        case (Some existing)
        then have "dict_get (db_projections db) ?uid \<noteq> None"
          using inv by (auto simp: ledger_wf_def projected_def)
        then show ?thesis using v2 valid Some reused [of existing] known [of existing]
          by (cases "verify_existing_manifest existing fset") (simp_all add: persist_frame_set_manifest_def)
      next
        case None
        show ?thesis
        proof (cases "manifest_changes t fset db")
          case (Inl e)
          then show ?thesis using v2 valid None by (intro rejected) (simp_all add: persist_frame_set_manifest_def)
        next
          case (Inr ch)
          then have go: "?p = (case commit_changes ch db of Inr stored \<Rightarrow> (Inr True, stored)
              | Inl _ \<Rightarrow> (Inl (ManifestIntegrityError ''manifest identity conflicts with existing durable data''), db))"
            using v2 valid None by (simp add: persist_frame_set_manifest_def Let_def split: sum.split)
          show ?thesis
          proof (cases "constraints_hold ch db")
            case True
            then obtain db' where "commit_changes ch db = Inr db'" by (simp add: commit_changes_def Let_def)
            then show ?thesis using go v2 valid None Inr by (intro stored [of ch db']) simp_all
          next
            case False
            then have "commit_changes ch db = Inl (IntegrityError ''UNIQUE constraint failed'')"
              by (simp add: commit_changes_def Let_def)
            then show ?thesis using False go v2 valid None Inr by (intro conflict [of ch]) simp_all
          qed
        qed
      qed
    qed
  qed
qed

lemma persist_wf: "ledger_wf db \<Longrightarrow> ledger_wf (snd (persist_frame_set_manifest id t fset db))"
  by (cases rule: persist_cases [of db fset t]) (auto intro: commit_wf)

lemma persist_inv:
  assumes "ledger_inv db" shows "ledger_inv (snd (persist_frame_set_manifest id t fset db))"
  using ledger_inv_wf [OF assms]
  by (cases rule: persist_cases [of db fset t]) (use assms in \<open>auto intro: commit_inv\<close>)

lemma project_eq:
  assumes "ledger_wf db"
  obtains (absent) "update_delivery_projection t uid archive live legacy reason db = (False, db)"
  | (present) pj pj' where "dict_get (db_projections db) uid = Some pj"
      "update_delivery_projection t uid archive live legacy reason db
         = (True, db\<lparr> db_projections := dict_set (db_projections db) uid pj' \<rparr>)"
      "pj_live_state pj' = (case live of None \<Rightarrow> pj_live_state pj | Some x \<Rightarrow> x)"
proof (cases "dict_get (db_projections db) uid")
  case None
  then have "dict_get (db_manifests db) uid = None" using assms by (simp add: ledger_wf_def projected_def)
  then show ?thesis using None by (intro absent) (simp add: update_delivery_projection_def)
next
  case (Some pj)
  show ?thesis by (rule present [OF Some], simp add: update_delivery_projection_def Some, simp)
qed

text \<open>Rewriting the projection of a stored frame set.\<close>

lemma set_row_wf:
  assumes wf: "ledger_wf db" and pj: "dict_get (db_projections db) uid = Some pj"
  shows "ledger_wf (db\<lparr> db_projections := dict_set (db_projections db) uid pj' \<rparr>)"
proof -
  let ?db = "db\<lparr> db_projections := dict_set (db_projections db) uid pj' \<rparr>"
  have "projected ?db" using wf pj unfolding ledger_wf_def projected_iff by auto
  moreover have "distinct_keys ?db" using wf by (auto simp: ledger_wf_def distinct_keys_def intro: dict_distinct_set)
  ultimately show ?thesis using wf
    by (auto simp: ledger_wf_def unique_manifests_def unique_members_def run_of_manifest_def
        members_stored_def open_session_def [abs_def] open_run_def [abs_def])
qed

lemma project_wf:
  assumes "ledger_wf db" shows "ledger_wf (snd (update_delivery_projection t uid archive live legacy reason db))"
  using assms by (cases rule: project_eq [of db t uid archive live legacy reason])
    (use assms set_row_wf in auto)

lemma project_inv:
  assumes inv: "ledger_inv db" and live: "live \<noteq> Some ''ELIGIBLE''"
  shows "ledger_inv (snd (update_delivery_projection t uid archive live legacy reason db))"
  using ledger_inv_wf [OF inv]
proof (cases rule: project_eq [of db t uid archive live legacy reason])
  case (present pj pj')
  have "eligible (snd (update_delivery_projection t uid archive live legacy reason db)) k \<Longrightarrow> eligible db k" for k
    using live present by (auto simp: eligible_def split: if_splits option.splits)
  then show ?thesis using inv project_wf [OF ledger_inv_wf [OF inv]]
    unfolding ledger_inv_def at_most_one_def by blast
qed (use inv in simp)

definition stored_manifests :: "ManifestDb \<Rightarrow> (string \<times> FrameSetManifest) set" where
  "stored_manifests db = {(uid, mf). dict_get (db_manifests db) uid = Some mf}"

lemma ledger_step_inv: "ledger_inv db \<Longrightarrow> ledger_op_ok op \<Longrightarrow> ledger_inv (ledger_step db op)"
  by (cases op) (auto intro: persist_inv project_inv)

lemma ledger_step_mono: "ledger_wf db \<Longrightarrow> stored_manifests db \<subseteq> stored_manifests (ledger_step db op)"
proof (cases op)
  case (Persist t fset)
  assume "ledger_wf db"
  then show ?thesis
  proof (cases rule: persist_cases [of db fset t])
    case (stored ch db')
    then show ?thesis using commit_tables(3) [OF stored(4,5)]
      by (auto simp: Persist stored_manifests_def map_add_def split: option.splits)
  qed (simp_all add: Persist)
qed (auto simp: stored_manifests_def update_delivery_projection_def Let_def)

interpretation ledger: monotone_machine ledger_step ledger_op_ok ledger_inv stored_manifests
  by unfold_locales (auto intro: ledger_step_inv dest: ledger_step_mono [OF ledger_inv_wf])

section \<open>Accepting a frame set once\<close>

lemma validate_required:
  assumes "validate_v2_frame_set fset = Inr ()"
  shows "truthy (fs_capture_session_id fset)" "truthy (fs_capture_run_id fset)" "truthy (fs_frame_set_uid fset)"
    "truthy (fs_manifest_digest fset)" "truthy (fs_manifest_json fset)"
    "list_all member_durable (dict_values (fs_frames fset))"
  using assms by (auto simp: validate_v2_frame_set_def any_blank_def Let_def split: if_splits)

lemma truthy_Some: "truthy s \<longleftrightarrow> s = Some (str_or s []) \<and> s \<noteq> Some []"
  by (cases s) auto

lemma verify_own_row:
  assumes "validate_v2_frame_set fset = Inr ()"
  shows "verify_existing_manifest (manifest_row t fset) fset = Inr ()"
  using validate_required [OF assms] by (simp add: verify_existing_manifest_def manifest_row_def truthy_Some)

lemma stored_rows:
  assumes "ledger_wf db" "persist_frame_set_manifest id t fset db = (Inr True, db')"
  shows "dict_get (db_manifests db') (str_or (fs_frame_set_uid fset) []) = Some (manifest_row t fset)"
    "dict_get (db_projections db') (str_or (fs_frame_set_uid fset) []) \<noteq> None"
    "db_members db' = db_members db @ map (member_row (str_or (fs_frame_set_uid fset) [])) (sort_key camera_of (dict_values (fs_frames fset)))"
    "validate_v2_frame_set fset = Inr ()" "fs_identity_mode fset = IDENTITY_MODE_V2" "ledger_wf db'"
    "\<And>uid. eligible db' uid \<longleftrightarrow> (if newer_eligible_exists db fset then eligible db uid
      else uid = str_or (fs_frame_set_uid fset) [])"
proof -
  obtain ch where c: "validate_v2_frame_set fset = Inr ()" "fs_identity_mode fset = IDENTITY_MODE_V2"
      "manifest_changes t fset db = Inr ch" "commit_changes ch db = Inr db'"
    using assms(1) by (cases rule: persist_cases [of db fset t]) (use assms(2) in simp_all)
  note l = commit_tables [OF c(3,4)] and absent = commit_absent [OF c(3,4)]
  show "dict_get (db_manifests db') (str_or (fs_frame_set_uid fset) []) = Some (manifest_row t fset)"
    using absent(1) by (simp add: l(3) map_add_def)
  show "dict_get (db_projections db') (str_or (fs_frame_set_uid fset) []) \<noteq> None"
    using absent(2) by (simp add: l(5) insert_row_get)
  show "db_members db' = db_members db @ map (member_row (str_or (fs_frame_set_uid fset) [])) (sort_key camera_of (dict_values (fs_frames fset)))"
    by (simp add: l(4))
  show "validate_v2_frame_set fset = Inr ()" "fs_identity_mode fset = IDENTITY_MODE_V2" by fact+
  show "ledger_wf db'" by (rule commit_wf [OF assms(1) c(3,4)])
  show "eligible db' uid \<longleftrightarrow> (if newer_eligible_exists db fset then eligible db uid
      else uid = str_or (fs_frame_set_uid fset) [])" for uid
    by (rule commit_eligible [OF assms(1) c(3,4)])
qed

lemma persist_known:
  assumes "fs_identity_mode fset = IDENTITY_MODE_V2" "validate_v2_frame_set fset = Inr ()"
    "dict_get (db_manifests db) (str_or (fs_frame_set_uid fset) []) = Some row"
    "dict_get (db_projections db) (str_or (fs_frame_set_uid fset) []) \<noteq> None"
    "verify_existing_manifest row fset = Inr ()"
  shows "persist_frame_set_manifest others t fset db = (Inr False, db)"
  using assms by (simp add: persist_frame_set_manifest_def)

text \<open>Nothing is written unless the whole frame set is.\<close>

lemma persist_all_or_nothing:
  assumes "ledger_wf db" "persist_frame_set_manifest id t fset db = (r, db')" "r \<noteq> Inr True"
  shows "db' = db"
  using assms(1) by (cases rule: persist_cases [of db fset t]) (use assms(2,3) in simp_all)

text \<open>A session that loses the race to store the same frame set finds it stored and adds nothing.\<close>

lemma persist_race:
  assumes inv: "ledger_wf db" and mine: "fst (persist_frame_set_manifest id t fset db) = Inr True"
    and other: "persist_frame_set_manifest id t' fset db = (Inr True, db')"
  shows "persist_frame_set_manifest (\<lambda>_. db') t fset db = (Inr False, db')"
  using inv
proof (cases rule: persist_cases [of db fset t])
  case (stored ch db1)
  note rows = stored_rows [OF inv other]
  have uid: "mf_frame_set_uid (ch_manifest ch) = str_or (fs_frame_set_uid fset) []"
    by (simp add: manifest_changes_Inr(7) [OF stored(4)] manifest_row_def)
  have "str_or (fs_frame_set_uid fset) [] \<in> set (dict_keys (db_manifests db'))"
    using rows(1) by (rule dict_get_key)
  then have "\<not> constraints_hold ch db'" by (simp only: constraints_hold_def uid) blast
  then show ?thesis
    using stored rows(1) verify_own_row [OF stored(1), of t']
    by (simp add: persist_frame_set_manifest_def commit_changes_def Let_def)
qed (use mine in simp_all)

section \<open>The newest deliverable manifest\<close>

lemma newest_spec:
  "case get_newest_eligible_manifest db of
     None \<Rightarrow> deliverable db = []
   | Some mf \<Rightarrow> mf \<in> set (deliverable db) \<and> (\<forall>mf' \<in> set (deliverable db). delivery_order mf' \<le> delivery_order mf)"
proof (cases "rev (sort_key delivery_order (deliverable db))")
  case Nil
  then have "deliverable db = []" by (metis length_0_conv length_rev length_sort)
  with Nil show ?thesis by (simp add: get_newest_eligible_manifest_def)
next
  case (Cons mf rest)
  then have eq: "sort_key delivery_order (deliverable db) = rev rest @ [mf]" by (simp add: rev_swap)
  have "set (sort_key delivery_order (deliverable db)) = set (deliverable db)" by simp
  then have set: "set (deliverable db) = insert mf (set rest)" unfolding eq by auto
  have "sorted (map delivery_order (rev rest @ [mf]))" by (metis eq sorted_sort_key)
  then have "\<forall>mf' \<in> set rest. delivery_order mf' \<le> delivery_order mf" by (auto simp: sorted_append)
  then show ?thesis using Cons set by (auto simp: get_newest_eligible_manifest_def)
qed

lemma deliverable_eligible:
  assumes "distinct (dict_keys (db_manifests db))" "mf \<in> set (deliverable db)"
  shows "\<exists>uid. dict_get (db_manifests db) uid = Some mf \<and> eligible db uid"
  using assms unfolding deliverable_def eligible_def
  by (fastforce simp: map_of_eq_Some_iff split: option.splits)

section \<open>What the matcher emits is accepted once its members are archived\<close>

definition archive_members :: "(string \<Rightarrow> int option) \<Rightarrow> (string \<Rightarrow> string) \<Rightarrow> selection \<Rightarrow> selection" where
  "archive_members ids path frames =
     map (\<lambda>(d, f). (d, archived (ids d) (Some (path d)) ARCHIVE_DURABLE None f)) frames"

lemma archived_scope [simp]:
  "f_source_frame_uid (archived i p st er f) = f_source_frame_uid f"
  "f_source_session_id (archived i p st er f) = f_source_session_id f"
  "f_camera_stream_id (archived i p st er f) = f_camera_stream_id f"
  "f_content_digest (archived i p st er f) = f_content_digest f"
  "f_archive_state (archived i p st er f) = st" "f_file_path (archived i p st er f) = p"
  "f_tenant_id (archived i p st er f) = f_tenant_id f" "f_site_id (archived i p st er f) = f_site_id f"
  "f_capture_session_id (archived i p st er f) = f_capture_session_id f"
  "f_processing_job_id (archived i p st er f) = f_processing_job_id f"
  "f_profile_digest (archived i p st er f) = f_profile_digest f"
  "f_authorized_subject (archived i p st er f) = f_authorized_subject f"
  "f_session_token_jti (archived i p st er f) = f_session_token_jti f"
  "f_authorized_camera_id (archived i p st er f) = f_authorized_camera_id f"
  by (simp_all add: archived_def)

lemma archive_members_values:
  "f \<in> set (dict_values (archive_members ids path sel)) \<Longrightarrow>
    \<exists>d g. (d, g) \<in> set sel \<and> f = archived (ids d) (Some (path d)) ARCHIVE_DURABLE None g"
  unfolding archive_members_def by (clarsimp) blast

lemma validate_members_ok:
  "validate_members fset fs = Inr () \<longleftrightarrow> (\<forall>f \<in> set fs. member_in_scope fset f \<and> member_participates fset f)"
  by (induction fs) auto

lemma participants_of_key:
  assumes "resolve_authorization fs = Inr (Some key)"
  shows "ak_authorized_subject key = None \<and> ak_session_token_jti key = None
    \<or> (\<forall>f \<in> set fs. f_authorized_subject f = ak_authorized_subject key \<and> f_session_token_jti f = ak_session_token_jti key)"
proof -
  let ?ps = "remdups (map participant_of fs)" and ?g = "remdups (map group_key_of (filter (\<lambda>f. list_ex truthy (scope_values f)) fs))"
  define member_scoped where "member_scoped = list_ex (\<lambda>f. truthy (f_camera_claim_id f)) fs"
  have key: "key = authorization_of_group (hd ?g)
      (if length ?ps = 1 \<and> \<not> member_scoped then hd ?ps else (None, None))"
    using assms unfolding resolve_authorization_def Let_def member_scoped_def by (simp split: if_splits) auto
  show ?thesis
  proof (cases "length ?ps = 1 \<and> \<not> member_scoped")
    case True
    then obtain p where p: "?ps = [p]" by (cases ?ps) auto
    have "\<forall>f \<in> set fs. participant_of f = p" using arg_cong [OF p, of set] by auto
    then show ?thesis using key True p by (auto simp: authorization_of_group_def participant_of_def split: prod.splits)
  next
    case False
    then have "key = authorization_of_group (hd ?g) (None, None)" using key by (simp only: if_False)
    then show ?thesis by (auto simp: authorization_of_group_def split: prod.splits)
  qed
qed

lemma emitted_texts:
  assumes "manager_inv m" "try_match t u (mt, m) trigger = (Inr (Some fset), mt1, m1)"
    "fs_identity_mode fset = IDENTITY_MODE_V2"
  shows "truthy (fs_manifest_json fset)" "truthy (fs_manifest_digest fset)" "truthy (fs_frame_set_uid fset)"
proof -
  obtain ident span mt' where e: "fset = emitted mt' ident (fs_frames fset) span"
    by (rule try_match_SomeE [OF assms(1,2)])
  show "truthy (fs_manifest_json fset)"
    by (subst e) (simp add: emitted_def build_frame_set_def selection_payload_def build_manifest_payload_def split: prod.splits)
  have "sha256_bytes b \<noteq> []" for b
    using length_hex [of "sha256 b"] unfolding sha256_bytes_def by fastforce
  then show "truthy (fs_manifest_digest fset)" "truthy (fs_frame_set_uid fset)"
    using emitted_manifest [OF assms(1,2)] assms(3) by auto
qed

lemma archived_members_ok:
  assumes "\<forall>f \<in> set (dict_values sel). identity_complete f" "\<And>d. path d \<noteq> []"
  shows "list_all member_durable (dict_values (archive_members ids path sel))"
proof -
  have "member_durable f" if f: "f \<in> set (dict_values (archive_members ids path sel))" for f
  proof -
    obtain d g where g: "(d, g) \<in> set sel" "f = archived (ids d) (Some (path d)) ARCHIVE_DURABLE None g"
      using archive_members_values [OF f] by blast
    then have "identity_complete g" using assms(1) by force
    then show ?thesis using assms(2) [of d] by (auto simp: g(2) member_durable_def identity_complete_def)
  qed
  then show ?thesis unfolding list_all_iff by blast
qed

lemma emitted_accepted:
  assumes inv: "manager_inv m" and fs: "try_match t u (mt, m) trigger = (Inr (Some fset), mt1, m1)"
    and v2: "fs_identity_mode fset = IDENTITY_MODE_V2"
    and runs: "mt_capture_run_id mt \<noteq> []" "u \<noteq> []" and paths: "\<And>d. path d \<noteq> []"
  shows "validate_v2_frame_set (fset\<lparr> fs_frames := archive_members ids path (fs_frames fset) \<rparr>) = Inr ()"
proof -
  let ?ms = "dict_values (fs_frames fset)" and ?as = "dict_values (archive_members ids path (fs_frames fset))"
  obtain ident span mt' where e: "fs_frames fset \<noteq> []" "resolve_capture_identity (fs_frames fset) = Inr ident"
      "fset = emitted mt' ident (fs_frames fset) span"
    by (rule try_match_SomeE [OF inv fs])
  have fields: "fs_authorized_subject fset = auth_field ak_authorized_subject (snd (snd (snd ident)))"
    "fs_session_token_jti fset = auth_field ak_session_token_jti (snd (snd (snd ident)))"
    "fs_capture_session_id fset = fst (snd ident)" "fs_identity_mode fset = fst ident"
    "fs_tenant_id fset = auth_field ak_tenant_id (snd (snd (snd ident)))"
    "fs_site_id fset = auth_field ak_site_id (snd (snd (snd ident)))"
    "fs_processing_job_id fset = auth_field ak_processing_job_id (snd (snd (snd ident)))"
    "fs_profile_digest fset = auth_field ak_profile_digest (snd (snd (snd ident)))"
    by (subst e(3), simp add: emitted_def build_frame_set_def split: prod.splits)+
  have run: "truthy (fs_capture_run_id fset)" using try_match_ids(1,6) [OF inv fs] runs by auto
  note texts = emitted_texts [OF inv fs v2]
  have complete: "\<forall>f \<in> set ?ms. identity_complete f" using emitted_scope [OF inv fs v2] by blast
  have durable: "list_all member_durable ?as" by (rule archived_members_ok [OF complete paths])
  obtain f0 where f0: "f0 \<in> set ?ms" using e(1) by (cases "fs_frames fset") auto
  from e(2) show ?thesis
  proof (cases rule: resolve_capture_identity_cases)
    case legacy
    then show ?thesis using v2 fields(4) by simp
  next
    case (unscoped session)
    then have "session \<noteq> []" using e(2) str_uuid_nonempty [symmetric]
      by (auto simp: resolve_capture_identity_def Let_def build_capture_session_id_def split: if_splits elim!: bind_result.elims)
    then have "truthy (fs_capture_session_id fset)" using fields(3) unscoped(3) by simp
    moreover have "fs_tenant_id fset = None" "fs_site_id fset = None" "fs_processing_job_id fset = None" "fs_profile_digest fset = None"
      unfolding fields unscoped(3) by (simp_all add: auth_field_def)
    ultimately show ?thesis using run texts durable
      by (simp add: validate_v2_frame_set_def any_blank_def)
  next
    case (authorized key)
    note r = resolve_authorization_Some [OF authorized(1)]
    have f: "fs_tenant_id fset = ak_tenant_id key" "fs_site_id fset = ak_site_id key"
      "fs_capture_session_id fset = ak_capture_session_id key" "fs_profile_digest fset = ak_profile_digest key"
      "fs_processing_job_id fset = ak_processing_job_id key" "fs_authorized_subject fset = ak_authorized_subject key"
      "fs_session_token_jti fset = ak_session_token_jti key"
      unfolding fields authorized(3) by (simp_all add: auth_field_def)
    have scoped: "truthy (ak_tenant_id key)" "truthy (ak_site_id key)" "truthy (ak_capture_session_id key)"
      "truthy (ak_profile_digest key)" "truthy (ak_processing_job_id key)"
      "truthy (f_authorized_subject f0)" "truthy (f_session_token_jti f0)"
      using r(1,2) [OF f0] by (auto simp: scope_values_def group_key_of_def)
    have pair: "(ak_authorized_subject key = None) = (ak_session_token_jti key = None)"
      using participants_of_key [OF authorized(1)] f0 scoped(6,7) by (auto simp: truthy_Some)
    define fs' where "fs' = fset\<lparr> fs_frames := archive_members ids path (fs_frames fset) \<rparr>"
    have same: "fs_tenant_id fs' = fs_tenant_id fset" "fs_site_id fs' = fs_site_id fset"
      "fs_capture_session_id fs' = fs_capture_session_id fset" "fs_processing_job_id fs' = fs_processing_job_id fset"
      "fs_profile_digest fs' = fs_profile_digest fset" "fs_authorized_subject fs' = fs_authorized_subject fset"
      "fs_session_token_jti fs' = fs_session_token_jti fset" "dict_values (fs_frames fs') = ?as"
      by (simp_all add: fs'_def)
    have "member_in_scope fs' a \<and> member_participates fs' a" if a: "a \<in> set ?as" for a
    proof -
      obtain d g where g: "(d, g) \<in> set (fs_frames fset)" "a = archived (ids d) (Some (path d)) ARCHIVE_DURABLE None g"
        using archive_members_values [OF a] by blast
      then have "g \<in> set ?ms" by force
      with r(1,2) [of g] participants_of_key [OF authorized(1)] show ?thesis
        by (auto simp: g(2) member_in_scope_def member_participates_def same f scope_values_def group_key_of_def)
    qed
    then have "validate_members fs' ?as = Inr ()" unfolding validate_members_ok by blast
    then show ?thesis using run texts durable scoped pair same f
      unfolding fs'_def [symmetric] validate_v2_frame_set_def any_blank_def Let_def same f
      by (simp add: fs'_def)
  qed
qed

section \<open>An identifier stands for one content\<close>

text \<open>What a stored row and a frame set, or two frame sets, must agree in to be the same.\<close>

definition same_content :: "SynchronizedFrameSet \<Rightarrow> SynchronizedFrameSet \<Rightarrow> bool" where
  "same_content a b \<longleftrightarrow>
     fs_manifest_digest a = fs_manifest_digest b \<and> fs_manifest_json a = fs_manifest_json b
     \<and> fs_tenant_id a = fs_tenant_id b \<and> fs_site_id a = fs_site_id b
     \<and> fs_processing_job_id a = fs_processing_job_id b \<and> fs_profile_digest a = fs_profile_digest b
     \<and> fs_authorized_subject a = fs_authorized_subject b \<and> fs_session_token_jti a = fs_session_token_jti b"

lemma verified_same_content:
  "verify_existing_manifest row a = Inr u \<Longrightarrow> verify_existing_manifest row b = Inr v \<Longrightarrow> same_content a b"
  unfolding verify_existing_manifest_def same_content_def by (auto split: if_splits)

lemma verify_error:
  "verify_existing_manifest row fset = Inl e
   \<Longrightarrow> e = ManifestIntegrityError ''frame_set_uid was reused with different manifest content''"
  by (simp add: verify_existing_manifest_def split: if_splits)

lemma persist_reused:
  assumes "fs_identity_mode fset = IDENTITY_MODE_V2" "verify_existing_manifest row fset = Inl e"
    and "dict_get (db_manifests db) (str_or (fs_frame_set_uid fset) []) = Some row"
  shows "\<exists>e. persist_frame_set_manifest others t fset db = (Inl e, db)
    \<and> (validate_v2_frame_set fset = Inr ()
       \<longrightarrow> e = ManifestIntegrityError ''frame_set_uid was reused with different manifest content'')"
  using assms verify_error [OF assms(2)]
  by (auto simp: persist_frame_set_manifest_def Let_def split: sum.split)

lemma persist_reused_race:
  assumes "fs_identity_mode fset = IDENTITY_MODE_V2" "verify_existing_manifest row fset = Inl e"
    and "dict_get (db_manifests db) (str_or (fs_frame_set_uid fset) []) = None"
    and "dict_get (db_manifests (others db)) (str_or (fs_frame_set_uid fset) []) = Some row"
  shows "\<exists>e d. persist_frame_set_manifest others t fset db = (Inl e, d) \<and> d \<in> {db, others db}"
proof (cases "manifest_changes t fset db")
  case (Inr ch)
  have uid: "mf_frame_set_uid (ch_manifest ch) = str_or (fs_frame_set_uid fset) []"
    by (simp add: manifest_changes_Inr(7) [OF Inr] manifest_row_def)
  have "str_or (fs_frame_set_uid fset) [] \<in> set (dict_keys (db_manifests (others db)))"
    using assms(4) by (rule dict_get_key)
  then have "\<not> constraints_hold ch (others db)" by (simp only: constraints_hold_def uid) blast
  then show ?thesis using assms Inr
    by (simp add: persist_frame_set_manifest_def commit_changes_def Let_def split: sum.split)
qed (use assms in \<open>simp add: persist_frame_set_manifest_def Let_def split: sum.split\<close>)

lemma persisted_row:
  assumes "ledger_wf db" "persist_frame_set_manifest id t fset db = (Inr b, db')" "fs_identity_mode fset = IDENTITY_MODE_V2"
  shows "\<exists>row. dict_get (db_manifests db') (str_or (fs_frame_set_uid fset) []) = Some row
    \<and> verify_existing_manifest row fset = Inr ()"
proof (cases b)
  case True
  with assms(2) have "persist_frame_set_manifest id t fset db = (Inr True, db')" by simp
  from stored_rows(1,4) [OF assms(1) this] show ?thesis using verify_own_row by blast
next
  case False
  show ?thesis using assms(1)
    by (cases rule: persist_cases [of db fset t]) (use assms(2,3) False in \<open>auto simp: persist_frame_set_manifest_def\<close>)
qed

end
