(* ===== verification/LatestLive.thy ===== *)
theory LatestLive
  imports ManifestStore
begin

text \<open>
  The latest-only live delivery of \<^verbatim>\<open>src/app/services/relay_v2/latest_live.py\<close>: the singleton row
  of \<open>RelayV2ClientState\<close> (fields \<open>rs_x\<close>) bounds the unresolved live work to one frame set, and the
  projections of the ledger record what became of each. Each method of \<open>LatestLiveStore\<close> is one
  database transaction and one definition; \<open>now_ms\<close> is the wall clock it may read.
\<close>

section \<open>Data\<close>

record FrameSetKey =
  fk_capture_run_id :: string
  fk_frame_set_id :: int
  fk_frame_set_uid :: string

record CreditIdentity =
  cr_processor_instance_id :: string
  cr_stream_epoch :: string
  cr_credit_id :: string

record LiveFrameMember =
  lm_source_frame_uid :: string
  lm_source_session_id :: string
  lm_camera_stream_id :: string
  lm_frame_sequence :: int
  lm_capture_timestamp_ms :: int
  lm_content_type :: string
  lm_image_size :: int
  lm_content_digest :: string
  lm_file_path :: string
  lm_authorized_camera_id :: "string option"
  lm_camera_claim_id :: "string option"
  lm_authorized_subject :: "string option"
  lm_session_token_jti :: "string option"

record ClaimedFrameSet =
  cl_key :: FrameSetKey
  cl_credit :: CreditIdentity
  cl_capture_session_id :: string
  cl_anchor_timestamp_ms :: int
  cl_freshness_origin_ms :: int
  cl_synchronization_span_ms :: int
  cl_synchronized_at_ms :: int
  cl_manifest_digest :: string
  cl_manifest_json :: string
  cl_offered_at_ms :: int
  cl_members :: "LiveFrameMember list"
  cl_tenant_id :: "string option"
  cl_site_id :: "string option"
  cl_processing_job_id :: "string option"
  cl_profile_digest :: "string option"
  cl_authorized_subject :: "string option"
  cl_session_token_jti :: "string option"

definition authorized_camera_ids :: "ClaimedFrameSet \<Rightarrow> string list" where
  "authorized_camera_ids claim =
     sort (map (\<lambda>m. str_or (lm_authorized_camera_id m) [])
       (filter (\<lambda>m. truthy (lm_authorized_camera_id m)) (cl_members claim)))"

record RelayV2ClientState =
  rs_in_flight_frame_set_uid :: "string option"
  rs_in_flight_credit_id :: "string option"
  rs_in_flight_processor_instance_id :: "string option"
  rs_in_flight_stream_epoch :: "string option"
  rs_in_flight_offered_at_ms :: "int option"
  rs_watermark_capture_run_id :: "string option"
  rs_watermark_frame_set_id :: "int option"
  rs_watermark_frame_set_uid :: "string option"
  rs_reoffer_frame_set_uid :: "string option"
  rs_processing_job_id :: "string option"
  rs_processing_job_capture_run_id :: "string option"
  rs_updated_at_ms :: int

record LiveDb =
  lv_ledger :: ManifestDb
  lv_state :: "RelayV2ClientState option"

definition fresh_state :: "int \<Rightarrow> RelayV2ClientState" where
  "fresh_state t =
     \<lparr> rs_in_flight_frame_set_uid = None, rs_in_flight_credit_id = None,
       rs_in_flight_processor_instance_id = None, rs_in_flight_stream_epoch = None,
       rs_in_flight_offered_at_ms = None, rs_watermark_capture_run_id = None,
       rs_watermark_frame_set_id = None, rs_watermark_frame_set_uid = None,
       rs_reoffer_frame_set_uid = None, rs_processing_job_id = None,
       rs_processing_job_capture_run_id = None, rs_updated_at_ms = t \<rparr>"

definition ensure_state_row :: "int \<Rightarrow> LiveDb \<Rightarrow> LiveDb" where
  "ensure_state_row t d = (case lv_state d of None \<Rightarrow> d\<lparr> lv_state := Some (fresh_state t) \<rparr> | Some _ \<Rightarrow> d)"

definition state_row :: "int \<Rightarrow> LiveDb \<Rightarrow> RelayV2ClientState" where
  "state_row t d = (case lv_state d of None \<Rightarrow> fresh_state t | Some s \<Rightarrow> s)"

section \<open>Reading\<close>

definition key_of :: "FrameSetManifest \<Rightarrow> FrameSetKey" where
  "key_of mf = \<lparr> fk_capture_run_id = mf_capture_run_id mf, fk_frame_set_id = mf_frame_set_id mf,
                fk_frame_set_uid = mf_frame_set_uid mf \<rparr>"

definition live_member :: "FrameSetMember \<Rightarrow> LiveFrameMember" where
  "live_member m =
     \<lparr> lm_source_frame_uid = mm_source_frame_uid m, lm_source_session_id = mm_source_session_id m,
       lm_camera_stream_id = mm_camera_stream_id m, lm_frame_sequence = mm_frame_sequence m,
       lm_capture_timestamp_ms = mm_capture_timestamp_ms m, lm_content_type = mm_content_type m,
       lm_image_size = mm_image_size m, lm_content_digest = mm_content_digest m,
       lm_file_path = mm_file_path m, lm_authorized_camera_id = mm_authorized_camera_id m,
       lm_camera_claim_id = mm_camera_claim_id m, lm_authorized_subject = mm_authorized_subject m,
       lm_session_token_jti = mm_session_token_jti m \<rparr>"

definition live_snapshot :: "ManifestDb \<Rightarrow> FrameSetManifest \<Rightarrow> CreditIdentity \<Rightarrow> int \<Rightarrow> ClaimedFrameSet" where
  "live_snapshot db mf credit offered_at_ms =
     \<lparr> cl_key = key_of mf, cl_credit = credit, cl_capture_session_id = mf_capture_session_id mf,
       cl_anchor_timestamp_ms = mf_anchor_timestamp_ms mf,
       cl_freshness_origin_ms = mf_freshness_origin_ms mf,
       cl_synchronization_span_ms = mf_synchronization_span_ms mf,
       cl_synchronized_at_ms = mf_synchronized_at_ms mf, cl_manifest_digest = mf_manifest_digest mf,
       cl_manifest_json = mf_manifest_json mf, cl_offered_at_ms = offered_at_ms,
       cl_members = map live_member (sort_key mm_camera_stream_id
         (filter (\<lambda>m. mm_frame_set_uid m = mf_frame_set_uid mf) (db_members db))),
       cl_tenant_id = mf_tenant_id mf, cl_site_id = mf_site_id mf,
       cl_processing_job_id = mf_processing_job_id mf, cl_profile_digest = mf_profile_digest mf,
       cl_authorized_subject = mf_authorized_subject mf,
       cl_session_token_jti = mf_session_token_jti mf \<rparr>"

text \<open>Later in the same run by number, in another run by the delivery order.\<close>

definition newer_than :: "FrameSetManifest \<Rightarrow> FrameSetManifest \<Rightarrow> bool" where
  "newer_than candidate other \<longleftrightarrow>
     (if mf_capture_run_id candidate = mf_capture_run_id other
      then mf_frame_set_id other < mf_frame_set_id candidate
      else delivery_order other < delivery_order candidate)"

definition newest_eligible :: "ManifestDb \<Rightarrow> RelayV2ClientState \<Rightarrow> FrameSetManifest option result" where
  "newest_eligible db s =
     (case get_newest_eligible_manifest db of
        None \<Rightarrow> Inr None
      | Some candidate \<Rightarrow>
          (case rs_watermark_frame_set_uid s of
             None \<Rightarrow> Inr (Some candidate)
           | Some w \<Rightarrow>
               if rs_reoffer_frame_set_uid s = Some (mf_frame_set_uid candidate) then Inr (Some candidate)
               else (case dict_get (db_manifests db) w of
                 None \<Rightarrow> Inl (RuntimeError ''relay v2 offered watermark manifest is missing'')
               | Some watermark \<Rightarrow>
                   Inr (if newer_than candidate watermark then Some candidate else None))))"

definition current_in_flight :: "LiveDb \<Rightarrow> FrameSetKey option result" where
  "current_in_flight d =
     (case lv_state d of
        None \<Rightarrow> Inr None
      | Some s \<Rightarrow>
          (case rs_in_flight_frame_set_uid s of
             None \<Rightarrow> Inr None
           | Some uid \<Rightarrow>
               (case dict_get (db_manifests (lv_ledger d)) uid of
                  None \<Rightarrow> Inl (RuntimeError ''relay v2 in-flight manifest is missing'')
                | Some mf \<Rightarrow> Inr (Some (key_of mf)))))"

definition unresolved_keys :: "LiveDb \<Rightarrow> FrameSetKey list result" where
  "unresolved_keys d =
     bind_result (current_in_flight d) (\<lambda>current. Inr (case current of None \<Rightarrow> [] | Some k \<Rightarrow> [k]))"

definition processing_job_for :: "LiveDb \<Rightarrow> string \<Rightarrow> string option" where
  "processing_job_for d capture_run_id =
     (case lv_state d of
        None \<Rightarrow> None
      | Some s \<Rightarrow> if rs_processing_job_capture_run_id s \<noteq> Some capture_run_id then None
                  else rs_processing_job_id s)"

definition offered_watermark :: "LiveDb \<Rightarrow> FrameSetKey option" where
  "offered_watermark d =
     (case lv_state d of
        None \<Rightarrow> None
      | Some s \<Rightarrow> map_option (\<lambda>uid. \<lparr> fk_capture_run_id = str_or (rs_watermark_capture_run_id s) [],
            fk_frame_set_id = (case rs_watermark_frame_set_id s of None \<Rightarrow> 0 | Some n \<Rightarrow> n),
            fk_frame_set_uid = uid \<rparr>) (rs_watermark_frame_set_uid s))"

definition snapshot_for_hello :: "LiveDb \<Rightarrow> ClaimedFrameSet option result" where
  "snapshot_for_hello d =
     (let s = state_row 0 d; db = lv_ledger d
      in case rs_in_flight_frame_set_uid s of
           Some uid \<Rightarrow>
             (case dict_get (db_manifests db) uid of
                None \<Rightarrow> Inl (RuntimeError ''relay v2 in-flight manifest is missing'')
              | Some mf \<Rightarrow> Inr (Some (live_snapshot db mf
                  \<lparr> cr_processor_instance_id = str_or (rs_in_flight_processor_instance_id s) [],
                    cr_stream_epoch = str_or (rs_in_flight_stream_epoch s) [],
                    cr_credit_id = str_or (rs_in_flight_credit_id s) [] \<rparr>
                  (case rs_in_flight_offered_at_ms s of None \<Rightarrow> 0 | Some t \<Rightarrow> t))))
         | None \<Rightarrow>
             bind_result (newest_eligible db s) (\<lambda>candidate. Inr (map_option (\<lambda>mf. live_snapshot db mf
               \<lparr> cr_processor_instance_id = [], cr_stream_epoch = [], cr_credit_id = [] \<rparr> 0) candidate)))"

definition has_newer_eligible :: "LiveDb \<Rightarrow> FrameSetKey \<Rightarrow> bool" where
  "has_newer_eligible d key =
     (case dict_get (db_manifests (lv_ledger d)) (fk_frame_set_uid key) of
        None \<Rightarrow> False
      | Some current \<Rightarrow>
          if key_of current \<noteq> key then False
          else (case get_newest_eligible_manifest (lv_ledger d) of
                  None \<Rightarrow> False
                | Some candidate \<Rightarrow> newer_than candidate current))"

section \<open>Claiming\<close>

definition claimed_state :: "FrameSetManifest \<Rightarrow> CreditIdentity \<Rightarrow> int \<Rightarrow> RelayV2ClientState \<Rightarrow> RelayV2ClientState" where
  "claimed_state mf credit t s =
     s\<lparr> rs_in_flight_frame_set_uid := Some (mf_frame_set_uid mf),
        rs_in_flight_credit_id := Some (cr_credit_id credit),
        rs_in_flight_processor_instance_id := Some (cr_processor_instance_id credit),
        rs_in_flight_stream_epoch := Some (cr_stream_epoch credit),
        rs_in_flight_offered_at_ms := Some t,
        rs_watermark_capture_run_id := Some (mf_capture_run_id mf),
        rs_watermark_frame_set_id := Some (mf_frame_set_id mf),
        rs_watermark_frame_set_uid := Some (mf_frame_set_uid mf),
        rs_reoffer_frame_set_uid := None, rs_updated_at_ms := t \<rparr>"

definition set_live :: "string \<Rightarrow> string option \<Rightarrow> int \<Rightarrow> FrameSetDeliveryProjection \<Rightarrow> FrameSetDeliveryProjection" where
  "set_live live_state reason t pj =
     pj\<lparr> pj_live_state := live_state, pj_last_reason := reason, pj_updated_at_ms := t \<rparr>"

definition set_projection :: "string \<Rightarrow> FrameSetDeliveryProjection \<Rightarrow> ManifestDb \<Rightarrow> ManifestDb" where
  "set_projection uid pj db = db\<lparr> db_projections := dict_set (db_projections db) uid pj \<rparr>"

text \<open>
  The claim reads the state and the candidate and then writes both rows on condition that they are
  still free; \<open>others\<close> is what other clients commit in between. A failed condition rolls back.
\<close>

definition claim_latest ::
  "(LiveDb \<Rightarrow> LiveDb) \<Rightarrow> int \<Rightarrow> CreditIdentity \<Rightarrow> int option \<Rightarrow> LiveDb \<Rightarrow> ClaimedFrameSet option result \<times> LiveDb" where
  "claim_latest others now_ms credit offered_at_ms d =
     (let t = (case offered_at_ms of Some x \<Rightarrow> x | None \<Rightarrow> now_ms);
          ensured = ensure_state_row t d
      in if rs_in_flight_frame_set_uid (state_row t d) \<noteq> None then (Inr None, ensured)
         else case newest_eligible (lv_ledger d) (state_row t d) of
           Inl e \<Rightarrow> (Inl e, d)
         | Inr None \<Rightarrow> (Inr None, ensured)
         | Inr (Some candidate) \<Rightarrow>
             (let d = others d; s = state_row t d; uid = mf_frame_set_uid candidate;
                  db = lv_ledger d
              in if rs_in_flight_frame_set_uid s \<noteq> None then (Inr None, d)
                 else (case dict_get (db_projections db) uid of
                   None \<Rightarrow> (Inr None, d)
                 | Some pj \<Rightarrow>
                     if pj_archive_state pj \<noteq> ARCHIVE_DURABLE \<or> pj_live_state pj \<noteq> ''ELIGIBLE''
                     then (Inr None, d)
                     else (let db = set_projection uid (set_live ''OFFERED'' None t pj) db
                           in (Inr (Some (live_snapshot db candidate credit t)),
                               d\<lparr> lv_ledger := db,
                                  lv_state := Some (claimed_state candidate credit t s) \<rparr>)))))"

section \<open>Transitions\<close>

text \<open>\<open>updated_at_ms or int(time.time() * 1000)\<close>\<close>

definition time_or :: "int option \<Rightarrow> int \<Rightarrow> int" where
  "time_or updated_at_ms now_ms = (case updated_at_ms of None \<Rightarrow> now_ms | Some t \<Rightarrow> if t = 0 then now_ms else t)"

definition matches_current :: "LiveDb \<Rightarrow> FrameSetKey \<Rightarrow> bool" where
  "matches_current d key =
     (case lv_state d of
        None \<Rightarrow> False
      | Some s \<Rightarrow> rs_in_flight_frame_set_uid s = Some (fk_frame_set_uid key)
          \<and> (case dict_get (db_manifests (lv_ledger d)) (fk_frame_set_uid key) of
               None \<Rightarrow> False | Some mf \<Rightarrow> key_of mf = key))"

definition released :: "RelayV2ClientState \<Rightarrow> RelayV2ClientState" where
  "released s =
     s\<lparr> rs_in_flight_frame_set_uid := None, rs_in_flight_credit_id := None,
        rs_in_flight_processor_instance_id := None, rs_in_flight_stream_epoch := None,
        rs_in_flight_offered_at_ms := None \<rparr>"

definition transition_current ::
  "int \<Rightarrow> FrameSetKey \<Rightarrow> string \<Rightarrow> string option \<Rightarrow> bool \<Rightarrow> int option \<Rightarrow> LiveDb \<Rightarrow> bool result \<times> LiveDb" where
  "transition_current now_ms key live_state reason release updated_at_ms d =
     (let t = time_or updated_at_ms now_ms; uid = fk_frame_set_uid key
      in if \<not> matches_current d key then (Inr False, d)
         else case dict_get (db_projections (lv_ledger d)) uid of
           None \<Rightarrow> (Inl (AttributeError ''live_state''), d)
         | Some pj \<Rightarrow>
             (let s = state_row t d; s = (if release then released s else s)
              in (Inr True, d\<lparr> lv_ledger := set_projection uid (set_live live_state reason t pj) (lv_ledger d),
                               lv_state := Some (s\<lparr> rs_updated_at_ms := t \<rparr>) \<rparr>)))"

definition mark_unresolved :: "int \<Rightarrow> FrameSetKey \<Rightarrow> string \<Rightarrow> int option \<Rightarrow> LiveDb \<Rightarrow> bool result \<times> LiveDb" where
  "mark_unresolved now_ms key reason updated_at_ms d =
     transition_current now_ms key ''UNRESOLVED'' (Some reason) False updated_at_ms d"

definition REMOTE_STATES :: "string list" where
  "REMOTE_STATES = [''ACCEPTED'', ''STARTED'', ''REJECTED'', ''COMPLETED'', ''FAILED'', ''RECOVERY_REQUIRED'']"

definition RELEASING_STATES :: "string list" where
  "RELEASING_STATES = [''REJECTED'', ''COMPLETED'', ''FAILED'', ''RECOVERY_REQUIRED'']"

definition apply_remote_status ::
  "int \<Rightarrow> FrameSetKey \<Rightarrow> string \<Rightarrow> string option \<Rightarrow> int option \<Rightarrow> LiveDb \<Rightarrow> bool result \<times> LiveDb" where
  "apply_remote_status now_ms key state reason updated_at_ms d =
     (let normalized = upper (strip state)
      in if normalized \<notin> set REMOTE_STATES
         then (Inl (ValueError (''unsupported relay v2 status: '' @ state)), d)
         else transition_current now_ms key normalized reason (normalized \<in> set RELEASING_STATES) updated_at_ms d)"

definition release_before_send ::
  "int \<Rightarrow> FrameSetKey \<Rightarrow> string \<Rightarrow> string \<Rightarrow> int option \<Rightarrow> LiveDb \<Rightarrow> bool result \<times> LiveDb" where
  "release_before_send now_ms key state reason updated_at_ms d =
     (let normalized = upper (strip state)
      in if normalized \<notin> {''EXPIRED_BEFORE_OFFER'', ''REJECTED''}
         then (Inl (ValueError (''unsupported pre-send state: '' @ state)), d)
         else transition_current now_ms key normalized (Some reason) True updated_at_ms d)"

definition retire_eligible ::
  "int \<Rightarrow> FrameSetKey \<Rightarrow> string \<Rightarrow> string \<Rightarrow> int option \<Rightarrow> LiveDb \<Rightarrow> bool \<times> LiveDb" where
  "retire_eligible now_ms key state reason updated_at_ms d =
     (let t = time_or updated_at_ms now_ms; uid = fk_frame_set_uid key; db = lv_ledger d
      in case dict_get (db_manifests db) uid of
           None \<Rightarrow> (False, d)
         | Some mf \<Rightarrow>
             if key_of mf \<noteq> key then (False, d)
             else (case dict_get (db_projections db) uid of
               None \<Rightarrow> (False, d)
             | Some pj \<Rightarrow>
                 if pj_live_state pj \<noteq> ''ELIGIBLE'' then (False, d)
                 else (True, d\<lparr> lv_ledger := set_projection uid (set_live state (Some reason) t pj) db \<rparr>)))"

definition reconcile_not_found ::
  "int \<Rightarrow> FrameSetKey \<Rightarrow> bool \<Rightarrow> int option \<Rightarrow> LiveDb \<Rightarrow> bool result \<times> LiveDb" where
  "reconcile_not_found now_ms key retry_allowed updated_at_ms d =
     (let t = time_or updated_at_ms now_ms; uid = fk_frame_set_uid key
      in if \<not> matches_current d key then (Inr False, d)
         else case dict_get (db_projections (lv_ledger d)) uid of
           None \<Rightarrow> (Inl (AttributeError ''live_state''), d)
         | Some pj \<Rightarrow>
             (let pj = (if retry_allowed then set_live ''ELIGIBLE'' (Some ''RECONCILED_NOT_FOUND_RETRY'') t pj
                        else set_live ''SUPERSEDED_BEFORE_OFFER''
                               (Some ''RECONCILED_NOT_FOUND_NEWER_AVAILABLE'') t pj)
              in (Inr True, d\<lparr> lv_ledger := set_projection uid pj (lv_ledger d),
                    lv_state := Some ((released (state_row t d))
                      \<lparr> rs_reoffer_frame_set_uid := (if retry_allowed then Some uid else None),
                        rs_updated_at_ms := t \<rparr>) \<rparr>)))"

definition bind_processing_job ::
  "int \<Rightarrow> string \<Rightarrow> string \<Rightarrow> int option \<Rightarrow> LiveDb \<Rightarrow> unit result \<times> LiveDb" where
  "bind_processing_job now_ms capture_run_id processing_job_id updated_at_ms d =
     (if capture_run_id = [] \<or> processing_job_id = []
      then (Inl (ValueError ''capture run and processing job IDs are required''), d)
      else
        (let t = time_or updated_at_ms now_ms; s = state_row t d
         in if rs_processing_job_capture_run_id s = Some capture_run_id
               \<and> rs_processing_job_id s \<notin> {None, Some processing_job_id}
            then (Inl (RuntimeError ''processing job changed within one capture run''), d)
            else (Inr (), d\<lparr> lv_state := Some (s\<lparr>
                   rs_processing_job_capture_run_id := Some capture_run_id,
                   rs_processing_job_id := Some processing_job_id, rs_updated_at_ms := t \<rparr>) \<rparr>)))"

section \<open>The invariant of live delivery\<close>

definition ACTIVE_STATES :: "string list" where
  "ACTIVE_STATES = [''OFFERED'', ''UNRESOLVED'', ''ACCEPTED'', ''STARTED'']"

definition live_state_of :: "LiveDb \<Rightarrow> string \<Rightarrow> string option" where
  "live_state_of d uid = map_option pj_live_state (dict_get (db_projections (lv_ledger d)) uid)"

definition in_flight :: "LiveDb \<Rightarrow> string option" where
  "in_flight d = (case lv_state d of None \<Rightarrow> None | Some s \<Rightarrow> rs_in_flight_frame_set_uid s)"

definition watermark :: "LiveDb \<Rightarrow> string option" where
  "watermark d = (case lv_state d of None \<Rightarrow> None | Some s \<Rightarrow> rs_watermark_frame_set_uid s)"

definition reoffer :: "LiveDb \<Rightarrow> string option" where
  "reoffer d = (case lv_state d of None \<Rightarrow> None | Some s \<Rightarrow> rs_reoffer_frame_set_uid s)"

definition active :: "LiveDb \<Rightarrow> string \<Rightarrow> bool" where
  "active d uid \<longleftrightarrow> (\<exists>st \<in> set ACTIVE_STATES. live_state_of d uid = Some st)"

definition live_inv :: "LiveDb \<Rightarrow> bool" where
  "live_inv d \<longleftrightarrow> ledger_wf (lv_ledger d)
     \<and> (\<forall>uid. active d uid \<longleftrightarrow> in_flight d = Some uid)
     \<and> (\<forall>uid. in_flight d = Some uid \<longrightarrow> watermark d = Some uid)
     \<and> (\<forall>uid. reoffer d = Some uid \<longrightarrow> watermark d = Some uid \<and> in_flight d = None)
     \<and> (\<forall>uid. watermark d = Some uid \<longrightarrow> dict_get (db_manifests (lv_ledger d)) uid \<noteq> None)"

definition empty_live :: LiveDb where
  "empty_live = \<lparr> lv_ledger = empty_db, lv_state = None \<rparr>"

lemmas live_fields = in_flight_def watermark_def reoffer_def

lemma empty_live_inv: "live_inv empty_live"
  using ledger_inv_wf [OF empty_db_inv]
  by (simp add: live_inv_def empty_live_def live_fields active_def live_state_of_def) (simp add: empty_db_def)

lemma state_row_fields:
  "rs_in_flight_frame_set_uid (state_row t d) = in_flight d"
  "rs_watermark_frame_set_uid (state_row t d) = watermark d"
  "rs_reoffer_frame_set_uid (state_row t d) = reoffer d"
  by (simp_all add: state_row_def live_fields fresh_state_def split: option.splits)

lemma ensure_fields [simp]:
  "lv_ledger (ensure_state_row t d) = lv_ledger d"
  "in_flight (ensure_state_row t d) = in_flight d" "watermark (ensure_state_row t d) = watermark d"
  "reoffer (ensure_state_row t d) = reoffer d" "live_state_of (ensure_state_row t d) = live_state_of d"
  by (auto simp: ensure_state_row_def live_fields fresh_state_def live_state_of_def [abs_def] split: option.splits)

lemma live_inv_cong:
  assumes "live_inv d" "lv_ledger d' = lv_ledger d" "in_flight d' = in_flight d" "watermark d' = watermark d"
    "reoffer d' = reoffer d"
  shows "live_inv d'"
proof -
  have "active d' uid = active d uid" for uid using assms(2) by (simp add: active_def live_state_of_def)
  then show ?thesis using assms by (simp add: live_inv_def)
qed

lemma set_projection_fields [simp]:
  "db_manifests (set_projection uid pj db) = db_manifests db"
  "db_members (set_projection uid pj db) = db_members db"
  "db_projections (set_projection uid pj db) = dict_set (db_projections db) uid pj"
  by (simp_all add: set_projection_def)

lemma set_projection_wf:
  "ledger_wf db \<Longrightarrow> dict_get (db_projections db) uid = Some pj \<Longrightarrow> ledger_wf (set_projection uid pj' db)"
  unfolding set_projection_def by (rule set_row_wf)

text \<open>One rewritten projection and one rewritten state row, the shape of every transition.\<close>

lemma live_inv_write:
  assumes inv: "live_inv d" and pj: "dict_get (db_projections (lv_ledger d)) uid = Some pj"
    and d': "lv_ledger d' = set_projection uid (set_live st reason t pj) (lv_ledger d)"
    and flight: "in_flight d = None \<or> in_flight d = Some uid"
    and new: "in_flight d' = (if st \<in> set ACTIVE_STATES then Some uid else None)"
    and water: "watermark d' = (if st \<in> set ACTIVE_STATES then Some uid else watermark d)"
    and re: "reoffer d' = None \<or> reoffer d' = watermark d \<and> st \<notin> set ACTIVE_STATES"
  shows "live_inv d'"
proof -
  have others: "live_state_of d' k = (if k = uid then Some st else live_state_of d k)" for k
    by (simp add: live_state_of_def d' set_live_def)
  have "active d' k \<longleftrightarrow> in_flight d' = Some k" for k
    using inv flight new by (auto simp: live_inv_def active_def others split: if_splits)
  moreover have "dict_get (db_manifests (lv_ledger d)) uid \<noteq> None"
    using inv pj by (auto simp: live_inv_def ledger_wf_def projected_iff)
  ultimately show ?thesis
    using inv new water re set_projection_wf [OF _ pj] unfolding live_inv_def d' by auto
qed

lemma newest_eligible_Some:
  assumes "newest_eligible db s = Inr (Some mf)"
  shows "get_newest_eligible_manifest db = Some mf"
    "case rs_watermark_frame_set_uid s of None \<Rightarrow> True
     | Some w \<Rightarrow> rs_reoffer_frame_set_uid s = Some (mf_frame_set_uid mf)
         \<or> (\<exists>wm. dict_get (db_manifests db) w = Some wm \<and> newer_than mf wm)"
  using assms by (auto simp: newest_eligible_def split: option.splits if_splits)

lemma newest_stored:
  assumes "ledger_wf db" "get_newest_eligible_manifest db = Some mf"
  shows "dict_get (db_manifests db) (mf_frame_set_uid mf) = Some mf" "eligible db (mf_frame_set_uid mf)"
proof -
  have "mf \<in> set (deliverable db)" using newest_spec [of db] assms(2) by simp
  moreover have "distinct (dict_keys (db_manifests db))" using assms(1) by (simp add: ledger_wf_def unique_manifests_def)
  ultimately obtain uid where u: "dict_get (db_manifests db) uid = Some mf" "eligible db uid"
    using deliverable_eligible by blast
  then have "mf_frame_set_uid mf = uid" using assms(1) by (simp add: ledger_wf_def run_of_manifest_def)
  with u show "dict_get (db_manifests db) (mf_frame_set_uid mf) = Some mf" "eligible db (mf_frame_set_uid mf)" by simp_all
qed

text \<open>A claim either changes nothing but the presence of the state row, or takes the candidate.\<close>

lemma claim_cases:
  assumes "claim_latest others now credit off d = (r, d')"
  obtains (error) e where "r = Inl e" "d' = d"
      "newest_eligible (lv_ledger d) (state_row (case off of Some x \<Rightarrow> x | None \<Rightarrow> now) d) = Inl e"
  | (idle) t where "r = Inr None" "d' = ensure_state_row t d \<or> d' = others d"
  | (claimed) mf pj t where "r = Inr (Some (live_snapshot (lv_ledger d') mf credit t))"
      "t = (case off of Some x \<Rightarrow> x | None \<Rightarrow> now)"
      "in_flight d = None" "newest_eligible (lv_ledger d) (state_row t d) = Inr (Some mf)"
      "in_flight (others d) = None"
      "dict_get (db_projections (lv_ledger (others d))) (mf_frame_set_uid mf) = Some pj"
      "pj_archive_state pj = ARCHIVE_DURABLE" "pj_live_state pj = ''ELIGIBLE''"
      "d' = (others d)\<lparr> lv_ledger := set_projection (mf_frame_set_uid mf) (set_live ''OFFERED'' None t pj) (lv_ledger (others d)),
               lv_state := Some (claimed_state mf credit t (state_row t (others d))) \<rparr>"
proof -
  define t where "t = (case off of Some x \<Rightarrow> x | None \<Rightarrow> now)"
  have eq: "claim_latest others now credit off d =
     (if in_flight d \<noteq> None then (Inr None, ensure_state_row t d)
      else case newest_eligible (lv_ledger d) (state_row t d) of
        Inl e \<Rightarrow> (Inl e, d)
      | Inr None \<Rightarrow> (Inr None, ensure_state_row t d)
      | Inr (Some mf) \<Rightarrow>
          if in_flight (others d) \<noteq> None then (Inr None, others d)
          else (case dict_get (db_projections (lv_ledger (others d))) (mf_frame_set_uid mf) of
            None \<Rightarrow> (Inr None, others d)
          | Some pj \<Rightarrow>
              if pj_archive_state pj \<noteq> ARCHIVE_DURABLE \<or> pj_live_state pj \<noteq> ''ELIGIBLE'' then (Inr None, others d)
              else (let db = set_projection (mf_frame_set_uid mf) (set_live ''OFFERED'' None t pj) (lv_ledger (others d))
                    in (Inr (Some (live_snapshot db mf credit t)),
                        (others d)\<lparr> lv_ledger := db, lv_state := Some (claimed_state mf credit t (state_row t (others d))) \<rparr>))))"
    unfolding claim_latest_def Let_def state_row_fields t_def ..
  show ?thesis
  proof (cases "in_flight d")
    case (Some x)
    then show ?thesis using assms eq by (intro idle) auto
  next
    case None
    show ?thesis
    proof (cases "newest_eligible (lv_ledger d) (state_row t d)")
      case (Inl e)
      then show ?thesis using assms eq None by (intro error [of e]) (auto simp: t_def)
    next
      case (Inr c)
      show ?thesis
      proof (cases c)
        case None
        then show ?thesis using assms eq \<open>in_flight d = None\<close> Inr by (intro idle) auto
      next
        case (Some mf)
        let ?pj = "dict_get (db_projections (lv_ledger (others d))) (mf_frame_set_uid mf)"
        have step: "(r, d') = (if in_flight (others d) \<noteq> None then (Inr None, others d)
          else (case ?pj of
            None \<Rightarrow> (Inr None, others d)
          | Some pj \<Rightarrow>
              if pj_archive_state pj \<noteq> ARCHIVE_DURABLE \<or> pj_live_state pj \<noteq> ''ELIGIBLE'' then (Inr None, others d)
              else (let db = set_projection (mf_frame_set_uid mf) (set_live ''OFFERED'' None t pj) (lv_ledger (others d))
                    in (Inr (Some (live_snapshot db mf credit t)),
                        (others d)\<lparr> lv_ledger := db, lv_state := Some (claimed_state mf credit t (state_row t (others d))) \<rparr>))))"
          using assms eq \<open>in_flight d = None\<close> Inr Some by simp
        consider "in_flight (others d) \<noteq> None \<or> ?pj = None"
          | pj where "in_flight (others d) = None" "?pj = Some pj" "pj_archive_state pj \<noteq> ARCHIVE_DURABLE \<or> pj_live_state pj \<noteq> ''ELIGIBLE''"
          | pj where "in_flight (others d) = None" "?pj = Some pj" "pj_archive_state pj = ARCHIVE_DURABLE" "pj_live_state pj = ''ELIGIBLE''"
          by blast
        then show ?thesis
        proof cases
          case 1
          then show ?thesis using step by (intro idle) (auto split: if_splits)
        next
          case (2 pj)
          then show ?thesis using step by (intro idle) auto
        next
          case (3 pj)
          then show ?thesis using step Inr Some \<open>in_flight d = None\<close>
            by (intro claimed [of mf t pj]) (simp_all add: t_def Let_def)
        qed
      qed
    qed
  qed
qed

datatype live_op =
    LedgerOp ledger_op
  | Claim int CreditIdentity "int option"
  | MarkUnresolved int FrameSetKey string "int option"
  | RemoteStatus int FrameSetKey string "string option" "int option"
  | ReleaseBeforeSend int FrameSetKey string string "int option"
  | Retire int FrameSetKey string string "int option"
  | Reconcile int FrameSetKey bool "int option"
  | BindJob int string string "int option"

fun live_step :: "LiveDb \<Rightarrow> live_op \<Rightarrow> LiveDb" where
  "live_step d (LedgerOp op) = d\<lparr> lv_ledger := ledger_step (lv_ledger d) op \<rparr>"
| "live_step d (Claim now credit off) = snd (claim_latest id now credit off d)"
| "live_step d (MarkUnresolved now key reason t) = snd (mark_unresolved now key reason t d)"
| "live_step d (RemoteStatus now key st reason t) = snd (apply_remote_status now key st reason t d)"
| "live_step d (ReleaseBeforeSend now key st reason t) = snd (release_before_send now key st reason t d)"
| "live_step d (Retire now key st reason t) = snd (retire_eligible now key st reason t d)"
| "live_step d (Reconcile now key retry t) = snd (reconcile_not_found now key retry t d)"
| "live_step d (BindJob now capture job t) = snd (bind_processing_job now capture job t d)"

text \<open>The callers leave live states to the delivery, and retire into a state of their own.\<close>

fun live_op_ok :: "live_op \<Rightarrow> bool" where
  "live_op_ok (LedgerOp (Project t uid archive live legacy reason)) = (live = None)"
| "live_op_ok (Retire now key st reason t) = (st \<notin> set (''ELIGIBLE'' # ACTIVE_STATES))"
| "live_op_ok _ = True"

section \<open>Every operation keeps the invariant\<close>

lemma transition_cases:
  assumes "live_inv d"
  obtains (stale) "\<not> matches_current d key" "transition_current now key st reason release u d = (Inr False, d)"
  | (moved) pj s where "matches_current d key" "lv_state d = Some s" "in_flight d = Some (fk_frame_set_uid key)"
      "dict_get (db_projections (lv_ledger d)) (fk_frame_set_uid key) = Some pj" "pj_live_state pj \<in> set ACTIVE_STATES"
      "transition_current now key st reason release u d =
        (Inr True, d\<lparr> lv_ledger := set_projection (fk_frame_set_uid key) (set_live st reason (time_or u now) pj) (lv_ledger d),
           lv_state := Some ((if release then released s else s)\<lparr> rs_updated_at_ms := time_or u now \<rparr>) \<rparr>)"
proof (cases "matches_current d key")
  case False
  then show ?thesis by (intro stale) (simp_all add: transition_current_def)
next
  case True
  then obtain s where s: "lv_state d = Some s" "in_flight d = Some (fk_frame_set_uid key)"
    by (auto simp: matches_current_def in_flight_def split: option.splits)
  then have "active d (fk_frame_set_uid key)" using assms by (simp add: live_inv_def)
  then obtain pj where "dict_get (db_projections (lv_ledger d)) (fk_frame_set_uid key) = Some pj"
    "pj_live_state pj \<in> set ACTIVE_STATES" by (auto simp: active_def live_state_of_def)
  with True s show ?thesis
    by (intro moved) (simp_all add: transition_current_def Let_def state_row_def)
qed

lemma transition_inv:
  assumes inv: "live_inv d" and rel: "release \<longleftrightarrow> st \<notin> set ACTIVE_STATES"
  shows "live_inv (snd (transition_current now key st reason release u d))"
  using inv
proof (cases rule: transition_cases [of d key now st reason release u])
  case (moved pj s)
  have "watermark d = Some (fk_frame_set_uid key)" "reoffer d = None"
    using inv moved(3) by (auto simp: live_inv_def)
  then have w: "rs_watermark_frame_set_uid s = Some (fk_frame_set_uid key)" "rs_reoffer_frame_set_uid s = None"
    "rs_in_flight_frame_set_uid s = Some (fk_frame_set_uid key)"
    using moved(2,3) by (simp_all add: live_fields)
  show ?thesis
    by (rule live_inv_write [OF inv moved(4), where st = st and reason = reason and t = "time_or u now"])
      (use moved(2,6) w rel in \<open>auto simp: live_fields released_def\<close>)
qed (use inv in simp)

lemma remote_states_active:
  "set REMOTE_STATES - set RELEASING_STATES \<subseteq> set ACTIVE_STATES" "set RELEASING_STATES \<inter> set ACTIVE_STATES = {}"
  by (auto simp: REMOTE_STATES_def RELEASING_STATES_def ACTIVE_STATES_def)

lemma reconcile_cases:
  assumes "live_inv d"
  obtains (stale) "reconcile_not_found now key retry u d = (Inr False, d)"
  | (moved) pj s where "lv_state d = Some s" "in_flight d = Some (fk_frame_set_uid key)"
      "dict_get (db_projections (lv_ledger d)) (fk_frame_set_uid key) = Some pj"
      "reconcile_not_found now key retry u d =
        (Inr True, d\<lparr> lv_ledger := set_projection (fk_frame_set_uid key)
             (set_live (if retry then ''ELIGIBLE'' else ''SUPERSEDED_BEFORE_OFFER'')
               (Some (if retry then ''RECONCILED_NOT_FOUND_RETRY'' else ''RECONCILED_NOT_FOUND_NEWER_AVAILABLE''))
               (time_or u now) pj) (lv_ledger d),
           lv_state := Some ((released s)\<lparr> rs_reoffer_frame_set_uid := (if retry then Some (fk_frame_set_uid key) else None),
             rs_updated_at_ms := time_or u now \<rparr>) \<rparr>)"
proof (cases rule: transition_cases [OF assms, of key now "''X''" None True u])
  case 1
  then show ?thesis by (intro stale) (simp add: reconcile_not_found_def)
next
  case (2 pj s)
  then show ?thesis by (intro moved [OF 2(2,3,4)]) (simp add: reconcile_not_found_def Let_def state_row_def)
qed

lemma reconcile_inv:
  assumes inv: "live_inv d" shows "live_inv (snd (reconcile_not_found now key retry u d))"
  using inv
proof (cases rule: reconcile_cases [of d now key retry u])
  case (moved pj s)
  have w: "watermark d = Some (fk_frame_set_uid key)" using inv moved(2) by (auto simp: live_inv_def)
  then have "rs_watermark_frame_set_uid s = Some (fk_frame_set_uid key)" using moved(1) by (simp add: live_fields)
  with w show ?thesis
    by (intro live_inv_write [OF inv moved(3), where st = "if retry then ''ELIGIBLE'' else ''SUPERSEDED_BEFORE_OFFER''"
          and reason = "Some (if retry then ''RECONCILED_NOT_FOUND_RETRY'' else ''RECONCILED_NOT_FOUND_NEWER_AVAILABLE'')"
          and t = "time_or u now"])
      (use moved in \<open>auto simp: live_fields released_def ACTIVE_STATES_def\<close>)
qed (use inv in simp)

lemma retire_cases:
  obtains (kept) "retire_eligible now key st reason u d = (False, d)"
  | (retired) pj where "dict_get (db_projections (lv_ledger d)) (fk_frame_set_uid key) = Some pj"
      "pj_live_state pj = ''ELIGIBLE''"
      "retire_eligible now key st reason u d = (True, d\<lparr> lv_ledger :=
         set_projection (fk_frame_set_uid key) (set_live st (Some reason) (time_or u now) pj) (lv_ledger d) \<rparr>)"
proof (cases "retire_eligible now key st reason u d = (False, d)")
  case False
  then obtain pj where pj: "dict_get (db_projections (lv_ledger d)) (fk_frame_set_uid key) = Some pj"
      "pj_live_state pj = ''ELIGIBLE''"
      "retire_eligible now key st reason u d = (True, d\<lparr> lv_ledger :=
         set_projection (fk_frame_set_uid key) (set_live st (Some reason) (time_or u now) pj) (lv_ledger d) \<rparr>)"
    unfolding retire_eligible_def Let_def by (auto split: option.splits if_splits)
  show ?thesis by (rule retired [OF pj])
qed (rule kept)

text \<open>A projection that is rewritten from one waiting state to another leaves the delivery alone.\<close>

lemma live_inv_waiting:
  assumes inv: "live_inv d" and wf: "ledger_wf db"
    and man: "\<And>uid. dict_get (db_manifests (lv_ledger d)) uid \<noteq> None \<Longrightarrow> dict_get (db_manifests db) uid \<noteq> None"
    and act: "\<And>uid st. st \<in> set ACTIVE_STATES \<Longrightarrow>
        live_state_of (d\<lparr> lv_ledger := db \<rparr>) uid = Some st \<longleftrightarrow> live_state_of d uid = Some st"
  shows "live_inv (d\<lparr> lv_ledger := db \<rparr>)"
proof -
  have "active (d\<lparr> lv_ledger := db \<rparr>) uid = active d uid" for uid
    unfolding active_def by (rule bex_cong) (simp_all add: act)
  moreover have "in_flight (d\<lparr> lv_ledger := db \<rparr>) = in_flight d" "watermark (d\<lparr> lv_ledger := db \<rparr>) = watermark d"
    "reoffer (d\<lparr> lv_ledger := db \<rparr>) = reoffer d" by (simp_all add: live_fields)
  ultimately show ?thesis using inv wf man by (simp add: live_inv_def)
qed

lemma retire_inv:
  assumes inv: "live_inv d" and st: "st \<notin> set (''ELIGIBLE'' # ACTIVE_STATES)"
  shows "live_inv (snd (retire_eligible now key st reason u d))"
proof (cases rule: retire_cases [of now key st reason u d])
  case kept
  then show ?thesis using inv by simp
next
  case (retired pj)
  have "live_inv (d\<lparr> lv_ledger := set_projection (fk_frame_set_uid key) (set_live st (Some reason) (time_or u now) pj) (lv_ledger d) \<rparr>)"
    using retired(1,2) st inv
    by (intro live_inv_waiting [OF inv])
      (auto simp: live_inv_def live_state_of_def set_live_def ACTIVE_STATES_def intro: set_projection_wf)
  then show ?thesis using retired by simp
qed

text \<open>The ledger's own operations never touch a frame set that is being delivered.\<close>

lemma persist_live_states:
  assumes wf: "ledger_wf (lv_ledger d)"
    and d'_def: "d' = d\<lparr> lv_ledger := snd (persist_frame_set_manifest id t fset (lv_ledger d)) \<rparr>"
  shows "live_state_of d' uid = live_state_of d uid
    \<or> live_state_of d uid \<in> {None, Some ''ELIGIBLE''}
      \<and> live_state_of d' uid \<in> {Some ''ELIGIBLE'', Some ''SUPERSEDED_BEFORE_OFFER''}"
  using wf
proof (cases rule: persist_cases [of "lv_ledger d" fset t])
  case (stored ch db')
  have dist: "distinct (dict_keys (db_projections (lv_ledger d)))" using wf by (simp add: ledger_wf_def distinct_keys_def)
  have sup: "eligible (lv_ledger d) uid" if "uid \<in> set (ch_superseded ch)" for uid
    using that eligible_rows_set [OF dist] unfolding manifest_changes_Inr(6) [OF stored(4)] by (auto split: if_splits)
  have st: "pj_live_state (ch_projection ch) \<in> {''ELIGIBLE'', ''SUPERSEDED_BEFORE_OFFER''}"
    unfolding manifest_changes_Inr(8) [OF stored(4)] by simp
  have db': "lv_ledger d' = db'" using stored(6) by (simp add: d'_def)
  show ?thesis
    using st sup [of uid] by (auto simp: live_state_of_def db' commit_tables(5) [OF stored(4,5)] insert_row_get
        supersede_def eligible_def split: option.splits)
qed (simp_all add: d'_def)

lemma project_live_states:
  assumes "ledger_wf (lv_ledger d)"
  shows "live_state_of (d\<lparr> lv_ledger := snd (update_delivery_projection t uid archive None legacy reason (lv_ledger d)) \<rparr>) k = live_state_of d k"
  using assms
  by (cases rule: project_eq [of "lv_ledger d" t uid archive None legacy reason]) (auto simp: live_state_of_def)

lemma ledger_live_states:
  assumes "ledger_wf (lv_ledger d)" "live_op_ok (LedgerOp op)"
  shows "live_state_of (live_step d (LedgerOp op)) uid = live_state_of d uid
    \<or> live_state_of d uid \<in> {None, Some ''ELIGIBLE''}
      \<and> live_state_of (live_step d (LedgerOp op)) uid \<in> {Some ''ELIGIBLE'', Some ''SUPERSEDED_BEFORE_OFFER''}"
  using assms persist_live_states [OF assms(1) refl] project_live_states [OF assms(1)] by (cases op) auto

lemma ledger_op_inv:
  assumes inv: "live_inv d" and ok: "live_op_ok (LedgerOp op)"
  shows "live_inv (live_step d (LedgerOp op))"
proof -
  have wf: "ledger_wf (lv_ledger d)" using inv by (simp add: live_inv_def)
  have "ledger_wf (ledger_step (lv_ledger d) op)" using wf by (cases op) (auto intro: persist_wf project_wf)
  moreover have "dict_get (db_manifests (ledger_step (lv_ledger d) op)) uid \<noteq> None"
    if "dict_get (db_manifests (lv_ledger d)) uid \<noteq> None" for uid
    using that ledger_step_mono [OF wf, of op] by (auto simp: stored_manifests_def)
  moreover have "live_state_of (d\<lparr> lv_ledger := ledger_step (lv_ledger d) op \<rparr>) uid = Some st \<longleftrightarrow> live_state_of d uid = Some st"
    if "st \<in> set ACTIVE_STATES" for uid st
    using that ledger_live_states [OF wf ok, of uid] by (auto simp: ACTIVE_STATES_def)
  ultimately show ?thesis using live_inv_waiting [OF inv] by simp
qed

lemma claim_inv:
  assumes inv: "live_inv d" shows "live_inv (snd (claim_latest id now credit off d))"
proof -
  obtain r d' where c: "claim_latest id now credit off d = (r, d')" by fastforce
  have "live_inv d'"
    using c
  proof (cases rule: claim_cases)
    case (error e)
    then show ?thesis using inv by simp
  next
    case (idle t)
    then show ?thesis using inv by (auto intro: live_inv_cong)
  next
    case (claimed mf pj t)
    show ?thesis
      by (rule live_inv_write [OF inv, of "mf_frame_set_uid mf" pj _ "''OFFERED''" None t])
        (use claimed in \<open>auto simp: live_fields claimed_state_def ACTIVE_STATES_def\<close>)
  qed
  then show ?thesis using c by simp
qed

lemma bind_job_inv:
  assumes inv: "live_inv d" shows "live_inv (snd (bind_processing_job now capture job u d))"
  by (rule live_inv_cong [OF inv])
    (auto simp: bind_processing_job_def Let_def live_fields state_row_def fresh_state_def split: option.splits)

lemma live_step_inv: "live_inv d \<Longrightarrow> live_op_ok op \<Longrightarrow> live_inv (live_step d op)"
proof (cases op)
  case (RemoteStatus now key st reason u)
  assume inv: "live_inv d"
  have "(upper (strip st) \<in> set RELEASING_STATES) = (upper (strip st) \<notin> set ACTIVE_STATES)"
    if "upper (strip st) \<in> set REMOTE_STATES" using that remote_states_active by blast
  then show ?thesis using transition_inv [OF inv] inv
    by (simp add: RemoteStatus apply_remote_status_def Let_def)
next
  case (ReleaseBeforeSend now key st reason u)
  assume inv: "live_inv d"
  have "upper (strip st) \<notin> set ACTIVE_STATES"
    if "upper (strip st) \<in> {''EXPIRED_BEFORE_OFFER'', ''REJECTED''}" using that by (auto simp: ACTIVE_STATES_def)
  then show ?thesis using transition_inv [OF inv, of True] inv
    by (auto simp: ReleaseBeforeSend release_before_send_def Let_def)
next
  case (MarkUnresolved now key reason u)
  assume "live_inv d"
  then show ?thesis using transition_inv [of d False "''UNRESOLVED''"]
    by (simp add: MarkUnresolved mark_unresolved_def ACTIVE_STATES_def)
qed (auto intro: ledger_op_inv claim_inv retire_inv reconcile_inv bind_job_inv simp del: live_step.simps(1))

section \<open>Settled frame sets stay settled\<close>

text \<open>A frame set is settled once it neither waits for an offer nor is being delivered.\<close>

definition settled :: "LiveDb \<Rightarrow> (string \<times> string) set" where
  "settled d = {(uid, st). live_state_of d uid = Some st \<and> st \<notin> set (''ELIGIBLE'' # ACTIVE_STATES)}"

lemma settled_write:
  assumes "dict_get (db_projections (lv_ledger d)) uid = Some pj"
    "pj_live_state pj \<in> set (''ELIGIBLE'' # ACTIVE_STATES)"
    "lv_ledger d' = set_projection uid (set_live st reason t pj) (lv_ledger d)"
  shows "settled d \<subseteq> settled d'"
  using assms by (auto simp: settled_def live_state_of_def set_live_def)

lemma settled_same: "lv_ledger d' = lv_ledger d \<Longrightarrow> settled d \<subseteq> settled d'"
  by (simp add: settled_def live_state_of_def)

lemma transition_settled:
  assumes "live_inv d" shows "settled d \<subseteq> settled (snd (transition_current now key st reason release u d))"
  using assms
proof (cases rule: transition_cases [of d key now st reason release u])
  case (moved pj s)
  show ?thesis by (rule settled_write [OF moved(4)]) (use moved(5,6) in simp_all)
qed simp

lemma live_step_settled:
  assumes inv: "live_inv d" and ok: "live_op_ok op"
  shows "settled d \<subseteq> settled (live_step d op)"
proof (cases op)
  case (LedgerOp lop)
  have wf: "ledger_wf (lv_ledger d)" using inv by (simp add: live_inv_def)
  show ?thesis
  proof
    fix x assume x: "x \<in> settled d"
    show "x \<in> settled (live_step d op)"
      using x ledger_live_states [OF wf ok [unfolded LedgerOp], of "fst x"] unfolding LedgerOp
      by (auto simp: settled_def simp del: live_step.simps)
  qed
next
  case (Claim now credit off)
  obtain r d' where c: "claim_latest id now credit off d = (r, d')" by fastforce
  have "settled d \<subseteq> settled d'"
    using c
  proof (cases rule: claim_cases)
    case (claimed mf pj t)
    show ?thesis by (rule settled_write [of d "mf_frame_set_uid mf" pj]) (use claimed(6,8,9) in simp_all)
  qed (use settled_same [of "ensure_state_row _ d" d] in auto)
  then show ?thesis using c by (simp add: Claim)
next
  case (Retire now key st reason u)
  show ?thesis
  proof (cases rule: retire_cases [of now key st reason u d])
    case (retired pj)
    show ?thesis unfolding Retire by (rule settled_write [OF retired(1)]) (use retired(2,3) in simp_all)
  qed (simp add: Retire)
next
  case (Reconcile now key retry u)
  show ?thesis
    using inv
  proof (cases rule: reconcile_cases [of d now key retry u])
    case (moved pj s)
    have "active d (fk_frame_set_uid key)" using inv moved(2) by (simp add: live_inv_def)
    then have "pj_live_state pj \<in> set (''ELIGIBLE'' # ACTIVE_STATES)" using moved(3) by (auto simp: active_def live_state_of_def)
    then show ?thesis unfolding Reconcile live_step.simps moved(4) snd_conv
      by (intro settled_write [OF moved(3)]) simp_all
  qed (simp add: Reconcile)
next
  case (BindJob now capture job u)
  show ?thesis by (rule settled_same) (simp add: BindJob bind_processing_job_def Let_def)
qed (use transition_settled [OF inv] in \<open>auto simp: mark_unresolved_def apply_remote_status_def release_before_send_def Let_def\<close>)

interpretation live: monotone_machine live_step live_op_ok live_inv settled
  by unfold_locales (auto intro: live_step_inv dest: live_step_settled)

section \<open>Claims\<close>

lemma claim_offers:
  assumes inv: "live_inv d" and c: "claim_latest id now credit off d = (Inr (Some claim), d')"
  obtains mf t where "claim = live_snapshot (lv_ledger d') mf credit t"
    "get_newest_eligible_manifest (lv_ledger d) = Some mf" "in_flight d = None"
    "dict_get (db_manifests (lv_ledger d)) (mf_frame_set_uid mf) = Some mf"
    "case watermark d of None \<Rightarrow> True
     | Some w \<Rightarrow> reoffer d = Some (mf_frame_set_uid mf)
         \<or> (\<exists>wm. dict_get (db_manifests (lv_ledger d)) w = Some wm \<and> newer_than mf wm)"
    "in_flight d' = Some (mf_frame_set_uid mf)" "watermark d' = Some (mf_frame_set_uid mf)"
    "live_state_of d' (mf_frame_set_uid mf) = Some ''OFFERED''"
    "db_manifests (lv_ledger d') = db_manifests (lv_ledger d)" "db_members (lv_ledger d') = db_members (lv_ledger d)"
    "t = (case off of Some x \<Rightarrow> x | None \<Rightarrow> now)"
  using c
proof (cases rule: claim_cases)
  case (claimed mf pj t)
  have wf: "ledger_wf (lv_ledger d)" using inv by (simp add: live_inv_def)
  note n = newest_eligible_Some [OF claimed(4)]
  show ?thesis
  proof (rule that [of mf t])
    show "case watermark d of None \<Rightarrow> True
     | Some w \<Rightarrow> reoffer d = Some (mf_frame_set_uid mf)
         \<or> (\<exists>wm. dict_get (db_manifests (lv_ledger d)) w = Some wm \<and> newer_than mf wm)"
      using n(2) by (simp only: state_row_fields)
  qed (use claimed n(1) newest_stored [OF wf n(1)] in
        \<open>simp_all add: live_fields claimed_state_def live_state_of_def set_live_def\<close>)
qed simp_all

lemma credit_eta:
  "\<lparr> cr_processor_instance_id = cr_processor_instance_id c, cr_stream_epoch = cr_stream_epoch c,
     cr_credit_id = cr_credit_id c \<rparr> = (c :: CreditIdentity)"
  by (cases c) simp

lemma str_or_self: "str_or (Some x) [] = x"
  by simp

text \<open>Reconnecting after a claim announces the claimed frame set again, credit and all.\<close>

lemma hello_repeats_claim:
  assumes inv: "live_inv d" and c: "claim_latest id now credit off d = (Inr (Some claim), d')"
  shows "snapshot_for_hello d' = Inr (Some claim)"
  using c
proof (cases rule: claim_cases)
  case (claimed mf pj t)
  have wf: "ledger_wf (lv_ledger d)" using inv by (simp add: live_inv_def)
  have "dict_get (db_manifests (lv_ledger d)) (mf_frame_set_uid mf) = Some mf"
    by (rule newest_stored(1) [OF wf newest_eligible_Some(1) [OF claimed(4)]])
  then show ?thesis using claimed
    by (simp add: snapshot_for_hello_def state_row_def claimed_state_def str_or_self credit_eta del: str_or.simps)
qed simp_all

text \<open>Whatever another client does between the reads and the writes, a frame set is claimed once.\<close>

lemma claim_race:
  assumes "in_flight (others d) \<noteq> None"
  shows "\<nexists>claim. fst (claim_latest others now credit off d) = Inr (Some claim)"
proof
  assume "\<exists>claim. fst (claim_latest others now credit off d) = Inr (Some claim)"
  then obtain claim d' where c: "claim_latest others now credit off d = (Inr (Some claim), d')" by (metis prod.collapse)
  then show False by (cases rule: claim_cases) (use assms in simp_all)
qed

text \<open>In a ledger whose runs are numbered in delivery order, the watermark never moves back.\<close>

definition runs_ordered :: "ManifestDb \<Rightarrow> bool" where
  "runs_ordered db \<longleftrightarrow> (\<forall>a b. a \<in> set (dict_values (db_manifests db)) \<longrightarrow> b \<in> set (dict_values (db_manifests db))
     \<longrightarrow> mf_capture_run_id a = mf_capture_run_id b \<longrightarrow> mf_frame_set_id a < mf_frame_set_id b \<longrightarrow> delivery_order a < delivery_order b)"

lemma newer_than_order:
  assumes "runs_ordered db" "newer_than a b" "dict_get (db_manifests db) x = Some a" "dict_get (db_manifests db) y = Some b"
  shows "delivery_order b < delivery_order a"
proof -
  have "a \<in> set (dict_values (db_manifests db))" "b \<in> set (dict_values (db_manifests db))"
    using assms(3,4) by (force dest: map_of_SomeD)+
  then show ?thesis using assms(1,2) unfolding runs_ordered_def newer_than_def by (auto split: if_splits)
qed

text \<open>Binding a job to a capture run, and reading it back.\<close>

lemma bind_then_read:
  assumes "fst (bind_processing_job now capture job u d) = Inr ()"
  shows "processing_job_for (snd (bind_processing_job now capture job u d)) capture = Some job"
  using assms by (auto simp: bind_processing_job_def Let_def processing_job_for_def split: if_splits)

lemma bind_conflict:
  assumes "processing_job_for d capture = Some job" "job \<noteq> job'" "capture \<noteq> []" "job' \<noteq> []"
  shows "bind_processing_job now capture job' u d = (Inl (RuntimeError ''processing job changed within one capture run''), d)"
  using assms by (auto simp: bind_processing_job_def Let_def processing_job_for_def state_row_def split: option.splits if_splits)

end
