(* ===== verification/JsonParse.thy ===== *)
theory JsonParse
  imports Json
begin

text \<open>
  \<open>json.loads\<close> of the standard library on texts of the model, by which the relay protocol reads
  stored manifests back. The conversion of a float literal to the text \<open>repr\<close> gives the float
  is an argument; \<open>None\<close> is a \<open>JSONDecodeError\<close>. Escapes beyond the characters of the
  model are rejected. The main fact is the round trip: the canonical text of a value reads
  back as the value, with the entries of every object in key order.
\<close>

section \<open>The reader\<close>

definition is_json_space :: "char \<Rightarrow> bool" where
  "is_json_space c \<longleftrightarrow> (let n = (of_char c :: nat) in n = 32 \<or> n = 9 \<or> n = 10 \<or> n = 13)"

abbreviation skip_ws :: "string \<Rightarrow> string" where
  "skip_ws \<equiv> dropWhile is_json_space"

fun unescape :: "char \<Rightarrow> char option" where
  "unescape c =
     (if c = CHR 0x22 \<or> c = CHR 0x5C \<or> c = CHR ''/'' then Some c
      else if c = CHR ''b'' then Some (char_of (8 :: nat)) else if c = CHR ''f'' then Some (char_of (12 :: nat))
      else if c = CHR ''n'' then Some (char_of (10 :: nat)) else if c = CHR ''r'' then Some (char_of (13 :: nat))
      else if c = CHR ''t'' then Some (char_of (9 :: nat)) else None)"

fun parse_string :: "string \<Rightarrow> (string \<times> string) option" where
  "parse_string [] = None"
| "parse_string (c # s) =
     (if c = CHR 0x22 then Some ([], s)
      else if c = CHR 0x5C
      then (case s of
          [] \<Rightarrow> None
        | e # r \<Rightarrow>
            (case unescape e of
               Some x \<Rightarrow> map_option (\<lambda>(t, q). (x # t, q)) (parse_string r)
             | None \<Rightarrow>
                 (if e \<noteq> CHR ''u'' then None
                  else (case r of
                      a # b # h # l # q \<Rightarrow>
                        (if a \<noteq> CHR ''0'' \<or> b \<noteq> CHR ''0'' then None
                         else (case (hex_digit h, hex_digit l) of
                             (Some x, Some y) \<Rightarrow> map_option (\<lambda>(t, q). (char_of (16 * x + y) # t, q)) (parse_string q)
                           | _ \<Rightarrow> None))
                    | _ \<Rightarrow> None))))
      else if (of_char c :: nat) < 32 then None
      else map_option (\<lambda>(t, q). (c # t, q)) (parse_string s))"

text \<open>The number scanner: an integer without fraction and exponent, a float otherwise.\<close>

definition take_fraction :: "string \<Rightarrow> string \<times> string" where
  "take_fraction s =
     (case s of
        c # r \<Rightarrow> (if c = CHR ''.'' \<and> takeWhile is_digit r \<noteq> [] then (c # takeWhile is_digit r, dropWhile is_digit r) else ([], s))
      | [] \<Rightarrow> ([], s))"

definition take_exponent :: "string \<Rightarrow> string \<times> string" where
  "take_exponent s =
     (case s of
        c # r \<Rightarrow>
          (let (sign, q) = (case r of d # q \<Rightarrow> if d = CHR ''+'' \<or> d = CHR ''-'' then ([d], q) else ([], r) | [] \<Rightarrow> ([], r))
           in if (c = CHR ''e'' \<or> c = CHR ''E'') \<and> takeWhile is_digit q \<noteq> []
              then (c # sign @ takeWhile is_digit q, dropWhile is_digit q) else ([], s))
      | [] \<Rightarrow> ([], s))"

definition parse_number :: "(string \<Rightarrow> string) \<Rightarrow> string \<Rightarrow> (json \<times> string) option" where
  "parse_number float_repr s =
     (let (sign, r) = (case s of c # r \<Rightarrow> if c = CHR ''-'' then ([c], r) else ([], s) | [] \<Rightarrow> ([], s));
          digits = takeWhile is_digit r;
          digits = (if take 1 digits = ''0'' then ''0'' else digits);
          (fraction, q) = take_fraction (drop (length digits) r);
          (exponent, q) = take_exponent q;
          n = int (digits_value digits)
      in if digits = [] then None
         else if fraction = [] \<and> exponent = [] then Some (JInt (if sign = [] then n else - n), q)
         else Some (JFloat (float_repr (sign @ digits @ fraction @ exponent)), q))"

definition json_literals :: "(string \<times> json) list" where
  "json_literals =
     [(''null'', JNull), (''true'', JBool True), (''false'', JBool False), (''NaN'', JFloat ''nan''),
      (''Infinity'', JFloat ''inf''), (''-Infinity'', JFloat ''-inf'')]"

definition parse_literal :: "string \<Rightarrow> (json \<times> string) option" where
  "parse_literal s =
     (case find (\<lambda>(name, v). prefix name s) json_literals of
        None \<Rightarrow> None | Some (name, v) \<Rightarrow> Some (v, drop (length name) s))"

lemma skip_ws_length [termination_simp]: "length (skip_ws s) \<le> length s"
  by (induction s) auto

function (sequential) parse_json :: "(string \<Rightarrow> string) \<Rightarrow> string \<Rightarrow> (json \<times> string) option"
  and parse_items :: "(string \<Rightarrow> string) \<Rightarrow> string \<Rightarrow> (json list \<times> string) option"
  and parse_pairs :: "(string \<Rightarrow> string) \<Rightarrow> string \<Rightarrow> ((string \<times> json) list \<times> string) option"
where
  "parse_json float_repr [] = None"
| "parse_json float_repr (c # r) =
     (if c = CHR 0x22 then map_option (\<lambda>(t, q). (JStr t, q)) (parse_string r)
      else if c = CHR ''['' then
        (if take 1 (skip_ws r) = '']'' then Some (JList [], drop 1 (skip_ws r))
         else map_option (\<lambda>(vs, q). (JList vs, q)) (parse_items float_repr (skip_ws r)))
      else if c = CHR ''{'' then
        (if take 1 (skip_ws r) = ''}'' then Some (JObj [], drop 1 (skip_ws r))
         else map_option (\<lambda>(kvs, q). (JObj (foldl (\<lambda>d (k, v). dict_set d k v) [] kvs), q))
                (parse_pairs float_repr (skip_ws r)))
      else (case parse_literal (c # r) of
              Some x \<Rightarrow> Some x | None \<Rightarrow> parse_number float_repr (c # r)))"
| "parse_items float_repr s =
     (case parse_json float_repr s of
        None \<Rightarrow> None
      | Some (v, r) \<Rightarrow>
          (case skip_ws r of
             [] \<Rightarrow> None
           | c # q \<Rightarrow>
               (if c = CHR '']'' then Some ([v], q)
                else if c \<noteq> CHR '','' \<or> \<not> length q < length s then None
                else map_option (\<lambda>(vs, q). (v # vs, q)) (parse_items float_repr (skip_ws q)))))"
| "parse_pairs float_repr s =
     (case s of
        [] \<Rightarrow> None
      | c # r \<Rightarrow>
          (if c \<noteq> CHR 0x22 then None
           else (case parse_string r of
               None \<Rightarrow> None
             | Some (k, r) \<Rightarrow>
                 (if take 1 (skip_ws r) \<noteq> '':'' \<or> \<not> length r < length s then None
                  else (case parse_json float_repr (skip_ws (drop 1 (skip_ws r))) of
                      None \<Rightarrow> None
                    | Some (v, r) \<Rightarrow>
                        (case skip_ws r of
                           [] \<Rightarrow> None
                         | c # q \<Rightarrow>
                             (if c = CHR ''}'' then Some ([(k, v)], q)
                              else if c \<noteq> CHR '','' \<or> \<not> length q < length s then None
                              else map_option (\<lambda>(kvs, q). ((k, v) # kvs, q)) (parse_pairs float_repr (skip_ws q)))))))))"
  by pat_completeness auto
termination
proof (relation "measure (case_sum (\<lambda>(f, s). 2 * length s) (case_sum (\<lambda>(f, s). Suc (2 * length s)) (\<lambda>(f, s). Suc (2 * length s))))",
    goal_cases)
  case (2 f c r)
  then show ?case using skip_ws_length [of r] by simp
next
  case (3 f c r)
  then show ?case using skip_ws_length [of r] by simp
next
  case (5 f s a v r c q)
  then show ?case using skip_ws_length [of q] by simp
next
  case (6 f s c r a k r')
  then show ?case using skip_ws_length [of r'] skip_ws_length [of "drop 1 (skip_ws r')"] by (clarsimp, linarith)
next
  case (7 f s c r a k r' a' v r'' c' q)
  then show ?case using skip_ws_length [of q] by simp
qed auto

definition json_loads :: "(string \<Rightarrow> string) \<Rightarrow> string \<Rightarrow> json option" where
  "json_loads float_repr s =
     (case parse_json float_repr (skip_ws s) of
        Some (v, r) \<Rightarrow> if skip_ws r = [] then Some v else None | None \<Rightarrow> None)"

section \<open>Reading back canonical text\<close>

lemma parse_escaped: "parse_string (json_escape c @ s) = map_option (\<lambda>(t, q). (c # t, q)) (parse_string s)"
proof -
  let ?n = "of_char c :: nat"
  have c: "c = char_of ?n" by simp
  consider "c = CHR 0x22" | "c = CHR 0x5C" | "?n = 10" | "?n = 13" | "?n = 9" | "?n = 12" | "?n = 8"
    | "c \<noteq> CHR 0x22" "c \<noteq> CHR 0x5C" "?n < 32" "?n \<notin> {8, 9, 10, 12, 13}" | "c \<noteq> CHR 0x22" "c \<noteq> CHR 0x5C" "\<not> ?n < 32" by auto
  then show ?thesis
  proof cases
    case 8
    have "16 * (?n div 16) + ?n mod 16 = ?n" by simp
    moreover have "?n div 16 < 16" "?n mod 16 < 16" using 8(3) by auto
    ultimately show ?thesis using 8 hex_digit_hex_char [of "?n div 16"] hex_digit_hex_char [of "?n mod 16"]
      by (simp add: json_escape_def Let_def del: div_mult_mod_eq)
  next
    case 9
    then show ?thesis by (simp add: json_escape_def Let_def)
  next
    case 1
    then show ?thesis by (simp add: json_escape_def)
  next
    case 2
    then show ?thesis by (simp add: json_escape_def)
  next
    case 3
    then have "char_of (10 :: nat) = c" using c by simp
    with 3 show ?thesis by (auto simp: json_escape_def Let_def)
  next
    case 4
    then have "char_of (13 :: nat) = c" using c by simp
    with 4 show ?thesis by (auto simp: json_escape_def Let_def)
  next
    case 5
    then have "char_of (9 :: nat) = c" using c by simp
    with 5 show ?thesis by (auto simp: json_escape_def Let_def)
  next
    case 6
    then have "char_of (12 :: nat) = c" using c by simp
    with 6 show ?thesis by (auto simp: json_escape_def Let_def)
  next
    case 7
    then have "char_of (8 :: nat) = c" using c by simp
    with 7 show ?thesis by (auto simp: json_escape_def Let_def)
  qed
qed

lemma parse_quoted: "parse_string (concat (map json_escape s) @ CHR 0x22 # r) = Some (s, r)"
  by (induction s) (simp_all add: parse_escaped)

text \<open>What follows a value inside canonical text.\<close>

definition value_end :: "string \<Rightarrow> bool" where
  "value_end s \<longleftrightarrow> (case s of [] \<Rightarrow> True | c # _ \<Rightarrow> c = CHR '','' \<or> c = CHR '']'' \<or> c = CHR ''}'')"

lemma value_end_simps [simp]:
  "value_end []" "value_end (c # s) \<longleftrightarrow> c = CHR '','' \<or> c = CHR '']'' \<or> c = CHR ''}''"
  by (simp_all add: value_end_def)

lemma value_end_delimited: "value_end s \<Longrightarrow> delimited s"
  by (auto simp: value_end_def delimited_def is_digit_def split: list.splits)

lemma digits_no_zero: "take 1 (nat_digits n) = ''0'' \<Longrightarrow> nat_digits n = ''0''"
proof (induction n rule: nat_digits.induct)
  case (1 n)
  show ?case
  proof (cases "n < 10")
    case True
    then show ?thesis using 1(2) by (simp add: nat_digits.simps [of n] take_Cons')
  next
    case False
    have "n div 10 \<noteq> 0" using False by simp
    have "nat_digits n = nat_digits (n div 10) @ [digit_char (n mod 10)]" using False by (subst nat_digits.simps) simp
    with 1(2) have "take 1 (nat_digits (n div 10)) = ''0''"
      using nat_digits_nonempty [of "n div 10"] by (cases "nat_digits (n div 10)") auto
    with 1(1) False have "nat_digits (n div 10) = ''0''" by simp
    then have "n div 10 = digits_value ''0''" using digits_value_nat_digits [of "n div 10"] by simp
    with \<open>n div 10 \<noteq> 0\<close> show ?thesis by (simp add: digits_value_def)
  qed
qed

lemma parse_digits:
  assumes "value_end r"
  shows "parse_number fr (nat_digits n @ r) = Some (JInt (int n), r)"
    "parse_number fr (CHR ''-'' # nat_digits n @ r) = Some (JInt (- int n), r)"
proof -
  have t: "takeWhile is_digit (nat_digits n @ r) = nat_digits n"
    by (rule takeWhile_digits [OF nat_digits_digits value_end_delimited [OF assms]])
  have z: "(if take 1 (nat_digits n) = ''0'' then ''0'' else nat_digits n) = nat_digits n"
    by (metis digits_no_zero)
  have e: "take_fraction r = ([], r)" "take_exponent r = ([], r)"
    using assms by (auto simp: take_fraction_def take_exponent_def split: list.splits prod.splits)
  have sgn: "(case nat_digits n @ r of c # q \<Rightarrow> if c = CHR ''-'' then ([c], q) else ([], nat_digits n @ r)
      | [] \<Rightarrow> ([], nat_digits n @ r)) = ([], nat_digits n @ r)" by (auto split: list.split)
  show "parse_number fr (nat_digits n @ r) = Some (JInt (int n), r)"
    unfolding parse_number_def Let_def sgn prod.case t z using e by (simp add: digits_value_nat_digits)
  show "parse_number fr (CHR ''-'' # nat_digits n @ r) = Some (JInt (- int n), r)"
    unfolding parse_number_def Let_def list.case if_P [OF refl] prod.case t z using e by (simp add: digits_value_nat_digits)
qed

text \<open>The values the program writes: no floats, and no key twice in an object.\<close>

fun json_wf :: "json \<Rightarrow> bool" where
  "json_wf (JList vs) = list_all json_wf vs"
| "json_wf (JObj kvs) = (distinct (map fst kvs) \<and> list_all (\<lambda>(k, v). json_wf v) kvs)"
| "json_wf (JFloat r) = False"
| "json_wf _ = True"

lemma digit_not:
  "is_digit c \<Longrightarrow> \<not> is_json_space c \<and> c \<notin> {CHR '']'', CHR ''}'', CHR 0x22, CHR ''['', CHR ''{'', CHR ''n'', CHR ''t'',
     CHR ''f'', CHR ''N'', CHR ''I'', CHR ''-''}"
  by (auto simp: is_digit_def is_json_space_def Let_def)

lemma nat_digits_first: "\<exists>c s. nat_digits n = c # s \<and> is_digit c"
  using nat_digits_hd_digit [of n] nat_digits_nonempty [of n] by (cases "nat_digits n") auto

lemma json_text_first:
  "json_wf v \<Longrightarrow> \<exists>c s. json_text v = c # s \<and> \<not> is_json_space c \<and> c \<noteq> CHR '']'' \<and> c \<noteq> CHR ''}''"
proof (cases v)
  case (JInt i)
  obtain c s where "nat_digits (nat i) = c # s" "is_digit c" using nat_digits_first by blast
  with JInt digit_not [of c] show ?thesis by (auto simp: py_str_int_def is_json_space_def)
qed (auto simp: json_quote_def is_json_space_def)

lemma skip_ws_text: "json_wf v \<Longrightarrow> skip_ws (json_text v @ r) = json_text v @ r"
  using json_text_first [of v] by auto

lemma marks_not_space [simp]:
  "\<not> is_json_space CHR '',''" "\<not> is_json_space CHR '']''" "\<not> is_json_space CHR ''}''" "\<not> is_json_space CHR '':''"
  "\<not> is_json_space CHR 0x22"
  by (simp_all add: is_json_space_def)

lemma parse_json_digit:
  assumes "is_digit c"
  shows "parse_json fr (c # s) = parse_number fr (c # s)"
    "parse_json fr (CHR ''-'' # c # s) = parse_number fr (CHR ''-'' # c # s)"
  using digit_not [OF assms] by (auto simp: parse_literal_def json_literals_def)

lemma parse_items_text:
  assumes "\<And>v r. v \<in> set vs \<Longrightarrow> value_end r \<Longrightarrow> parse_json fr (json_text v @ r) = Some (v, r)"
    and "list_all json_wf vs" "vs \<noteq> []"
  shows "parse_items fr (join '','' (map json_text vs) @ CHR '']'' # r) = Some (vs, r)"
  using assms
proof (induction vs)
  case (Cons v vs)
  show ?case
  proof (cases vs)
    case Nil
    then show ?thesis using Cons.prems by (subst parse_items.simps) simp
  next
    case (Cons w ws)
    let ?rest = "join '','' (map json_text vs) @ CHR '']'' # r"
    have ws: "skip_ws ?rest = ?rest" using skip_ws_text [of w] Cons.prems Cons
      by (cases ws) simp_all
    have IH: "parse_items fr ?rest = Some (vs, r)" using Cons.IH Cons.prems Cons by simp
    have "json_text v \<noteq> []" using json_text_first [of v] Cons.prems by auto
    then have len: "length ?rest < length (json_text v @ CHR '','' # ?rest)" by simp
    have "parse_json fr (json_text v @ CHR '','' # ?rest) = Some (v, CHR '','' # ?rest)"
      using Cons.prems(1) by simp
    moreover have "join '','' (map json_text (v # vs)) @ CHR '']'' # r = json_text v @ CHR '','' # ?rest" using Cons by simp
    ultimately show ?thesis using ws IH len by (subst parse_items.simps) simp
  qed
qed simp

lemma parse_pairs_text:
  assumes "\<And>k v r. (k, v) \<in> set kvs \<Longrightarrow> value_end r \<Longrightarrow> parse_json fr (json_text v @ r) = Some (v, r)"
    and "list_all (\<lambda>(k, v). json_wf v) kvs" "kvs \<noteq> []"
  shows "parse_pairs fr (join '','' (map (\<lambda>(k, v). json_quote k @ '':'' @ json_text v) kvs) @ CHR ''}'' # r) = Some (kvs, r)"
  using assms
proof (induction kvs)
  case (Cons kv kvs)
  obtain k v where kv: "kv = (k, v)" by (cases kv)
  let ?f = "\<lambda>(k, v). json_quote k @ '':'' @ json_text v"
  have v: "skip_ws (json_text v @ q) = json_text v @ q" for q using skip_ws_text [of v] Cons.prems kv by simp
  have parse: "parse_json fr (json_text v @ q) = Some (v, q)" if "value_end q" for q
    using Cons.prems(1) [of k v q] kv that by simp
  show ?case
  proof (cases kvs)
    case Nil
    then show ?thesis using parse [of "CHR ''}'' # r"] v
      by (subst parse_pairs.simps) (simp add: kv json_quote_def parse_quoted)
  next
    case (Cons w ws)
    define rest where "rest = join '','' (map ?f kvs) @ CHR ''}'' # r"
    have ws: "skip_ws rest = rest" using Cons by (cases ws; cases w) (simp_all add: json_quote_def rest_def)
    have IH: "parse_pairs fr rest = Some (kvs, r)" 
      unfolding rest_def by (rule Cons.IH) (use Cons.prems Cons in auto)
    have eq: "join '','' (map ?f (kv # kvs)) @ CHR ''}'' # r
        = CHR 0x22 # concat (map json_escape k) @ CHR 0x22 # CHR '':'' # json_text v @ CHR '','' # rest"
      using Cons by (simp add: kv json_quote_def rest_def)
    show ?thesis unfolding eq
      by (subst parse_pairs.simps) (simp add: kv parse_quoted v parse ws IH del: parse_pairs.simps)
  qed
qed simp

lemma foldl_dict_set:
  "distinct (map fst (d @ kvs)) \<Longrightarrow> foldl (\<lambda>d (k, v). dict_set d k v) d kvs = d @ kvs"
proof (induction kvs arbitrary: d)
  case (Cons kv kvs)
  obtain k v where kv: "kv = (k, v)" by (cases kv)
  have "k \<notin> set (map fst d) \<Longrightarrow> dict_set d k v = d @ [(k, v)]" by (induction d) auto
  with Cons kv show ?case by auto
qed simp

lemma parse_text: "json_wf v \<Longrightarrow> value_end r \<Longrightarrow> parse_json fr (json_text v @ r) = Some (v, r)"
proof (induction v arbitrary: r rule: json_text.induct)
  case (3 i)
  show ?case
  proof (cases "i < 0")
    case True
    obtain c s where "nat_digits (nat (- i)) = c # s" "is_digit c" using nat_digits_first by blast
    then have "parse_json fr (CHR ''-'' # nat_digits (nat (- i)) @ r) = parse_number fr (CHR ''-'' # nat_digits (nat (- i)) @ r)"
      using parse_json_digit(2) [of c fr "s @ r"] by (simp del: parse_json.simps)
    with True show ?thesis using parse_digits(2) [OF 3(2), of fr "nat (- i)"] by (simp add: py_str_int_def del: parse_json.simps)
  next
    case False
    obtain c s where "nat_digits (nat i) = c # s" "is_digit c" using nat_digits_first by blast
    then have "parse_json fr (nat_digits (nat i) @ r) = parse_number fr (nat_digits (nat i) @ r)"
      using parse_json_digit(1) [of c fr "s @ r"] by (simp del: parse_json.simps)
    with False show ?thesis using parse_digits(1) [OF 3(2), of fr "nat i"] by (simp add: py_str_int_def del: parse_json.simps)
  qed
next
  case (6 vs)
  show ?case
  proof (cases "vs = []")
    case False
    have IH: "parse_json fr (json_text v @ r) = Some (v, r)" if "v \<in> set vs" "value_end r" for v r
      using 6(1) [OF that(1)] 6(2) that by (auto simp: list_all_iff)
    have ws: "skip_ws (join '','' (map json_text vs) @ CHR '']'' # r) = join '','' (map json_text vs) @ CHR '']'' # r"
      "take 1 (join '','' (map json_text vs) @ CHR '']'' # r) \<noteq> '']''"
      using False 6(2) json_text_first [of "hd vs"] by (cases vs; cases "tl vs"; auto)+
    show ?thesis using parse_items_text [OF IH] 6(2) False ws by simp
  qed (simp add: is_json_space_def)
next
  case (7 kvs)
  show ?case
  proof (cases "kvs = []")
    case False
    let ?t = "join '','' (map (\<lambda>(k, v). json_quote k @ '':'' @ json_text v) kvs) @ CHR ''}'' # r"
    have IH: "parse_json fr (json_text v @ r) = Some (v, r)" if "(k, v) \<in> set kvs" "value_end r" for k v r
      using 7(1) [OF that(1) refl] 7(2) that by (fastforce simp: list_all_iff)
    have ws: "skip_ws ?t = ?t" "take 1 ?t \<noteq> ''}''"
      using False by (cases kvs; cases "tl kvs"; auto simp: json_quote_def is_json_space_def)+
    have "parse_pairs fr ?t = Some (kvs, r)" by (rule parse_pairs_text) (use IH 7(2) False in auto)
    then show ?thesis using 7(2) ws foldl_dict_set [of "[]" kvs] by simp
  qed (simp add: is_json_space_def)
qed (auto simp: parse_literal_def json_literals_def json_quote_def parse_quoted)

lemma json_wf_jnorm: "json_wf v \<Longrightarrow> json_wf (jnorm v)"
proof (induction v rule: jnorm.induct)
  case (2 kvs)
  have "distinct (map fst (sort_key fst (map (\<lambda>(k, v). (k, jnorm v)) kvs)))"
    using 2(2) by (simp add: sort_key_map_fst comp_def case_prod_beta distinct_map inj_on_def)
  then show ?case using 2 by (auto simp: list_all_iff split: prod.splits)
qed (auto simp: list_all_iff)

lemma json_loads_canonical: "json_wf v \<Longrightarrow> json_loads fr (canonical_json v) = Some (jnorm v)"
  using parse_text [OF json_wf_jnorm, of v "[]" fr] skip_ws_text [OF json_wf_jnorm, of v "[]"]
  by (simp add: json_loads_def canonical_json_text)

end
