(* ===== verification/RelayProtocol.thy ===== *)
theory RelayProtocol
  imports LatestLive JsonParse
begin

text \<open>
  The messages of the live relay (services/relay_v2/protocol.py): what the producer says hello
  with, how it accepts the processor's answer, how it turns a claimed frame set and a credit into
  the frame set it sends, and when it refuses to.

  A protobuf message is a record of the fields the code sets, an optional field an option; the
  values are within the ranges of their fields. The serialization of a message and the files
  of the archive are arguments. Monotonic clocks are read in milliseconds. A Python float of the
  manifest is its \<open>repr\<close>; its conversion to an integer is an argument (\<open>float_int\<close>), and so is the
  reading of a float literal (\<open>float_repr\<close>).
\<close>

section \<open>Configuration and sessions\<close>

record ProtocolConfig =
  pc_producer_session_id :: string
  pc_processing_profile_digest :: "string option"
  pc_producer_freshness_budget_ms :: int
  pc_maximum_clock_uncertainty_ms :: int
  pc_protocol_version :: int
  pc_schema_version :: int
  pc_clock_source :: string

record NegotiatedSession =
  ng_processing_job_id :: string
  ng_processor_instance_id :: string
  ng_stream_epoch :: string
  ng_maximum_payload_bytes :: int
  ng_processing_profile_digest :: string

text \<open>The configuration for one claim: the profile the frame set was authorized for must be the configured one.\<close>

definition bind_authorized_claim :: "ProtocolConfig \<Rightarrow> ClaimedFrameSet \<Rightarrow> ProtocolConfig result" where
  "bind_authorized_claim config claim =
     (if truthy (cl_profile_digest claim)
      then (if truthy (pc_processing_profile_digest config)
               \<and> pc_processing_profile_digest config \<noteq> cl_profile_digest claim
            then Inl (CreditRejected ''configured profile digest conflicts with authorized manifest'')
            else Inr (config\<lparr> pc_processing_profile_digest := cl_profile_digest claim \<rparr>))
      else if \<not> truthy (pc_processing_profile_digest config)
      then Inl (CreditRejected ''frame set is missing a processing profile digest'')
      else Inr config)"

section \<open>Messages\<close>

record CaptureConfigSnapshot =
  cc_camera_stream_id :: string
  cc_capture_config_digest :: string
  cc_width :: int
  cc_height :: int
  cc_orientation_deg :: int
  cc_mirrored :: bool
  cc_encoding :: string
  cc_color_space :: string
  cc_authorized_camera_id :: string

record ProducerClockHealth =
  ph_state :: string
  ph_maximum_uncertainty_ms :: int
  ph_measured_utc_ms :: int
  ph_clock_source :: string

record ProducerHello =
  he_protocol_version :: int
  he_schema_version :: int
  he_producer_session_id :: string
  he_capture_session_id :: string
  he_capture_run_id :: string
  he_proposed_processing_job_id :: "string option"
  he_mode :: string
  he_processing_profile_digest :: string
  he_expected_camera_stream_ids :: "string list"
  he_capture_configs :: "CaptureConfigSnapshot list"
  he_clock_health :: ProducerClockHealth
  he_last_offered_watermark :: "FrameSetKey option"
  he_unresolved_frame_sets :: "FrameSetKey list"
  he_tenant_id :: string
  he_site_id :: string
  he_authorized_subject :: string
  he_session_token_jti :: string

record HelloAccepted =
  ha_protocol_version :: int
  ha_schema_version :: int
  ha_processing_job_id :: string
  ha_processor_instance_id :: string
  ha_stream_epoch :: string
  ha_maximum_payload_bytes :: int
  ha_processing_profile_digest :: string

text \<open>The body of an envelope of the processor; \<open>OtherBody\<close> is any other or none.\<close>

datatype ProcessorBody =
    HelloAcceptedBody HelloAccepted
  | HelloRejectedBody string string
  | OtherBody

record ProcessorCredit =
  cd_scope :: CreditIdentity
  cd_credit_lease_duration_ms :: int
  cd_earliest_acceptable_freshness_origin_utc_ms :: int
  cd_ingress_reserve_ms :: int
  cd_maximum_payload_bytes :: int
  cd_schema_version :: int
  cd_maximum_frame_age_ms :: int

record ClockCorrection =
  kc_source_clock_domain :: string
  kc_estimated_offset_ms :: int
  kc_estimated_drift_ppb :: int
  kc_uncertainty_ms :: int
  kc_measured_utc_ms :: int

record FramePayload =
  fp_source_frame_uid :: string
  fp_source_session_id :: string
  fp_camera_stream_id :: string
  fp_frame_sequence :: int
  fp_capture_timestamp_device_ms :: int
  fp_capture_timestamp_corrected_utc_ms :: int
  fp_clock_correction :: ClockCorrection
  fp_stream_received_utc_ms :: int
  fp_width :: int
  fp_height :: int
  fp_orientation_deg :: int
  fp_mirrored :: bool
  fp_encoding :: string
  fp_color_space :: string
  fp_capture_config_digest :: string
  fp_content_size_bytes :: int
  fp_content_digest :: string
  fp_image_bytes :: bytes

record CreditedFrameSet =
  cf_credit_scope :: CreditIdentity
  cf_processing_job_id :: string
  cf_producer_session_id :: string
  cf_capture_session_id :: string
  cf_key :: FrameSetKey
  cf_mode :: string
  cf_manifest_digest :: string
  cf_content_digest :: string
  cf_ordering_anchor_utc_ms :: int
  cf_freshness_origin_utc_ms :: int
  cf_synchronized_utc_ms :: int
  cf_offered_utc_ms :: int
  cf_producer_freshness_budget_ms :: int
  cf_effective_deadline_utc_ms :: int
  cf_synchronization_span_ms :: int
  cf_clock_uncertainty_ms :: int
  cf_capture_configs :: "CaptureConfigSnapshot list"
  cf_frames :: "FramePayload list"
  cf_alert_deadline_utc_ms :: int
  cf_reserved_delivery_bound_ms :: int
  cf_processing_profile_digest :: string
  cf_tenant_id :: string
  cf_site_id :: string
  cf_authorized_subject :: string
  cf_session_token_jti :: string

record NoDataMessage =
  nd_scope :: CreditIdentity
  nd_reason :: string
  nd_newest_known_frame_set :: "FrameSetKey option"

record ReconciliationRequest =
  rr_processing_job_id :: string
  rr_producer_session_id :: string
  rr_unresolved_frame_sets :: "FrameSetKey list"
  rr_reconciliation_resume_token :: "string option"

datatype ProducerEnvelope =
    HelloEnvelope ProducerHello
  | FrameSetEnvelope CreditedFrameSet
  | NoDataEnvelope NoDataMessage
  | ReconciliationEnvelope ReconciliationRequest

definition proto_key :: "FrameSetKey \<Rightarrow> FrameSetKey" where
  "proto_key key =
     \<lparr> fk_capture_run_id = fk_capture_run_id key, fk_frame_set_id = fk_frame_set_id key,
       fk_frame_set_uid = fk_frame_set_uid key \<rparr>"

section \<open>Python's conversions of JSON values\<close>

text \<open>\<open>bool(value)\<close>, \<open>repr(value)\<close>, \<open>str(value)\<close> and \<open>int(value)\<close> of a value \<open>json.loads\<close> returns.\<close>

fun json_truthy :: "json \<Rightarrow> bool" where
  "json_truthy JNull = False"
| "json_truthy (JBool b) = b"
| "json_truthy (JInt n) = (n \<noteq> 0)"
| "json_truthy (JFloat r) = (r \<noteq> ''0.0'' \<and> r \<noteq> ''-0.0'')"
| "json_truthy (JStr s) = (s \<noteq> [])"
| "json_truthy (JList vs) = (vs \<noteq> [])"
| "json_truthy (JObj kvs) = (kvs \<noteq> [])"

definition repr_char :: "char \<Rightarrow> char \<Rightarrow> string" where
  "repr_char quote c =
     (let n = (of_char c :: nat)
      in if c = quote \<or> c = CHR 0x5C then [CHR 0x5C, c]
         else if n = 10 then [CHR 0x5C, CHR ''n''] else if n = 13 then [CHR 0x5C, CHR ''r'']
         else if n = 9 then [CHR 0x5C, CHR ''t'']
         else if n < 32 \<or> n = 127 then [CHR 0x5C, CHR ''x'', hex_char (n div 16), hex_char (n mod 16)]
         else [c])"

definition repr_string :: "string \<Rightarrow> string" where
  "repr_string s =
     (let quote = (if CHR 0x27 \<in> set s \<and> CHR 0x22 \<notin> set s then CHR 0x22 else CHR 0x27)
      in quote # concat (map (repr_char quote) s) @ [quote])"

fun py_repr :: "json \<Rightarrow> string" where
  "py_repr JNull = ''None''"
| "py_repr (JBool b) = (if b then ''True'' else ''False'')"
| "py_repr (JInt n) = py_str_int n"
| "py_repr (JFloat r) = r"
| "py_repr (JStr s) = repr_string s"
| "py_repr (JList vs) = ''['' @ join '', '' (map py_repr vs) @ '']''"
| "py_repr (JObj kvs) = ''{'' @ join '', '' (map (\<lambda>(k, v). repr_string k @ '': '' @ py_repr v) kvs) @ ''}''"

fun py_str :: "json \<Rightarrow> string" where
  "py_str (JStr s) = s"
| "py_str v = py_repr v"

text \<open>\<open>int(text)\<close>: outer white space, a sign, digits with single underscores between them.\<close>

fun read_decimal :: "nat \<Rightarrow> string \<Rightarrow> nat option" where
  "read_decimal acc [] = Some acc"
| "read_decimal acc (c # s) =
     (if is_digit c then read_decimal (10 * acc + (of_char c - 48)) s
      else if c \<noteq> CHR ''_'' then None
      else (case s of [] \<Rightarrow> None
            | d # r \<Rightarrow> if is_digit d then read_decimal (10 * acc + (of_char d - 48)) r else None))"

definition int_base10 :: "string \<Rightarrow> int result" where
  "int_base10 text_value =
     (let s = strip text_value; sign = take 1 s;
          digits = (if sign = ''+'' \<or> sign = ''-'' then drop 1 s else s)
      in case (if digits = [] \<or> take 1 digits = ''_'' then None else read_decimal 0 digits) of
           None \<Rightarrow> Inl (ValueError (''invalid literal for int() with base 10: '' @ repr_string text_value))
         | Some n \<Rightarrow> Inr (if sign = ''-'' then - int n else int n))"

fun py_int :: "(string \<Rightarrow> int result) \<Rightarrow> json \<Rightarrow> int result" where
  "py_int float_int (JInt n) = Inr n"
| "py_int float_int (JBool b) = Inr (if b then 1 else 0)"
| "py_int float_int (JFloat r) = float_int r"
| "py_int float_int (JStr s) = int_base10 s"
| "py_int float_int _ = Inl (TypeError ''int() argument must be a string, a bytes-like object or a real number'')"

definition nonnegative_int :: "(string \<Rightarrow> int result) \<Rightarrow> json \<Rightarrow> int result" where
  "nonnegative_int float_int v =
     bind_result (py_int float_int (if json_truthy v then v else JInt 0)) (\<lambda>parsed.
       if parsed < 0 then Inl (ArchiveIntegrityError ''capture dimensions must be nonnegative'') else Inr parsed)"

text \<open>\<open>value.get(key, default)\<close>, and \<open>value or default\<close>.\<close>

definition json_get_or :: "(string \<times> json) list \<Rightarrow> string \<Rightarrow> json \<Rightarrow> json" where
  "json_get_or kvs key d = (case dict_get kvs key of None \<Rightarrow> d | Some v \<Rightarrow> v)"

definition json_or :: "json \<Rightarrow> json \<Rightarrow> json" where
  "json_or v d = (if json_truthy v then v else d)"

section \<open>The members of a claim's manifest\<close>

text \<open>What the code uses beside the program's own: how floats are read and cut to integers.\<close>

record FloatLibrary =
  fl_repr :: "string \<Rightarrow> string"
  fl_int :: "string \<Rightarrow> int result"

definition loads :: "FloatLibrary \<Rightarrow> json \<Rightarrow> json result" where
  "loads fl v =
     (case v of
        JStr s \<Rightarrow> (case json_loads (fl_repr fl) s of None \<Rightarrow> Inl JSONDecodeError | Some x \<Rightarrow> Inr x)
      | _ \<Rightarrow> Inl (TypeError ''the JSON object must be str, bytes or bytearray''))"

definition capture_config ::
  "FloatLibrary \<Rightarrow> string \<Rightarrow> string \<Rightarrow> (string \<times> json) list \<Rightarrow> string \<Rightarrow> CaptureConfigSnapshot result" where
  "capture_config fl camera digest metadata authorized =
     bind_result (nonnegative_int (fl_int fl) (json_get_or metadata ''width'' JNull)) (\<lambda>width.
     bind_result (nonnegative_int (fl_int fl) (json_get_or metadata ''height'' JNull)) (\<lambda>height.
     bind_result (py_int (fl_int fl) (json_get_or metadata ''orientation_deg'' (JInt 0))) (\<lambda>orientation.
       Inr \<lparr> cc_camera_stream_id = camera, cc_capture_config_digest = digest, cc_width = width,
             cc_height = height, cc_orientation_deg = orientation,
             cc_mirrored = json_truthy (json_get_or metadata ''mirrored'' (JBool False)),
             cc_encoding = py_str (json_or (json_get_or metadata ''encoding'' JNull) (JStr ''image/jpeg'')),
             cc_color_space = py_str (json_or (json_get_or metadata ''color_space'' JNull) (JStr ''UNKNOWN'')),
             cc_authorized_camera_id = authorized \<rparr>)))"

text \<open>One round of the loop over the manifest's members: the camera, its metadata and its snapshot.\<close>

definition manifest_entry ::
  "FloatLibrary \<Rightarrow> json \<Rightarrow> (string \<times> (string \<times> json) list \<times> CaptureConfigSnapshot) result" where
  "manifest_entry fl member =
     (case member of
        JObj m \<Rightarrow>
          (let camera = py_str (json_or (json_get_or m ''camera_stream_id'' JNull) (JStr []));
               digest = py_str (json_or (json_get_or m ''capture_config_digest'' JNull) (JStr []))
           in if camera = [] \<or> digest = []
              then Inl (ArchiveIntegrityError ''manifest capture config is incomplete'')
              else bind_result (loads fl (json_or (json_get_or m ''capture_metadata_json'' JNull) (JStr ''{}'')))
                (\<lambda>loaded. case loaded of
                   JObj raw \<Rightarrow>
                     (let metadata = dict_set raw ''capture_config_digest'' (JStr digest)
                      in bind_result (capture_config fl camera digest metadata
                           (py_str (json_or (json_get_or m ''authorized_camera_id'' JNull) (JStr []))))
                         (\<lambda>config. Inr (camera, metadata, config)))
                 | _ \<Rightarrow> Inl (TypeError ''object does not support item assignment'')))
      | _ \<Rightarrow> Inl (AttributeError ''get''))"

definition manifest_members ::
  "FloatLibrary \<Rightarrow> ClaimedFrameSet \<Rightarrow> (CaptureConfigSnapshot list \<times> (string, (string \<times> json) list) dict) result" where
  "manifest_members fl claim =
     bind_result (loads fl (JStr (cl_manifest_json claim))) (\<lambda>payload.
       case payload of
         JObj p \<Rightarrow>
           (case json_get_or p ''members'' JNull of
              JList raw_members \<Rightarrow>
                bind_result (map_result (manifest_entry fl) raw_members) (\<lambda>entries.
                  let metadata_by_camera = foldl (\<lambda>d (camera, metadata, _). dict_set d camera metadata) [] entries;
                      configs = sort_key cc_camera_stream_id (map (\<lambda>(_, _, config). config) entries)
                  in if set (dict_keys metadata_by_camera) \<noteq> set (map lm_camera_stream_id (cl_members claim))
                     then Inl (ArchiveIntegrityError ''manifest and archived member sets differ'')
                     else Inr (configs, metadata_by_camera))
            | _ \<Rightarrow> Inl (ArchiveIntegrityError ''manifest members are missing''))
       | _ \<Rightarrow> Inl (AttributeError ''get''))"

section \<open>Hello\<close>

definition build_producer_hello ::
  "FloatLibrary \<Rightarrow> ProtocolConfig \<Rightarrow> ClaimedFrameSet \<Rightarrow> FrameSetKey option \<Rightarrow> FrameSetKey list
   \<Rightarrow> string option \<Rightarrow> int option \<Rightarrow> int \<Rightarrow> ProducerEnvelope result" where
  "build_producer_hello fl config claim offered unresolved proposed_job measured_utc_ms now_utc_ms =
     bind_result (manifest_members fl claim) (\<lambda>(capture_configs, _).
       let scoped = truthy (cl_tenant_id claim)
       in Inr (HelloEnvelope
         \<lparr> he_protocol_version = pc_protocol_version config, he_schema_version = pc_schema_version config,
           he_producer_session_id = pc_producer_session_id config,
           he_capture_session_id = cl_capture_session_id claim,
           he_capture_run_id = fk_capture_run_id (cl_key claim),
           he_proposed_processing_job_id = (if truthy proposed_job then proposed_job else None),
           he_mode = ''LIVE'', he_processing_profile_digest = str_or (pc_processing_profile_digest config) [],
           he_expected_camera_stream_ids = map cc_camera_stream_id capture_configs,
           he_capture_configs = capture_configs,
           he_clock_health = \<lparr> ph_state = ''READY'', ph_maximum_uncertainty_ms = pc_maximum_clock_uncertainty_ms config,
             ph_measured_utc_ms = (case measured_utc_ms of Some t \<Rightarrow> t | None \<Rightarrow> now_utc_ms),
             ph_clock_source = pc_clock_source config \<rparr>,
           he_last_offered_watermark = map_option proto_key offered,
           he_unresolved_frame_sets = map proto_key unresolved,
           he_tenant_id = (if scoped then str_or (cl_tenant_id claim) [] else []),
           he_site_id = (if scoped then str_or (cl_site_id claim) [] else []),
           he_authorized_subject = (if scoped then str_or (cl_authorized_subject claim) [] else []),
           he_session_token_jti = (if scoped then str_or (cl_session_token_jti claim) [] else []) \<rparr>))"

definition accept_hello :: "ProcessorBody \<Rightarrow> ProtocolConfig \<Rightarrow> NegotiatedSession result" where
  "accept_hello body config =
     (case body of
        HelloRejectedBody reason detail_code \<Rightarrow>
          Inl (CreditRejected (''hello rejected: '' @ reason @ '' ('' @ detail_code @ '')''))
      | OtherBody \<Rightarrow> Inl (CreditRejected ''first processor envelope must accept or reject hello'')
      | HelloAcceptedBody accepted \<Rightarrow>
          if ha_protocol_version accepted \<noteq> pc_protocol_version config
          then Inl (CreditRejected ''processor negotiated an unsupported protocol version'')
          else if ha_schema_version accepted \<noteq> pc_schema_version config
          then Inl (CreditRejected ''processor negotiated an unsupported schema version'')
          else if Some (ha_processing_profile_digest accepted) \<noteq> pc_processing_profile_digest config
          then Inl (CreditRejected ''processor profile digest does not match producer'')
          else if ha_processing_job_id accepted = [] \<or> ha_processor_instance_id accepted = []
                  \<or> ha_stream_epoch accepted = [] \<or> \<not> ha_maximum_payload_bytes accepted > 0
          then Inl (CreditRejected ''hello acceptance is missing required identity or bounds'')
          else Inr \<lparr> ng_processing_job_id = ha_processing_job_id accepted,
                     ng_processor_instance_id = ha_processor_instance_id accepted,
                     ng_stream_epoch = ha_stream_epoch accepted,
                     ng_maximum_payload_bytes = ha_maximum_payload_bytes accepted,
                     ng_processing_profile_digest = ha_processing_profile_digest accepted \<rparr>)"

definition credit_identity :: "ProcessorCredit \<Rightarrow> NegotiatedSession \<Rightarrow> CreditIdentity result" where
  "credit_identity credit session =
     (let scope = cd_scope credit
      in if cd_schema_version credit \<noteq> 1 then Inl (CreditRejected ''credit schema version is unsupported'')
         else if cr_processor_instance_id scope \<noteq> ng_processor_instance_id session
                 \<or> cr_stream_epoch scope \<noteq> ng_stream_epoch session \<or> cr_credit_id scope = []
         then Inl (CreditRejected ''credit scope is fenced or incomplete'')
         else if cd_credit_lease_duration_ms credit \<le> 0 then Inl (CreditRejected ''credit lease must be positive'')
         else Inr \<lparr> cr_processor_instance_id = cr_processor_instance_id scope,
                    cr_stream_epoch = cr_stream_epoch scope, cr_credit_id = cr_credit_id scope \<rparr>)"

section \<open>The frame set that is sent\<close>

text \<open>relay_v2_contract.py: a message is serialized only within the limit.\<close>

definition validate_limit :: "int \<Rightarrow> unit result" where
  "validate_limit maximum_payload_bytes =
     (if maximum_payload_bytes \<le> 0 then Inl (ValueError ''maximum_payload_bytes must be greater than zero'') else Inr ())"

definition validate_size :: "int \<Rightarrow> int \<Rightarrow> unit result" where
  "validate_size payload_size maximum_payload_bytes =
     (if payload_size > maximum_payload_bytes
      then Inl (PayloadLimitExceeded (''payload is '' @ py_str_int payload_size @ '' bytes; limit is ''
                  @ py_str_int maximum_payload_bytes))
      else Inr ())"

definition serialize_with_limit :: "('m \<Rightarrow> bytes) \<Rightarrow> 'm \<Rightarrow> int \<Rightarrow> bytes result" where
  "serialize_with_limit serialize message maximum_payload_bytes =
     bind_result (validate_limit maximum_payload_bytes) (\<lambda>_.
       let payload = serialize message
       in bind_result (validate_size (int (length payload)) maximum_payload_bytes) (\<lambda>_. Inr payload))"

definition parse_with_limit :: "(bytes \<Rightarrow> 'm result) \<Rightarrow> bytes \<Rightarrow> int \<Rightarrow> 'm result" where
  "parse_with_limit parse payload maximum_payload_bytes =
     bind_result (validate_limit maximum_payload_bytes) (\<lambda>_.
     bind_result (validate_size (int (length payload)) maximum_payload_bytes) (\<lambda>_. parse payload))"

definition lease_deadline :: "int \<Rightarrow> ProcessorCredit \<Rightarrow> int" where
  "lease_deadline credit_received_ms credit = credit_received_ms + cd_credit_lease_duration_ms credit"

definition effective_deadline :: "ClaimedFrameSet \<Rightarrow> ProcessorCredit \<Rightarrow> ProtocolConfig \<Rightarrow> int" where
  "effective_deadline claim credit config =
     min (cl_freshness_origin_ms claim + pc_producer_freshness_budget_ms config)
         (cl_freshness_origin_ms claim + cd_maximum_frame_age_ms credit) - pc_maximum_clock_uncertainty_ms config"

definition frame_payload ::
  "FloatLibrary \<Rightarrow> (string \<Rightarrow> bytes option) \<Rightarrow> ClaimedFrameSet \<Rightarrow> ProtocolConfig \<Rightarrow> int
   \<Rightarrow> (string, (string \<times> json) list) dict \<Rightarrow> LiveFrameMember \<Rightarrow> FramePayload result" where
  "frame_payload fl files claim config utc_ms metadata_by_camera member =
     (case files (lm_file_path member) of
        None \<Rightarrow> Inl (OSError (lm_file_path member))
      | Some payload \<Rightarrow>
          if int (length payload) \<noteq> lm_image_size member
          then Inl (ArchiveIntegrityError (''archive size mismatch for '' @ lm_source_frame_uid member))
          else if sha256_bytes payload \<noteq> lm_content_digest member
          then Inl (ArchiveIntegrityError (''archive digest mismatch for '' @ lm_source_frame_uid member))
          else (case dict_get metadata_by_camera (lm_camera_stream_id member) of
             None \<Rightarrow> Inl (KeyError (lm_camera_stream_id member))
           | Some metadata \<Rightarrow>
               bind_result (nonnegative_int (fl_int fl) (json_get_or metadata ''width'' JNull)) (\<lambda>width.
               bind_result (nonnegative_int (fl_int fl) (json_get_or metadata ''height'' JNull)) (\<lambda>height.
               bind_result (py_int (fl_int fl) (json_get_or metadata ''orientation_deg'' (JInt 0))) (\<lambda>orientation.
               case dict_get metadata ''capture_config_digest'' of
                 None \<Rightarrow> Inl (KeyError ''capture_config_digest'')
               | Some digest \<Rightarrow> Inr
                 \<lparr> fp_source_frame_uid = lm_source_frame_uid member,
                   fp_source_session_id = lm_source_session_id member,
                   fp_camera_stream_id = lm_camera_stream_id member,
                   fp_frame_sequence = lm_frame_sequence member,
                   fp_capture_timestamp_device_ms = lm_capture_timestamp_ms member,
                   fp_capture_timestamp_corrected_utc_ms = lm_capture_timestamp_ms member,
                   fp_clock_correction =
                     \<lparr> kc_source_clock_domain = ''CAPTURE_TIMESTAMP_MS'', kc_estimated_offset_ms = 0,
                       kc_estimated_drift_ppb = 0, kc_uncertainty_ms = pc_maximum_clock_uncertainty_ms config,
                       kc_measured_utc_ms = utc_ms \<rparr>,
                   fp_stream_received_utc_ms = cl_synchronized_at_ms claim,
                   fp_width = width, fp_height = height, fp_orientation_deg = orientation,
                   fp_mirrored = json_truthy (json_get_or metadata ''mirrored'' (JBool False)),
                   fp_encoding = py_str (json_or (json_get_or metadata ''encoding'' JNull) (JStr (lm_content_type member))),
                   fp_color_space = py_str (json_or (json_get_or metadata ''color_space'' JNull) (JStr ''UNKNOWN'')),
                   fp_capture_config_digest = py_str digest,
                   fp_content_size_bytes = int (length payload),
                   fp_content_digest = lm_content_digest member, fp_image_bytes = payload \<rparr>)))))"

text \<open>The record of one member over which the content digest is computed.\<close>

definition content_record :: "FramePayload \<Rightarrow> json" where
  "content_record p =
     JObj [(''camera_stream_id'', JStr (fp_camera_stream_id p)), (''content_digest'', JStr (fp_content_digest p)),
           (''content_size_bytes'', JInt (fp_content_size_bytes p)), (''source_frame_uid'', JStr (fp_source_frame_uid p))]"

definition credited_frame_set ::
  "ClaimedFrameSet \<Rightarrow> ProcessorCredit \<Rightarrow> NegotiatedSession \<Rightarrow> ProtocolConfig \<Rightarrow> int
   \<Rightarrow> CaptureConfigSnapshot list \<Rightarrow> FramePayload list \<Rightarrow> CreditedFrameSet" where
  "credited_frame_set claim credit session config utc_ms capture_configs frames =
     \<lparr> cf_credit_scope = cd_scope credit, cf_processing_job_id = ng_processing_job_id session,
       cf_producer_session_id = pc_producer_session_id config,
       cf_capture_session_id = cl_capture_session_id claim, cf_key = proto_key (cl_key claim), cf_mode = ''LIVE'',
       cf_manifest_digest = cl_manifest_digest claim,
       cf_content_digest = sha256_bytes (encode_utf8 (canonical_json (JList (map content_record frames)))),
       cf_ordering_anchor_utc_ms = cl_anchor_timestamp_ms claim,
       cf_freshness_origin_utc_ms = cl_freshness_origin_ms claim,
       cf_synchronized_utc_ms = cl_synchronized_at_ms claim, cf_offered_utc_ms = utc_ms,
       cf_producer_freshness_budget_ms = pc_producer_freshness_budget_ms config,
       cf_effective_deadline_utc_ms = effective_deadline claim credit config,
       cf_synchronization_span_ms = cl_synchronization_span_ms claim,
       cf_clock_uncertainty_ms = pc_maximum_clock_uncertainty_ms config,
       cf_capture_configs = capture_configs, cf_frames = frames,
       cf_alert_deadline_utc_ms = effective_deadline claim credit config, cf_reserved_delivery_bound_ms = 0,
       cf_processing_profile_digest = str_or (pc_processing_profile_digest config) [],
       cf_tenant_id = str_or (cl_tenant_id claim) [], cf_site_id = str_or (cl_site_id claim) [],
       cf_authorized_subject = str_or (cl_authorized_subject claim) [],
       cf_session_token_jti = str_or (cl_session_token_jti claim) [] \<rparr>"

text \<open>
  The monotonic clock is read before the work and after it (\<open>mono_ms\<close>, \<open>mono_ms'\<close>); a caller that
  passes its own reading has both the same.
\<close>

definition build_credited_frame_set ::
  "FloatLibrary \<Rightarrow> (string \<Rightarrow> bytes option) \<Rightarrow> (ProducerEnvelope \<Rightarrow> bytes) \<Rightarrow> ClaimedFrameSet \<Rightarrow> ProcessorCredit
   \<Rightarrow> NegotiatedSession \<Rightarrow> ProtocolConfig \<Rightarrow> int \<Rightarrow> int \<Rightarrow> int \<Rightarrow> int \<Rightarrow> ProducerEnvelope result" where
  "build_credited_frame_set fl files serialize claim credit session config received_ms mono_ms mono_ms' utc_ms =
     (if mono_ms \<ge> lease_deadline received_ms credit
      then Inl (CreditRejected ''credit lease expired before payload send'')
      else if cl_freshness_origin_ms claim < cd_earliest_acceptable_freshness_origin_utc_ms credit
      then Inl (FrameSetExpired ''frame set predates the credit freshness watermark'')
      else if utc_ms + cd_ingress_reserve_ms credit \<ge> effective_deadline claim credit config
      then Inl (FrameSetExpired ''frame set cannot reach admission before its deadline'')
      else
        bind_result (manifest_members fl claim) (\<lambda>(capture_configs, metadata_by_camera).
        bind_result (map_result (frame_payload fl files claim config utc_ms metadata_by_camera) (cl_members claim)) (\<lambda>frames.
        let envelope = FrameSetEnvelope (credited_frame_set claim credit session config utc_ms capture_configs frames)
        in bind_result (serialize_with_limit serialize envelope
                (min (ng_maximum_payload_bytes session) (cd_maximum_payload_bytes credit))) (\<lambda>_.
             if mono_ms' \<ge> lease_deadline received_ms credit
             then Inl (CreditRejected ''credit lease expired while assembling payload'')
             else Inr envelope))))"

definition build_no_data :: "ProcessorCredit \<Rightarrow> string \<Rightarrow> FrameSetKey option \<Rightarrow> ProducerEnvelope" where
  "build_no_data credit reason newest_known =
     NoDataEnvelope \<lparr> nd_scope = cd_scope credit, nd_reason = reason,
       nd_newest_known_frame_set = map_option proto_key newest_known \<rparr>"

definition build_reconciliation_request ::
  "NegotiatedSession \<Rightarrow> ProtocolConfig \<Rightarrow> FrameSetKey list \<Rightarrow> string option \<Rightarrow> ProducerEnvelope" where
  "build_reconciliation_request session config unresolved resume_token =
     ReconciliationEnvelope
       \<lparr> rr_processing_job_id = ng_processing_job_id session, rr_producer_session_id = pc_producer_session_id config,
         rr_unresolved_frame_sets = map proto_key unresolved,
         rr_reconciliation_resume_token = (if truthy resume_token then resume_token else None) \<rparr>"

section \<open>Reading a stored manifest back\<close>

lemma map_of_sort_key:
  assumes "distinct (map fst kvs)" shows "map_of (sort_key fst kvs) k = map_of kvs k"
proof -
  have "distinct (map fst (sort_key fst kvs))"
    using assms by (metis distinct_sort mset_map mset_sort mset_eq_imp_distinct_iff)
  then show ?thesis using assms by (metis map_of_eq_Some_iff not_Some_eq set_sort)
qed

lemma json_get_sorted:
  assumes "distinct (map fst kvs)" "\<And>k v. (k, v) \<in> set kvs \<Longrightarrow> jnorm v = v"
  shows "json_get_or (sort_key fst (map (\<lambda>(k, v). (k, jnorm v)) kvs)) key d = json_get_or kvs key d"
proof -
  have "map (\<lambda>(k, v). (k, jnorm v)) kvs = kvs" using assms(2) by (induction kvs) auto
  then show ?thesis using map_of_sort_key [OF assms(1)] by (simp add: json_get_or_def)
qed

lemma jopt_norm [simp]: "jnorm (jopt s) = jopt s" "jnorm (jint_opt n) = jint_opt n" "json_wf (jopt s)" "json_wf (jint_opt n)"
  by (simp_all add: jopt_def jint_opt_def split: option.split)

lemma manifest_member_entry: "manifest_entry fl (jnorm (manifest_member f)) = manifest_entry fl (manifest_member f)"
proof -
  obtain kvs where m: "manifest_member f = JObj kvs" "distinct (map fst kvs)" "\<And>k v. (k, v) \<in> set kvs \<Longrightarrow> jnorm v = v"
    by (rule that [of "case manifest_member f of JObj kvs \<Rightarrow> kvs | _ \<Rightarrow> []"]) (auto simp: manifest_member_def)
  define sorted where "sorted = sort_key fst (map (\<lambda>(k, v). (k, jnorm v)) kvs)"
  have n: "jnorm (manifest_member f) = JObj sorted" and get: "\<And>key d. json_get_or sorted key d = json_get_or kvs key d"
    using json_get_sorted [OF m(2,3)] by (simp_all add: m(1) sorted_def)
  show ?thesis unfolding n unfolding m(1) by (simp add: manifest_entry_def Let_def get)
qed

lemma manifest_payload_wf: "json_wf (build_manifest_payload session frames mode window span anchor key)"
  by (auto simp: build_manifest_payload_def manifest_member_def list_all_iff split: option.splits)

lemma manifest_payload_members:
  "\<exists>kvs. jnorm (build_manifest_payload session frames mode window span anchor key) = JObj kvs
    \<and> json_get_or kvs ''members'' JNull = JList (map (\<lambda>f. jnorm (manifest_member f)) (sort_key member_order (dict_values frames)))"
proof -
  let ?p = "build_manifest_payload session frames mode window span anchor key"
  obtain kvs where p: "?p = JObj kvs" "distinct (map fst kvs)"
      "map_of kvs ''members'' = Some (JList (map manifest_member (sort_key member_order (dict_values frames))))"
    by (rule that [of "case ?p of JObj kvs \<Rightarrow> kvs | _ \<Rightarrow> []"]) (auto simp: build_manifest_payload_def)
  have "map_of (map (\<lambda>(k, v). (k, jnorm v)) kvs) ''members'' = map_option jnorm (map_of kvs ''members'')"
    by (simp add: map_of_map)
  then show ?thesis using map_of_sort_key [of "map (\<lambda>(k, v). (k, jnorm v)) kvs" "''members''"] p
    by (simp add: json_get_or_def comp_def case_prod_beta)
qed

text \<open>
  A frame whose manifest entry the protocol can read: its camera and configuration digest are
  set, and its capture metadata is the text of an object with integer dimensions.
\<close>

definition readable :: "FloatLibrary \<Rightarrow> StoredSyncFrame \<Rightarrow> bool" where
  "readable fl f \<longleftrightarrow> (case manifest_entry fl (manifest_member f) of Inl _ \<Rightarrow> False | Inr _ \<Rightarrow> True)"

definition manifest_entry_of :: "FloatLibrary \<Rightarrow> StoredSyncFrame \<Rightarrow> string \<times> (string \<times> json) list \<times> CaptureConfigSnapshot" where
  "manifest_entry_of fl f = projr (manifest_entry fl (manifest_member f))"

lemma readable_entry: "readable fl f \<Longrightarrow> manifest_entry fl (manifest_member f) = Inr (manifest_entry_of fl f)"
  by (auto simp: readable_def manifest_entry_of_def split: sum.splits)

text \<open>What the entry of a frame says of it.\<close>

definition metadata_fits :: "FloatLibrary \<Rightarrow> (string \<times> json) list \<Rightarrow> CaptureConfigSnapshot \<Rightarrow> bool" where
  "metadata_fits fl metadata config \<longleftrightarrow>
     nonnegative_int (fl_int fl) (json_get_or metadata ''width'' JNull) = Inr (cc_width config)
     \<and> nonnegative_int (fl_int fl) (json_get_or metadata ''height'' JNull) = Inr (cc_height config)
     \<and> py_int (fl_int fl) (json_get_or metadata ''orientation_deg'' (JInt 0)) = Inr (cc_orientation_deg config)
     \<and> dict_get metadata ''capture_config_digest'' = Some (JStr (cc_capture_config_digest config))"

lemma manifest_entry_Inr:
  assumes "manifest_entry fl (manifest_member f) = Inr (camera, metadata, config)"
  shows "f_camera_stream_id f = Some camera \<and> camera \<noteq> [] \<and> f_capture_config_digest f = Some (cc_capture_config_digest config)
    \<and> cc_camera_stream_id config = camera \<and> cc_authorized_camera_id config = str_or (f_authorized_camera_id f) []
    \<and> metadata_fits fl metadata config"
proof -
  have get: "json_get_or (case manifest_member f of JObj m \<Rightarrow> m | _ \<Rightarrow> []) ''camera_stream_id'' JNull = jopt (f_camera_stream_id f)"
    "json_get_or (case manifest_member f of JObj m \<Rightarrow> m | _ \<Rightarrow> []) ''capture_config_digest'' JNull = jopt (f_capture_config_digest f)"
    "json_get_or (case manifest_member f of JObj m \<Rightarrow> m | _ \<Rightarrow> []) ''authorized_camera_id'' JNull = jopt (f_authorized_camera_id f)"
    by (simp_all add: manifest_member_def json_get_or_def)
  have text_or: "py_str (json_or (jopt s) (JStr [])) = str_or s []" for s
    by (cases s) (auto simp: jopt_def json_or_def)
  obtain m where m: "manifest_member f = JObj m" by (simp add: manifest_member_def)
  let ?digest = "str_or (f_capture_config_digest f) []"
  obtain loaded where l: "str_or (f_camera_stream_id f) [] \<noteq> []" "?digest \<noteq> []"
      "(case loaded of JObj raw \<Rightarrow> bind_result (capture_config fl (str_or (f_camera_stream_id f) []) ?digest
           (dict_set raw ''capture_config_digest'' (JStr ?digest)) (str_or (f_authorized_camera_id f) []))
           (\<lambda>config. Inr (str_or (f_camera_stream_id f) [], dict_set raw ''capture_config_digest'' (JStr ?digest), config))
        | _ \<Rightarrow> Inl (TypeError ''object does not support item assignment'')) = Inr (camera, metadata, config)"
    using assms get by (auto simp: manifest_entry_def m text_or Let_def bind_result_eq_Inr split: if_splits)
  obtain raw where r: "camera = str_or (f_camera_stream_id f) []" "camera \<noteq> []" "?digest \<noteq> []"
      "metadata = dict_set raw ''capture_config_digest'' (JStr ?digest)"
      "capture_config fl camera ?digest metadata (str_or (f_authorized_camera_id f) []) = Inr config"
    using l by (cases loaded) (auto simp: bind_result_eq_Inr)
  have c: "cc_capture_config_digest config = ?digest" "cc_camera_stream_id config = camera"
    "cc_authorized_camera_id config = str_or (f_authorized_camera_id f) []" "metadata_fits fl metadata config"
    using r(4,5) by (auto simp: capture_config_def metadata_fits_def bind_result_eq_Inr)
  have some: "str_or s [] \<noteq> [] \<Longrightarrow> s = Some (str_or s [])" for s by (cases s) (auto split: if_splits)
  show ?thesis using r(1-3) c some [of "f_camera_stream_id f"] some [of "f_capture_config_digest f"] by simp
qed

lemma dict_set_entry: "e \<in> set (dict_set d k v) \<Longrightarrow> e \<in> set d \<or> e = (k, v)"
  by (induction d) (auto split: if_splits)

lemma foldl_dict_entries:
  "e \<in> set (foldl (\<lambda>d (camera, metadata, _). dict_set d camera metadata) d entries) \<Longrightarrow>
    e \<in> set d \<or> (\<exists>c. (fst e, snd e, c) \<in> set entries)"
proof (induction entries arbitrary: d)
  case (Cons x xs)
  obtain k v c where x: "x = (k, v, c)" by (cases x)
  have "e \<in> set (dict_set d k v) \<or> (\<exists>c. (fst e, snd e, c) \<in> set xs)" using Cons.IH Cons.prems by (simp add: x)
  then show ?case using dict_set_entry [of e k v d] by (auto simp: x)
qed simp

lemma fst_dict_set: "fst ` set (dict_set d k v) = insert k (fst ` set d)"
  by (metis dict_keys_set set_map)

lemma foldl_dict_keys:
  "set (dict_keys (foldl (\<lambda>d (camera, metadata, _). dict_set d camera metadata) d entries))
    = set (dict_keys d) \<union> set (map fst entries)"
proof (induction entries arbitrary: d)
  case (Cons x xs)
  obtain k v c where x: "x = (k, v, c)" by (cases x)
  show ?case using Cons.IH [of "dict_set d k v"] by (simp add: x fst_dict_set)
qed simp

text \<open>The members of a manifest that the matcher wrote: one snapshot per frame, in camera order.\<close>

lemma manifest_members_of_payload:
  assumes "cl_manifest_json claim = canonical_json (build_manifest_payload session frames mode window span anchor key)"
    and "\<forall>f \<in> set (dict_values frames). readable fl f"
    and "set (map lm_camera_stream_id (cl_members claim)) = set (map camera_of (dict_values frames))"
  shows "\<exists>metadata. manifest_members fl claim = Inr (sort_key cc_camera_stream_id
        (map (\<lambda>f. snd (snd (manifest_entry_of fl f))) (sort_key member_order (dict_values frames))), metadata)
    \<and> set (dict_keys metadata) = set (map camera_of (dict_values frames))
    \<and> (\<forall>c md. (c, md) \<in> set metadata \<longrightarrow> (\<exists>f \<in> set (dict_values frames). camera_of f = c \<and> metadata_fits fl md (snd (snd (manifest_entry_of fl f)))))"
proof -
  let ?p = "build_manifest_payload session frames mode window span anchor key"
  let ?fs = "sort_key member_order (dict_values frames)"
  let ?es = "map (manifest_entry_of fl) ?fs"
  let ?md = "foldl (\<lambda>d (camera, metadata, _). dict_set d camera metadata) [] ?es"
  obtain kvs where kvs: "jnorm ?p = JObj kvs"
      "json_get_or kvs ''members'' JNull = JList (map (\<lambda>f. jnorm (manifest_member f)) ?fs)"
    using manifest_payload_members by blast
  have loaded: "loads fl (JStr (cl_manifest_json claim)) = Inr (JObj kvs)"
    by (simp add: loads_def assms(1) json_loads_canonical [OF manifest_payload_wf] kvs(1))
  have entry: "manifest_entry fl (manifest_member f) = Inr (manifest_entry_of fl f)" if "f \<in> set (dict_values frames)" for f
    using readable_entry assms(2) that by blast
  then have entries: "map_result (manifest_entry fl) (map (\<lambda>f. jnorm (manifest_member f)) ?fs) = Inr ?es"
    unfolding map_result_Inr_iff list_all2_map1 list_all2_map2 manifest_member_entry list_all2_same by simp
  have of_entry: "fst (manifest_entry_of fl f) = camera_of f"
      "metadata_fits fl (fst (snd (manifest_entry_of fl f))) (snd (snd (manifest_entry_of fl f)))" if "f \<in> set (dict_values frames)" for f
    using manifest_entry_Inr [of fl f "fst (manifest_entry_of fl f)" "fst (snd (manifest_entry_of fl f))" "snd (snd (manifest_entry_of fl f))"] entry [OF that]
    by (auto simp: camera_of_def)
  have keys: "set (dict_keys ?md) = set (map camera_of (dict_values frames))"
    unfolding foldl_dict_keys using of_entry(1) by (force simp: image_iff)
  have fits: "\<exists>f \<in> set (dict_values frames). camera_of f = c \<and> metadata_fits fl md (snd (snd (manifest_entry_of fl f)))"
    if md: "(c, md) \<in> set ?md" for c md
  proof -
    obtain cfg where "(c, md, cfg) \<in> set ?es" using foldl_dict_entries [OF md] by auto
    then have "(c, md, cfg) \<in> manifest_entry_of fl ` set (dict_values frames)" unfolding set_map set_sort .
    then obtain f where "f \<in> set (dict_values frames)" "(c, md, cfg) = manifest_entry_of fl f" by (rule imageE) simp
    then show ?thesis using of_entry [of f] by (metis fst_conv snd_conv)
  qed
  have "manifest_members fl claim = Inr (sort_key cc_camera_stream_id (map (\<lambda>f. snd (snd (manifest_entry_of fl f))) ?fs), ?md)"
    using keys assms(3) by (simp add: manifest_members_def loaded kvs(2) entries Let_def comp_def case_prod_beta)
  then show ?thesis using keys fits by blast
qed

section \<open>Frames of the archive\<close>

text \<open>A payload carries the archived bytes of its member, of the recorded size and digest.\<close>

definition carries :: "(string \<Rightarrow> bytes option) \<Rightarrow> LiveFrameMember \<Rightarrow> FramePayload \<Rightarrow> bool" where
  "carries files member p \<longleftrightarrow>
     files (lm_file_path member) = Some (fp_image_bytes p)
     \<and> int (length (fp_image_bytes p)) = lm_image_size member
     \<and> sha256_bytes (fp_image_bytes p) = lm_content_digest member \<and> fp_content_digest p = lm_content_digest member
     \<and> fp_source_frame_uid p = lm_source_frame_uid member \<and> fp_camera_stream_id p = lm_camera_stream_id member
     \<and> fp_frame_sequence p = lm_frame_sequence member
     \<and> fp_capture_timestamp_device_ms p = lm_capture_timestamp_ms member"

lemma frame_payload_carries:
  "frame_payload fl files claim config utc md member = Inr p \<Longrightarrow> carries files member p"
  by (auto simp: frame_payload_def carries_def bind_result_eq_Inr split: option.splits if_splits)

definition intact :: "(string \<Rightarrow> bytes option) \<Rightarrow> LiveFrameMember \<Rightarrow> bool" where
  "intact files member \<longleftrightarrow>
     (case files (lm_file_path member) of None \<Rightarrow> False
      | Some payload \<Rightarrow> int (length payload) = lm_image_size member \<and> sha256_bytes payload = lm_content_digest member)"

lemma frame_payload_total:
  assumes "intact files member" "dict_get md (lm_camera_stream_id member) = Some metadata" "metadata_fits fl metadata cfg"
  shows "\<exists>p. frame_payload fl files claim config utc md member = Inr p"
  using assms by (auto simp: intact_def frame_payload_def metadata_fits_def split: option.splits)

lemma build_credited_Inr:
  assumes "build_credited_frame_set fl files serialize claim credit session config received ms ms' utc = Inr envelope"
  obtains configs md frames where
    "envelope = FrameSetEnvelope (credited_frame_set claim credit session config utc configs frames)"
    "manifest_members fl claim = Inr (configs, md)"
    "list_all2 (carries files) (cl_members claim) frames"
    "ms < lease_deadline received credit" "ms' < lease_deadline received credit"
    "cd_earliest_acceptable_freshness_origin_utc_ms credit \<le> cl_freshness_origin_ms claim"
    "utc + cd_ingress_reserve_ms credit < effective_deadline claim credit config"
    "int (length (serialize envelope)) \<le> min (ng_maximum_payload_bytes session) (cd_maximum_payload_bytes credit)"
proof -
  obtain configs md frames payload where b: "manifest_members fl claim = Inr (configs, md)"
      "map_result (frame_payload fl files claim config utc md) (cl_members claim) = Inr frames"
      "envelope = FrameSetEnvelope (credited_frame_set claim credit session config utc configs frames)"
      "serialize_with_limit serialize envelope (min (ng_maximum_payload_bytes session) (cd_maximum_payload_bytes credit)) = Inr payload"
      "ms < lease_deadline received credit" "ms' < lease_deadline received credit"
      "cd_earliest_acceptable_freshness_origin_utc_ms credit \<le> cl_freshness_origin_ms claim"
      "utc + cd_ingress_reserve_ms credit < effective_deadline claim credit config"
    using assms by (auto simp: build_credited_frame_set_def bind_result_eq_Inr Let_def split: if_splits)
  have "list_all2 (carries files) (cl_members claim) frames"
    using b(2) unfolding map_result_Inr_iff by (rule list_all2_mono) (rule frame_payload_carries)
  moreover have "int (length (serialize envelope)) \<le> min (ng_maximum_payload_bytes session) (cd_maximum_payload_bytes credit)"
    using b(4) by (auto simp: serialize_with_limit_def validate_size_def bind_result_eq_Inr Let_def split: if_splits)
  ultimately show ?thesis using that b by blast
qed

section \<open>From the ledger to the wire\<close>

lemma stored_members:
  assumes "ledger_wf db" "persist_frame_set_manifest id t fset db = (Inr True, db')"
  shows "filter (\<lambda>m. mm_frame_set_uid m = str_or (fs_frame_set_uid fset) []) (db_members db')
    = map (member_row (str_or (fs_frame_set_uid fset) [])) (sort_key camera_of (dict_values (fs_frames fset)))"
proof -
  let ?uid = "str_or (fs_frame_set_uid fset) []"
  obtain ch where c: "manifest_changes t fset db = Inr ch" "commit_changes ch db = Inr db'"
    using assms(1) by (cases rule: persist_cases [of db fset t]) (use assms(2) in simp_all)
  have "dict_get (db_manifests db) ?uid = None" by (rule commit_absent(1) [OF c])
  then have "filter (\<lambda>m. mm_frame_set_uid m = ?uid) (db_members db) = []"
    using assms(1) by (auto simp: filter_empty_conv ledger_wf_def members_stored_def)
  then show ?thesis using stored_rows(3) [OF assms] by (simp add: member_row_def comp_def)
qed

lemma stored_claim_members:
  assumes "ledger_wf db" "persist_frame_set_manifest id t fset db = (Inr True, db')"
  shows "map lm_camera_stream_id (cl_members (live_snapshot db' (manifest_row t fset) credit off))
    = sort (map camera_of (dict_values (fs_frames fset)))"
proof -
  let ?rows = "map (member_row (str_or (fs_frame_set_uid fset) [])) (sort_key camera_of (dict_values (fs_frames fset)))"
  have cams: "map mm_camera_stream_id ?rows = map camera_of (sort_key camera_of (dict_values (fs_frames fset)))"
    by (simp add: member_row_def)
  have sorted: "sorted (map mm_camera_stream_id ?rows)" unfolding cams by simp
  have "map lm_camera_stream_id (cl_members (live_snapshot db' (manifest_row t fset) credit off))
      = map mm_camera_stream_id (sort_key mm_camera_stream_id ?rows)"
    using stored_members [OF assms] by (simp add: live_snapshot_def manifest_row_def live_member_def comp_def)
  also have "\<dots> = map camera_of (sort_key camera_of (dict_values (fs_frames fset)))"
    using sort_key_id_if_sorted [OF sorted] cams by simp
  also have "\<dots> = sort (map camera_of (dict_values (fs_frames fset)))"
    by (rule properties_for_sort [symmetric]) (simp_all add: mset_map image_mset.compositionality)
  finally show ?thesis .
qed

text \<open>The manifest a frame set carries describes the frames it was built from, before and after archiving.\<close>

lemma archived_cameras: "map camera_of (dict_values (archive_members ids path frames)) = map camera_of (dict_values frames)"
  by (simp add: archive_members_def camera_of_def comp_def case_prod_beta)

lemma sendable:
  assumes claim: "cl_manifest_json claim = canonical_json (build_manifest_payload s frames mode window span anchor key)"
    and cams: "map lm_camera_stream_id (cl_members claim) = sort (map camera_of (dict_values frames))"
    and readable: "\<forall>f \<in> set (dict_values frames). readable fl f"
    and intact: "\<forall>member \<in> set (cl_members claim). intact files member"
    and lease: "ms < lease_deadline received credit" "ms' < lease_deadline received credit"
    and fresh: "cd_earliest_acceptable_freshness_origin_utc_ms credit \<le> cl_freshness_origin_ms claim"
      "utc + cd_ingress_reserve_ms credit < effective_deadline claim credit config"
    and limit: "0 < min (ng_maximum_payload_bytes session) (cd_maximum_payload_bytes credit)"
  shows "\<exists>cf. build_credited_frame_set fl files serialize claim credit session config received ms ms' utc
      = bind_result (validate_size (int (length (serialize (FrameSetEnvelope cf)))) (min (ng_maximum_payload_bytes session) (cd_maximum_payload_bytes credit)))
          (\<lambda>_. Inr (FrameSetEnvelope cf))
    \<and> cf_key cf = cl_key claim \<and> cf_manifest_digest cf = cl_manifest_digest claim
    \<and> list_all2 (carries files) (cl_members claim) (cf_frames cf)
    \<and> map cc_camera_stream_id (cf_capture_configs cf) = map fp_camera_stream_id (cf_frames cf)"
proof -
  let ?configs = "sort_key cc_camera_stream_id (map (\<lambda>f. snd (snd (manifest_entry_of fl f))) (sort_key member_order (dict_values frames)))"
  have set_cams: "set (map lm_camera_stream_id (cl_members claim)) = set (map camera_of (dict_values frames))"
    unfolding cams by simp
  obtain md where md: "manifest_members fl claim = Inr (?configs, md)" "set (dict_keys md) = set (map camera_of (dict_values frames))"
      "\<forall>c metadata. (c, metadata) \<in> set md \<longrightarrow> (\<exists>f \<in> set (dict_values frames). camera_of f = c \<and> metadata_fits fl metadata (snd (snd (manifest_entry_of fl f))))"
    using manifest_members_of_payload [OF claim readable set_cams] by blast
  have "\<exists>p. frame_payload fl files claim config utc md member = Inr p" if m: "member \<in> set (cl_members claim)" for member
  proof -
    have "lm_camera_stream_id member \<in> set (dict_keys md)" using m set_cams md(2) by auto
    then obtain metadata where g: "dict_get md (lm_camera_stream_id member) = Some metadata" by (metis not_key_get option.exhaust)
    have "(lm_camera_stream_id member, metadata) \<in> set md" using g by (rule map_of_SomeD)
    with md(3) obtain cfg where "metadata_fits fl metadata cfg" by metis
    then show ?thesis using frame_payload_total g intact m by blast
  qed
  then obtain frames' where f: "map_result (frame_payload fl files claim config utc md) (cl_members claim) = Inr frames'"
    using map_result_total by blast
  then have carried: "list_all2 (carries files) (cl_members claim) frames'"
    unfolding map_result_Inr_iff by (rule list_all2_mono) (rule frame_payload_carries)
  have "map fp_camera_stream_id frames' = map lm_camera_stream_id (cl_members claim)"
    using carried by (induction rule: list_all2_induct) (auto simp: carries_def)
  moreover have "map cc_camera_stream_id ?configs = sort (map camera_of (dict_values frames))"
  proof -
    have same: "cc_camera_stream_id (snd (snd (manifest_entry_of fl f))) = camera_of f" if "f \<in># mset (dict_values frames)" for f
      using readable readable_entry [of fl f] manifest_entry_Inr [of fl f] that
      by (cases "manifest_entry_of fl f") (auto simp: camera_of_def)
    have "mset (map cc_camera_stream_id ?configs)
        = image_mset (\<lambda>f. cc_camera_stream_id (snd (snd (manifest_entry_of fl f)))) (mset (dict_values frames))"
      by (simp add: mset_map image_mset.compositionality comp_def)
    also have "\<dots> = image_mset camera_of (mset (dict_values frames))" by (rule image_mset_cong) (rule same)
    finally have "mset (map cc_camera_stream_id ?configs) = mset (map camera_of (dict_values frames))"
      unfolding mset_map [of camera_of] .
    then show ?thesis by (metis properties_for_sort sorted_sort_key)
  qed
  ultimately have same: "map cc_camera_stream_id ?configs = map fp_camera_stream_id frames'" using cams by simp
  let ?envelope = "FrameSetEnvelope (credited_frame_set claim credit session config utc ?configs frames')"
  let ?limit = "min (ng_maximum_payload_bytes session) (cd_maximum_payload_bytes credit)"
  have "validate_limit ?limit = Inr ()" using limit by (auto simp: validate_limit_def)
  then have "build_credited_frame_set fl files serialize claim credit session config received ms ms' utc
      = bind_result (validate_size (int (length (serialize ?envelope))) ?limit) (\<lambda>_. Inr ?envelope)"
    using lease fresh
    by (cases "validate_size (int (length (serialize ?envelope))) ?limit")
      (simp_all add: build_credited_frame_set_def serialize_with_limit_def md(1) f Let_def)
  then show ?thesis using carried same
    by (intro exI [of _ "credited_frame_set claim credit session config utc ?configs frames'"])
      (simp add: credited_frame_set_def proto_key_def)
qed

lemma manifest_text_nonempty: "canonical_json (build_manifest_payload s frames mode window span anchor key) \<noteq> []"
  unfolding canonical_json_text
  using json_text_first [OF json_wf_jnorm [OF manifest_payload_wf [of s frames mode window span anchor key]]] by auto

end
