(* ===== verification/SessionIdentity.thy ===== *)
theory SessionIdentity
  imports LatestLive
begin

text \<open>
  Who may send frames (services/session_identity.py): the scopes that a session token or a camera
  credential authorizes, the stores of active credentials, the caches of session and credential
  status and of the signing keys, and the verifiers that turn a token into a scope.

  The fields of \<open>AuthorizedSessionScope\<close> start with ss_, those of
  \<open>AuthorizedCameraIngestScope\<close> with ci_. PyJWT is a parameter (\<open>JwtLibrary\<close>); the answers of the
  Main service over HTTP and the readings of the clocks are arguments (\<open>AuthInputs\<close>), the answer
  being \<open>None\<close> when the request raises. \<open>int(time.time())\<close> is an integer of seconds; monotonic
  readings and cache lifetimes are integers of one unit.
\<close>

section \<open>Scopes\<close>

record AuthorizedSessionScope =
  ss_tenant_id :: string
  ss_site_id :: string
  ss_capture_session_id :: string
  ss_processing_job_id :: string
  ss_camera_ids :: "string set"
  ss_profile_digest :: string
  ss_authorized_subject :: string
  ss_token_jti :: string
  ss_expires_at :: int

record AuthorizedCameraIngestScope =
  ci_tenant_id :: string
  ci_site_id :: string
  ci_capture_session_id :: string
  ci_processing_job_id :: string
  ci_profile_digest :: string
  ci_camera_claim_id :: string
  ci_camera_id :: string
  ci_device_id :: string
  ci_authorized_subject :: string
  ci_token_jti :: string
  ci_issued_at :: int
  ci_expires_at :: int

text \<open>The scope a client declares in a request: the attributes the comparison reads.\<close>

record DeclaredScope =
  ds_tenant_id :: string
  ds_site_id :: string
  ds_capture_session_id :: string
  ds_processing_job_id :: string
  ds_profile_digest :: string

definition session_matches_declared_scope ::
  "AuthorizedSessionScope \<Rightarrow> DeclaredScope \<Rightarrow> string \<Rightarrow> string option \<Rightarrow> bool" where
  "session_matches_declared_scope scope declared camera_id device_id \<longleftrightarrow>
     ds_tenant_id declared = ss_tenant_id scope
     \<and> ds_site_id declared = ss_site_id scope
     \<and> ds_capture_session_id declared = ss_capture_session_id scope
     \<and> ds_processing_job_id declared = ss_processing_job_id scope
     \<and> ds_profile_digest declared = ss_profile_digest scope
     \<and> camera_id \<in> ss_camera_ids scope"

definition camera_scope_ids :: "AuthorizedCameraIngestScope \<Rightarrow> string set" where
  "camera_scope_ids scope = {ci_camera_id scope}"

definition camera_matches_declared_scope ::
  "AuthorizedCameraIngestScope \<Rightarrow> DeclaredScope \<Rightarrow> string \<Rightarrow> string option \<Rightarrow> bool" where
  "camera_matches_declared_scope scope declared camera_id device_id \<longleftrightarrow>
     ds_tenant_id declared = ci_tenant_id scope
     \<and> ds_site_id declared = ci_site_id scope
     \<and> ds_capture_session_id declared = ci_capture_session_id scope
     \<and> ds_processing_job_id declared = ci_processing_job_id scope
     \<and> ds_profile_digest declared = ci_profile_digest scope
     \<and> camera_id = ci_camera_id scope
     \<and> device_id = Some (ci_device_id scope)"

section \<open>Stores of active credentials\<close>

record 's ActiveSessionCredential =
  ac_token :: string
  ac_scope :: 's

type_synonym SessionStore = "(string, AuthorizedSessionScope ActiveSessionCredential) dict"
type_synonym CameraStore = "(string \<times> string, AuthorizedCameraIngestScope ActiveSessionCredential) dict"

definition register_session ::
  "int \<Rightarrow> string \<Rightarrow> AuthorizedSessionScope \<Rightarrow> SessionStore
   \<Rightarrow> AuthorizedSessionScope ActiveSessionCredential result \<times> SessionStore" where
  "register_session now token scope creds =
     (let credential = \<lparr> ac_token = token, ac_scope = scope \<rparr>; job = ss_processing_job_id scope
      in if token = [] then (Inl (SessionTokenError ''session token is required''), creds)
         else if ss_expires_at scope \<le> now then (Inl (SessionTokenError ''session token is expired''), creds)
         else if (case dict_get creds job of None \<Rightarrow> False | Some existing \<Rightarrow> ac_scope existing \<noteq> scope)
         then (Inl (SessionTokenError ''processing job credential scope cannot be replaced''), creds)
         else (Inr credential, dict_set creds job credential))"

text \<open>The authorization a stored manifest carries, as the scope it must have been accepted under.\<close>

definition claim_matches_scope :: "ClaimedFrameSet \<Rightarrow> AuthorizedSessionScope \<Rightarrow> bool" where
  "claim_matches_scope claim scope \<longleftrightarrow>
     Some (ss_tenant_id scope) = cl_tenant_id claim \<and> Some (ss_site_id scope) = cl_site_id claim
     \<and> ss_capture_session_id scope = cl_capture_session_id claim
     \<and> Some (ss_processing_job_id scope) = cl_processing_job_id claim
     \<and> Some (ss_profile_digest scope) = cl_profile_digest claim
     \<and> Some (ss_authorized_subject scope) = cl_authorized_subject claim
     \<and> Some (ss_token_jti scope) = cl_session_token_jti claim
     \<and> ss_camera_ids scope = set (authorized_camera_ids claim)"

definition resolve_for_claim ::
  "int \<Rightarrow> ClaimedFrameSet \<Rightarrow> SessionStore
   \<Rightarrow> AuthorizedSessionScope ActiveSessionCredential result \<times> SessionStore" where
  "resolve_for_claim now claim creds =
     (let job = str_or (cl_processing_job_id claim) []
      in if job = [] then (Inl (SessionTokenError ''authorized manifest is missing processing_job_id''), creds)
         else case dict_get creds job of
           None \<Rightarrow> (Inl (SessionTokenError ''active session credential is unavailable''), creds)
         | Some credential \<Rightarrow>
             if ss_expires_at (ac_scope credential) \<le> now
             then (Inl (SessionTokenError ''active session credential is expired''), dict_pop creds job)
             else if \<not> claim_matches_scope claim (ac_scope credential)
             then (Inl (SessionTokenError ''active credential does not match authorized manifest''), creds)
             else (Inr credential, creds))"

definition revoke_session :: "string \<Rightarrow> SessionStore \<Rightarrow> bool \<times> SessionStore" where
  "revoke_session job creds = (dict_get creds job \<noteq> None, dict_pop creds job)"

definition clear_sessions :: "SessionStore \<Rightarrow> SessionStore" where
  "clear_sessions creds = []"

definition register_camera ::
  "int \<Rightarrow> string \<Rightarrow> AuthorizedCameraIngestScope \<Rightarrow> CameraStore
   \<Rightarrow> AuthorizedCameraIngestScope ActiveSessionCredential result \<times> CameraStore" where
  "register_camera now token scope creds =
     (let credential = \<lparr> ac_token = token, ac_scope = scope \<rparr>;
          key = (ci_processing_job_id scope, ci_camera_id scope);
          existing = dict_get creds key
      in if token = [] then (Inl (SessionTokenError ''camera ingest credential is required''), creds)
         else if ci_expires_at scope \<le> now
         then (Inl (SessionTokenError ''camera ingest credential is expired''), creds)
         else if (case existing of None \<Rightarrow> False
                  | Some e \<Rightarrow> ci_camera_claim_id (ac_scope e) \<noteq> ci_camera_claim_id scope)
         then (Inl (SessionTokenError ''active camera claim cannot be replaced''), creds)
         else if (case existing of None \<Rightarrow> False | Some e \<Rightarrow> ci_issued_at (ac_scope e) > ci_issued_at scope)
         then (Inl (SessionTokenError ''older camera ingest credential cannot replace a newer one''), creds)
         else (Inr credential, dict_set creds key credential))"

definition resolve_camera ::
  "int \<Rightarrow> string \<Rightarrow> string \<Rightarrow> CameraStore
   \<Rightarrow> AuthorizedCameraIngestScope ActiveSessionCredential result \<times> CameraStore" where
  "resolve_camera now job camera_id creds =
     (case dict_get creds (job, camera_id) of
        None \<Rightarrow> (Inl (SessionTokenError ''active camera ingest credential is unavailable''), creds)
      | Some credential \<Rightarrow>
          if ci_expires_at (ac_scope credential) \<le> now
          then (Inl (SessionTokenError ''active camera ingest credential is expired''), dict_pop creds (job, camera_id))
          else (Inr credential, creds))"

definition assert_current_camera ::
  "int \<Rightarrow> AuthorizedCameraIngestScope \<Rightarrow> CameraStore \<Rightarrow> unit result \<times> CameraStore" where
  "assert_current_camera now scope creds =
     (case resolve_camera now (ci_processing_job_id scope) (ci_camera_id scope) creds of
        (Inl e, creds) \<Rightarrow> (Inl e, creds)
      | (Inr credential, creds) \<Rightarrow>
          (if ac_scope credential \<noteq> scope
           then Inl (SessionTokenError ''camera ingest credential has been replaced'') else Inr (), creds))"

definition revoke_camera :: "string \<Rightarrow> string \<Rightarrow> CameraStore \<Rightarrow> bool \<times> CameraStore" where
  "revoke_camera job camera_id creds = (dict_get creds (job, camera_id) \<noteq> None, dict_pop creds (job, camera_id))"

definition clear_cameras :: "CameraStore \<Rightarrow> CameraStore" where
  "clear_cameras creds = []"

section \<open>Status caches\<close>

record 'k StatusCache =
  st_ttl :: int
  st_active_until :: "('k, int) dict"

definition new_session_status_cache :: "string \<Rightarrow> int \<Rightarrow> int \<Rightarrow> string StatusCache result" where
  "new_session_status_cache url_template cache_ttl timeout =
     (if \<not> sublist ''{processing_job_id}'' url_template
      then Inl (ValueError ''session status URL must contain {processing_job_id}'')
      else if cache_ttl \<le> 0 \<or> timeout \<le> 0
      then Inl (ValueError ''session status cache and timeout must be positive'')
      else Inr \<lparr> st_ttl = cache_ttl, st_active_until = [] \<rparr>)"

definition new_credential_status_cache :: "string \<Rightarrow> int \<Rightarrow> int \<Rightarrow> (string \<times> string) StatusCache result" where
  "new_credential_status_cache url_template cache_ttl timeout =
     (if \<not> sublist ''{credential_id}'' url_template
      then Inl (ValueError ''credential status URL must contain {credential_id}'')
      else if cache_ttl \<le> 0 \<or> timeout \<le> 0
      then Inl (ValueError ''credential status cache and timeout must be positive'')
      else Inr \<lparr> st_ttl = cache_ttl, st_active_until = [] \<rparr>)"

text \<open>\<open>payload.get(key)\<close> of a JSON object; \<open>None\<close> for a missing key is JSON null.\<close>

definition json_get :: "(string \<times> json) list \<Rightarrow> string \<Rightarrow> json" where
  "json_get kvs key = (case dict_get kvs key of None \<Rightarrow> JNull | Some v \<Rightarrow> v)"

definition fresh_entry :: "'k StatusCache \<Rightarrow> 'k \<Rightarrow> int \<Rightarrow> bool" where
  "fresh_entry c key now = (case dict_get (st_active_until c) key of None \<Rightarrow> False | Some until \<Rightarrow> until > now)"

fun session_confirmed :: "string \<Rightarrow> json \<Rightarrow> bool" where
  "session_confirmed job (JObj payload) \<longleftrightarrow>
     json_get payload ''processingJobId'' = JStr job \<and> json_get payload ''known'' = JBool True
     \<and> json_get payload ''active'' = JBool True"
| "session_confirmed job _ \<longleftrightarrow> False"

definition session_assert_active ::
  "int \<Rightarrow> string \<Rightarrow> json option \<Rightarrow> string StatusCache \<Rightarrow> unit result \<times> string StatusCache" where
  "session_assert_active now job fetched c =
     (if fresh_entry c job now then (Inr (), c)
      else case fetched of
        None \<Rightarrow> (Inl (SessionTokenError ''could not verify Main session status''), c)
      | Some payload \<Rightarrow>
          if \<not> session_confirmed job payload
          then (Inl (SessionTokenError ''Main session is inactive or unknown''),
                c\<lparr> st_active_until := dict_pop (st_active_until c) job \<rparr>)
          else (Inr (), c\<lparr> st_active_until := dict_set (st_active_until c) job (now + st_ttl c) \<rparr>))"

fun credential_confirmed :: "string \<times> string \<Rightarrow> json \<Rightarrow> bool" where
  "credential_confirmed (credential_id, job) (JObj payload) \<longleftrightarrow>
     json_get payload ''credentialId'' = JStr credential_id
     \<and> json_get payload ''processingJobId'' = JStr job
     \<and> json_get payload ''credentialKind'' = JStr ''CAMERA_INGEST''
     \<and> json_get payload ''known'' = JBool True \<and> json_get payload ''active'' = JBool True"
| "credential_confirmed _ _ \<longleftrightarrow> False"

definition credential_assert_active ::
  "int \<Rightarrow> string \<times> string \<Rightarrow> json option \<Rightarrow> (string \<times> string) StatusCache
   \<Rightarrow> unit result \<times> (string \<times> string) StatusCache" where
  "credential_assert_active now key fetched c =
     (if fresh_entry c key now then (Inr (), c)
      else
        (let active = dict_pop (st_active_until c) key; c = c\<lparr> st_active_until := active \<rparr>
         in case fetched of
              None \<Rightarrow> (Inl (SessionTokenError ''could not verify Main camera credential status''), c)
            | Some payload \<Rightarrow>
                if \<not> credential_confirmed key payload
                then (Inl (SessionTokenError ''Main camera credential is inactive or unknown''), c)
                else (let active = (if length active \<ge> 1024 then tl active else active)
                      in (Inr (), c\<lparr> st_active_until := dict_set active key (now + st_ttl c) \<rparr>))))"

section \<open>Signing keys\<close>

text \<open>
  What the code uses of PyJWT: the unverified header and claims of a token, the verified claims
  under a key, issuer, audience, leeway and list of required claims, and the parsing of a JWK;
  \<open>None\<close> is a \<open>PyJWTError\<close>. PyJWT accepts only a string as kid.
\<close>

record JwtHeader =
  jh_alg :: json
  jh_kid :: "string option"

type_synonym claims = "(string \<times> json) list"

record 'key JwtLibrary =
  jw_header :: "string \<Rightarrow> JwtHeader option"
  jw_unverified :: "string \<Rightarrow> claims option"
  jw_decode :: "string \<Rightarrow> 'key \<Rightarrow> string \<Rightarrow> string \<Rightarrow> int \<Rightarrow> string list \<Rightarrow> claims option"
  jw_parse_jwk :: "json \<Rightarrow> 'key option"

record 'key JwksKeyCache =
  jk_ttl :: int
  jk_keys :: "(string, 'key) dict"
  jk_loaded_at :: "int option"

definition new_jwks_key_cache :: "string \<Rightarrow> int \<Rightarrow> int \<Rightarrow> 'key JwksKeyCache result" where
  "new_jwks_key_cache jwks_url cache_ttl timeout =
     (if jwks_url = [] then Inl (ValueError ''jwks_url is required'')
      else if cache_ttl \<le> 0 then Inl (ValueError ''cache_ttl_sec must be positive'')
      else if timeout \<le> 0 then Inl (ValueError ''timeout_sec must be positive'')
      else Inr \<lparr> jk_ttl = cache_ttl, jk_keys = [], jk_loaded_at = None \<rparr>)"

text \<open>The loop of \<open>_refresh\<close> over the raw keys; \<open>None\<close> when an entry makes it raise.\<close>

fun parse_jwks :: "(json \<Rightarrow> 'key option) \<Rightarrow> json list \<Rightarrow> (string, 'key) dict \<Rightarrow> (string, 'key) dict option" where
  "parse_jwks parse [] parsed = Some parsed"
| "parse_jwks parse (JObj raw # rest) parsed =
     (case json_get raw ''kid'' of
        JStr kid \<Rightarrow>
          if kid = [] \<or> dict_get parsed kid \<noteq> None then None
          else if json_get raw ''kty'' \<noteq> JStr ''RSA'' \<or> json_get raw ''alg'' \<noteq> JStr ''RS256''
          then parse_jwks parse rest parsed
          else (case parse (JObj raw) of
                  None \<Rightarrow> None | Some key \<Rightarrow> parse_jwks parse rest (dict_set parsed kid key))
      | _ \<Rightarrow> None)"
| "parse_jwks parse (_ # rest) parsed = None"

fun jwks_of :: "(json \<Rightarrow> 'key option) \<Rightarrow> json option \<Rightarrow> (string, 'key) dict option" where
  "jwks_of parse (Some (JObj payload)) =
     (case json_get payload ''keys'' of
        JList raw_keys \<Rightarrow>
          if raw_keys = [] then None
          else (case parse_jwks parse raw_keys [] of
                  Some parsed \<Rightarrow> if parsed = [] then None else Some parsed | None \<Rightarrow> None)
      | _ \<Rightarrow> None)"
| "jwks_of parse _ = None"

definition jwks_refresh ::
  "(json \<Rightarrow> 'key option) \<Rightarrow> int \<Rightarrow> json option \<Rightarrow> 'key JwksKeyCache \<Rightarrow> unit result \<times> 'key JwksKeyCache" where
  "jwks_refresh parse loaded_at fetched c =
     (case jwks_of parse fetched of
        None \<Rightarrow> (Inl (SessionTokenError ''could not refresh Main JWKS''), c)
      | Some parsed \<Rightarrow> (Inr (), c\<lparr> jk_keys := parsed, jk_loaded_at := Some loaded_at \<rparr>))"

definition jwks_stale :: "int \<Rightarrow> 'key JwksKeyCache \<Rightarrow> bool" where
  "jwks_stale now c \<longleftrightarrow> jk_keys c = []
     \<or> (case jk_loaded_at c of None \<Rightarrow> True | Some loaded_at \<Rightarrow> now - loaded_at \<ge> jk_ttl c)"

text \<open>A lookup refreshes stale keys first, and refreshes once more for an unknown kid.\<close>

definition jwks_lookup ::
  "(json \<Rightarrow> 'key option) \<Rightarrow> int \<Rightarrow> json option \<Rightarrow> string \<Rightarrow> 'key JwksKeyCache \<Rightarrow> 'key result \<times> 'key JwksKeyCache" where
  "jwks_lookup parse now fetched kid c =
     (case dict_get (jk_keys c) kid of
        Some key \<Rightarrow> (Inr key, c)
      | None \<Rightarrow>
          (case jwks_refresh parse now fetched c of
             (Inl e, c) \<Rightarrow> (Inl e, c)
           | (Inr _, c) \<Rightarrow>
               (case dict_get (jk_keys c) kid of
                  Some key \<Rightarrow> (Inr key, c)
                | None \<Rightarrow> (Inl (SessionTokenError ''token kid is not present in Main JWKS''), c))))"

definition jwks_resolve ::
  "(json \<Rightarrow> 'key option) \<Rightarrow> int \<Rightarrow> int \<Rightarrow> json option \<Rightarrow> json option \<Rightarrow> string
   \<Rightarrow> 'key JwksKeyCache \<Rightarrow> 'key result \<times> 'key JwksKeyCache" where
  "jwks_resolve parse now now' fetched fetched' kid c =
     (if kid = [] then (Inl (SessionTokenError ''token header is missing kid''), c)
      else if jwks_stale now c
      then (case jwks_refresh parse now fetched c of
              (Inl e, c) \<Rightarrow> (Inl e, c)
            | (Inr _, c) \<Rightarrow> jwks_lookup parse now' fetched' kid c)
      else jwks_lookup parse now' fetched' kid c)"

section \<open>Claims\<close>

definition LEGACY_REQUIRED_CLAIMS :: "string list" where
  "LEGACY_REQUIRED_CLAIMS =
     [''iss'', ''aud'', ''sub'', ''tenant_id'', ''site_id'', ''capture_session_id'', ''processing_job_id'',
      ''camera_ids'', ''profile_digest'', ''mode'', ''iat'', ''nbf'', ''exp'', ''jti'']"

definition CAMERA_INGEST_REQUIRED_CLAIMS :: "string list" where
  "CAMERA_INGEST_REQUIRED_CLAIMS =
     [''iss'', ''aud'', ''sub'', ''credential_kind'', ''tenant_id'', ''site_id'', ''capture_session_id'',
      ''processing_job_id'', ''profile_digest'', ''camera_claim_id'', ''camera_id'', ''device_id'',
      ''iat'', ''nbf'', ''exp'', ''jti'']"

text \<open>\<open>PROFILE_DIGEST_PATTERN.fullmatch\<close>: 64 lowercase hexadecimal digits.\<close>

definition profile_digest_ok :: "string \<Rightarrow> bool" where
  "profile_digest_ok s \<longleftrightarrow> length s = 64 \<and> list_all is_hex_lower s"

text \<open>
  \<open>uuid.UUID(text)\<close> of the standard library: it removes the prefixes urn: and uuid:, outer braces
  and all hyphens, wants 32 characters and reads them with \<open>int(_, 16)\<close>, which also accepts outer
  white space, a plus sign, the prefix 0x and single underscores between digits.
\<close>

fun remove_all :: "string \<Rightarrow> string \<Rightarrow> string" where
  "remove_all sub [] = []"
| "remove_all sub (c # s) =
     (if prefix sub (c # s) then remove_all sub (drop (length sub - 1) s) else c # remove_all sub s)"

definition strip_chars :: "string \<Rightarrow> string \<Rightarrow> string" where
  "strip_chars cs s = rev (dropWhile (\<lambda>c. c \<in> set cs) (rev (dropWhile (\<lambda>c. c \<in> set cs) s)))"

fun read_hex :: "nat \<Rightarrow> string \<Rightarrow> nat option" where
  "read_hex acc [] = Some acc"
| "read_hex acc (c # s) =
     (case hex_digit c of
        Some v \<Rightarrow> read_hex (16 * acc + v) s
      | None \<Rightarrow>
          (if c \<noteq> CHR ''_'' then None
           else (case s of
             [] \<Rightarrow> None
           | d # r \<Rightarrow> (case hex_digit d of None \<Rightarrow> None | Some v \<Rightarrow> read_hex (16 * acc + v) r))))"

definition int_base16 :: "string \<Rightarrow> nat option" where
  "int_base16 s =
     (let s = strip s; s = (if take 1 s = ''+'' then drop 1 s else s);
          s = (if lower (take 2 s) = ''0x'' then (if take 1 (drop 2 s) = ''_'' then drop 3 s else drop 2 s) else s)
      in if s = [] \<or> take 1 s = ''_'' then None else read_hex 0 s)"

definition parse_uuid :: "string \<Rightarrow> uuid option" where
  "parse_uuid text_value =
     (let s = remove_all ''uuid:'' (remove_all ''urn:'' text_value);
          s = filter (\<lambda>c. c \<noteq> CHR ''-'') (strip_chars ''{}'' s)
      in if length s \<noteq> 32 then None else map_option (be_bytes 16) (int_base16 s))"

definition canonical_uuid :: "json \<Rightarrow> string \<Rightarrow> string result" where
  "canonical_uuid value claim_name =
     (case value of
        JStr s \<Rightarrow>
          (case parse_uuid s of
             None \<Rightarrow> Inl (SessionTokenError (claim_name @ '' must be a UUID string''))
           | Some u \<Rightarrow>
               if str_uuid u \<noteq> lower s
               then Inl (SessionTokenError (claim_name @ '' must use canonical UUID form''))
               else Inr (str_uuid u))
      | _ \<Rightarrow> Inl (SessionTokenError (claim_name @ '' must be a UUID string'')))"

definition required_text_claim :: "json \<Rightarrow> string \<Rightarrow> string result" where
  "required_text_claim value claim_name =
     (case value of
        JStr s \<Rightarrow>
          if strip s = [] then Inl (SessionTokenError (claim_name @ '' must be non-empty''))
          else if s \<noteq> strip s
          then Inl (SessionTokenError (claim_name @ '' must not contain outer whitespace''))
          else Inr s
      | _ \<Rightarrow> Inl (SessionTokenError (claim_name @ '' must be non-empty'')))"

text \<open>\<open>isinstance(value, int)\<close> holds of a bool too, which is the integer 0 or 1.\<close>

definition int_claim :: "json \<Rightarrow> string \<Rightarrow> int result" where
  "int_claim value claim_name =
     (case value of
        JInt n \<Rightarrow> Inr n
      | JBool b \<Rightarrow> Inr (if b then 1 else 0)
      | _ \<Rightarrow> Inl (SessionTokenError (claim_name @ '' must be an integer timestamp'')))"

definition profile_digest_claim :: "claims \<Rightarrow> string result" where
  "profile_digest_claim claims =
     (case json_get claims ''profile_digest'' of
        JStr s \<Rightarrow>
          if profile_digest_ok s then Inr s
          else Inl (SessionTokenError ''profile_digest must be a lowercase SHA-256 digest'')
      | _ \<Rightarrow> Inl (SessionTokenError ''profile_digest must be a lowercase SHA-256 digest''))"

definition uuid_claim :: "claims \<Rightarrow> string \<Rightarrow> string result" where
  "uuid_claim claims name = canonical_uuid (json_get claims name) name"

definition camera_ids_claim :: "claims \<Rightarrow> string set result" where
  "camera_ids_claim claims =
     (case json_get claims ''camera_ids'' of
        JList camera_ids \<Rightarrow>
          if camera_ids = [] then Inl (SessionTokenError ''camera_ids must be a non-empty list'')
          else bind_result (map_result (\<lambda>value. canonical_uuid value ''camera_ids'') camera_ids) (\<lambda>cameras.
            if card (set cameras) \<noteq> length camera_ids
            then Inl (SessionTokenError ''camera_ids must not contain duplicates'')
            else Inr (set cameras))
      | _ \<Rightarrow> Inl (SessionTokenError ''camera_ids must be a non-empty list''))"

definition subject_claim :: "claims \<Rightarrow> string result" where
  "subject_claim claims =
     (case json_get claims ''sub'' of
        JStr s \<Rightarrow> if strip s = [] then Inl (SessionTokenError ''sub must be non-empty'') else Inr (strip s)
      | _ \<Rightarrow> Inl (SessionTokenError ''sub must be non-empty''))"

definition scope_from_claims :: "claims \<Rightarrow> AuthorizedSessionScope result" where
  "scope_from_claims claims =
     bind_result (camera_ids_claim claims) (\<lambda>cameras.
     bind_result (profile_digest_claim claims) (\<lambda>digest.
     bind_result (subject_claim claims) (\<lambda>subject.
     bind_result (uuid_claim claims ''processing_job_id'') (\<lambda>job.
     bind_result (uuid_claim claims ''jti'') (\<lambda>jti.
       if jti \<noteq> job then Inl (SessionTokenError ''jti must equal processing_job_id'')
       else if json_get claims ''mode'' \<noteq> JStr ''LIVE''
       then Inl (SessionTokenError ''session token mode must be LIVE'')
       else bind_result (int_claim (json_get claims ''exp'') ''exp'') (\<lambda>expires_at.
     bind_result (uuid_claim claims ''tenant_id'') (\<lambda>tenant.
     bind_result (uuid_claim claims ''site_id'') (\<lambda>site.
     bind_result (uuid_claim claims ''capture_session_id'') (\<lambda>session.
       Inr \<lparr> ss_tenant_id = tenant, ss_site_id = site, ss_capture_session_id = session,
             ss_processing_job_id = job, ss_camera_ids = cameras, ss_profile_digest = digest,
             ss_authorized_subject = subject, ss_token_jti = jti, ss_expires_at = expires_at \<rparr>)))))))))"

definition camera_ingest_scope_from_claims :: "claims \<Rightarrow> AuthorizedCameraIngestScope result" where
  "camera_ingest_scope_from_claims claims =
     (if json_get claims ''credential_kind'' \<noteq> JStr ''CAMERA_INGEST''
      then Inl (SessionTokenError ''credential_kind must be CAMERA_INGEST'')
      else
     bind_result (profile_digest_claim claims) (\<lambda>digest.
     bind_result (required_text_claim (json_get claims ''sub'') ''sub'') (\<lambda>subject.
     bind_result (required_text_claim (json_get claims ''device_id'') ''device_id'') (\<lambda>device.
     bind_result (int_claim (json_get claims ''iat'') ''iat'') (\<lambda>issued_at.
     bind_result (int_claim (json_get claims ''exp'') ''exp'') (\<lambda>expires_at.
     bind_result (uuid_claim claims ''tenant_id'') (\<lambda>tenant.
     bind_result (uuid_claim claims ''site_id'') (\<lambda>site.
     bind_result (uuid_claim claims ''capture_session_id'') (\<lambda>session.
     bind_result (uuid_claim claims ''processing_job_id'') (\<lambda>job.
     bind_result (uuid_claim claims ''camera_claim_id'') (\<lambda>claim_id.
     bind_result (uuid_claim claims ''camera_id'') (\<lambda>camera.
     bind_result (uuid_claim claims ''jti'') (\<lambda>jti.
       Inr \<lparr> ci_tenant_id = tenant, ci_site_id = site, ci_capture_session_id = session,
             ci_processing_job_id = job, ci_profile_digest = digest, ci_camera_claim_id = claim_id,
             ci_camera_id = camera, ci_device_id = device, ci_authorized_subject = subject,
             ci_token_jti = jti, ci_issued_at = issued_at, ci_expires_at = expires_at \<rparr>)))))))))))))"

section \<open>Verifiers\<close>

text \<open>
  The readings of clocks and answers of the Main service during one call: those of the key cache
  (a second pair for its second refresh), the wall clock, and those of the two status caches. The
  verifiers of one server share their caches (\<open>AuthCaches\<close>), as the runtime builds them.
\<close>

record AuthInputs =
  ai_jwks_now :: int
  ai_jwks_now' :: int
  ai_jwks :: "json option"
  ai_jwks' :: "json option"
  ai_now :: int
  ai_status_now :: int
  ai_status :: "string \<Rightarrow> json option"
  ai_credential_now :: int
  ai_credential :: "string \<Rightarrow> json option"

record 'key AuthCaches =
  au_keys :: "'key JwksKeyCache"
  au_status :: "string StatusCache option"
  au_credentials :: "(string \<times> string) StatusCache option"

record TokenVerifier =
  vf_issuer :: string
  vf_audience :: string
  vf_leeway :: int

definition new_token_verifier :: "string \<Rightarrow> string \<Rightarrow> int \<Rightarrow> TokenVerifier result" where
  "new_token_verifier issuer audience leeway =
     (if issuer = [] \<or> audience = [] then Inl (ValueError ''issuer and audience are required'')
      else if leeway < 0 then Inl (ValueError ''leeway_sec must be nonnegative'')
      else Inr \<lparr> vf_issuer = issuer, vf_audience = audience, vf_leeway = leeway \<rparr>)"

text \<open>The part of \<open>verify\<close> both verifiers have: from the token to its verified claims.\<close>

definition verified_claims ::
  "'key JwtLibrary \<Rightarrow> AuthInputs \<Rightarrow> TokenVerifier \<Rightarrow> string list \<Rightarrow> string \<Rightarrow> string
   \<Rightarrow> 'key AuthCaches \<Rightarrow> claims result \<times> 'key AuthCaches" where
  "verified_claims lib inp v required name token caches =
     (if token = [] then (Inl (SessionTokenError (name @ '' is required'')), caches)
      else case jw_header lib token of
        None \<Rightarrow> (Inl (SessionTokenError (name @ '' validation failed'')), caches)
      | Some header \<Rightarrow>
          if jh_alg header \<noteq> JStr ''RS256''
          then (Inl (SessionTokenError (name @ '' algorithm must be RS256'')), caches)
          else (let (key, keys) = jwks_resolve (jw_parse_jwk lib) (ai_jwks_now inp) (ai_jwks_now' inp)
                      (ai_jwks inp) (ai_jwks' inp) (str_or (jh_kid header) []) (au_keys caches);
                    caches = caches\<lparr> au_keys := keys \<rparr>
                in case key of
                  Inl e \<Rightarrow> (Inl e, caches)
                | Inr k \<Rightarrow>
                    (case jw_decode lib token k (vf_issuer v) (vf_audience v) (vf_leeway v) required of
                       None \<Rightarrow> (Inl (SessionTokenError (name @ '' validation failed'')), caches)
                     | Some claims \<Rightarrow> (Inr claims, caches))))"

definition check_session_status :: "AuthInputs \<Rightarrow> string \<Rightarrow> 'key AuthCaches \<Rightarrow> unit result \<times> 'key AuthCaches" where
  "check_session_status inp job caches =
     (case au_status caches of
        None \<Rightarrow> (Inr (), caches)
      | Some c \<Rightarrow>
          (case session_assert_active (ai_status_now inp) job (ai_status inp job) c of
             (r, c) \<Rightarrow> (r, caches\<lparr> au_status := Some c \<rparr>)))"

definition check_credential_status ::
  "AuthInputs \<Rightarrow> string \<Rightarrow> string \<Rightarrow> 'key AuthCaches \<Rightarrow> unit result \<times> 'key AuthCaches" where
  "check_credential_status inp credential_id job caches =
     (case au_credentials caches of
        None \<Rightarrow> (Inr (), caches)
      | Some c \<Rightarrow>
          (case credential_assert_active (ai_credential_now inp) (credential_id, job)
                  (ai_credential inp credential_id) c of
             (r, c) \<Rightarrow> (r, caches\<lparr> au_credentials := Some c \<rparr>)))"

definition session_scope_active ::
  "AuthInputs \<Rightarrow> AuthorizedSessionScope \<Rightarrow> 'key AuthCaches \<Rightarrow> unit result \<times> 'key AuthCaches" where
  "session_scope_active inp scope caches =
     (if ss_expires_at scope \<le> ai_now inp then (Inl (SessionTokenError ''session token is expired''), caches)
      else check_session_status inp (ss_processing_job_id scope) caches)"

definition camera_scope_active ::
  "AuthInputs \<Rightarrow> AuthorizedCameraIngestScope \<Rightarrow> 'key AuthCaches \<Rightarrow> unit result \<times> 'key AuthCaches" where
  "camera_scope_active inp scope caches =
     (if ci_expires_at scope \<le> ai_now inp
      then (Inl (SessionTokenError ''camera ingest credential is expired''), caches)
      else case check_session_status inp (ci_processing_job_id scope) caches of
        (Inl e, caches) \<Rightarrow> (Inl e, caches)
      | (Inr _, caches) \<Rightarrow> check_credential_status inp (ci_token_jti scope) (ci_processing_job_id scope) caches)"

definition session_verify ::
  "'key JwtLibrary \<Rightarrow> AuthInputs \<Rightarrow> TokenVerifier \<Rightarrow> string \<Rightarrow> 'key AuthCaches
   \<Rightarrow> AuthorizedSessionScope result \<times> 'key AuthCaches" where
  "session_verify lib inp v token caches =
     (case verified_claims lib inp v LEGACY_REQUIRED_CLAIMS ''session token'' token caches of
        (Inl e, caches) \<Rightarrow> (Inl e, caches)
      | (Inr claims, caches) \<Rightarrow>
          (case scope_from_claims claims of
             Inl e \<Rightarrow> (Inl e, caches)
           | Inr scope \<Rightarrow>
               (case session_scope_active inp scope caches of
                  (Inl e, caches) \<Rightarrow> (Inl e, caches) | (Inr _, caches) \<Rightarrow> (Inr scope, caches))))"

definition camera_verify ::
  "'key JwtLibrary \<Rightarrow> AuthInputs \<Rightarrow> TokenVerifier \<Rightarrow> string \<Rightarrow> 'key AuthCaches
   \<Rightarrow> AuthorizedCameraIngestScope result \<times> 'key AuthCaches" where
  "camera_verify lib inp v token caches =
     (case verified_claims lib inp v CAMERA_INGEST_REQUIRED_CLAIMS ''camera ingest credential'' token caches of
        (Inl e, caches) \<Rightarrow> (Inl e, caches)
      | (Inr claims, caches) \<Rightarrow>
          (case camera_ingest_scope_from_claims claims of
             Inl e \<Rightarrow> (Inl e, caches)
           | Inr scope \<Rightarrow>
               (case camera_scope_active inp scope caches of
                  (Inl e, caches) \<Rightarrow> (Inl e, caches) | (Inr _, caches) \<Rightarrow> (Inr scope, caches))))"

datatype IngestScope =
    SessionScope AuthorizedSessionScope
  | CameraScope AuthorizedCameraIngestScope

record VersionedVerifier =
  vv_legacy :: "TokenVerifier option"
  vv_camera_ingest :: "TokenVerifier option"

definition new_versioned_verifier :: "TokenVerifier option \<Rightarrow> TokenVerifier option \<Rightarrow> VersionedVerifier result" where
  "new_versioned_verifier legacy camera_ingest =
     (if legacy = None \<and> camera_ingest = None
      then Inl (ValueError ''at least one ingest credential verifier is required'')
      else Inr \<lparr> vv_legacy = legacy, vv_camera_ingest = camera_ingest \<rparr>)"

definition versioned_verify ::
  "'key JwtLibrary \<Rightarrow> AuthInputs \<Rightarrow> VersionedVerifier \<Rightarrow> string \<Rightarrow> 'key AuthCaches
   \<Rightarrow> IngestScope result \<times> 'key AuthCaches" where
  "versioned_verify lib inp vv token caches =
     (case jw_unverified lib token of
        None \<Rightarrow> (Inl (SessionTokenError ''ingest credential is malformed''), caches)
      | Some unverified \<Rightarrow>
          (let kind = json_get unverified ''credential_kind''
           in if kind \<noteq> JNull
              then (case vv_camera_ingest vv of
                      Some v \<Rightarrow>
                        if kind \<noteq> JStr ''CAMERA_INGEST''
                        then (Inl (SessionTokenError ''unsupported ingest credential kind''), caches)
                        else (case camera_verify lib inp v token caches of
                                (r, caches) \<Rightarrow> (map_sum id CameraScope r, caches))
                    | None \<Rightarrow> (Inl (SessionTokenError ''unsupported ingest credential kind''), caches))
              else (case vv_legacy vv of
                      None \<Rightarrow> (Inl (SessionTokenError ''legacy session credential is disabled''), caches)
                    | Some v \<Rightarrow>
                        (case session_verify lib inp v token caches of
                           (r, caches) \<Rightarrow> (map_sum id SessionScope r, caches)))))"

definition versioned_assert_active ::
  "AuthInputs \<Rightarrow> VersionedVerifier \<Rightarrow> IngestScope \<Rightarrow> 'key AuthCaches \<Rightarrow> unit result \<times> 'key AuthCaches" where
  "versioned_assert_active inp vv ingest_scope caches =
     (case ingest_scope of
        CameraScope scope \<Rightarrow>
          (if vv_camera_ingest vv = None
           then (Inl (SessionTokenError ''camera ingest credential is disabled''), caches)
           else camera_scope_active inp scope caches)
      | SessionScope scope \<Rightarrow>
          (if vv_legacy vv = None
           then (Inl (SessionTokenError ''legacy session credential is disabled''), caches)
           else session_scope_active inp scope caches))"

text \<open>The metadata of a call, \<open>None\<close> when the context has none, as pairs of key and value.\<close>

definition extract_bearer_token :: "(string \<times> string) list option \<Rightarrow> string result" where
  "extract_bearer_token metadata =
     (case metadata of
        None \<Rightarrow> Inl (SessionTokenError ''authorization metadata is required'')
      | Some items \<Rightarrow>
          (case filter (\<lambda>(key, value). lower key = ''authorization'') items of
             [(_, value)] \<Rightarrow>
               (let scheme = takeWhile (\<lambda>c. c \<noteq> CHR '' '') value;
                    token = strip (drop (length scheme + 1) value)
                in if CHR '' '' \<notin> set value \<or> lower scheme \<noteq> ''bearer'' \<or> token = []
                   then Inl (SessionTokenError ''authorization must use Bearer credentials'')
                   else Inr token)
           | _ \<Rightarrow> Inl (SessionTokenError ''exactly one authorization value is required'')))"

section \<open>Canonical UUIDs\<close>

lemma remove_all_absent: "hd sub \<notin> set s \<Longrightarrow> sub \<noteq> [] \<Longrightarrow> remove_all sub s = s"
  by (induction sub s rule: remove_all.induct) (auto simp: prefix_def neq_Nil_conv append_eq_Cons_conv)

lemma strip_chars_absent: "set cs \<inter> set s = {} \<Longrightarrow> strip_chars cs s = s"
proof -
  assume "set cs \<inter> set s = {}"
  then have "dropWhile (\<lambda>c. c \<in> set cs) s = s" "dropWhile (\<lambda>c. c \<in> set cs) (rev s) = rev s"
    by (metis disjoint_iff dropWhile_eq_self_iff hd_in_set set_rev)+
  then show ?thesis by (simp add: strip_chars_def)
qed

lemma lower_hex [simp]: "is_hex_lower c \<Longrightarrow> lower_char c = c"
  by (auto simp: is_hex_lower_def lower_char_def Let_def)

lemma hex_digit_lower: "hex_digit (lower_char c) = hex_digit c"
proof -
  have "lower_char (lower_char c) = lower_char c"
    by (auto simp: lower_char_def Let_def)
  then show ?thesis by (simp add: hex_digit_def)
qed

lemma read_hex_digits:
  "list_all (\<lambda>c. hex_digit c \<noteq> None) s \<Longrightarrow>
    read_hex acc s = Some (foldl (\<lambda>a c. 16 * a + the (hex_digit c)) acc s)"
  by (induction s arbitrary: acc) auto

definition bytes_value :: "bytes \<Rightarrow> nat" where
  "bytes_value = foldl (\<lambda>a b. 256 * a + unat b) 0"

lemma be_bytes_value: "be_bytes (length bs) (bytes_value bs) = bs"
proof (induction bs rule: rev_induct)
  case (snoc b bs)
  have "unat b < 256" using unsigned_less [where 'a = nat, of b] by simp
  then have "unat (word_of_nat (256 * n + unat b) :: byte) = unat b" for n
    by (simp only: unat_of_nat) simp
  then have "word_of_nat (256 * n + unat b) = b" for n by (simp only: word_unat_eq_iff)
  then show ?case using snoc \<open>unat b < 256\<close> by (simp add: bytes_value_def del: of_nat_add of_nat_mult)
qed (simp add: bytes_value_def)

lemma hex_value_foldl:
  "foldl (\<lambda>a c. 16 * a + the (hex_digit c)) acc (hex bs) = foldl (\<lambda>a b. 256 * a + unat b) acc bs"
proof (induction bs arbitrary: acc)
  case (Cons b bs)
  have "unat b < 2 ^ 8" using unsigned_less [where 'a = nat, of b] by simp
  then have d: "unat b div 16 < 16" "unat b mod 16 < 16" by auto
  have "16 * (16 * acc + unat b div 16) + unat b mod 16 = 256 * acc + unat b" by simp
  then show ?case using Cons [of "256 * acc + unat b"] hex_digit_hex_char [OF d(1)] hex_digit_hex_char [OF d(2)]
    by (simp add: hex_def hex_byte_def algebra_simps)
qed (simp add: hex_def)

lemma of_char_lower: "(of_char (lower_char c) :: nat) =
    (if 65 \<le> (of_char c :: nat) \<and> (of_char c :: nat) \<le> 90 then of_char c + 32 else of_char c)"
  by (auto simp: lower_char_def Let_def)

lemma hex_or_hyphen:
  assumes "is_hex_lower (lower_char c) \<or> c = CHR ''-''"
  shows "\<not> is_space c" "c \<noteq> CHR ''u''" "c \<noteq> CHR ''{''" "c \<noteq> CHR ''}''" "c \<noteq> CHR ''+''" "c \<noteq> CHR ''_''"
    "lower_char c \<noteq> CHR ''x''"
  using assms of_char_lower [of c] by (auto simp: is_hex_lower_def is_space_def Let_def split: if_splits)

lemma lower_char_hyphen: "lower_char c = CHR ''-'' \<longleftrightarrow> c = CHR ''-''"
proof
  assume h: "lower_char c = CHR ''-''"
  show "c = CHR ''-''"
    using of_char_lower [of c] h by (auto simp: lower_char_def Let_def split: if_splits)
qed (simp add: lower_char_def)

lemma int_base16_digits:
  assumes "s \<noteq> []" "list_all (\<lambda>c. is_hex_lower (lower_char c)) s"
  shows "int_base16 s = read_hex 0 s"
proof -
  have c: "\<not> is_space c" "c \<noteq> CHR ''+''" "c \<noteq> CHR ''_''" "lower_char c \<noteq> CHR ''x''" if "c \<in> set s" for c
    using assms(2) that hex_or_hyphen [of c] by (auto simp: list_all_iff)
  have "strip s = s" by (rule strip_no_space) (use c(1) in \<open>auto simp: list_all_iff\<close>)
  moreover have "take 1 s \<noteq> ''+''" "take 1 s \<noteq> ''_''" using assms(1) c by (cases s; auto)+
  moreover have "lower (take 2 s) \<noteq> ''0x''"
  proof
    assume "lower (take 2 s) = ''0x''"
    then obtain a b r where "s = a # b # r" "lower_char b = CHR ''x''"
      by (cases s; cases "tl s") (auto simp: lower_def)
    with c(4) show False by simp
  qed
  ultimately show ?thesis using assms(1) by (simp add: int_base16_def Let_def)
qed

lemma lower_filter: "lower (filter (\<lambda>c. c \<noteq> CHR ''-'') s) = filter (\<lambda>c. c \<noteq> CHR ''-'') (lower s)"
  by (induction s) (auto simp: lower_def lower_char_hyphen)

lemma filter_hyphen_uuid: "length u = 16 \<Longrightarrow> filter (\<lambda>c. c \<noteq> CHR ''-'') (str_uuid u) = hex u"
proof -
  assume "length u = 16"
  have "filter (\<lambda>c. c \<noteq> CHR ''-'') (hex bs) = hex bs" for bs
    using hex_lower [of bs] by (auto simp: filter_id_conv list_all_iff is_hex_lower_def)
  moreover have "hex (xs @ ys) = hex xs @ hex ys" for xs ys by (simp add: hex_def)
  moreover note arg_cong [OF uuid_parts [OF \<open>length u = 16\<close>], of hex]
  ultimately show ?thesis by (simp add: str_uuid_def)
qed

lemma length_be_bytes [simp]: "length (be_bytes k n) = k"
  by (induction k n rule: be_bytes.induct) auto

lemma parse_uuid_canonical:
  assumes "length u = 16" "lower s = str_uuid u"
  shows "parse_uuid s = Some u"
proof -
  let ?d = "filter (\<lambda>c. c \<noteq> CHR ''-'') s"
  have chars: "is_hex_lower (lower_char c) \<or> c = CHR ''-''" if "c \<in> set s" for c
  proof -
    have "lower_char c \<in> set (str_uuid u)" using that assms(2) by (metis image_eqI list.set_map lower_def)
    then show ?thesis using str_uuid_chars [of u] lower_char_hyphen by (auto simp: list_all_iff)
  qed
  have not: "CHR ''u'' \<notin> set s" "set ''{}'' \<inter> set s = {}"
    using chars [of "CHR ''u''"] chars [of "CHR ''{''"] chars [of "CHR ''}''"]
      hex_or_hyphen(2) [of "CHR ''u''"] hex_or_hyphen(3) [of "CHR ''{''"] hex_or_hyphen(4) [of "CHR ''}''"] by auto
  have strip_all: "strip_chars ''{}'' (remove_all ''uuid:'' (remove_all ''urn:'' s)) = s"
    using remove_all_absent [of "''urn:''" s] remove_all_absent [of "''uuid:''" s] strip_chars_absent [OF not(2)] not(1)
    by simp
  have hexed: "lower ?d = hex u" using lower_filter [of s] filter_hyphen_uuid [OF assms(1)] assms(2) by simp
  have len: "length ?d = 32" using arg_cong [OF hexed, of length] assms(1) by (simp add: lower_def)
  have digits: "list_all (\<lambda>c. is_hex_lower (lower_char c)) ?d" using chars by (auto simp: list_all_iff)
  have "read_hex 0 ?d = Some (foldl (\<lambda>a c. 16 * a + the (hex_digit c)) 0 ?d)"
    by (rule read_hex_digits) (use digits in \<open>auto simp: list_all_iff hex_digit_def\<close>)
  also have "foldl (\<lambda>a c. 16 * a + the (hex_digit c)) 0 ?d = foldl (\<lambda>a c. 16 * a + the (hex_digit c)) 0 (lower ?d)"
    by (simp add: lower_def foldl_map hex_digit_lower)
  also have "\<dots> = bytes_value u" unfolding hexed hex_value_foldl by (simp add: bytes_value_def)
  finally have "int_base16 ?d = Some (bytes_value u)" using int_base16_digits [OF _ digits] len
    by (metis list.size(3) zero_neq_numeral)
  then show ?thesis using strip_all len be_bytes_value [of u] assms(1) by (simp add: parse_uuid_def Let_def)
qed

lemma canonical_uuid_iff:
  "canonical_uuid (JStr s) name = Inr w \<longleftrightarrow> w = lower s \<and> (\<exists>u. length u = 16 \<and> w = str_uuid u)"
proof
  assume "canonical_uuid (JStr s) name = Inr w"
  then obtain u where u: "parse_uuid s = Some u" "str_uuid u = lower s" "w = str_uuid u"
    by (auto simp: canonical_uuid_def split: option.splits if_splits)
  then have "length u = 16" by (auto simp: parse_uuid_def Let_def split: if_splits)
  with u show "w = lower s \<and> (\<exists>u. length u = 16 \<and> w = str_uuid u)" by auto
next
  assume "w = lower s \<and> (\<exists>u. length u = 16 \<and> w = str_uuid u)"
  then show "canonical_uuid (JStr s) name = Inr w"
    using parse_uuid_canonical [of _ s] by (auto simp: canonical_uuid_def)
qed

lemma canonical_uuid_text: "canonical_uuid v name = Inr w \<Longrightarrow> \<exists>s. v = JStr s \<and> w = lower s"
  by (cases v) (auto simp: canonical_uuid_def split: option.splits if_splits)

section \<open>What the status caches promise\<close>

text \<open>
  The contract both caches share: a call succeeds exactly when the key has an entry that is still
  valid or the answer of the Main service confirms it, and entries come from confirmations only.
  A history is a list of calls: the reading of the clock, the key and the answer.
\<close>

lemma update_entry: "(k, v) \<in> set (dict_set d k' v') \<Longrightarrow> (k, v) \<in> set d \<or> k = k' \<and> v = v'"
  by (induction d) (auto split: if_splits)

lemma pop_entry: "e \<in> set (dict_pop d k) \<Longrightarrow> e \<in> set d"
  by (auto simp: AList.delete_eq)

locale status_cache =
  fixes check :: "int \<Rightarrow> 'k \<Rightarrow> json option \<Rightarrow> 'k StatusCache \<Rightarrow> unit result \<times> 'k StatusCache"
    and confirmed :: "'k \<Rightarrow> json \<Rightarrow> bool"
  assumes accepts: "fst (check now key fetched c) = Inr () \<longleftrightarrow>
      fresh_entry c key now \<or> (\<exists>p. fetched = Some p \<and> confirmed key p)"
    and ttl_kept: "st_ttl (snd (check now key fetched c)) = st_ttl c"
    and entries: "e \<in> set (st_active_until (snd (check now key fetched c))) \<Longrightarrow>
      e \<in> set (st_active_until c)
      \<or> e = (key, now + st_ttl c) \<and> (\<exists>p. fetched = Some p \<and> confirmed key p)"
begin

lemma run_ttl: "st_ttl (run (\<lambda>c (t, k, answer). snd (check t k answer c)) c calls) = st_ttl c"
  by (induction calls arbitrary: c) (auto simp: ttl_kept split: prod.splits)

lemma run_entries:
  assumes "(k, u) \<in> set (st_active_until (run (\<lambda>c (t, k, answer). snd (check t k answer c)) c calls))"
  shows "(k, u) \<in> set (st_active_until c)
    \<or> (\<exists>t p. (t, k, Some p) \<in> set calls \<and> confirmed k p \<and> u = t + st_ttl c)"
  using assms
proof (induction calls arbitrary: c)
  case (Cons call calls)
  obtain now key fetched where call: "call = (now, key, fetched)" by (cases call)
  have "(k, u) \<in> set (st_active_until (snd (check now key fetched c)))
      \<or> (\<exists>t p. (t, k, Some p) \<in> set calls \<and> confirmed k p \<and> u = t + st_ttl (snd (check now key fetched c)))"
    using Cons.IH Cons.prems by (simp add: call)
  then show ?case
    using entries [of "(k, u)" now key fetched c] by (auto simp: call ttl_kept)
qed simp

lemma accepted_backed:
  assumes "st_active_until c = []" "0 < st_ttl c" "fst (check now key fetched (run (\<lambda>c (t, k, answer). snd (check t k answer c)) c calls)) = Inr ()"
  shows "\<exists>t p. (t, key, Some p) \<in> set (calls @ [(now, key, fetched)]) \<and> confirmed key p
    \<and> now < t + st_ttl c"
proof -
  consider "fresh_entry (run (\<lambda>c (t, k, answer). snd (check t k answer c)) c calls) key now" | p where "fetched = Some p" "confirmed key p"
    using assms(3) accepts by blast
  then show ?thesis
  proof cases
    case 1
    then obtain u where "(key, u) \<in> set (st_active_until (run (\<lambda>c (t, k, answer). snd (check t k answer c)) c calls))" "now < u"
      by (auto simp: fresh_entry_def dest: map_of_SomeD split: option.splits)
    then show ?thesis using run_entries assms(1) by fastforce
    next
    case 2
    then show ?thesis using assms(2) by (intro exI [of _ now] exI [of _ p]) simp
  qed
qed

end

interpretation session_status: status_cache session_assert_active session_confirmed
proof unfold_locales
  fix now key fetched and c :: "string StatusCache" and e
  show "fst (session_assert_active now key fetched c) = Inr () \<longleftrightarrow>
      fresh_entry c key now \<or> (\<exists>p. fetched = Some p \<and> session_confirmed key p)"
    by (auto simp: session_assert_active_def split: option.splits)
  show "st_ttl (snd (session_assert_active now key fetched c)) = st_ttl c"
    by (auto simp: session_assert_active_def split: option.splits)
  show "e \<in> set (st_active_until c) \<or> e = (key, now + st_ttl c) \<and> (\<exists>p. fetched = Some p \<and> session_confirmed key p)"
    if "e \<in> set (st_active_until (snd (session_assert_active now key fetched c)))"
    by (insert that, cases e) (auto simp: session_assert_active_def dest: update_entry pop_entry split: option.splits if_splits)
qed

interpretation credential_status: status_cache credential_assert_active credential_confirmed
proof unfold_locales
  fix now key fetched and c :: "(string \<times> string) StatusCache" and e
  show "fst (credential_assert_active now key fetched c) = Inr () \<longleftrightarrow>
      fresh_entry c key now \<or> (\<exists>p. fetched = Some p \<and> credential_confirmed key p)"
    by (auto simp: credential_assert_active_def Let_def split: option.splits)
  show "st_ttl (snd (credential_assert_active now key fetched c)) = st_ttl c"
    by (auto simp: credential_assert_active_def Let_def split: option.splits)
  show "e \<in> set (st_active_until c) \<or> e = (key, now + st_ttl c) \<and> (\<exists>p. fetched = Some p \<and> credential_confirmed key p)"
    if "e \<in> set (st_active_until (snd (credential_assert_active now key fetched c)))"
    by (insert that, cases e) (auto simp: credential_assert_active_def Let_def
        dest!: update_entry list.set_sel(2) [rotated] pop_entry split: option.splits if_splits)
qed

lemma length_dict_set: "length (dict_set d k v) \<le> Suc (length d)"
  by (induction d) auto

lemma length_dict_pop: "length (dict_pop d k) \<le> length d"
  by (simp add: AList.delete_eq)

lemma credential_cache_bound:
  assumes "length (st_active_until c) \<le> 1024"
  shows "length (st_active_until (snd (credential_assert_active now key fetched c))) \<le> 1024"
proof -
  let ?d = "dict_pop (st_active_until c) key"
  have "length ?d \<le> 1024" using assms length_dict_pop [of key "st_active_until c"] by simp
  then have "length (dict_set (if length ?d \<ge> 1024 then tl ?d else ?d) key (now + st_ttl c)) \<le> 1024"
    using length_dict_set [of key "now + st_ttl c" "if length ?d \<ge> 1024 then tl ?d else ?d"] by auto
  with \<open>length ?d \<le> 1024\<close> assms show ?thesis
    unfolding credential_assert_active_def Let_def by (auto split: option.splits simp del: length_tl)
qed

interpretation credential_bound: guarded_machine "\<lambda>c (t, k, a). snd (credential_assert_active t k a c)"
    "\<lambda>_. True" "\<lambda>c. length (st_active_until c) \<le> 1024"
  by unfold_locales (auto intro: credential_cache_bound)

section \<open>What the credential stores promise\<close>

text \<open>
  Both stores: an entry is always one that was registered under its own key, whatever else happens.
\<close>

locale credential_store =
  fixes step :: "('k, 's ActiveSessionCredential) dict \<Rightarrow> 'op \<Rightarrow> ('k, 's ActiveSessionCredential) dict"
    and registers :: "'op \<Rightarrow> (string \<times> 's) option"
    and key_of :: "'s \<Rightarrow> 'k"
  assumes stored: "(k, cred) \<in> set (step creds op) \<Longrightarrow> (k, cred) \<in> set creds
      \<or> registers op = Some (ac_token cred, ac_scope cred) \<and> k = key_of (ac_scope cred)"
begin

lemma run_stored:
  "(k, cred) \<in> set (run step creds ops) \<Longrightarrow> (k, cred) \<in> set creds
    \<or> (\<exists>op \<in> set ops. registers op = Some (ac_token cred, ac_scope cred)) \<and> k = key_of (ac_scope cred)"
proof (induction ops arbitrary: creds)
  case (Cons op ops)
  then show ?case using stored [of k cred creds op] by fastforce
qed simp

lemma found_registered:
  "dict_get (run step [] ops) k = Some cred \<Longrightarrow>
    k = key_of (ac_scope cred) \<and> (\<exists>op \<in> set ops. registers op = Some (ac_token cred, ac_scope cred))"
  by (drule map_of_SomeD, drule run_stored) simp

end

datatype session_op =
    SRegister int string AuthorizedSessionScope
  | SResolve int ClaimedFrameSet
  | SRevoke string
  | SClear

fun session_step :: "SessionStore \<Rightarrow> session_op \<Rightarrow> SessionStore" where
  "session_step creds (SRegister now token scope) = snd (register_session now token scope creds)"
| "session_step creds (SResolve now claim) = snd (resolve_for_claim now claim creds)"
| "session_step creds (SRevoke job) = snd (revoke_session job creds)"
| "session_step creds SClear = clear_sessions creds"

fun session_registers :: "session_op \<Rightarrow> (string \<times> AuthorizedSessionScope) option" where
  "session_registers (SRegister now token scope) =
     (if token \<noteq> [] \<and> now < ss_expires_at scope then Some (token, scope) else None)"
| "session_registers _ = None"

datatype camera_op =
    CRegister int string AuthorizedCameraIngestScope
  | CResolve int string string
  | CRevoke string string
  | CClear

fun camera_step :: "CameraStore \<Rightarrow> camera_op \<Rightarrow> CameraStore" where
  "camera_step creds (CRegister now token scope) = snd (register_camera now token scope creds)"
| "camera_step creds (CResolve now job camera_id) = snd (resolve_camera now job camera_id creds)"
| "camera_step creds (CRevoke job camera_id) = snd (revoke_camera job camera_id creds)"
| "camera_step creds CClear = clear_cameras creds"

fun camera_registers :: "camera_op \<Rightarrow> (string \<times> AuthorizedCameraIngestScope) option" where
  "camera_registers (CRegister now token scope) =
     (if token \<noteq> [] \<and> now < ci_expires_at scope then Some (token, scope) else None)"
| "camera_registers _ = None"

definition camera_key :: "AuthorizedCameraIngestScope \<Rightarrow> string \<times> string" where
  "camera_key scope = (ci_processing_job_id scope, ci_camera_id scope)"

interpretation sessions: credential_store session_step session_registers ss_processing_job_id
proof unfold_locales
  fix k cred creds op
  assume "(k, cred) \<in> set (session_step creds op)"
  then show "(k, cred) \<in> set creds
      \<or> session_registers op = Some (ac_token cred, ac_scope cred) \<and> k = ss_processing_job_id (ac_scope cred)"
    by (cases op) (auto simp: register_session_def resolve_for_claim_def revoke_session_def clear_sessions_def Let_def
        dest!: update_entry pop_entry split: if_splits option.splits)
qed

interpretation cameras: credential_store camera_step camera_registers camera_key
proof unfold_locales
  fix k cred creds op
  assume "(k, cred) \<in> set (camera_step creds op)"
  then show "(k, cred) \<in> set creds
      \<or> camera_registers op = Some (ac_token cred, ac_scope cred) \<and> k = camera_key (ac_scope cred)"
    by (cases op) (auto simp: register_camera_def resolve_camera_def revoke_camera_def clear_cameras_def Let_def camera_key_def
        dest!: update_entry pop_entry split: if_splits option.splits)
qed

text \<open>A registration never weakens what is stored: one scope per job, one claim and no older credential per camera.\<close>

lemma register_session_keeps:
  assumes "dict_get creds k = Some old" "dict_get (snd (register_session now token scope creds)) k = Some new"
  shows "ac_scope new = ac_scope old"
  using assms by (auto simp: register_session_def Let_def split: if_splits)

lemma register_camera_keeps:
  assumes "dict_get creds k = Some old" "dict_get (snd (register_camera now token scope creds)) k = Some new"
  shows "ci_camera_claim_id (ac_scope new) = ci_camera_claim_id (ac_scope old)
    \<and> ci_issued_at (ac_scope old) \<le> ci_issued_at (ac_scope new)"
  using assms by (auto simp: register_camera_def Let_def split: if_splits)

section \<open>What a verified scope rests on\<close>

text \<open>A claim that is a UUID, given in any letter case, and the identifier it stands for.\<close>

definition says :: "claims \<Rightarrow> string \<Rightarrow> string \<Rightarrow> bool" where
  "says claims name w \<longleftrightarrow> (\<exists>s u. json_get claims name = JStr s \<and> w = lower s \<and> length u = 16 \<and> w = str_uuid u)"

lemma uuid_claim_says [dest!]: "uuid_claim claims name = Inr w \<Longrightarrow> says claims name w"
proof -
  assume h: "uuid_claim claims name = Inr w"
  then obtain s where "json_get claims name = JStr s" using canonical_uuid_text unfolding uuid_claim_def by blast
  with h show ?thesis by (auto simp: uuid_claim_def says_def canonical_uuid_iff)
qed

text \<open>A text claim up to the blanks around it, and an integer claim (in Python a boolean is an integer).\<close>

definition says_text :: "claims \<Rightarrow> string \<Rightarrow> string \<Rightarrow> bool" where
  "says_text claims name t \<longleftrightarrow> (\<exists>s. json_get claims name = JStr s \<and> t = strip s \<and> t \<noteq> [])"

definition says_int :: "claims \<Rightarrow> string \<Rightarrow> int \<Rightarrow> bool" where
  "says_int claims name n \<longleftrightarrow>
     json_get claims name = JInt n \<or> json_get claims name = JBool (n = 1) \<and> n \<in> {0, 1}"

lemma int_claim_says [dest!]: "int_claim (json_get claims name) name' = Inr n \<Longrightarrow> says_int claims name n"
  by (cases "json_get claims name") (simp_all add: int_claim_def says_int_def split: if_splits)

lemma subject_claim_says [dest!]: "subject_claim claims = Inr t \<Longrightarrow> says_text claims ''sub'' t"
  by (cases "json_get claims ''sub''") (simp_all add: subject_claim_def says_text_def split: if_splits)

definition states_session :: "claims \<Rightarrow> AuthorizedSessionScope \<Rightarrow> bool" where
  "states_session claims scope \<longleftrightarrow>
     says claims ''tenant_id'' (ss_tenant_id scope) \<and> says claims ''site_id'' (ss_site_id scope)
     \<and> says claims ''capture_session_id'' (ss_capture_session_id scope)
     \<and> says claims ''processing_job_id'' (ss_processing_job_id scope)
     \<and> says claims ''jti'' (ss_token_jti scope) \<and> ss_token_jti scope = ss_processing_job_id scope
     \<and> says_text claims ''sub'' (ss_authorized_subject scope) \<and> says_int claims ''exp'' (ss_expires_at scope)
     \<and> json_get claims ''profile_digest'' = JStr (ss_profile_digest scope) \<and> profile_digest_ok (ss_profile_digest scope)
     \<and> json_get claims ''mode'' = JStr ''LIVE''
     \<and> (\<exists>names. json_get claims ''camera_ids'' = JList (map JStr names) \<and> names \<noteq> []
          \<and> distinct (map lower names) \<and> ss_camera_ids scope = set (map lower names))"

definition states_camera :: "claims \<Rightarrow> AuthorizedCameraIngestScope \<Rightarrow> bool" where
  "states_camera claims scope \<longleftrightarrow>
     json_get claims ''credential_kind'' = JStr ''CAMERA_INGEST''
     \<and> says claims ''tenant_id'' (ci_tenant_id scope) \<and> says claims ''site_id'' (ci_site_id scope)
     \<and> says claims ''capture_session_id'' (ci_capture_session_id scope)
     \<and> says claims ''processing_job_id'' (ci_processing_job_id scope)
     \<and> says claims ''camera_claim_id'' (ci_camera_claim_id scope) \<and> says claims ''camera_id'' (ci_camera_id scope)
     \<and> says claims ''jti'' (ci_token_jti scope)
     \<and> json_get claims ''profile_digest'' = JStr (ci_profile_digest scope) \<and> profile_digest_ok (ci_profile_digest scope)
     \<and> json_get claims ''sub'' = JStr (ci_authorized_subject scope) \<and> strip (ci_authorized_subject scope) \<noteq> []
     \<and> json_get claims ''device_id'' = JStr (ci_device_id scope) \<and> strip (ci_device_id scope) \<noteq> []
     \<and> says_int claims ''iat'' (ci_issued_at scope) \<and> says_int claims ''exp'' (ci_expires_at scope)"

lemma profile_digest_claim_Inr [dest!]:
  "profile_digest_claim claims = Inr d \<Longrightarrow> json_get claims ''profile_digest'' = JStr d \<and> profile_digest_ok d"
  by (auto simp: profile_digest_claim_def split: json.splits if_splits)

lemma required_text_claim_Inr [dest!]: "required_text_claim v name = Inr s \<Longrightarrow> v = JStr s \<and> strip s \<noteq> []"
  by (auto simp: required_text_claim_def split: json.splits if_splits)

lemma canonical_uuids: "map_result (\<lambda>v. canonical_uuid v name) vs = Inr ws \<Longrightarrow> \<exists>names. vs = map JStr names \<and> ws = map lower names"
proof (induction vs arbitrary: ws)
  case (Cons v vs)
  then obtain w ws' where w: "canonical_uuid v name = Inr w" "map_result (\<lambda>v. canonical_uuid v name) vs = Inr ws'" "ws = w # ws'"
    by (auto split: sum.splits)
  obtain s where "v = JStr s" "w = lower s" using canonical_uuid_text [OF w(1)] by blast
  moreover obtain names where "vs = map JStr names" "ws' = map lower names" using Cons.IH [OF w(2)] by blast
  ultimately show ?case using w(3) by (intro exI [of _ "s # names"]) simp
qed simp

lemma camera_ids_claim_Inr:
  assumes "camera_ids_claim claims = Inr cameras"
  shows "\<exists>names. json_get claims ''camera_ids'' = JList (map JStr names) \<and> names \<noteq> []
    \<and> distinct (map lower names) \<and> cameras = set (map lower names)"
proof -
  from assms obtain vs ws where v: "json_get claims ''camera_ids'' = JList vs" "vs \<noteq> []"
      "map_result (\<lambda>value. canonical_uuid value ''camera_ids'') vs = Inr ws"
      "card (set ws) = length vs" "cameras = set ws"
    by (auto simp: camera_ids_claim_def bind_result_eq_Inr split: json.splits if_splits)
  obtain names where "vs = map JStr names" "ws = map lower names" using canonical_uuids [OF v(3)] by blast
  moreover have "distinct ws" using v(4) map_result_Inr_length [OF v(3)] by (intro card_distinct) simp
  ultimately show ?thesis using v by blast
qed

lemma scope_from_claims_Inr:
  assumes "scope_from_claims claims = Inr scope" shows "states_session claims scope"
proof -
  have "camera_ids_claim claims = Inr (ss_camera_ids scope)"
    using assms by (auto simp: scope_from_claims_def bind_result_eq_Inr split: if_splits)
  from camera_ids_claim_Inr [OF this] show ?thesis
    using assms unfolding states_session_def
    by (intro conjI) (auto simp: scope_from_claims_def bind_result_eq_Inr split: if_splits)
qed

lemma camera_scope_from_claims_Inr:
  "camera_ingest_scope_from_claims claims = Inr scope \<Longrightarrow> states_camera claims scope"
  by (auto simp: camera_ingest_scope_from_claims_def states_camera_def bind_result_eq_Inr split: if_splits)

lemma jwks_lookup_key:
  assumes "jwks_lookup parse now fetched kid c = (Inr key, c')"
  shows "dict_get (jk_keys c') kid = Some key \<and> (c' = c \<or> jwks_of parse fetched = Some (jk_keys c'))"
  using assms by (auto simp: jwks_lookup_def jwks_refresh_def split: option.splits prod.splits sum.splits)

lemma jwks_resolve_key:
  assumes "jwks_resolve parse now now' fetched fetched' kid c = (Inr key, c')"
  shows "kid \<noteq> [] \<and> dict_get (jk_keys c') kid = Some key
    \<and> (c' = c \<and> \<not> jwks_stale now c \<or> jwks_of parse fetched = Some (jk_keys c') \<or> jwks_of parse fetched' = Some (jk_keys c'))"
proof (cases "jwks_stale now c")
  case True
  then obtain parsed where p: "jwks_of parse fetched = Some parsed"
      "jwks_lookup parse now' fetched' kid (c\<lparr> jk_keys := parsed, jk_loaded_at := Some now \<rparr>) = (Inr key, c')" "kid \<noteq> []"
    using assms by (auto simp: jwks_resolve_def jwks_refresh_def split: option.splits prod.splits sum.splits if_splits)
  then show ?thesis using jwks_lookup_key [OF p(2)] by auto
next
  case False
  then show ?thesis using assms jwks_lookup_key [of parse now' fetched' kid c key c']
    by (auto simp: jwks_resolve_def split: if_splits)
qed

text \<open>The signing key under which a token was accepted: listed under the token's kid, in a key set that is current.\<close>

definition signing_key :: "'key JwtLibrary \<Rightarrow> AuthInputs \<Rightarrow> string \<Rightarrow> 'key JwksKeyCache \<Rightarrow> 'key JwksKeyCache \<Rightarrow> 'key \<Rightarrow> bool" where
  "signing_key lib inp token c c' key \<longleftrightarrow>
     (\<exists>header. jw_header lib token = Some header \<and> jh_alg header = JStr ''RS256''
       \<and> dict_get (jk_keys c') (str_or (jh_kid header) []) = Some key
       \<and> (c' = c \<and> \<not> jwks_stale (ai_jwks_now inp) c
          \<or> jwks_of (jw_parse_jwk lib) (ai_jwks inp) = Some (jk_keys c')
          \<or> jwks_of (jw_parse_jwk lib) (ai_jwks' inp) = Some (jk_keys c')))"

lemma verified_claims_Inr:
  assumes "verified_claims lib inp v required name token caches = (Inr claims, caches')"
  shows "(\<exists>key. signing_key lib inp token (au_keys caches) (au_keys caches') key
      \<and> jw_decode lib token key (vf_issuer v) (vf_audience v) (vf_leeway v) required = Some claims)
    \<and> au_status caches' = au_status caches \<and> au_credentials caches' = au_credentials caches"
proof -
  obtain header where h: "jw_header lib token = Some header" "jh_alg header = JStr ''RS256''"
    using assms by (auto simp: verified_claims_def Let_def split: option.splits if_splits)
  obtain r keys where r: "jwks_resolve (jw_parse_jwk lib) (ai_jwks_now inp) (ai_jwks_now' inp) (ai_jwks inp) (ai_jwks' inp)
      (str_or (jh_kid header) []) (au_keys caches) = (r, keys)" by (rule prod.exhaust)
  obtain key where k: "r = Inr key"
      "jw_decode lib token key (vf_issuer v) (vf_audience v) (vf_leeway v) required = Some claims"
      "caches' = caches\<lparr> au_keys := keys \<rparr>"
    using assms by (auto simp: verified_claims_def Let_def h r split: option.splits if_splits sum.splits)
  have "signing_key lib inp token (au_keys caches) (au_keys caches') key"
    unfolding signing_key_def using h jwks_resolve_key [OF r [unfolded k(1)]] by (simp add: k(3))
  with k show ?thesis by auto
qed

text \<open>A check of the session or of the credential passes on a valid entry or a confirmation.\<close>

definition session_known_active :: "AuthInputs \<Rightarrow> string \<Rightarrow> 'key AuthCaches \<Rightarrow> bool" where
  "session_known_active inp job caches \<longleftrightarrow>
     (case au_status caches of None \<Rightarrow> True
      | Some c \<Rightarrow> fresh_entry c job (ai_status_now inp) \<or> (\<exists>p. ai_status inp job = Some p \<and> session_confirmed job p))"

definition credential_known_active :: "AuthInputs \<Rightarrow> string \<Rightarrow> string \<Rightarrow> 'key AuthCaches \<Rightarrow> bool" where
  "credential_known_active inp jti job caches \<longleftrightarrow>
     (case au_credentials caches of None \<Rightarrow> True
      | Some c \<Rightarrow> fresh_entry c (jti, job) (ai_credential_now inp)
          \<or> (\<exists>p. ai_credential inp jti = Some p \<and> credential_confirmed (jti, job) p))"

lemma check_session_status_Inr:
  assumes "check_session_status inp job caches = (Inr u, caches')"
  shows "session_known_active inp job caches \<and> au_credentials caches' = au_credentials caches \<and> au_keys caches' = au_keys caches"
proof (cases "au_status caches")
  case (Some c)
  obtain r c' where "session_assert_active (ai_status_now inp) job (ai_status inp job) c = (r, c')" by (rule prod.exhaust)
  with Some assms have "fst (session_assert_active (ai_status_now inp) job (ai_status inp job) c) = Inr ()"
      "caches' = caches\<lparr> au_status := Some c' \<rparr>"
    by (simp_all add: check_session_status_def)
  then show ?thesis using session_status.accepts Some by (simp add: session_known_active_def)
qed (use assms in \<open>simp add: check_session_status_def session_known_active_def\<close>)

lemma check_credential_status_Inr:
  assumes "check_credential_status inp jti job caches = (Inr u, caches')"
  shows "credential_known_active inp jti job caches \<and> au_keys caches' = au_keys caches"
proof (cases "au_credentials caches")
  case (Some c)
  obtain r c' where "credential_assert_active (ai_credential_now inp) (jti, job) (ai_credential inp jti) c = (r, c')"
    by (rule prod.exhaust)
  with Some assms have "fst (credential_assert_active (ai_credential_now inp) (jti, job) (ai_credential inp jti) c) = Inr ()"
      "caches' = caches\<lparr> au_credentials := Some c' \<rparr>"
    by (simp_all add: check_credential_status_def)
  then show ?thesis using credential_status.accepts Some by (simp add: credential_known_active_def)
qed (use assms in \<open>simp add: check_credential_status_def credential_known_active_def\<close>)

lemma session_verify_Inr:
  assumes "session_verify lib inp v token caches = (Inr scope, caches')"
  shows "\<exists>claims key. signing_key lib inp token (au_keys caches) (au_keys caches') key
    \<and> jw_decode lib token key (vf_issuer v) (vf_audience v) (vf_leeway v) LEGACY_REQUIRED_CLAIMS = Some claims
    \<and> states_session claims scope \<and> ai_now inp < ss_expires_at scope
    \<and> session_known_active inp (ss_processing_job_id scope) caches"
proof -
  obtain claims mid u where c: "verified_claims lib inp v LEGACY_REQUIRED_CLAIMS ''session token'' token caches = (Inr claims, mid)"
      "scope_from_claims claims = Inr scope" "session_scope_active inp scope mid = (Inr u, caches')"
    using assms by (auto simp: session_verify_def split: prod.splits sum.splits)
  have "ai_now inp < ss_expires_at scope" "check_session_status inp (ss_processing_job_id scope) mid = (Inr u, caches')"
    using c(3) by (auto simp: session_scope_active_def split: if_splits)
  then show ?thesis
    using verified_claims_Inr [OF c(1)] scope_from_claims_Inr [OF c(2)] check_session_status_Inr
    by (fastforce simp: session_known_active_def)
qed

lemma camera_verify_Inr:
  assumes "camera_verify lib inp v token caches = (Inr scope, caches')"
  shows "\<exists>claims key. signing_key lib inp token (au_keys caches) (au_keys caches') key
    \<and> jw_decode lib token key (vf_issuer v) (vf_audience v) (vf_leeway v) CAMERA_INGEST_REQUIRED_CLAIMS = Some claims
    \<and> states_camera claims scope \<and> ai_now inp < ci_expires_at scope
    \<and> session_known_active inp (ci_processing_job_id scope) caches
    \<and> credential_known_active inp (ci_token_jti scope) (ci_processing_job_id scope) caches"
proof -
  obtain claims mid u where c: "verified_claims lib inp v CAMERA_INGEST_REQUIRED_CLAIMS ''camera ingest credential'' token caches = (Inr claims, mid)"
      "camera_ingest_scope_from_claims claims = Inr scope" "camera_scope_active inp scope mid = (Inr u, caches')"
    using assms by (auto simp: camera_verify_def split: prod.splits sum.splits)
  obtain u' mid' where s: "ai_now inp < ci_expires_at scope" "check_session_status inp (ci_processing_job_id scope) mid = (Inr u', mid')"
      "check_credential_status inp (ci_token_jti scope) (ci_processing_job_id scope) mid' = (Inr u, caches')"
    using c(3) by (auto simp: camera_scope_active_def split: if_splits prod.splits sum.splits)
  then show ?thesis
    using verified_claims_Inr [OF c(1)] camera_scope_from_claims_Inr [OF c(2)] check_session_status_Inr [OF s(2)]
      check_credential_status_Inr [OF s(3)]
    by (fastforce simp: session_known_active_def credential_known_active_def)
qed

text \<open>What the program relies on of PyJWT: the verified claims of a token are the claims it carries.\<close>

definition jwt_same_claims :: "'key JwtLibrary \<Rightarrow> bool" where
  "jwt_same_claims lib \<longleftrightarrow> (\<forall>token key issuer audience leeway required claims.
     jw_decode lib token key issuer audience leeway required = Some claims \<longrightarrow> jw_unverified lib token = Some claims)"

end
