(* ===== verification/RelayCredentials.thy ===== *)
theory RelayCredentials
  imports SessionIdentity
begin

text \<open>
  The credentials of the live relay (services/relay_credentials.py): the scope a relay token is signed
  for, the workload's own access token with its cache, and the provider that obtains one credential per
  processing job from the Main service and keeps it while it is fresh.

  The fields of \<open>ProcessingRelayScope\<close> start with pr_. As in SessionIdentity, PyJWT is a parameter
  and what a call reads - clocks and answers over HTTP - is an argument (\<open>RelayInputs\<close>); an answer is
  \<open>Inl e\<close> when the request, its status or its parsing raises \<open>e\<close>. The verifier has a key cache of its
  own (\<open>rp_auth\<close>, of which it uses the keys).
\<close>

section \<open>The scope of a relay credential\<close>

definition RELAY_CREDENTIAL_REQUIRED_CLAIMS :: "string list" where
  "RELAY_CREDENTIAL_REQUIRED_CLAIMS =
     [''iss'', ''aud'', ''sub'', ''credential_kind'', ''tenant_id'', ''site_id'', ''capture_session_id'',
      ''processing_job_id'', ''profile_digest'', ''coordinator_subject'', ''camera_ids'', ''iat'', ''nbf'',
      ''exp'', ''jti'']"

record ProcessingRelayScope =
  pr_tenant_id :: string
  pr_site_id :: string
  pr_capture_session_id :: string
  pr_processing_job_id :: string
  pr_profile_digest :: string
  pr_coordinator_subject :: string
  pr_camera_ids :: "string set"
  pr_workload_subject :: string
  pr_token_jti :: string
  pr_expires_at :: int

definition relay_matches_claim :: "ProcessingRelayScope \<Rightarrow> ClaimedFrameSet \<Rightarrow> bool" where
  "relay_matches_claim scope claim \<longleftrightarrow>
     cl_tenant_id claim = Some (pr_tenant_id scope)
     \<and> cl_site_id claim = Some (pr_site_id scope)
     \<and> cl_capture_session_id claim = pr_capture_session_id scope
     \<and> cl_processing_job_id claim = Some (pr_processing_job_id scope)
     \<and> cl_profile_digest claim = Some (pr_profile_digest scope)
     \<and> set (authorized_camera_ids claim) = pr_camera_ids scope"

type_synonym ActiveProcessingRelayCredential = "ProcessingRelayScope ActiveSessionCredential"

definition relay_required_text :: "json \<Rightarrow> string \<Rightarrow> string result" where
  "relay_required_text value claim_name =
     (case value of
        JStr s \<Rightarrow> if strip s = [] then Inl (SessionTokenError (claim_name @ '' must be non-empty'')) else Inr (strip s)
      | _ \<Rightarrow> Inl (SessionTokenError (claim_name @ '' must be non-empty'')))"

definition relay_scope_from_claims :: "claims \<Rightarrow> ProcessingRelayScope result" where
  "relay_scope_from_claims claims =
     (if json_get claims ''credential_kind'' \<noteq> JStr ''PROCESSING_RELAY''
      then Inl (SessionTokenError ''credential_kind must be PROCESSING_RELAY'')
      else
     bind_result (profile_digest_claim claims) (\<lambda>digest.
     bind_result (camera_ids_claim claims) (\<lambda>cameras.
     bind_result (int_claim (json_get claims ''exp'') ''exp'') (\<lambda>expires_at.
     bind_result (uuid_claim claims ''tenant_id'') (\<lambda>tenant.
     bind_result (uuid_claim claims ''site_id'') (\<lambda>site.
     bind_result (uuid_claim claims ''capture_session_id'') (\<lambda>session.
     bind_result (uuid_claim claims ''processing_job_id'') (\<lambda>job.
     bind_result (relay_required_text (json_get claims ''coordinator_subject'') ''coordinator_subject'') (\<lambda>coordinator.
     bind_result (relay_required_text (json_get claims ''sub'') ''sub'') (\<lambda>subject.
     bind_result (uuid_claim claims ''jti'') (\<lambda>jti.
       Inr \<lparr> pr_tenant_id = tenant, pr_site_id = site, pr_capture_session_id = session,
             pr_processing_job_id = job, pr_profile_digest = digest, pr_coordinator_subject = coordinator,
             pr_camera_ids = cameras, pr_workload_subject = subject, pr_token_jti = jti,
             pr_expires_at = expires_at \<rparr>)))))))))))"

section \<open>Verifying a relay token\<close>

definition new_relay_verifier :: "string \<Rightarrow> string \<Rightarrow> int \<Rightarrow> TokenVerifier result" where
  "new_relay_verifier issuer audience leeway =
     (if issuer = [] \<or> audience = [] then Inl (ValueError ''issuer and audience are required'')
      else Inr \<lparr> vf_issuer = issuer, vf_audience = audience, vf_leeway = leeway \<rparr>)"

definition relay_verify ::
  "'key JwtLibrary \<Rightarrow> AuthInputs \<Rightarrow> TokenVerifier \<Rightarrow> string \<Rightarrow> 'key AuthCaches
   \<Rightarrow> ProcessingRelayScope result \<times> 'key AuthCaches" where
  "relay_verify lib inp v token caches =
     (case verified_claims lib inp v RELAY_CREDENTIAL_REQUIRED_CLAIMS ''processing relay credential'' token caches of
        (Inl e, caches) \<Rightarrow> (Inl e, caches)
      | (Inr claims, caches) \<Rightarrow>
          (case relay_scope_from_claims claims of
             Inl e \<Rightarrow> (Inl e, caches)
           | Inr scope \<Rightarrow>
               (if pr_expires_at scope \<le> ai_now inp
                then Inl (SessionTokenError ''processing relay credential is expired'') else Inr scope, caches)))"

section \<open>The workload's access token\<close>

text \<open>
  Times are in one unit of which a second has \<open>units\<close>. \<open>float_units\<close> reads a float of the answer in
  that unit; an int that no float reaches raises. The answer of the token endpoint is its JSON body,
  or the exception of the request, of its status or of its parsing.
\<close>

record WorkloadAccessToken =
  wt_value :: string
  wt_expires_at :: int

record TokenProvider =
  tp_units :: int
  tp_float_units :: "string \<Rightarrow> int"
  tp_refresh_skew :: int

definition new_token_provider ::
  "string \<Rightarrow> string \<Rightarrow> string \<Rightarrow> int \<Rightarrow> (string \<Rightarrow> int) \<Rightarrow> int \<Rightarrow> (TokenProvider \<times> WorkloadAccessToken option) result" where
  "new_token_provider token_url client_id client_secret units float_units refresh_skew =
     (if token_url = [] \<or> client_id = [] \<or> client_secret = []
      then Inl (ValueError ''workload token URL, client ID, and secret are required'')
      else Inr (\<lparr> tp_units = units, tp_float_units = float_units, tp_refresh_skew = refresh_skew \<rparr>, None))"

definition float_limit :: int where
  "float_limit = 2 ^ 1024 - 2 ^ 970"

definition lifetime :: "TokenProvider \<Rightarrow> json \<Rightarrow> int result" where
  "lifetime p expires_in =
     (case expires_in of
        JInt n \<Rightarrow>
          if n \<le> 0 then Inl (SessionTokenError ''workload token response has invalid expires_in'')
          else if n \<ge> float_limit then Inl (OverflowError ''int too large to convert to float'')
          else Inr (n * tp_units p)
      | JBool b \<Rightarrow>
          if b then Inr (tp_units p) else Inl (SessionTokenError ''workload token response has invalid expires_in'')
      | JFloat r \<Rightarrow>
          if tp_float_units p r \<le> 0 then Inl (SessionTokenError ''workload token response has invalid expires_in'')
          else Inr (tp_float_units p r)
      | _ \<Rightarrow> Inl (SessionTokenError ''workload token response has invalid expires_in''))"

definition mapping_get :: "json \<Rightarrow> string \<Rightarrow> json" where
  "mapping_get payload name = (case payload of JObj kvs \<Rightarrow> json_get kvs name | _ \<Rightarrow> JNull)"

definition resolve_access_token ::
  "TokenProvider \<Rightarrow> int \<Rightarrow> json result \<Rightarrow> WorkloadAccessToken option \<Rightarrow> string result \<times> WorkloadAccessToken option" where
  "resolve_access_token p now answer cached =
     (case (case cached of
              Some t \<Rightarrow> if now + tp_refresh_skew p < wt_expires_at t then Some (wt_value t) else None
            | None \<Rightarrow> None) of
        Some value \<Rightarrow> (Inr value, cached)
      | None \<Rightarrow>
          (case answer of
             Inl e \<Rightarrow> (Inl e, cached)
           | Inr payload \<Rightarrow>
               (case mapping_get payload ''access_token'' of
                  JStr token \<Rightarrow>
                    (if token = [] then (Inl (SessionTokenError ''workload token response is missing access_token''), cached)
                     else case lifetime p (mapping_get payload ''expires_in'') of
                       Inl e \<Rightarrow> (Inl e, cached)
                     | Inr l \<Rightarrow> (Inr token, Some \<lparr> wt_value = token, wt_expires_at = now + l \<rparr>))
                | _ \<Rightarrow> (Inl (SessionTokenError ''workload token response is missing access_token''), cached))))"

section \<open>Credentials for claims\<close>

text \<open>\<open>frozenset(value or [])\<close> of a JSON value, and the comparison of the answer with the signed token.\<close>

fun hashable :: "json \<Rightarrow> bool" where
  "hashable (JList _) = False"
| "hashable (JObj _) = False"
| "hashable _ = True"

definition frozenset_of :: "json \<Rightarrow> json set result" where
  "frozenset_of v =
     (case v of
        JNull \<Rightarrow> Inr {}
      | JList vs \<Rightarrow> if list_all hashable vs then Inr (set vs) else Inl (TypeError ''unhashable type'')
      | JStr s \<Rightarrow> Inr (set (map (\<lambda>c. JStr [c]) s))
      | JObj kvs \<Rightarrow> Inr (set (map (\<lambda>(k, v). JStr k) kvs))
      | JBool b \<Rightarrow> if b then Inl (TypeError ''object is not iterable'') else Inr {}
      | JInt n \<Rightarrow> if n \<noteq> 0 then Inl (TypeError ''object is not iterable'') else Inr {}
      | JFloat r \<Rightarrow> if r \<noteq> ''0.0'' \<and> r \<noteq> ''-0.0'' then Inl (TypeError ''object is not iterable'') else Inr {})"

definition response_matches_scope :: "json \<Rightarrow> ProcessingRelayScope \<Rightarrow> unit result" where
  "response_matches_scope payload scope =
     (case payload of
        JObj kvs \<Rightarrow>
          bind_result (frozenset_of (json_get kvs ''cameraIds'')) (\<lambda>cameras.
            if json_get kvs ''credentialId'' \<noteq> JStr (pr_token_jti scope)
               \<or> json_get kvs ''captureSessionId'' \<noteq> JStr (pr_capture_session_id scope)
               \<or> json_get kvs ''processingJobId'' \<noteq> JStr (pr_processing_job_id scope)
               \<or> json_get kvs ''credentialKind'' \<noteq> JStr ''PROCESSING_RELAY''
               \<or> cameras \<noteq> JStr ` pr_camera_ids scope
            then Inl (SessionTokenError ''Main relay credential response does not match its signed token'')
            else Inr ())
      | _ \<Rightarrow> Inl (SessionTokenError ''Main relay credential response must be an object''))"

text \<open>
  The answer of the Main service: its status code, \<open>raise_for_status\<close>, the header with the
  one-time token and the body. What one call of the provider reads: the clocks, the token endpoint's
  answer, the Main service's (for a tenant, a job and an access token) and those of the verifier.
\<close>

record RelayAnswer =
  rn_status_code :: int
  rn_raise_for_status :: "unit result"
  rn_relay_token :: "string option"
  rn_json :: "json result"

record RelayInputs =
  ri_now :: int
  ri_token_now :: int
  ri_token_answer :: "json result"
  ri_post :: "string option \<Rightarrow> string \<Rightarrow> string \<Rightarrow> RelayAnswer result"
  ri_auth :: AuthInputs

record 'key RelayProvider =
  rp_token_provider :: TokenProvider
  rp_verifier :: TokenVerifier
  rp_refresh_skew :: int
  rp_access_token :: "WorkloadAccessToken option"
  rp_auth :: "'key AuthCaches"
  rp_credentials :: "(string, ActiveProcessingRelayCredential) dict"

definition new_relay_provider ::
  "string \<Rightarrow> TokenProvider \<Rightarrow> TokenVerifier \<Rightarrow> 'key AuthCaches \<Rightarrow> int \<Rightarrow> 'key RelayProvider result" where
  "new_relay_provider url_template access_tokens v caches refresh_skew =
     (if \<not> sublist ''{tenant_id}'' url_template \<or> \<not> sublist ''{processing_job_id}'' url_template
      then Inl (ValueError ''relay credential URL must contain tenant_id and processing_job_id'')
      else Inr \<lparr> rp_token_provider = access_tokens, rp_verifier = v, rp_refresh_skew = refresh_skew,
                 rp_access_token = None, rp_auth = caches, rp_credentials = [] \<rparr>)"

text \<open>\<open>_issue\<close>, from the answer of the Main service on.\<close>

definition accept_relay_answer ::
  "'key JwtLibrary \<Rightarrow> RelayInputs \<Rightarrow> ClaimedFrameSet \<Rightarrow> RelayAnswer \<Rightarrow> 'key RelayProvider
   \<Rightarrow> ActiveProcessingRelayCredential result \<times> 'key RelayProvider" where
  "accept_relay_answer lib inp claim answer p =
     (if rn_status_code answer = 409
      then (Inl (RelayCredentialSessionInactive ''processing job is inactive''), p)
      else case rn_raise_for_status answer of
        Inl e \<Rightarrow> (Inl e, p)
      | Inr _ \<Rightarrow>
          (let token = str_or (rn_relay_token answer) []
           in if token = []
              then (Inl (SessionTokenError ''Main relay credential response did not include the one-time token''), p)
              else case rn_json answer of
                Inl e \<Rightarrow> (Inl e, p)
              | Inr payload \<Rightarrow>
                  (case relay_verify lib (ri_auth inp) (rp_verifier p) token (rp_auth p) of
                     (Inl e, caches) \<Rightarrow> (Inl e, p\<lparr> rp_auth := caches \<rparr>)
                   | (Inr scope, caches) \<Rightarrow>
                       (if \<not> relay_matches_claim scope claim
                        then Inl (SessionTokenError ''processing relay credential does not match the manifest scope'')
                        else bind_result (response_matches_scope payload scope) (\<lambda>_.
                               Inr \<lparr> ac_token = token, ac_scope = scope \<rparr>),
                        p\<lparr> rp_auth := caches \<rparr>))))"

definition issue_relay_credential ::
  "'key JwtLibrary \<Rightarrow> RelayInputs \<Rightarrow> ClaimedFrameSet \<Rightarrow> 'key RelayProvider
   \<Rightarrow> ActiveProcessingRelayCredential result \<times> 'key RelayProvider" where
  "issue_relay_credential lib inp claim p =
     (case resolve_access_token (rp_token_provider p) (ri_token_now inp) (ri_token_answer inp) (rp_access_token p) of
        (Inl e, cached) \<Rightarrow> (Inl e, p\<lparr> rp_access_token := cached \<rparr>)
      | (Inr access_token, cached) \<Rightarrow>
          (let p = p\<lparr> rp_access_token := cached \<rparr>
           in case ri_post inp (cl_tenant_id claim) (str_or (cl_processing_job_id claim) []) access_token of
                Inl e \<Rightarrow> (Inl e, p)
              | Inr answer \<Rightarrow> accept_relay_answer lib inp claim answer p))"

definition resolve_relay_credential ::
  "'key JwtLibrary \<Rightarrow> RelayInputs \<Rightarrow> ClaimedFrameSet \<Rightarrow> 'key RelayProvider
   \<Rightarrow> ActiveProcessingRelayCredential result \<times> 'key RelayProvider" where
  "resolve_relay_credential lib inp claim p =
     (let job = str_or (cl_processing_job_id claim) []
      in if job = [] then (Inl (SessionTokenError ''manifest is missing processing_job_id''), p)
         else case (case dict_get (rp_credentials p) job of
                      Some existing \<Rightarrow>
                        if pr_expires_at (ac_scope existing) > ri_now inp + rp_refresh_skew p
                           \<and> relay_matches_claim (ac_scope existing) claim
                        then Some existing else None
                    | None \<Rightarrow> None) of
           Some existing \<Rightarrow> (Inr existing, p)
         | None \<Rightarrow>
             (case issue_relay_credential lib inp claim p of
                (Inl e, p) \<Rightarrow> (Inl e, p)
              | (Inr credential, p) \<Rightarrow>
                  (Inr credential, p\<lparr> rp_credentials := dict_set (rp_credentials p) job credential \<rparr>)))"

definition clear_relay_credentials :: "'key RelayProvider \<Rightarrow> 'key RelayProvider" where
  "clear_relay_credentials p = p\<lparr> rp_credentials := [] \<rparr>"

section \<open>What a relay credential says\<close>

definition states_relay :: "claims \<Rightarrow> ProcessingRelayScope \<Rightarrow> bool" where
  "states_relay claims scope \<longleftrightarrow>
     json_get claims ''credential_kind'' = JStr ''PROCESSING_RELAY''
     \<and> says claims ''tenant_id'' (pr_tenant_id scope) \<and> says claims ''site_id'' (pr_site_id scope)
     \<and> says claims ''capture_session_id'' (pr_capture_session_id scope)
     \<and> says claims ''processing_job_id'' (pr_processing_job_id scope) \<and> says claims ''jti'' (pr_token_jti scope)
     \<and> json_get claims ''profile_digest'' = JStr (pr_profile_digest scope) \<and> profile_digest_ok (pr_profile_digest scope)
     \<and> says_text claims ''coordinator_subject'' (pr_coordinator_subject scope)
     \<and> says_text claims ''sub'' (pr_workload_subject scope) \<and> says_int claims ''exp'' (pr_expires_at scope)
     \<and> (\<exists>names. json_get claims ''camera_ids'' = JList (map JStr names) \<and> names \<noteq> []
          \<and> distinct (map lower names) \<and> pr_camera_ids scope = set (map lower names))"

text \<open>A credential was issued in a call: its token was verified there under a signing key listed for it.\<close>

definition issued :: "'key JwtLibrary \<Rightarrow> TokenVerifier \<Rightarrow> AuthInputs \<Rightarrow> ActiveProcessingRelayCredential \<Rightarrow> bool" where
  "issued lib v inp credential \<longleftrightarrow>
     (\<exists>c c' key claims. signing_key lib inp (ac_token credential) c c' key
       \<and> jw_decode lib (ac_token credential) key (vf_issuer v) (vf_audience v) (vf_leeway v) RELAY_CREDENTIAL_REQUIRED_CLAIMS
           = Some claims
       \<and> states_relay claims (ac_scope credential) \<and> ai_now inp < pr_expires_at (ac_scope credential))"

lemma relay_required_text_says [dest!]:
  "relay_required_text (json_get claims name) name' = Inr t \<Longrightarrow> says_text claims name t"
  by (cases "json_get claims name") (simp_all add: relay_required_text_def says_text_def split: if_splits)

lemma relay_scope_from_claims_Inr:
  assumes "relay_scope_from_claims claims = Inr scope" shows "states_relay claims scope"
proof -
  have "camera_ids_claim claims = Inr (pr_camera_ids scope)"
    using assms by (auto simp: relay_scope_from_claims_def bind_result_eq_Inr split: if_splits)
  from camera_ids_claim_Inr [OF this] show ?thesis
    using assms unfolding states_relay_def
    by (intro conjI) (auto simp: relay_scope_from_claims_def bind_result_eq_Inr split: if_splits)
qed

lemma relay_verify_Inr:
  assumes "relay_verify lib inp v token caches = (Inr scope, caches')"
  shows "issued lib v inp \<lparr> ac_token = token, ac_scope = scope \<rparr>"
proof -
  obtain claims mid where c:
      "verified_claims lib inp v RELAY_CREDENTIAL_REQUIRED_CLAIMS ''processing relay credential'' token caches = (Inr claims, mid)"
      "relay_scope_from_claims claims = Inr scope" "ai_now inp < pr_expires_at scope"
    using assms by (auto simp: relay_verify_def split: prod.splits sum.splits if_splits)
  show ?thesis using verified_claims_Inr [OF c(1)] relay_scope_from_claims_Inr [OF c(2)] c(3) by (auto simp: issued_def)
qed

lemma accept_relay_answer_Inr:
  assumes "accept_relay_answer lib inp claim answer p = (Inr credential, p')"
  shows "issued lib (rp_verifier p) (ri_auth inp) credential \<and> relay_matches_claim (ac_scope credential) claim"
proof -
  obtain scope caches' where v: "relay_verify lib (ri_auth inp) (rp_verifier p) (str_or (rn_relay_token answer) []) (rp_auth p) = (Inr scope, caches')"
      "relay_matches_claim scope claim" "credential = \<lparr> ac_token = str_or (rn_relay_token answer) [], ac_scope = scope \<rparr>"
    using assms by (auto simp: accept_relay_answer_def Let_def bind_result_eq_Inr split: if_splits sum.splits prod.splits)
  then show ?thesis using relay_verify_Inr by fastforce
qed

text \<open>The parts of the provider that a call leaves alone.\<close>

definition relay_fixed :: "'key RelayProvider \<Rightarrow> TokenProvider \<times> TokenVerifier \<times> int" where
  "relay_fixed p = (rp_token_provider p, rp_verifier p, rp_refresh_skew p)"

lemma issue_keeps:
  assumes "issue_relay_credential lib inp claim p = (r, p')"
  shows "rp_credentials p' = rp_credentials p \<and> relay_fixed p' = relay_fixed p"
  using assms by (auto simp: issue_relay_credential_def accept_relay_answer_def Let_def relay_fixed_def
      split: if_splits sum.splits prod.splits)

lemma issue_Inr:
  assumes "issue_relay_credential lib inp claim p = (Inr credential, p')"
  shows "issued lib (rp_verifier p) (ri_auth inp) credential \<and> relay_matches_claim (ac_scope credential) claim"
proof -
  obtain answer q where "accept_relay_answer lib inp claim answer q = (Inr credential, p')" "rp_verifier q = rp_verifier p"
    using assms by (auto simp: issue_relay_credential_def Let_def split: sum.splits prod.splits)
  then show ?thesis using accept_relay_answer_Inr by fastforce
qed

lemma resolve_relay_cases [consumes 1, case_names missing cached refused issued]:
  assumes r: "resolve_relay_credential lib inp claim p = (result, p')"
  obtains (missing) e where "result = Inl e" "p' = p"
  | (cached) credential where "result = Inr credential" "p' = p"
      "dict_get (rp_credentials p) (str_or (cl_processing_job_id claim) []) = Some credential"
      "ri_now inp + rp_refresh_skew p < pr_expires_at (ac_scope credential)" "relay_matches_claim (ac_scope credential) claim"
  | (refused) e where "result = Inl e" "issue_relay_credential lib inp claim p = (Inl e, p')"
  | (issued) credential q where "result = Inr credential" "issue_relay_credential lib inp claim p = (Inr credential, q)"
      "p' = q\<lparr> rp_credentials := dict_set (rp_credentials q) (str_or (cl_processing_job_id claim) []) credential \<rparr>"
proof -
  let ?job = "str_or (cl_processing_job_id claim) []"
  let ?hit = "case dict_get (rp_credentials p) ?job of
      Some existing \<Rightarrow> if pr_expires_at (ac_scope existing) > ri_now inp + rp_refresh_skew p
           \<and> relay_matches_claim (ac_scope existing) claim then Some existing else None
    | None \<Rightarrow> None"
  consider "?job = []" | x where "?job \<noteq> []" "?hit = Some x" | "?job \<noteq> []" "?hit = None" by (cases ?hit) auto
  then show thesis
  proof cases
    case 1
    with r show thesis by (intro missing [of "SessionTokenError ''manifest is missing processing_job_id''"]) (simp_all add: resolve_relay_credential_def)
  next
    case 2
    with r show thesis by (intro cached [of x]) (auto simp: resolve_relay_credential_def Let_def split: option.splits if_splits)
  next
    case 3
    obtain ir q where i: "issue_relay_credential lib inp claim p = (ir, q)" by fastforce
    with 3 r have eq: "(result, p') = (case ir of Inl e \<Rightarrow> (Inl e, q)
        | Inr c \<Rightarrow> (Inr c, q\<lparr> rp_credentials := dict_set (rp_credentials q) ?job c \<rparr>))"
      by (simp add: resolve_relay_credential_def Let_def split: sum.splits)
    show thesis
    proof (cases ir)
      case (Inl e)
      with eq i show thesis by (intro refused) auto
    next
      case (Inr c)
      with eq i show thesis by (intro issued) auto
    qed
  qed
qed

section \<open>The provider as a machine\<close>

datatype RelayCall = ResolveCall RelayInputs ClaimedFrameSet | ClearCall

fun relay_step :: "'key JwtLibrary \<Rightarrow> 'key RelayProvider \<Rightarrow> RelayCall \<Rightarrow> 'key RelayProvider" where
  "relay_step lib p (ResolveCall inp claim) = snd (resolve_relay_credential lib inp claim p)"
| "relay_step lib p ClearCall = clear_relay_credentials p"

lemma relay_step_fixed: "relay_fixed (relay_step lib p call) = relay_fixed p"
proof (cases call)
  case (ResolveCall inp claim)
  obtain r p' where r: "resolve_relay_credential lib inp claim p = (r, p')" by fastforce
  then have "relay_fixed p' = relay_fixed p"
    by (cases rule: resolve_relay_cases) (auto dest!: issue_keeps simp: relay_fixed_def)
  with ResolveCall r show ?thesis by simp
qed (simp add: clear_relay_credentials_def relay_fixed_def)

lemma relay_run_fixed: "relay_fixed (run (relay_step lib) p calls) = relay_fixed p"
  by (induction calls arbitrary: p) (simp_all add: relay_step_fixed)

text \<open>Every credential the provider holds was issued in one of the calls.\<close>

lemma relay_step_entry:
  assumes "(job, credential) \<in> set (rp_credentials (relay_step lib p call))"
  shows "(job, credential) \<in> set (rp_credentials p)
    \<or> (\<exists>inp claim. call = ResolveCall inp claim \<and> issued lib (rp_verifier p) (ri_auth inp) credential)"
proof (cases call)
  case (ResolveCall inp claim)
  obtain r p' where r: "resolve_relay_credential lib inp claim p = (r, p')" by fastforce
  then show ?thesis
  proof (cases rule: resolve_relay_cases)
    case (issued c q)
    then show ?thesis using assms ResolveCall r issue_keeps [OF issued(2)] issue_Inr [OF issued(2)] by (auto dest!: update_entry)
  qed (use assms ResolveCall r in \<open>auto dest!: issue_keeps\<close>)
qed (use assms in \<open>simp add: clear_relay_credentials_def\<close>)

lemma relay_run_entry:
  assumes "(job, credential) \<in> set (rp_credentials (run (relay_step lib) p calls))"
  shows "(job, credential) \<in> set (rp_credentials p)
    \<or> (\<exists>inp claim. ResolveCall inp claim \<in> set calls \<and> issued lib (rp_verifier p) (ri_auth inp) credential)"
  using assms
proof (induction calls arbitrary: p)
  case (Cons call calls)
  have v: "rp_verifier (relay_step lib p call) = rp_verifier p"
    using relay_step_fixed [of lib p call] by (simp add: relay_fixed_def)
  from Cons.IH [of "relay_step lib p call"] Cons.prems show ?case
    using relay_step_entry [of job credential lib p call] by (auto simp: v)
qed simp

lemma resolved_credential:
  assumes "rp_credentials p = []" "resolve_relay_credential lib inp claim (run (relay_step lib) p calls) = (Inr credential, p')"
  shows "relay_matches_claim (ac_scope credential) claim
    \<and> (\<exists>inp0 claim0. ResolveCall inp0 claim0 \<in> set (calls @ [ResolveCall inp claim])
        \<and> issued lib (rp_verifier p) (ri_auth inp0) credential)
    \<and> (ri_now inp + rp_refresh_skew p < pr_expires_at (ac_scope credential)
       \<or> ai_now (ri_auth inp) < pr_expires_at (ac_scope credential))"
proof -
  have f: "rp_verifier (run (relay_step lib) p calls) = rp_verifier p" "rp_refresh_skew (run (relay_step lib) p calls) = rp_refresh_skew p"
    using relay_run_fixed [of lib p calls] by (simp_all add: relay_fixed_def)
  from assms(2) show ?thesis
  proof (cases rule: resolve_relay_cases)
    case (cached c)
    have "(str_or (cl_processing_job_id claim) [], c) \<in> set (rp_credentials (run (relay_step lib) p calls))"
      using cached(3) by (rule map_of_SomeD)
    from relay_run_entry [OF this] show ?thesis using cached(1,4,5) assms(1) f by auto
  next
    case (issued c q)
    have i: "issued lib (rp_verifier p) (ri_auth inp) credential" "relay_matches_claim (ac_scope credential) claim"
      using issue_Inr [OF issued(2)] issued(1) f by simp_all
    then have "ai_now (ri_auth inp) < pr_expires_at (ac_scope credential)" by (auto simp: issued_def)
    with i show ?thesis by auto
  qed auto
qed

end
