(* ===== verification/RelayClient.thy ===== *)
theory RelayClient
  imports RelayProtocol RelayCredentials Complex_Main
begin

text \<open>
  The worker that talks to the processor (infrastructure/grpc/live_relay_v2_client.py): it opens a
  connection for the frame set to announce, serves the processor's messages, and closes.

  \<open>RelayClient\<close> is the object with its store (\<open>rl_db\<close>); \<open>rl_outgoing\<close> lists every message put into the
  queue of a request stream. A connection is a list of \<open>RelayEvent\<close>s: the responses in order, the stop event
  as it is seen with each, an exception of the transport, and what the ingest threads store meanwhile.
  A store call is one transaction. The waits between connections are rationals, for the floats of the code.
\<close>

section \<open>What the client works with\<close>

text \<open>A status of the processor; a number its enumeration does not name has no name, and its \<open>Name\<close> raises.\<close>

record FrameStatus =
  fx_key :: FrameSetKey
  fx_state :: "string option"
  fx_reason :: "string option"

datatype RelayEnvelope =
    HelloAcceptedEnvelope HelloAccepted bool string
  | HelloRejectedEnvelope string string bool
  | CreditEnvelope ProcessorCredit
  | StatusEnvelope FrameStatus
  | ReconciliationReply "FrameStatus list" bool
  | NoBodyEnvelope

fun body_of :: "RelayEnvelope \<Rightarrow> ProcessorBody" where
  "body_of (HelloAcceptedEnvelope accepted _ _) = HelloAcceptedBody accepted"
| "body_of (HelloRejectedEnvelope reason detail_code _) = HelloRejectedBody reason detail_code"
| "body_of _ = OtherBody"

text \<open>What is outside the client: PyJWT, floats, the archive's files, serialization, and how an exception prints.\<close>

record 'key RelayEnv =
  en_library :: "'key JwtLibrary"
  en_floats :: FloatLibrary
  en_files :: "string \<Rightarrow> bytes option"
  en_serialize :: "ProducerEnvelope \<Rightarrow> bytes"
  en_os_error_name :: "string \<Rightarrow> string"
  en_exn_text :: "exn \<Rightarrow> string"

text \<open>
  \<open>ReconnectBackoff\<close>: the wait before the next attempt, in seconds; the random value is an argument.
  Python converts the power to a float, which fails from \<open>2 ^ 1024\<close> on.
\<close>

record ReconnectBackoff =
  bo_initial_sec :: rat
  bo_maximum_sec :: rat
  bo_jitter_ratio :: rat

definition default_backoff :: ReconnectBackoff where
  "default_backoff = \<lparr> bo_initial_sec = 1 / 10, bo_maximum_sec = 5, bo_jitter_ratio = 1 / 5 \<rparr>"

definition backoff_delay :: "ReconnectBackoff \<Rightarrow> nat \<Rightarrow> rat \<Rightarrow> rat result" where
  "backoff_delay b attempt random_value =
     (if 1024 \<le> attempt then Inl (OverflowError ''int too large to convert to float'')
      else let base = min (bo_maximum_sec b) (bo_initial_sec b * 2 ^ attempt);
               jitter = (random_value * 2 - 1) * bo_jitter_ratio b
           in Inr (max 0 (base * (1 + jitter))))"

record 'key RelayClient =
  rl_enabled :: bool
  rl_target :: string
  rl_last_error :: "string option"
  rl_has_store :: bool
  rl_protocol_config :: "ProtocolConfig option"
  rl_running :: bool
  rl_backoff :: ReconnectBackoff
  rl_connection_count :: int
  rl_reconnect_count :: int
  rl_offered_count :: int
  rl_no_data_count :: int
  rl_provider :: "'key RelayProvider option"
  rl_sessions :: SessionStore
  rl_db :: LiveDb
  rl_outgoing :: "ProducerEnvelope list"

definition put :: "ProducerEnvelope \<Rightarrow> 'key RelayClient \<Rightarrow> 'key RelayClient" where
  "put envelope c = c\<lparr> rl_outgoing := rl_outgoing c @ [envelope] \<rparr>"

definition with_db :: "'a \<times> LiveDb \<Rightarrow> 'key RelayClient \<Rightarrow> 'a \<times> 'key RelayClient" where
  "with_db step c = (fst step, c\<lparr> rl_db := snd step \<rparr>)"

definition required_config :: "'key RelayClient \<Rightarrow> ProtocolConfig result" where
  "required_config c =
     (case rl_protocol_config c of None \<Rightarrow> Inl (RuntimeError ''relay v2 protocol is not configured'') | Some p \<Rightarrow> Inr p)"

definition required_store :: "'key RelayClient \<Rightarrow> unit result" where
  "required_store c = (if rl_has_store c then Inr () else Inl (RuntimeError ''relay v2 store is not configured''))"

definition bind_relay_scope :: "ClaimedFrameSet \<Rightarrow> ProcessingRelayScope option \<Rightarrow> ClaimedFrameSet result" where
  "bind_relay_scope claim scope =
     (case scope of
        None \<Rightarrow> Inr claim
      | Some s \<Rightarrow>
          if \<not> relay_matches_claim s claim
          then Inl (PermanentRelayError ''processing relay credential does not match current frame set'')
          else Inr (claim\<lparr> cl_authorized_subject := Some (pr_coordinator_subject s),
                           cl_session_token_jti := Some (pr_token_jti s) \<rparr>))"

section \<open>Answering a credit\<close>

text \<open>The clocks one credit reads: on arrival, for the claim, before the payload, and the store's own; and whether a stop was asked for.\<close>

record CreditInputs =
  ki_received_ms :: int
  ki_claim_utc_ms :: int
  ki_mono_ms :: int
  ki_utc_ms :: int
  ki_now_ms :: int
  ki_stopping :: bool

text \<open>A frame set that is not sent: it is released with its state, and the credit is answered without data.\<close>

definition refuse_to_send ::
  "CreditInputs \<Rightarrow> FrameSetKey \<Rightarrow> string \<Rightarrow> string \<Rightarrow> ProcessorCredit \<Rightarrow> string \<Rightarrow> 'key RelayClient \<Rightarrow> unit result \<times> 'key RelayClient" where
  "refuse_to_send inp key live_state reason credit proto_reason c =
     (case with_db (release_before_send (ki_now_ms inp) key live_state reason None (rl_db c)) c of
        (Inl e, c) \<Rightarrow> (Inl e, c)
      | (Inr _, c) \<Rightarrow> (Inr (), put (build_no_data credit proto_reason (Some key)) c))"

definition send_claimed ::
  "'key RelayEnv \<Rightarrow> CreditInputs \<Rightarrow> ClaimedFrameSet \<Rightarrow> ProcessorCredit \<Rightarrow> NegotiatedSession \<Rightarrow> ProtocolConfig
   \<Rightarrow> 'key RelayClient \<Rightarrow> unit result \<times> 'key RelayClient" where
  "send_claimed env inp claim credit session config c =
     (case build_credited_frame_set (en_floats env) (en_files env) (en_serialize env) claim credit session config
             (ki_received_ms inp) (ki_mono_ms inp) (ki_mono_ms inp) (ki_utc_ms inp) of
        Inl (FrameSetExpired _) \<Rightarrow>
          refuse_to_send inp (cl_key claim) ''EXPIRED_BEFORE_OFFER'' ''DEADLINE_EXPIRED_BEFORE_SEND'' credit ''EXPIRED_BEFORE_OFFER'' c
      | Inl (ArchiveIntegrityError _) \<Rightarrow>
          refuse_to_send inp (cl_key claim) ''REJECTED'' ''INTEGRITY_ERROR:ArchiveIntegrityError'' credit ''INTEGRITY_ERROR'' c
      | Inl (OSError path) \<Rightarrow>
          refuse_to_send inp (cl_key claim) ''REJECTED'' (''INTEGRITY_ERROR:'' @ en_os_error_name env path) credit ''INTEGRITY_ERROR'' c
      | Inl (PayloadLimitExceeded _) \<Rightarrow>
          refuse_to_send inp (cl_key claim) ''REJECTED'' ''PAYLOAD_TOO_LARGE'' credit ''PAYLOAD_TOO_LARGE'' c
      | Inl (CreditRejected m) \<Rightarrow>
          (case with_db (release_before_send (ki_now_ms inp) (cl_key claim) ''REJECTED'' ''CREDIT_EXPIRED'' None (rl_db c)) c of
             (Inl e, c) \<Rightarrow> (Inl e, c) | (Inr _, c) \<Rightarrow> (Inl (CreditRejected m), c))
      | Inl e \<Rightarrow> (Inl e, c)
      | Inr payload \<Rightarrow>
          if ki_stopping inp
          then (case with_db (mark_unresolved (ki_now_ms inp) (cl_key claim) ''SHUTDOWN_INTERRUPTED'' None (rl_db c)) c of
                  (Inl e, c) \<Rightarrow> (Inl e, c) | (Inr _, c) \<Rightarrow> (Inr (), c))
          else (let c = put payload c in (Inr (), c\<lparr> rl_offered_count := rl_offered_count c + 1 \<rparr>)))"

definition handle_credit ::
  "'key RelayEnv \<Rightarrow> CreditInputs \<Rightarrow> ProcessorCredit \<Rightarrow> NegotiatedSession \<Rightarrow> string option \<Rightarrow> ProtocolConfig
   \<Rightarrow> ProcessingRelayScope option \<Rightarrow> 'key RelayClient \<Rightarrow> unit result \<times> 'key RelayClient" where
  "handle_credit env inp credit session expected_run config relay_scope c =
     (case bind_result (credit_identity credit session) (\<lambda>identity.
           bind_result (required_store c) (\<lambda>_.
           bind_result (snapshot_for_hello (rl_db c)) (\<lambda>preview.
             if (case preview of None \<Rightarrow> False
                 | Some p \<Rightarrow> expected_run \<noteq> None \<and> Some (fk_capture_run_id (cl_key p)) \<noteq> expected_run)
             then Inl (CaptureRunChanged ''capture run changed; a new hello is required'')
             else Inr identity))) of
        Inl e \<Rightarrow> (Inl e, c)
      | Inr identity \<Rightarrow>
          (case with_db (claim_latest id (ki_now_ms inp) identity (Some (ki_claim_utc_ms inp)) (rl_db c)) c of
             (Inl e, c) \<Rightarrow> (Inl e, c)
           | (Inr None, c) \<Rightarrow>
               (let c = put (build_no_data credit ''NO_DATA'' (offered_watermark (rl_db c))) c
                in (Inr (), c\<lparr> rl_no_data_count := rl_no_data_count c + 1 \<rparr>))
           | (Inr (Some claim), c) \<Rightarrow>
               (case bind_relay_scope claim relay_scope of
                  Inl e \<Rightarrow> (Inl e, c)
                | Inr claim \<Rightarrow> send_claimed env inp claim credit session config c)))"

section \<open>Statuses and reconciliation\<close>

definition apply_status :: "int \<Rightarrow> FrameStatus \<Rightarrow> 'key RelayClient \<Rightarrow> unit result \<times> 'key RelayClient" where
  "apply_status now status c =
     (case (fx_state status, fx_reason status) of
        (None, _) \<Rightarrow> (Inl (ValueError ''Enum ProcessingAttemptState has no name defined for value''), c)
      | (Some state, None) \<Rightarrow> (Inl (ValueError ''Enum Reason has no name defined for value''), c)
      | (Some state, Some reason) \<Rightarrow>
          (case with_db (apply_remote_status now (proto_key (fx_key status)) state (Some reason) None (rl_db c)) c of
             (Inl e, c) \<Rightarrow> (Inl e, c) | (Inr _, c) \<Rightarrow> (Inr (), c)))"

fun apply_statuses :: "int \<Rightarrow> FrameStatus list \<Rightarrow> 'key RelayClient \<Rightarrow> unit result \<times> 'key RelayClient" where
  "apply_statuses now [] c = (Inr (), c)"
| "apply_statuses now (status # rest) c =
     (case apply_status now status c of (Inl e, c) \<Rightarrow> (Inl e, c) | (Inr _, c) \<Rightarrow> apply_statuses now rest c)"

fun reconcile_unseen :: "int \<Rightarrow> string list \<Rightarrow> FrameSetKey list \<Rightarrow> 'key RelayClient \<Rightarrow> unit result \<times> 'key RelayClient" where
  "reconcile_unseen now seen [] c = (Inr (), c)"
| "reconcile_unseen now seen (key # keys) c =
     (if fk_frame_set_uid key \<in> set seen then reconcile_unseen now seen keys c
      else case with_db (reconcile_not_found now key (\<not> has_newer_eligible (rl_db c) key) None (rl_db c)) c of
             (Inl e, c) \<Rightarrow> (Inl e, c) | (Inr _, c) \<Rightarrow> reconcile_unseen now seen keys c)"

definition apply_reconciliation ::
  "int \<Rightarrow> FrameStatus list \<Rightarrow> bool \<Rightarrow> 'key RelayClient \<Rightarrow> bool result \<times> 'key RelayClient" where
  "apply_reconciliation now statuses is_complete c =
     (case apply_statuses now statuses c of
        (Inl e, c) \<Rightarrow> (Inl e, c)
      | (Inr _, c) \<Rightarrow>
          if \<not> is_complete then (Inr False, c)
          else (case unresolved_keys (rl_db c) of
                  Inl e \<Rightarrow> (Inl e, c)
                | Inr keys \<Rightarrow>
                    (case reconcile_unseen now (map (fk_frame_set_uid \<circ> fx_key) statuses) keys c of
                       (Inl e, c) \<Rightarrow> (Inl e, c) | (Inr _, c) \<Rightarrow> (Inr True, c))))"

section \<open>A connection\<close>

record Connection =
  co_hello :: ClaimedFrameSet
  co_config :: ProtocolConfig
  co_token :: "string option"
  co_scope :: "ProcessingRelayScope option"
  co_session :: "NegotiatedSession option"
  co_reconciled :: bool
  co_connected :: bool

text \<open>What opening a connection reads: the wall clock, the store's clock, what the credentials need, and whether a stop was asked for.\<close>

record OpenInputs =
  oi_utc_ms :: int
  oi_now_ms :: int
  oi_relay :: RelayInputs
  oi_session_now :: int
  oi_stopping :: bool

text \<open>The credential for the announced frame set: its token and relay scope, or nothing when the session has ended.\<close>

definition authorize_hello ::
  "'key RelayEnv \<Rightarrow> OpenInputs \<Rightarrow> ClaimedFrameSet \<Rightarrow> 'key RelayClient
   \<Rightarrow> (string option \<times> ProcessingRelayScope option) option result \<times> 'key RelayClient" where
  "authorize_hello env inp hello c =
     (if \<not> truthy (cl_processing_job_id hello) then (Inr (Some (None, None)), c)
      else case rl_provider c of
        Some p \<Rightarrow>
          (case resolve_relay_credential (en_library env) (oi_relay inp) hello p of
             (Inl (RelayCredentialSessionInactive _), p) \<Rightarrow>
               (Inr None, snd (with_db (retire_eligible (oi_now_ms inp) (cl_key hello) ''SESSION_INACTIVE''
                    ''RELAY_CREDENTIAL_SESSION_INACTIVE'' (Some (oi_utc_ms inp)) (rl_db c)) (c\<lparr> rl_provider := Some p \<rparr>)))
           | (Inl e, p) \<Rightarrow> (Inl e, c\<lparr> rl_provider := Some p \<rparr>)
           | (Inr credential, p) \<Rightarrow>
               (Inr (Some (Some (ac_token credential), Some (ac_scope credential))), c\<lparr> rl_provider := Some p \<rparr>))
      | None \<Rightarrow>
          (case resolve_for_claim (oi_session_now inp) hello (rl_sessions c) of
             (Inl e, sessions) \<Rightarrow> (Inl e, c\<lparr> rl_sessions := sessions \<rparr>)
           | (Inr credential, sessions) \<Rightarrow>
               (Inr (Some (Some (ac_token credential), None)), c\<lparr> rl_sessions := sessions \<rparr>)))"

text \<open>A connection is opened, or the call returns early: \<open>Inl\<close> carries what \<open>_run_connection\<close> returns.\<close>

definition open_connection ::
  "'key RelayEnv \<Rightarrow> OpenInputs \<Rightarrow> 'key RelayClient \<Rightarrow> (bool option + Connection) result \<times> 'key RelayClient" where
  "open_connection env inp c =
     (case bind_result (required_store c) (\<lambda>_. bind_result (required_config c) (\<lambda>base.
           bind_result (snapshot_for_hello (rl_db c)) (\<lambda>snapshot. Inr (base, snapshot)))) of
        Inl e \<Rightarrow> (Inl e, c)
      | Inr (base, None) \<Rightarrow> (Inr (Inl None), c)
      | Inr (base, Some hello) \<Rightarrow>
          (case bind_authorized_claim base hello of
             Inl e \<Rightarrow> (Inl e, c)
           | Inr config \<Rightarrow>
               (case authorize_hello env inp hello c of
                  (Inl e, c) \<Rightarrow> (Inl e, c)
                | (Inr None, c) \<Rightarrow> (Inr (Inl None), c)
                | (Inr (Some (token, scope)), c) \<Rightarrow>
                    (case bind_result (bind_relay_scope hello scope) (\<lambda>authorized.
                          bind_result (unresolved_keys (rl_db c)) (\<lambda>unresolved.
                          bind_result (build_producer_hello (en_floats env) config authorized (offered_watermark (rl_db c))
                              unresolved
                              (case processing_job_for (rl_db c) (fk_capture_run_id (cl_key hello)) of
                                 Some job \<Rightarrow> if job = [] then cl_processing_job_id hello else Some job
                               | None \<Rightarrow> cl_processing_job_id hello)
                              (Some (oi_utc_ms inp)) (oi_utc_ms inp)) (\<lambda>envelope.
                            Inr (envelope, unresolved)))) of
                       Inl e \<Rightarrow> (Inl e, c)
                     | Inr (envelope, unresolved) \<Rightarrow>
                         (let c = put envelope c
                          in if oi_stopping inp then (Inr (Inl (Some False)), c)
                             else (Inr (Inr \<lparr> co_hello = hello, co_config = config, co_token = token, co_scope = scope,
                                              co_session = None, co_reconciled = (unresolved = []), co_connected = False \<rparr>), c))))))"

section \<open>The messages of the processor\<close>

text \<open>What one message makes the loop do: go on, or return with the value of \<open>_run_connection\<close>.\<close>

datatype Served = GoOn Connection | Leave "bool option"

record EnvelopeInputs =
  vi_utc_ms :: int
  vi_now_ms :: int
  vi_credit :: CreditInputs

text \<open>A rejected hello that cannot be retried: a candidate whose session has ended is retired, anything else is permanent.\<close>

definition hello_rejected ::
  "EnvelopeInputs \<Rightarrow> string \<Rightarrow> Connection \<Rightarrow> 'key RelayClient \<Rightarrow> Served result \<times> 'key RelayClient" where
  "hello_rejected inp detail_code conn c =
     (case (if co_token conn \<noteq> None \<and> detail_code = ''SESSION_TOKEN_SCOPE_INVALID''
            then current_in_flight (rl_db c) else Inr (Some (cl_key (co_hello conn)))) of
        Inl e \<Rightarrow> (Inl e, c)
      | Inr (Some _) \<Rightarrow> (Inl (PermanentRelayError (''relay v2 disabled: '' @ detail_code)), c)
      | Inr None \<Rightarrow>
          (case with_db (retire_eligible (vi_now_ms inp) (cl_key (co_hello conn)) ''REJECTED'' ''SESSION_TOKEN_SCOPE_INVALID''
                  (Some (vi_utc_ms inp)) (rl_db c)) c of
             (True, c) \<Rightarrow>
               (Inr (Leave None), c\<lparr> rl_last_error := Some ''relay candidate rejected: SESSION_TOKEN_SCOPE_INVALID'' \<rparr>)
           | (False, c) \<Rightarrow> (Inl (PermanentRelayError (''relay v2 disabled: '' @ detail_code)), c)))"

definition first_envelope ::
  "EnvelopeInputs \<Rightarrow> RelayEnvelope \<Rightarrow> Connection \<Rightarrow> 'key RelayClient \<Rightarrow> Served result \<times> 'key RelayClient" where
  "first_envelope inp envelope conn c =
     (case accept_hello (body_of envelope) (co_config conn) of
        Inl e \<Rightarrow> (Inl e, c)
      | Inr session \<Rightarrow>
          (case with_db (bind_processing_job (vi_now_ms inp) (fk_capture_run_id (cl_key (co_hello conn)))
                  (ng_processing_job_id session) (Some (vi_utc_ms inp)) (rl_db c)) c of
             (Inl e, c) \<Rightarrow> (Inl e, c)
           | (Inr _, c) \<Rightarrow>
               (let c = c\<lparr> rl_connection_count := rl_connection_count c + 1 \<rparr>;
                    conn = conn\<lparr> co_session := Some session, co_connected := True \<rparr>
                in case unresolved_keys (rl_db c) of
                     Inl e \<Rightarrow> (Inl e, c)
                   | Inr unresolved \<Rightarrow>
                       (case envelope of
                          HelloAcceptedEnvelope accepted required resume \<Rightarrow>
                            if required \<or> unresolved \<noteq> []
                            then (Inr (GoOn (conn\<lparr> co_reconciled := (unresolved = []) \<rparr>)),
                                  put (build_reconciliation_request session (co_config conn) unresolved
                                         (if resume = [] then None else Some resume)) c)
                            else (Inr (GoOn conn), c)
                        | _ \<Rightarrow> (Inr (GoOn conn), c)))))"

definition on_envelope ::
  "'key RelayEnv \<Rightarrow> EnvelopeInputs \<Rightarrow> RelayEnvelope \<Rightarrow> Connection \<Rightarrow> 'key RelayClient \<Rightarrow> Served result \<times> 'key RelayClient" where
  "on_envelope env inp envelope conn c =
     (case co_session conn of
        None \<Rightarrow>
          (case envelope of
             HelloRejectedEnvelope reason detail_code retryable \<Rightarrow>
               if \<not> retryable then hello_rejected inp detail_code conn c else first_envelope inp envelope conn c
           | _ \<Rightarrow> first_envelope inp envelope conn c)
      | Some session \<Rightarrow>
          (case envelope of
             ReconciliationReply statuses is_complete \<Rightarrow>
               (case apply_reconciliation (vi_now_ms inp) statuses is_complete c of
                  (Inl e, c) \<Rightarrow> (Inl e, c)
                | (Inr reconciled, c) \<Rightarrow> (Inr (GoOn (conn\<lparr> co_reconciled := reconciled \<rparr>)), c))
           | CreditEnvelope credit \<Rightarrow>
               if \<not> co_reconciled conn
               then (Inl (CreditRejected ''processor issued credit before reconciliation completed''), c)
               else (case handle_credit env (vi_credit inp) credit session
                            (Some (fk_capture_run_id (cl_key (co_hello conn)))) (co_config conn) (co_scope conn) c of
                       (Inl e, c) \<Rightarrow> (Inl e, c) | (Inr _, c) \<Rightarrow> (Inr (GoOn conn), c))
           | StatusEnvelope status \<Rightarrow>
               (case apply_status (vi_now_ms inp) status c of
                  (Inl e, c) \<Rightarrow> (Inl e, c) | (Inr _, c) \<Rightarrow> (Inr (GoOn conn), c))
           | NoBodyEnvelope \<Rightarrow> (Inr (GoOn conn), c)
           | _ \<Rightarrow> (Inl (CreditRejected ''processor repeated hello response''), c)))"

text \<open>
  The stream of responses: a message, with the state of the stop event when it is taken, an exception of
  the transport, or the end of the list where the stream ends. Between messages the ingest threads
  store and project frame sets (\<open>Meanwhile\<close>).
\<close>

datatype RelayEvent =
    Response bool EnvelopeInputs RelayEnvelope
  | TransportError exn
  | Meanwhile ledger_op

fun serve ::
  "'key RelayEnv \<Rightarrow> RelayEvent list \<Rightarrow> Connection \<Rightarrow> 'key RelayClient \<Rightarrow> bool option result \<times> 'key RelayClient" where
  "serve env [] conn c = (Inr (Some (co_connected conn)), c)"
| "serve env (TransportError e # events) conn c = (Inl e, c)"
| "serve env (Meanwhile op # events) conn c =
     serve env events conn (c\<lparr> rl_db := live_step (rl_db c) (LedgerOp op) \<rparr>)"
| "serve env (Response stopping inp envelope # events) conn c =
     (if stopping then (Inr (Some (co_connected conn)), c)
      else case on_envelope env inp envelope conn c of
        (Inl e, c) \<Rightarrow> (Inl e, c)
      | (Inr (Leave r), c) \<Rightarrow> (Inr r, c)
      | (Inr (GoOn conn), c) \<Rightarrow> serve env events conn c)"

text \<open>The end of a connection, however it ends: what is still in flight is marked unresolved.\<close>

definition close_connection :: "int \<Rightarrow> 'key RelayClient \<Rightarrow> unit result \<times> 'key RelayClient" where
  "close_connection now c =
     (case current_in_flight (rl_db c) of
        Inl e \<Rightarrow> (Inl e, c)
      | Inr None \<Rightarrow> (Inr (), c)
      | Inr (Some key) \<Rightarrow>
          (case with_db (mark_unresolved now key ''TRANSPORT_DISCONNECTED'' None (rl_db c)) c of
             (Inl e, c) \<Rightarrow> (Inl e, c) | (Inr _, c) \<Rightarrow> (Inr (), c)))"

definition run_connection ::
  "'key RelayEnv \<Rightarrow> OpenInputs \<Rightarrow> RelayEvent list \<Rightarrow> int \<Rightarrow> 'key RelayClient \<Rightarrow> bool option result \<times> 'key RelayClient" where
  "run_connection env inp events close_ms c =
     (case open_connection env inp c of
        (Inl e, c) \<Rightarrow> (Inl e, c)
      | (Inr (Inl r), c) \<Rightarrow> (Inr r, c)
      | (Inr (Inr conn), c) \<Rightarrow>
          (case serve env events conn c of
             (r, c) \<Rightarrow> (case close_connection close_ms c of (Inl e, c) \<Rightarrow> (Inl e, c) | (Inr _, c) \<Rightarrow> (r, c))))"

section \<open>The worker and its control\<close>

text \<open>
  One round of the worker: a connection, whether a stop is seen after it and before the next, and the
  random value of the wait. The worker returns the waits. An exception of \<open>delay\<close> leaves the thread.
\<close>

record Round =
  rd_open :: OpenInputs
  rd_events :: "RelayEvent list"
  rd_close_ms :: int
  rd_stopping :: bool
  rd_random :: rat

fun run_worker :: "'key RelayEnv \<Rightarrow> Round list \<Rightarrow> nat \<Rightarrow> 'key RelayClient \<Rightarrow> rat list \<times> 'key RelayClient" where
  "run_worker env [] attempt c = ([], c)"
| "run_worker env (r # rounds) attempt c =
     (case run_connection env (rd_open r) (rd_events r) (rd_close_ms r) c of
        (Inr None, c) \<Rightarrow> if rd_stopping r then ([], c\<lparr> rl_running := False \<rparr>) else run_worker env rounds 0 c
      | (Inl (PermanentRelayError m), c) \<Rightarrow> ([], c\<lparr> rl_last_error := Some m, rl_running := False \<rparr>)
      | (outcome, c) \<Rightarrow>
          (let attempt = (if outcome = Inr (Some True) then 0 else attempt);
               c = (case outcome of Inl e \<Rightarrow> c\<lparr> rl_last_error := Some (en_exn_text env e) \<rparr> | Inr _ \<Rightarrow> c)
           in if rd_stopping r then ([], c\<lparr> rl_running := False \<rparr>)
              else let c = c\<lparr> rl_reconnect_count := rl_reconnect_count c + 1 \<rparr>
                   in case backoff_delay (rl_backoff c) attempt (rd_random r) of
                        Inl e \<Rightarrow> ([], c\<lparr> rl_running := False \<rparr>)
                      | Inr wait \<Rightarrow> (case run_worker env rounds (attempt + 1) c of (waits, c) \<Rightarrow> (wait # waits, c))))"

definition configure_client ::
  "string \<Rightarrow> bool \<Rightarrow> LiveDb option \<Rightarrow> ProtocolConfig option \<Rightarrow> 'key RelayProvider option \<Rightarrow> 'key RelayClient
   \<Rightarrow> unit result \<times> 'key RelayClient" where
  "configure_client target enabled store config provider c =
     (if rl_running c then (Inl (RuntimeError ''cannot configure a running relay v2 client''), c)
      else if enabled \<and> (target = [] \<or> store = None \<or> config = None)
      then (Inl (ValueError ''enabled relay v2 requires target, session factory, and protocol config''), c)
      else (Inr (), c\<lparr> rl_target := target, rl_enabled := enabled, rl_has_store := (store \<noteq> None),
              rl_db := (case store of None \<Rightarrow> rl_db c | Some d \<Rightarrow> d), rl_protocol_config := config,
              rl_provider := provider, rl_last_error := None \<rparr>))"

definition start_client :: "'key RelayClient \<Rightarrow> 'key RelayClient" where
  "start_client c = (if rl_enabled c \<and> \<not> rl_running c then c\<lparr> rl_running := True \<rparr> else c)"

text \<open>\<open>stop\<close> after the worker has ended.\<close>

definition stop_client :: "int \<Rightarrow> 'key RelayClient \<Rightarrow> unit result \<times> 'key RelayClient" where
  "stop_client now c =
     (case (if rl_has_store c then current_in_flight (rl_db c) else Inr None) of
        Inl e \<Rightarrow> (Inl e, c)
      | Inr None \<Rightarrow> (Inr (), c\<lparr> rl_running := False \<rparr>)
      | Inr (Some key) \<Rightarrow>
          (case with_db (mark_unresolved now key ''SHUTDOWN_INTERRUPTED'' None (rl_db c)) c of
             (Inl e, c) \<Rightarrow> (Inl e, c) | (Inr _, c) \<Rightarrow> (Inr (), c\<lparr> rl_running := False \<rparr>)))"

record RelayStatus =
  ry_contract_registered :: bool
  ry_enabled :: bool
  ry_running :: bool
  ry_target :: string
  ry_last_error :: "string option"
  ry_connection_count :: int
  ry_reconnect_count :: int
  ry_offered_count :: int
  ry_no_data_count :: int
  ry_in_flight :: bool

definition client_status :: "'key RelayClient \<Rightarrow> RelayStatus result" where
  "client_status c =
     bind_result (if rl_has_store c then current_in_flight (rl_db c) else Inr None) (\<lambda>current.
       Inr \<lparr> ry_contract_registered = True, ry_enabled = rl_enabled c, ry_running = rl_running c,
             ry_target = rl_target c, ry_last_error = rl_last_error c,
             ry_connection_count = rl_connection_count c, ry_reconnect_count = rl_reconnect_count c,
             ry_offered_count = rl_offered_count c, ry_no_data_count = rl_no_data_count c,
             ry_in_flight = (current \<noteq> None) \<rparr>)"

section \<open>The client works through the store\<close>

text \<open>
  Whatever the client does to the database is a sequence of operations of the store, within their
  contract; so what LatestLive proves of such sequences holds of the client.
\<close>

definition store_steps :: "LiveDb \<Rightarrow> LiveDb \<Rightarrow> bool" where
  "store_steps d d' \<longleftrightarrow> (\<exists>ops. list_all live_op_ok ops \<and> d' = run live_step d ops)"

named_theorems store_intros \<open>operations of the store as steps\<close>

lemma store_steps_refl [store_intros]: "store_steps d d"
  unfolding store_steps_def by (rule exI [of _ "[]"]) simp

lemma store_steps_trans: "store_steps d d' \<Longrightarrow> store_steps d' d'' \<Longrightarrow> store_steps d d''"
  unfolding store_steps_def by (metis list_all_append run_append)

lemma store_step: "live_op_ok op \<Longrightarrow> store_steps d (live_step d op)"
  unfolding store_steps_def by (rule exI [of _ "[op]"]) simp

lemma store_calls [store_intros]:
  "store_steps d (snd (claim_latest id now credit off d))"
  "store_steps d (snd (mark_unresolved now key reason t d))"
  "store_steps d (snd (apply_remote_status now key state why t d))"
  "store_steps d (snd (release_before_send now key state reason t d))"
  "store_steps d (snd (reconcile_not_found now key retry t d))"
  "store_steps d (snd (bind_processing_job now capture job t d))"
  "state \<notin> set (''ELIGIBLE'' # ACTIVE_STATES) \<Longrightarrow> store_steps d (snd (retire_eligible now key state reason t d))"
  using store_step [of "Claim now credit off" d] store_step [of "MarkUnresolved now key reason t" d]
    store_step [of "RemoteStatus now key state why t" d] store_step [of "ReleaseBeforeSend now key state reason t" d]
    store_step [of "Reconcile now key retry t" d] store_step [of "BindJob now capture job t" d]
    store_step [of "Retire now key state reason t" d] by simp_all

lemma store_steps_inv: "store_steps d d' \<Longrightarrow> live_inv d \<Longrightarrow> live_inv d'"
  unfolding store_steps_def using live.run_inv by blast

lemma with_db_eq: "with_db step c = (r, c') \<longleftrightarrow> r = fst step \<and> c' = c\<lparr> rl_db := snd step \<rparr>"
  by (auto simp: with_db_def)

lemma put_simps [simp]:
  "rl_db (put e c) = rl_db c" "rl_outgoing (put e c) = rl_outgoing c @ [e]"
  "rl_has_store (put e c) = rl_has_store c" "rl_protocol_config (put e c) = rl_protocol_config c"
  by (simp_all add: put_def)

lemma refuse_steps:
  "refuse_to_send inp key live_state reason credit proto_reason c = (r, c') \<Longrightarrow> store_steps (rl_db c) (rl_db c')"
  by (auto simp: refuse_to_send_def with_db_eq intro: store_intros split: prod.splits sum.splits)

lemma send_claimed_steps:
  "send_claimed env inp claim credit session config c = (r, c') \<Longrightarrow> store_steps (rl_db c) (rl_db c')"
  by (auto simp: send_claimed_def with_db_eq Let_def intro: store_intros refuse_steps
      split: prod.splits sum.splits exn.splits if_splits)

lemma handle_credit_steps:
  assumes "handle_credit env inp credit session expected config scope c = (r, c')"
  shows "store_steps (rl_db c) (rl_db c')"
proof -
  have claim: "store_steps (rl_db c) d" if "(x, d) = claim_latest id (ki_now_ms inp) i (Some (ki_claim_utc_ms inp)) (rl_db c)" for x d i
    using store_calls(1) [where d = "rl_db c"] that by (metis snd_conv)
  from assms show ?thesis
    by (auto simp: handle_credit_def with_db_eq Let_def intro: store_intros claim
        dest!: send_claimed_steps intro: store_steps_trans [OF store_calls(1)]
        split: prod.splits sum.splits option.splits)
qed

lemma apply_status_steps: "apply_status now status c = (r, c') \<Longrightarrow> store_steps (rl_db c) (rl_db c')"
  by (auto simp: apply_status_def with_db_eq intro: store_intros split: prod.splits sum.splits option.splits)

lemma apply_statuses_steps: "apply_statuses now statuses c = (r, c') \<Longrightarrow> store_steps (rl_db c) (rl_db c')"
proof (induction statuses arbitrary: c)
  case (Cons status rest)
  then show ?case
    by (auto split: prod.splits sum.splits dest: apply_status_steps intro: store_steps_trans)
qed (auto intro: store_intros)

lemma reconcile_unseen_steps: "reconcile_unseen now seen keys c = (r, c') \<Longrightarrow> store_steps (rl_db c) (rl_db c')"
proof (induction keys arbitrary: c)
  case (Cons key keys)
  show ?case
  proof (cases "fk_frame_set_uid key \<in> set seen")
    case False
    let ?step = "reconcile_not_found now key (\<not> has_newer_eligible (rl_db c) key) None (rl_db c)"
    have "store_steps (rl_db c) (snd ?step)" by (rule store_calls)
    moreover have "snd ?step = rl_db c' \<or> reconcile_unseen now seen keys (c\<lparr> rl_db := snd ?step \<rparr>) = (r, c')"
      using Cons.prems False by (auto simp: with_db_def split: sum.splits)
    ultimately show ?thesis using Cons.IH [of "c\<lparr> rl_db := snd ?step \<rparr>"] by (auto intro: store_steps_trans)
  qed (use Cons in simp)
qed (auto intro: store_intros)

lemma apply_reconciliation_steps:
  "apply_reconciliation now statuses is_complete c = (r, c') \<Longrightarrow> store_steps (rl_db c) (rl_db c')"
  by (auto simp: apply_reconciliation_def dest!: apply_statuses_steps reconcile_unseen_steps intro: store_steps_trans
      split: prod.splits sum.splits if_splits)

lemma hello_rejected_steps:
  assumes "hello_rejected inp detail_code conn c = (r, c')"
  shows "store_steps (rl_db c) (rl_db c')"
proof -
  have "store_steps (rl_db c) (snd (retire_eligible (vi_now_ms inp) (cl_key (co_hello conn)) ''REJECTED''
      ''SESSION_TOKEN_SCOPE_INVALID'' (Some (vi_utc_ms inp)) (rl_db c)))"
    by (rule store_calls) (simp add: ACTIVE_STATES_def)
  then show ?thesis using assms
    by (auto simp: hello_rejected_def with_db_def intro: store_intros split: prod.splits sum.splits option.splits bool.splits)
qed

lemma first_envelope_steps:
  assumes "first_envelope inp envelope conn c = (r, c')"
  shows "store_steps (rl_db c) (rl_db c')"
  using assms by (auto simp: first_envelope_def with_db_eq Let_def intro: store_intros
      split: prod.splits sum.splits RelayEnvelope.splits if_splits)

lemma on_envelope_steps:
  assumes "on_envelope env inp envelope conn c = (r, c')"
  shows "store_steps (rl_db c) (rl_db c')"
  using assms by (auto simp: on_envelope_def intro: store_intros
      dest!: first_envelope_steps hello_rejected_steps apply_reconciliation_steps apply_status_steps handle_credit_steps
      split: prod.splits sum.splits option.splits RelayEnvelope.splits if_splits)

fun event_ok :: "RelayEvent \<Rightarrow> bool" where
  "event_ok (Meanwhile op) = live_op_ok (LedgerOp op)"
| "event_ok _ = True"

lemma serve_steps:
  "serve env events conn c = (r, c') \<Longrightarrow> list_all event_ok events \<Longrightarrow> store_steps (rl_db c) (rl_db c')"
proof (induction env events conn c rule: serve.induct)
  case (3 env op events conn c)
  then show ?case using store_step [of "LedgerOp op" "rl_db c"] by (auto intro: store_steps_trans simp del: live_step.simps)
next
  case (4 env stopping inp envelope events conn c)
  obtain s d where o: "on_envelope env inp envelope conn c = (s, d)" by fastforce
  note steps = on_envelope_steps [OF o]
  show ?case
  proof (cases "\<exists>conn'. s = Inr (GoOn conn') \<and> \<not> stopping")
    case True
    then show ?thesis using 4 o steps by (auto intro: store_steps_trans)
  next
    case False
    then show ?thesis using 4(2) o steps by (auto intro: store_intros split: sum.splits Served.splits if_splits)
  qed
qed (auto intro: store_intros)

lemma close_steps: "close_connection now c = (r, c') \<Longrightarrow> store_steps (rl_db c) (rl_db c')"
  by (auto simp: close_connection_def with_db_eq intro: store_intros split: prod.splits sum.splits option.splits)

lemma authorize_steps:
  assumes "authorize_hello env inp hello c = (r, c')"
  shows "store_steps (rl_db c) (rl_db c')"
proof -
  have "store_steps (rl_db c) (snd (retire_eligible (oi_now_ms inp) (cl_key hello) ''SESSION_INACTIVE''
      ''RELAY_CREDENTIAL_SESSION_INACTIVE'' (Some (oi_utc_ms inp)) (rl_db c)))"
    by (rule store_calls) (simp add: ACTIVE_STATES_def)
  then show ?thesis using assms
    by (auto simp: authorize_hello_def with_db_def intro: store_intros split: prod.splits sum.splits option.splits if_splits exn.splits)
qed

lemma open_steps:
  assumes "open_connection env inp c = (r, c')" shows "store_steps (rl_db c) (rl_db c')"
  using assms by (auto simp: open_connection_def Let_def intro: store_intros dest!: authorize_steps
      split: prod.splits sum.splits option.splits if_splits)

lemma run_connection_steps:
  assumes "run_connection env inp events close_ms c = (r, c')" "list_all event_ok events"
  shows "store_steps (rl_db c) (rl_db c')"
proof -
  obtain o1 c1 where o: "open_connection env inp c = (o1, c1)" by fastforce
  note opened = open_steps [OF o]
  show ?thesis
  proof (cases "\<exists>conn. o1 = Inr (Inr conn)")
    case True
    then obtain conn where conn: "o1 = Inr (Inr conn)" by blast
    obtain r2 c2 where s: "serve env events conn c1 = (r2, c2)" by fastforce
    obtain r3 c3 where x: "close_connection close_ms c2 = (r3, c3)" by fastforce
    have "c' = c3" using assms(1) o conn s x by (auto simp: run_connection_def split: sum.splits)
    then show ?thesis using opened serve_steps [OF s assms(2)] close_steps [OF x] by (blast intro: store_steps_trans)
  next
    case False
    then show ?thesis using assms(1) o opened by (auto simp: run_connection_def split: sum.splits)
  qed
qed

section \<open>What a credit is answered with\<close>

lemma proto_key_id [simp]: "proto_key key = key"
  by (simp add: proto_key_def)

lemma matches_in_flight: "matches_current d key \<Longrightarrow> in_flight d = Some (fk_frame_set_uid key)"
  by (auto simp: matches_current_def in_flight_def split: option.splits)

lemma release_current:
  assumes inv: "live_inv d" and m: "matches_current d key" and st: "state \<in> {''EXPIRED_BEFORE_OFFER'', ''REJECTED''}"
  shows "\<exists>d'. release_before_send now key state reason t d = (Inr True, d') \<and> in_flight d' = None
    \<and> live_state_of d' (fk_frame_set_uid key) = Some state"
proof -
  have "upper (strip ''EXPIRED_BEFORE_OFFER'') = ''EXPIRED_BEFORE_OFFER''" "upper (strip ''REJECTED'') = ''REJECTED''"
    by code_simp+
  then have n: "upper (strip state) = state" "state \<in> {''EXPIRED_BEFORE_OFFER'', ''REJECTED''}" using st by auto
  from inv show ?thesis
  proof (cases rule: transition_cases [of d key now state "Some reason" True t])
    case (moved pj s)
    then show ?thesis using n
      by (auto simp: release_before_send_def Let_def in_flight_def released_def live_state_of_def set_live_def)
  qed (use m in simp)
qed

text \<open>How one frame set was answered: it is on the wire, or it was released in a settled state.\<close>

definition answered_for :: "FrameSetKey \<Rightarrow> ProcessorCredit \<Rightarrow> 'key RelayClient \<Rightarrow> 'key RelayClient \<Rightarrow> bool" where
  "answered_for key credit c c' \<longleftrightarrow>
     (\<exists>cf. rl_outgoing c' = rl_outgoing c @ [FrameSetEnvelope cf] \<and> cf_key cf = key
        \<and> cf_credit_scope cf = cd_scope credit \<and> rl_db c' = rl_db c)
   \<or> (\<exists>nd. rl_outgoing c' = rl_outgoing c @ [NoDataEnvelope nd] \<and> nd_scope nd = cd_scope credit
        \<and> nd_newest_known_frame_set nd = Some key \<and> in_flight (rl_db c') = None
        \<and> live_state_of (rl_db c') (fk_frame_set_uid key) \<in> {Some ''EXPIRED_BEFORE_OFFER'', Some ''REJECTED''})"

lemma refuse_answers:
  assumes "live_inv (rl_db c)" "matches_current (rl_db c) key" "state \<in> {''EXPIRED_BEFORE_OFFER'', ''REJECTED''}"
    and "refuse_to_send inp key state reason credit proto_reason c = (r, c')"
  shows "r = Inr () \<and> answered_for key credit c c'"
proof -
  obtain d where d: "release_before_send (ki_now_ms inp) key state reason None (rl_db c) = (Inr True, d)" "in_flight d = None"
      "live_state_of d (fk_frame_set_uid key) = Some state"
    using release_current [OF assms(1-3)] by blast
  then show ?thesis using assms(3,4)
    by (auto simp: refuse_to_send_def with_db_def answered_for_def build_no_data_def)
qed

lemma send_claimed_answers:
  assumes inv: "live_inv (rl_db c)" and m: "matches_current (rl_db c) (cl_key claim)" and go: "\<not> ki_stopping inp"
    and s: "send_claimed env inp claim credit session config c = (Inr (), c')"
  shows "answered_for (cl_key claim) credit c c'"
proof -
  note refused = refuse_answers [OF inv m, THEN conjunct2]
  show ?thesis
  proof (cases "build_credited_frame_set (en_floats env) (en_files env) (en_serialize env) claim credit session config
             (ki_received_ms inp) (ki_mono_ms inp) (ki_mono_ms inp) (ki_utc_ms inp)")
    case (Inl e)
    then show ?thesis using s by (cases e) (auto simp: send_claimed_def intro: refused split: prod.splits sum.splits)
  next
    case (Inr envelope)
    have "\<exists>cf. envelope = FrameSetEnvelope cf \<and> cf_key cf = cl_key claim \<and> cf_credit_scope cf = cd_scope credit"
      by (rule build_credited_Inr [OF Inr]) (auto simp: credited_frame_set_def)
    then show ?thesis using Inr s go by (auto simp: send_claimed_def Let_def answered_for_def)
  qed
qed

lemma claim_matches:
  assumes "live_inv d" "claim_latest id now credit off d = (Inr (Some claim), d')"
  shows "matches_current d' (cl_key claim)" "in_flight d = None" "live_state_of d' (fk_frame_set_uid (cl_key claim)) = Some ''OFFERED''"
proof -
  obtain mf t where c: "claim = live_snapshot (lv_ledger d') mf credit t" "in_flight d = None"
      "dict_get (db_manifests (lv_ledger d)) (mf_frame_set_uid mf) = Some mf"
      "in_flight d' = Some (mf_frame_set_uid mf)" "live_state_of d' (mf_frame_set_uid mf) = Some ''OFFERED''"
      "db_manifests (lv_ledger d') = db_manifests (lv_ledger d)"
    by (rule claim_offers [OF assms])
  then obtain s where "lv_state d' = Some s" by (auto simp: in_flight_def split: option.splits)
  with c show "matches_current d' (cl_key claim)" "in_flight d = None" "live_state_of d' (fk_frame_set_uid (cl_key claim)) = Some ''OFFERED''"
    by (auto simp: matches_current_def live_snapshot_def key_of_def in_flight_def)
qed

lemma claim_None_in_flight:
  assumes "claim_latest id now credit off d = (Inr None, d')" shows "in_flight d' = in_flight d"
  using assms by (cases rule: claim_cases) auto

text \<open>
  The whole answer: one message. A frame set in it is in flight from then on and was not before;
  without one, nothing new is in flight, and a frame set that was taken and not sent is settled.
\<close>

lemma credit_answered:
  assumes inv: "live_inv (rl_db c)" and go: "\<not> ki_stopping inp"
    and h: "handle_credit env inp credit session expected config scope c = (Inr (), c')"
  shows "(\<exists>cf. rl_outgoing c' = rl_outgoing c @ [FrameSetEnvelope cf] \<and> cf_credit_scope cf = cd_scope credit
        \<and> in_flight (rl_db c) = None \<and> in_flight (rl_db c') = Some (fk_frame_set_uid (cf_key cf))
        \<and> live_state_of (rl_db c') (fk_frame_set_uid (cf_key cf)) = Some ''OFFERED'')
    \<or> (\<exists>nd. rl_outgoing c' = rl_outgoing c @ [NoDataEnvelope nd] \<and> nd_scope nd = cd_scope credit
        \<and> in_flight (rl_db c') = in_flight (rl_db c)
        \<and> (nd_reason nd = ''NO_DATA'' \<or> (\<exists>key. nd_newest_known_frame_set nd = Some key
             \<and> live_state_of (rl_db c') (fk_frame_set_uid key) \<in> {Some ''EXPIRED_BEFORE_OFFER'', Some ''REJECTED''})))"
proof -
  obtain identity where claim_step:
      "(case with_db (claim_latest id (ki_now_ms inp) identity (Some (ki_claim_utc_ms inp)) (rl_db c)) c of
             (Inl e, c) \<Rightarrow> (Inl e, c)
           | (Inr None, c) \<Rightarrow>
               (let c = put (build_no_data credit ''NO_DATA'' (offered_watermark (rl_db c))) c
                in (Inr (), c\<lparr> rl_no_data_count := rl_no_data_count c + 1 \<rparr>))
           | (Inr (Some claim), c) \<Rightarrow>
               (case bind_relay_scope claim scope of
                  Inl e \<Rightarrow> (Inl e, c)
                | Inr claim \<Rightarrow> send_claimed env inp claim credit session config c)) = (Inr (), c')"
    using h unfolding handle_credit_def by (auto split: sum.splits)
  obtain r d where r: "claim_latest id (ki_now_ms inp) identity (Some (ki_claim_utc_ms inp)) (rl_db c) = (r, d)" by fastforce
  show ?thesis
  proof (cases r)
    case (Inl e)
    then show ?thesis using claim_step r by (simp add: with_db_def)
  next
    case (Inr x)
    show ?thesis
    proof (cases x)
      case None
      then have "in_flight d = in_flight (rl_db c)" using r Inr by (auto dest: claim_None_in_flight)
      then show ?thesis using claim_step r Inr None by (auto simp: with_db_def Let_def build_no_data_def)
    next
      case (Some claim)
      let ?c = "c\<lparr> rl_db := d \<rparr>"
      have cl: "claim_latest id (ki_now_ms inp) identity (Some (ki_claim_utc_ms inp)) (rl_db c) = (Inr (Some claim), d)"
        using r Inr Some by simp
      note m = claim_matches [OF inv cl]
      have dinv: "live_inv d" using claim_inv [OF inv] cl by (metis snd_conv)
      obtain claim' where b: "bind_relay_scope claim scope = Inr claim'" "send_claimed env inp claim' credit session config ?c = (Inr (), c')"
        using claim_step cl by (auto simp: with_db_def split: sum.splits)
      have "cl_key claim' = cl_key claim" using b(1) by (auto simp: bind_relay_scope_def split: option.splits if_splits)
      then have "answered_for (cl_key claim) credit ?c c'"
        using send_claimed_answers [OF _ _ go b(2)] dinv m(1) by simp
      then show ?thesis using m(2,3) matches_in_flight [OF m(1)] by (auto simp: answered_for_def)
    qed
  qed
qed

text \<open>A message that carries a frame set was built from the claim of this credit.\<close>

lemma sent_by_build:
  assumes "send_claimed env inp claim credit session config c = (r, c')" "rl_outgoing c' = rl_outgoing c @ [FrameSetEnvelope cf]"
  shows "r = Inr () \<and> rl_db c' = rl_db c \<and> build_credited_frame_set (en_floats env) (en_files env) (en_serialize env) claim credit session config
      (ki_received_ms inp) (ki_mono_ms inp) (ki_mono_ms inp) (ki_utc_ms inp) = Inr (FrameSetEnvelope cf)"
proof (cases "build_credited_frame_set (en_floats env) (en_files env) (en_serialize env) claim credit session config
      (ki_received_ms inp) (ki_mono_ms inp) (ki_mono_ms inp) (ki_utc_ms inp)")
  case (Inl e)
  then show ?thesis using assms
    by (cases e) (auto simp: send_claimed_def refuse_to_send_def with_db_def build_no_data_def split: prod.splits sum.splits)
next
  case (Inr envelope)
  then show ?thesis using assms by (auto simp: send_claimed_def with_db_def Let_def split: prod.splits sum.splits if_splits)
qed

lemma credit_claims:
  assumes "handle_credit env inp credit session expected config scope c = (r, c')" "rl_outgoing c' \<noteq> rl_outgoing c"
  obtains identity d where
      "claim_latest id (ki_now_ms inp) identity (Some (ki_claim_utc_ms inp)) (rl_db c) = (Inr None, d)" "r = Inr ()"
      "c' = (put (build_no_data credit ''NO_DATA'' (offered_watermark d)) (c\<lparr> rl_db := d \<rparr>))\<lparr> rl_no_data_count := rl_no_data_count c + 1 \<rparr>"
    | identity claim claim' d where
      "claim_latest id (ki_now_ms inp) identity (Some (ki_claim_utc_ms inp)) (rl_db c) = (Inr (Some claim), d)"
      "bind_relay_scope claim scope = Inr claim'" "send_claimed env inp claim' credit session config (c\<lparr> rl_db := d \<rparr>) = (r, c')"
proof -
  let ?guard = "bind_result (credit_identity credit session) (\<lambda>identity.
       bind_result (required_store c) (\<lambda>_.
       bind_result (snapshot_for_hello (rl_db c)) (\<lambda>preview.
         if (case preview of None \<Rightarrow> False
             | Some p \<Rightarrow> expected \<noteq> None \<and> Some (fk_capture_run_id (cl_key p)) \<noteq> expected)
         then Inl (CaptureRunChanged ''capture run changed; a new hello is required'')
         else Inr identity)))"
  show thesis
  proof (cases ?guard)
    case (Inl e)
    then show thesis using assms by (simp add: handle_credit_def)
  next
    case (Inr identity)
    obtain x d where x: "claim_latest id (ki_now_ms inp) identity (Some (ki_claim_utc_ms inp)) (rl_db c) = (x, d)" by fastforce
    note h = assms(1) [unfolded handle_credit_def Inr sum.case x with_db_def fst_conv snd_conv prod.case]
    show thesis
    proof (cases x)
      case (Inl e)
      then show thesis using h assms(2) by auto
    next
      case (Inr y)
      show thesis
      proof (cases y)
        case None
        then show thesis using h Inr x that(1) [of identity d] by (auto simp: put_def Let_def)
      next
        case (Some claim)
        show thesis
        proof (cases "bind_relay_scope claim scope")
          case (Inl e)
          then show thesis using h \<open>x = Inr y\<close> Some assms(2) by auto
        next
          case b: (Inr claim')
          then show thesis using h \<open>x = Inr y\<close> Some x that(2) [of identity claim d claim'] by simp
        qed
      qed
    qed
  qed
qed

lemma sent_admissible:
  assumes inv: "live_inv (rl_db c)"
    and h: "handle_credit env inp credit session expected config scope c = (r, c')"
    and sent: "rl_outgoing c' = rl_outgoing c @ [FrameSetEnvelope cf]"
  obtains mf claim configs frames where "r = Inr ()" "get_newest_eligible_manifest (lv_ledger (rl_db c)) = Some mf"
    "cl_key claim = key_of mf" "cl_freshness_origin_ms claim = mf_freshness_origin_ms mf" "cl_manifest_digest claim = mf_manifest_digest mf"
    "cl_members claim = map live_member (sort_key mm_camera_stream_id
       (filter (\<lambda>m. mm_frame_set_uid m = mf_frame_set_uid mf) (db_members (lv_ledger (rl_db c)))))"
    "build_credited_frame_set (en_floats env) (en_files env) (en_serialize env) claim credit session config
      (ki_received_ms inp) (ki_mono_ms inp) (ki_mono_ms inp) (ki_utc_ms inp) = Inr (FrameSetEnvelope cf)"
    "in_flight (rl_db c') = Some (mf_frame_set_uid mf)"
proof -
  have "rl_outgoing c' \<noteq> rl_outgoing c" using sent by simp
  from h this show thesis
  proof (cases rule: credit_claims)
    case (1 identity d)
    then show thesis using sent by (simp add: put_def build_no_data_def)
  next
    case (2 identity claim claim' d)
    obtain mf t where c: "claim = live_snapshot (lv_ledger d) mf identity t"
        "get_newest_eligible_manifest (lv_ledger (rl_db c)) = Some mf" "in_flight d = Some (mf_frame_set_uid mf)"
        "db_members (lv_ledger d) = db_members (lv_ledger (rl_db c))"
      by (rule claim_offers [OF inv 2(1)])
    have b: "cl_key claim' = cl_key claim" "cl_freshness_origin_ms claim' = cl_freshness_origin_ms claim"
        "cl_manifest_digest claim' = cl_manifest_digest claim" "cl_members claim' = cl_members claim"
      using 2(2) by (auto simp: bind_relay_scope_def split: option.splits if_splits)
    have "r = Inr () \<and> rl_db c' = d \<and> build_credited_frame_set (en_floats env) (en_files env) (en_serialize env) claim' credit session config
      (ki_received_ms inp) (ki_mono_ms inp) (ki_mono_ms inp) (ki_utc_ms inp) = Inr (FrameSetEnvelope cf)"
      using sent_by_build [OF 2(3)] sent by simp
    then show thesis using that [of mf claim'] b c by (simp add: live_snapshot_def)
  qed
qed

text \<open>A credit whose handling raises is not answered.\<close>

lemma raised_sends_nothing:
  assumes "handle_credit env inp credit session expected config scope c = (Inl e, c')"
  shows "rl_outgoing c' = rl_outgoing c"
proof (rule ccontr)
  assume n: "rl_outgoing c' \<noteq> rl_outgoing c"
  from assms n show False
  proof (cases rule: credit_claims)
    case (2 identity claim claim' d)
    show False
    proof (cases "build_credited_frame_set (en_floats env) (en_files env) (en_serialize env) claim' credit session config
        (ki_received_ms inp) (ki_mono_ms inp) (ki_mono_ms inp) (ki_utc_ms inp)")
      case (Inl err)
      then show False using 2(3) n
        by (cases err) (auto simp: send_claimed_def refuse_to_send_def with_db_def split: prod.splits sum.splits)
    next
      case (Inr envelope)
      then show False using 2(3) n by (auto simp: send_claimed_def with_db_def Let_def split: prod.splits sum.splits if_splits)
    qed
  qed simp
qed

text \<open>The client passes its own reading of the clock, so the second check of the lease sees the first reading again.\<close>

lemma lease_recheck_is_void:
  assumes "ms' < lease_deadline received credit"
  shows "build_credited_frame_set fl files serialize claim credit session config received ms ms utc
    = build_credited_frame_set fl files serialize claim credit session config received ms ms' utc"
  using assms by (auto simp: build_credited_frame_set_def)

section \<open>Reconciliation and the end of a connection\<close>

lemma in_flight_key:
  assumes "live_inv d" "in_flight d = Some uid"
  obtains mf where "dict_get (db_manifests (lv_ledger d)) uid = Some mf" "fk_frame_set_uid (key_of mf) = uid"
    "current_in_flight d = Inr (Some (key_of mf))" "matches_current d (key_of mf)"
proof -
  obtain s where s: "lv_state d = Some s" "rs_in_flight_frame_set_uid s = Some uid"
    using assms(2) by (auto simp: in_flight_def split: option.splits)
  have "watermark d = Some uid" using assms by (simp add: live_inv_def)
  then obtain mf where mf: "dict_get (db_manifests (lv_ledger d)) uid = Some mf" using assms(1) by (auto simp: live_inv_def)
  moreover from this have "mf_frame_set_uid mf = uid" using assms(1) by (simp add: live_inv_def ledger_wf_def run_of_manifest_def)
  ultimately show thesis using s by (intro that [of mf]) (simp_all add: current_in_flight_def matches_current_def key_of_def)
qed

lemma nothing_in_flight: "in_flight d = None \<Longrightarrow> current_in_flight d = Inr None"
  by (auto simp: in_flight_def current_in_flight_def split: option.splits)

text \<open>
  The frame sets on offer. Outside a connection there is none but those that were there before: what a connection
  offers is settled, reported on or unresolved when it ends.
\<close>

definition offered :: "LiveDb \<Rightarrow> string set" where
  "offered d = {uid. live_state_of d uid = Some ''OFFERED''}"

lemma close_offered:
  assumes inv: "live_inv (rl_db c)"
  shows "fst (close_connection now c) = Inr () \<and> offered (rl_db (snd (close_connection now c))) = {}
    \<and> in_flight (rl_db (snd (close_connection now c))) = in_flight (rl_db c)"
proof (cases "in_flight (rl_db c)")
  case None
  then have "offered (rl_db c) = {}" using inv by (auto simp: offered_def live_inv_def active_def ACTIVE_STATES_def)
  then show ?thesis by (simp add: close_connection_def nothing_in_flight None)
next
  case (Some uid)
  obtain mf where mf: "fk_frame_set_uid (key_of mf) = uid" "current_in_flight (rl_db c) = Inr (Some (key_of mf))"
      "matches_current (rl_db c) (key_of mf)"
    by (rule in_flight_key [OF inv Some])
  have others: "live_state_of (rl_db c) k \<noteq> Some ''OFFERED''" if "k \<noteq> uid" for k
  proof -
    have "active (rl_db c) k \<longleftrightarrow> in_flight (rl_db c) = Some k" using inv unfolding live_inv_def by blast
    then show ?thesis using Some that by (simp add: active_def ACTIVE_STATES_def)
  qed
  from inv show ?thesis
  proof (cases rule: transition_cases [of "rl_db c" "key_of mf" now "''UNRESOLVED''" "Some ''TRANSPORT_DISCONNECTED''" False None])
    case (moved pj s)
    have "rs_in_flight_frame_set_uid s = Some uid" using moved(2) Some by (simp add: in_flight_def)
    define d where "d = (rl_db c)\<lparr> lv_ledger := set_projection uid (set_live ''UNRESOLVED'' (Some ''TRANSPORT_DISCONNECTED'') (time_or None now) pj) (lv_ledger (rl_db c)),
       lv_state := Some (s\<lparr> rs_updated_at_ms := time_or None now \<rparr>) \<rparr>"
    have "mark_unresolved now (key_of mf) ''TRANSPORT_DISCONNECTED'' None (rl_db c) = (Inr True, d)"
      unfolding mark_unresolved_def d_def using moved(6) mf(1) by simp
    then have close: "close_connection now c = (Inr (), c\<lparr> rl_db := d \<rparr>)"
      by (simp add: close_connection_def mf(2) with_db_def)
    have "live_state_of d k = (if k = uid then Some ''UNRESOLVED'' else live_state_of (rl_db c) k)" for k
      by (simp add: d_def live_state_of_def set_live_def)
    then have "offered d = {}" using others by (simp add: offered_def)
    moreover have "in_flight d = Some uid" using \<open>rs_in_flight_frame_set_uid s = Some uid\<close> by (simp add: d_def in_flight_def)
    ultimately show ?thesis using Some by (simp add: close)
  qed (use mf in simp)
qed

lemma retire_offered:
  assumes "state \<noteq> ''OFFERED''" shows "offered (snd (retire_eligible now key state reason t d)) \<subseteq> offered d"
  using assms by (cases rule: retire_cases [of now key state reason t d]) (auto simp: offered_def live_state_of_def set_live_def)

lemma authorize_offered:
  assumes "authorize_hello env inp hello c = (r, c')" shows "offered (rl_db c') \<subseteq> offered (rl_db c)"
  using assms retire_offered [of "''SESSION_INACTIVE''" "oi_now_ms inp" "cl_key hello"
      "''RELAY_CREDENTIAL_SESSION_INACTIVE''" "Some (oi_utc_ms inp)" "rl_db c"]
  by (auto simp: authorize_hello_def with_db_def split: prod.splits sum.splits option.splits if_splits exn.splits)

lemma open_offered:
  assumes "open_connection env inp c = (r, c')" shows "offered (rl_db c') \<subseteq> offered (rl_db c)"
  using assms by (auto simp: open_connection_def put_def Let_def dest!: authorize_offered subsetD
      split: prod.splits sum.splits option.splits if_splits)

lemma run_connection_offered:
  assumes inv: "live_inv (rl_db c)" "list_all event_ok events"
    and r: "run_connection env inp events close_ms c = (r, c')"
  shows "live_inv (rl_db c') \<and> offered (rl_db c') \<subseteq> offered (rl_db c)"
proof -
  have "live_inv (rl_db c')" using store_steps_inv [OF run_connection_steps [OF r inv(2)] inv(1)] .
  moreover have "offered (rl_db c') \<subseteq> offered (rl_db c)"
  proof -
    obtain o1 c1 where o: "open_connection env inp c = (o1, c1)" by fastforce
    show ?thesis
    proof (cases "\<exists>conn. o1 = Inr (Inr conn)")
      case True
      then obtain conn where conn: "o1 = Inr (Inr conn)" by blast
      obtain r2 c2 where s: "serve env events conn c1 = (r2, c2)" by fastforce
      have "live_inv (rl_db c2)"
        using store_steps_inv [OF store_steps_trans [OF open_steps [OF o] serve_steps [OF s inv(2)]] inv(1)] .
      from close_offered [OF this, of close_ms] show ?thesis
        using r o conn s by (auto simp: run_connection_def split: prod.splits sum.splits)
    next
      case False
      then show ?thesis using r o open_offered [OF o] by (auto simp: run_connection_def split: sum.splits)
    qed
  qed
  ultimately show ?thesis ..
qed

lemma run_worker_offered:
  "run_worker env rounds attempt c = (waits, c') \<Longrightarrow> live_inv (rl_db c)
    \<Longrightarrow> list_all (\<lambda>r. list_all event_ok (rd_events r)) rounds \<Longrightarrow> live_inv (rl_db c') \<and> offered (rl_db c') \<subseteq> offered (rl_db c)"
proof (induction rounds arbitrary: attempt c waits)
  case (Cons r rounds)
  obtain o1 c1 where o: "run_connection env (rd_open r) (rd_events r) (rd_close_ms r) c = (o1, c1)" by fastforce
  have ok: "live_inv (rl_db c1)" "offered (rl_db c1) \<subseteq> offered (rl_db c)"
    using run_connection_offered [OF Cons.prems(2) _ o] Cons.prems(3) by auto
  have rest: "live_inv (rl_db c') \<and> offered (rl_db c') \<subseteq> offered (rl_db c)"
    if "run_worker env rounds n d = (ws, c')" "rl_db d = rl_db c1" for n d ws
    using Cons.IH [OF that(1)] Cons.prems(3) ok that(2) by auto
  show ?case using Cons.prems(1) ok
    by (auto simp: o Let_def dest: rest split: sum.splits option.splits exn.splits if_splits prod.splits)
qed simp

lemma run_worker_steps:
  "run_worker env rounds attempt c = (waits, c') \<Longrightarrow> list_all (\<lambda>r. list_all event_ok (rd_events r)) rounds
    \<Longrightarrow> store_steps (rl_db c) (rl_db c')"
proof (induction rounds arbitrary: attempt c waits)
  case (Cons r rounds)
  obtain o1 c1 where o: "run_connection env (rd_open r) (rd_events r) (rd_close_ms r) c = (o1, c1)" by fastforce
  have first: "store_steps (rl_db c) (rl_db c1)" using run_connection_steps [OF o] Cons.prems(2) by simp
  have rest: "store_steps (rl_db c) (rl_db c')" if "run_worker env rounds n d = (ws, c')" "rl_db d = rl_db c1" for n d ws
    using store_steps_trans [OF first] Cons.IH [OF that(1)] Cons.prems(2) that(2) by simp
  show ?case using Cons.prems(1) first
    by (auto simp: o Let_def intro: rest split: sum.splits option.splits exn.splits if_splits prod.splits)
qed (auto intro: store_intros)

text \<open>A status for another frame set changes nothing.\<close>

lemma other_status:
  assumes "apply_status now status c = (Inr (), c')" "in_flight (rl_db c) \<noteq> Some (fk_frame_set_uid (fx_key status))"
  shows "rl_db c' = rl_db c"
proof -
  have "\<not> matches_current (rl_db c) (fx_key status)" using assms(2) matches_in_flight by blast
  then show ?thesis using assms(1)
    by (auto simp: apply_status_def with_db_def apply_remote_status_def transition_current_def Let_def
        split: option.splits sum.splits prod.splits if_splits)
qed

lemma other_statuses:
  assumes "apply_statuses now statuses c = (Inr (), c')" "\<forall>s \<in> set statuses. in_flight (rl_db c) \<noteq> Some (fk_frame_set_uid (fx_key s))"
  shows "rl_db c' = rl_db c"
  using assms
proof (induction statuses arbitrary: c)
  case (Cons status rest)
  then obtain d where d: "apply_status now status c = (Inr (), d)" "apply_statuses now rest d = (Inr (), c')"
    by (auto split: prod.splits sum.splits)
  then have "rl_db d = rl_db c" using other_status Cons.prems(2) by auto
  with Cons.IH [OF d(2)] Cons.prems(2) show ?case by simp
qed simp

text \<open>A complete reconciliation that does not report on the frame set in flight frees it.\<close>

lemma reconciled:
  assumes inv: "live_inv (rl_db c)" and r: "apply_reconciliation now statuses True c = (Inr b, c')"
    and flight: "in_flight (rl_db c) = Some uid" and unseen: "uid \<notin> set (map (fk_frame_set_uid \<circ> fx_key) statuses)"
  shows "b \<and> in_flight (rl_db c') = None
    \<and> (live_state_of (rl_db c') uid = Some ''ELIGIBLE'' \<and> reoffer (rl_db c') = Some uid
       \<or> live_state_of (rl_db c') uid = Some ''SUPERSEDED_BEFORE_OFFER'' \<and> reoffer (rl_db c') = None)"
proof -
  obtain u d where d: "apply_statuses now statuses c = (Inr u, d)"
    using r by (auto simp: apply_reconciliation_def split: prod.splits sum.splits)
  then have same: "rl_db d = rl_db c" using other_statuses [of now statuses c d] unseen flight by force
  obtain mf where mf: "fk_frame_set_uid (key_of mf) = uid" "current_in_flight (rl_db d) = Inr (Some (key_of mf))"
      "matches_current (rl_db d) (key_of mf)"
    using in_flight_key [OF inv flight] unfolding same by metis
  let ?retry = "\<not> has_newer_eligible (rl_db d) (key_of mf)"
  have unresolved: "unresolved_keys (rl_db d) = Inr [key_of mf]" by (simp add: unresolved_keys_def mf(2))
  have step: "(b, c') = (True, d\<lparr> rl_db := snd (reconcile_not_found now (key_of mf) ?retry None (rl_db d)) \<rparr>)"
  proof -
    have "fk_frame_set_uid (key_of mf) \<notin> set (map (fk_frame_set_uid \<circ> fx_key) statuses)" using unseen mf(1) by simp
    then have "reconcile_unseen now (map (fk_frame_set_uid \<circ> fx_key) statuses) [key_of mf] d =
        (case with_db (reconcile_not_found now (key_of mf) ?retry None (rl_db d)) d of
           (Inl e, c) \<Rightarrow> (Inl e, c) | (Inr _, c) \<Rightarrow> (Inr (), c))"
      by (simp only: reconcile_unseen.simps if_False)
    moreover have "apply_reconciliation now statuses True c =
        (case reconcile_unseen now (map (fk_frame_set_uid \<circ> fx_key) statuses) [key_of mf] d of
           (Inl e, c) \<Rightarrow> (Inl e, c) | (Inr _, c) \<Rightarrow> (Inr True, c))"
      unfolding apply_reconciliation_def d prod.case sum.case unresolved by simp
    ultimately show ?thesis using r
      by (cases "fst (reconcile_not_found now (key_of mf) ?retry None (rl_db d))") (simp_all only: with_db_def prod.case sum.case, auto)
  qed
  from inv [folded same] show ?thesis
  proof (cases rule: reconcile_cases [of "rl_db d" now "key_of mf" ?retry None])
    case stale
    then show ?thesis using mf(3) by (auto simp: reconcile_not_found_def Let_def split: option.splits)
  next
    case (moved pj s)
    show ?thesis using step mf(1) unfolding moved(4)
      by (auto simp: in_flight_def reoffer_def released_def live_state_of_def set_live_def)
  qed
qed

section \<open>Waits and lasting failure\<close>

text \<open>With the default backoff no wait is longer than six seconds.\<close>

lemma default_wait:
  assumes "0 \<le> v" "v \<le> 1" "backoff_delay default_backoff n v = Inr w"
  shows "0 \<le> w \<and> w \<le> 6"
proof -
  let ?base = "min 5 (1 / 10 * 2 ^ n) :: rat"
  let ?factor = "1 + (v * 2 - 1) * (1 / 5) :: rat"
  have "0 \<le> ?base" "?base \<le> 5" by simp_all
  moreover have "0 \<le> ?factor" "?factor \<le> 6 / 5" using assms(1,2) by (simp_all add: field_simps)
  ultimately have "?base * ?factor \<le> 5 * (6 / 5)" by (intro mult_mono) simp_all
  then show ?thesis using assms(3) by (auto simp: backoff_delay_def default_backoff_def Let_def split: if_splits)
qed

text \<open>What a connection never changes: the backoff, and that the worker runs.\<close>

definition settings :: "'key RelayClient \<Rightarrow> ReconnectBackoff \<times> bool" where
  "settings c = (rl_backoff c, rl_running c)"

lemma settings_simps [simp]:
  "settings (put e c) = settings c" "settings (c\<lparr> rl_db := d \<rparr>) = settings c"
  "settings (c\<lparr> rl_offered_count := n \<rparr>) = settings c" "settings (c\<lparr> rl_no_data_count := n \<rparr>) = settings c"
  "settings (c\<lparr> rl_connection_count := n \<rparr>) = settings c" "settings (c\<lparr> rl_last_error := m \<rparr>) = settings c"
  "settings (c\<lparr> rl_provider := p \<rparr>) = settings c" "settings (c\<lparr> rl_sessions := creds \<rparr>) = settings c"
  "settings (c\<lparr> rl_reconnect_count := n \<rparr>) = settings c"
  by (simp_all add: settings_def put_def)

lemma refuse_settings: "refuse_to_send inp key live_state reason credit proto_reason c = (r, c') \<Longrightarrow> settings c' = settings c"
  by (auto simp: refuse_to_send_def with_db_eq split: prod.splits sum.splits)

lemma send_claimed_settings: "send_claimed env inp claim credit session config c = (r, c') \<Longrightarrow> settings c' = settings c"
  by (auto simp: send_claimed_def with_db_eq Let_def dest!: refuse_settings split: prod.splits sum.splits exn.splits if_splits)

lemma handle_credit_settings:
  "handle_credit env inp credit session expected config scope c = (r, c') \<Longrightarrow> settings c' = settings c"
  by (auto simp: handle_credit_def with_db_eq Let_def dest!: send_claimed_settings split: prod.splits sum.splits option.splits)

lemma apply_status_settings: "apply_status now status c = (r, c') \<Longrightarrow> settings c' = settings c"
  by (auto simp: apply_status_def with_db_eq split: prod.splits sum.splits option.splits)

lemma apply_statuses_settings: "apply_statuses now statuses c = (r, c') \<Longrightarrow> settings c' = settings c"
  by (induction statuses arbitrary: c) (auto dest!: apply_status_settings split: prod.splits sum.splits)

lemma reconcile_unseen_settings: "reconcile_unseen now seen keys c = (r, c') \<Longrightarrow> settings c' = settings c"
proof (induction keys arbitrary: c)
  case (Cons key keys)
  then show ?case by (auto simp: with_db_def split: sum.splits if_splits dest: Cons.IH)
qed simp

lemma apply_reconciliation_settings:
  "apply_reconciliation now statuses is_complete c = (r, c') \<Longrightarrow> settings c' = settings c"
  by (auto simp: apply_reconciliation_def dest!: apply_statuses_settings reconcile_unseen_settings split: prod.splits sum.splits if_splits)

lemma hello_settings:
  "hello_rejected inp detail_code conn c = (r, c') \<Longrightarrow> settings c' = settings c"
  "first_envelope inp envelope conn c = (r, c') \<Longrightarrow> settings c' = settings c"
  by (auto simp: hello_rejected_def first_envelope_def with_db_eq Let_def
      split: prod.splits sum.splits option.splits bool.splits RelayEnvelope.splits if_splits)

lemma on_envelope_settings: "on_envelope env inp envelope conn c = (r, c') \<Longrightarrow> settings c' = settings c"
  by (auto simp: on_envelope_def
      dest!: hello_settings apply_reconciliation_settings apply_status_settings handle_credit_settings
      split: prod.splits sum.splits option.splits RelayEnvelope.splits if_splits)

lemma serve_settings: "serve env events conn c = (r, c') \<Longrightarrow> settings c' = settings c"
proof (induction env events conn c rule: serve.induct)
  case (4 env stopping inp envelope events conn c)
  obtain s d where o: "on_envelope env inp envelope conn c = (s, d)" by fastforce
  from 4 o on_envelope_settings [OF o] show ?case by (auto split: sum.splits Served.splits if_splits)
qed auto

lemma open_settings: "open_connection env inp c = (r, c') \<Longrightarrow> settings c' = settings c"
proof -
  have "settings d = settings c" if "authorize_hello env inp hello c = (x, d)" for hello x d
    using that by (auto simp: authorize_hello_def with_db_def split: prod.splits sum.splits option.splits if_splits exn.splits)
  then show "open_connection env inp c = (r, c') \<Longrightarrow> settings c' = settings c"
    by (auto simp: open_connection_def Let_def split: prod.splits sum.splits option.splits if_splits)
qed

lemma close_settings: "close_connection close_ms c = (r, c') \<Longrightarrow> settings c' = settings c"
  by (auto simp: close_connection_def with_db_eq split: prod.splits sum.splits option.splits)

lemma connection_settings: "run_connection env inp events close_ms c = (r, c') \<Longrightarrow> settings c' = settings c"
  by (auto simp: run_connection_def dest!: open_settings serve_settings close_settings split: prod.splits sum.splits)

text \<open>What the worker does after a connection that neither ended it nor found nothing to announce.\<close>

definition wait_and_go_on :: "'key RelayEnv \<Rightarrow> Round list \<Rightarrow> rat \<Rightarrow> nat \<Rightarrow> 'key RelayClient \<Rightarrow> rat list \<times> 'key RelayClient" where
  "wait_and_go_on env rounds v attempt c =
     (case backoff_delay (rl_backoff c) attempt v of
        Inl e \<Rightarrow> ([], c\<lparr> rl_running := False \<rparr>)
      | Inr wait \<Rightarrow> (case run_worker env rounds (attempt + 1) c of (waits, c) \<Rightarrow> (wait # waits, c)))"

lemma worker_round:
  assumes "run_connection env (rd_open r) (rd_events r) (rd_close_ms r) c = (o1, d)"
  obtains (stops) c' where "run_worker env (r # rounds) attempt c = ([], c')"
      "\<not> rl_running c'" "rd_stopping r \<or> (\<exists>m. o1 = Inl (PermanentRelayError m))"
    | (idle) "o1 = Inr None" "\<not> rd_stopping r" "run_worker env (r # rounds) attempt c = run_worker env rounds 0 d"
    | (failed) d' n where "\<not> rd_stopping r" "\<forall>m. o1 \<noteq> Inl (PermanentRelayError m)" "settings d' = settings d"
      "n = (if o1 = Inr (Some True) then 0 else attempt)"
      "d' = (case o1 of Inl e \<Rightarrow> d\<lparr> rl_last_error := Some (en_exn_text env e), rl_reconnect_count := rl_reconnect_count d + 1 \<rparr>
             | Inr _ \<Rightarrow> d\<lparr> rl_reconnect_count := rl_reconnect_count d + 1 \<rparr>)"
      "run_worker env (r # rounds) attempt c = wait_and_go_on env rounds (rd_random r) n d'"
proof (cases "rd_stopping r \<or> (\<exists>m. o1 = Inl (PermanentRelayError m))")
  case True
  have "\<exists>c'. run_worker env (r # rounds) attempt c = ([], c') \<and> \<not> rl_running c'"
  proof (cases o1)
    case (Inl e)
    with True show ?thesis by (cases e) (simp_all add: assms Let_def)
  next
    case (Inr b)
    with True show ?thesis by (cases b) (simp_all add: assms Let_def)
  qed
  with True stops show ?thesis by blast
next
  case False
  define d' where "d' = (case o1 of Inl e \<Rightarrow> d\<lparr> rl_last_error := Some (en_exn_text env e), rl_reconnect_count := rl_reconnect_count d + 1 \<rparr>
             | Inr _ \<Rightarrow> d\<lparr> rl_reconnect_count := rl_reconnect_count d + 1 \<rparr>)"
  have same: "settings d' = settings d" by (simp add: d'_def split: sum.split)
  show ?thesis
  proof (cases o1)
    case (Inl e)
    have "run_worker env (r # rounds) attempt c = wait_and_go_on env rounds (rd_random r) attempt d'"
      using False Inl by (cases e) (simp_all add: assms Let_def wait_and_go_on_def d'_def cong: sum.case_cong)
    with failed [OF _ _ same _ d'_def, of attempt] False Inl show ?thesis by simp
  next
    case (Inr b)
    show ?thesis
    proof (cases b)
      case None
      with False Inr idle show ?thesis by (simp add: assms)
    next
      case (Some v)
      have "run_worker env (r # rounds) attempt c = wait_and_go_on env rounds (rd_random r) (if v then 0 else attempt) d'"
        using False Inr Some by (cases v) (simp_all add: assms Let_def wait_and_go_on_def d'_def cong: sum.case_cong)
      with failed [OF _ _ same _ d'_def, of "if v then 0 else attempt"] False Inr Some show ?thesis by (cases v) simp_all
    qed
  qed
qed

lemma worker_waits:
  "run_worker env rounds attempt c = (waits, c') \<Longrightarrow> rl_backoff c = default_backoff
    \<Longrightarrow> list_all (\<lambda>r. 0 \<le> rd_random r \<and> rd_random r \<le> 1) rounds \<Longrightarrow> list_all (\<lambda>w. 0 \<le> w \<and> w \<le> 6) waits"
proof (induction rounds arbitrary: attempt c waits)
  case (Cons r rounds)
  obtain o1 d where o: "run_connection env (rd_open r) (rd_events r) (rd_close_ms r) c = (o1, d)" by fastforce
  have same: "rl_backoff d = default_backoff" using connection_settings [OF o] Cons.prems(2) by (simp add: settings_def)
  from o show ?case
  proof (cases rule: worker_round [of env r c o1 d rounds attempt])
    case (failed d' n)
    then have "rl_backoff d' = default_backoff" using same by (simp add: settings_def)
    then show ?thesis using Cons.prems(1,3) Cons.IH [of "n + 1" d'] default_wait failed(6)
      by (auto simp: wait_and_go_on_def split: sum.splits prod.splits)
  qed (use Cons.prems Cons.IH same in auto)
qed auto

text \<open>Rounds in which every connection ends with an exception that is not final, and no stop is asked for.\<close>

fun outage :: "'key RelayEnv \<Rightarrow> Round list \<Rightarrow> 'key RelayClient \<Rightarrow> bool" where
  "outage env [] c = True"
| "outage env (r # rounds) c =
     (case run_connection env (rd_open r) (rd_events r) (rd_close_ms r) c of
        (Inl (PermanentRelayError m), c) \<Rightarrow> False
      | (Inl e, c) \<Rightarrow> \<not> rd_stopping r
          \<and> outage env rounds (c\<lparr> rl_last_error := Some (en_exn_text env e), rl_reconnect_count := rl_reconnect_count c + 1 \<rparr>)
      | _ \<Rightarrow> False)"

lemma outage_ends_worker:
  "outage env rounds c \<Longrightarrow> run_worker env rounds attempt c = (waits, c') \<Longrightarrow> attempt \<le> 1024 \<Longrightarrow>
    length waits = min (length rounds) (1024 - attempt)
    \<and> rl_running c' = (rl_running c \<and> length rounds \<le> 1024 - attempt)"
proof (induction rounds arbitrary: attempt c waits)
  case (Cons r rounds)
  obtain o1 d where o: "run_connection env (rd_open r) (rd_events r) (rd_close_ms r) c = (o1, d)" by fastforce
  then obtain e where e: "o1 = Inl e" "\<And>m. e \<noteq> PermanentRelayError m" "\<not> rd_stopping r"
    using Cons.prems(1) by (auto split: sum.splits exn.splits)
  from o show ?case
  proof (cases rule: worker_round [of env r c o1 d rounds attempt])
    case (failed d' n)
    have n: "n = attempt" and d': "d' = d\<lparr> rl_last_error := Some (en_exn_text env e), rl_reconnect_count := rl_reconnect_count d + 1 \<rparr>"
      using failed e(1) by simp_all
    have rest: "outage env rounds d'" using Cons.prems(1) e(2) by (auto simp: o e(1) d' split: exn.splits)
    have same: "rl_running d' = rl_running c" using connection_settings [OF o] failed(3) by (simp add: settings_def)
    show ?thesis
    proof (cases "attempt = 1024")
      case True
      then show ?thesis using Cons.prems(2) unfolding failed(6) n by (auto simp: wait_and_go_on_def backoff_delay_def)
    next
      case False
      then obtain w where "backoff_delay (rl_backoff d') attempt (rd_random r) = Inr w"
        using Cons.prems(3) by (auto simp: backoff_delay_def Let_def)
      then obtain ws where "run_worker env rounds (attempt + 1) d' = (ws, c')" "waits = w # ws"
        using Cons.prems(2) unfolding failed(6) n by (auto simp: wait_and_go_on_def split: prod.splits)
      then show ?thesis using Cons.IH [OF rest] False Cons.prems(3) same by auto
    qed
  qed (use e in auto)
qed auto

end
