(* ===== verification/IngestGate.thy ===== *)
theory IngestGate
  imports SessionIdentity
begin

text \<open>
  The ingest service of the gRPC server (infrastructure/grpc/grpc_ingest_server.py): its configuration and
  the gate that decides which frames are taken. \<open>GrpcIngestService\<close> has the object's fields (gi_).

  A collection starts when every device it waits for has an open stream; the gate then opens with a
  start time, and shuts for good when a device it needs has gone. Each operation of the gate holds
  its lock and is one function here. The theory ends with the gate's invariant \<open>gate_ok\<close>.
\<close>

section \<open>Formats\<close>

definition resolve_content_type :: "string \<Rightarrow> string" where
  "resolve_content_type image_format =
     (let normalized = lower (strip image_format)
      in if CHR ''/'' \<in> set normalized then normalized
         else if normalized \<in> {''jpg'', ''jpeg''} then ''image/jpeg''
         else if normalized = ''png'' then ''image/png''
         else if normalized = ''webp'' then ''image/webp''
         else ''application/octet-stream'')"

definition resolve_file_extension :: "string \<Rightarrow> string" where
  "resolve_file_extension image_format =
     (let normalized = lower (strip image_format)
      in if normalized \<in> {''jpg'', ''jpeg'', ''image/jpeg''} then ''jpg''
         else if normalized \<in> {''png'', ''image/png''} then ''png''
         else if normalized \<in> {''webp'', ''image/webp''} then ''webp''
         else ''bin'')"

section \<open>The service\<close>

record GrpcIngestService =
  gi_bind :: string
  gi_enabled :: bool
  gi_running :: bool
  gi_runtime_bind :: string
  gi_expected_device_count :: "int option"
  gi_expected_device_ids :: "string set"
  gi_gate_open :: bool
  gi_observed_device_ids :: "string set"
  gi_active_device_ids :: "string set"
  gi_active_device_stream_counts :: "(string, int) dict"
  gi_stream_closed_at_ms :: "(string, int) dict"
  gi_latest_device_timestamp_ms :: "(string, int) dict"
  gi_gate_start_timestamp_ms :: "int option"
  gi_first_accepted_timestamp_ms :: "int option"
  gi_pre_gate_dropped_count :: int
  gi_stale_after_gate_dropped_count :: int
  gi_server_receive_sequence :: int
  gi_collection_started :: bool
  gi_collection_stopped :: bool
  gi_collection_stop_reason :: "string option"
  gi_collection_capture_session_id :: "string option"
  gi_active_authorized_stream_count :: int
  gi_session_token_verifier :: "VersionedVerifier option"

definition new_ingest_service :: GrpcIngestService where
  "new_ingest_service =
     \<lparr> gi_bind = [], gi_enabled = False, gi_running = False, gi_runtime_bind = [],
       gi_expected_device_count = None, gi_expected_device_ids = {}, gi_gate_open = True,
       gi_observed_device_ids = {}, gi_active_device_ids = {}, gi_active_device_stream_counts = [],
       gi_stream_closed_at_ms = [], gi_latest_device_timestamp_ms = [], gi_gate_start_timestamp_ms = None,
       gi_first_accepted_timestamp_ms = None, gi_pre_gate_dropped_count = 0, gi_stale_after_gate_dropped_count = 0,
       gi_server_receive_sequence = 0, gi_collection_started = False, gi_collection_stopped = False,
       gi_collection_stop_reason = None, gi_collection_capture_session_id = None,
       gi_active_authorized_stream_count = 0, gi_session_token_verifier = None \<rparr>"

definition gate_enabled :: "GrpcIngestService \<Rightarrow> bool" where
  "gate_enabled g \<longleftrightarrow> gi_expected_device_count g \<noteq> None"

definition reset_collection :: "GrpcIngestService \<Rightarrow> GrpcIngestService" where
  "reset_collection g = g\<lparr>
     gi_gate_open := \<not> gate_enabled g, gi_observed_device_ids := {}, gi_active_device_ids := {},
     gi_active_device_stream_counts := [], gi_stream_closed_at_ms := [], gi_latest_device_timestamp_ms := [],
     gi_gate_start_timestamp_ms := None, gi_first_accepted_timestamp_ms := None,
     gi_pre_gate_dropped_count := 0, gi_stale_after_gate_dropped_count := 0, gi_server_receive_sequence := 0,
     gi_collection_started := \<not> gate_enabled g, gi_collection_stopped := False, gi_collection_stop_reason := None \<rparr>"

text \<open>\<open>configure\<close>: a set of identifiers decides the count; otherwise the count is used when it is above one.\<close>

definition configure_ingest ::
  "string \<Rightarrow> bool \<Rightarrow> int option \<Rightarrow> string list option \<Rightarrow> VersionedVerifier option \<Rightarrow> GrpcIngestService \<Rightarrow> GrpcIngestService" where
  "configure_ingest bind enabled expected_count expected_ids verifier g =
     (let ids = set (filter (\<lambda>d. d \<noteq> []) (map strip (case expected_ids of None \<Rightarrow> [] | Some xs \<Rightarrow> xs)));
          count = (if ids \<noteq> {} then (if card ids > 1 then Some (int (card ids)) else None)
                   else (case expected_count of None \<Rightarrow> None | Some n \<Rightarrow> if n > 1 then Some n else None))
      in (reset_collection (g\<lparr> gi_expected_device_count := count \<rparr>))
           \<lparr> gi_bind := bind, gi_enabled := enabled, gi_expected_device_ids := ids,
             gi_collection_capture_session_id := None, gi_active_authorized_stream_count := 0,
             gi_session_token_verifier := verifier \<rparr>)"

text \<open>\<open>str.replace\<close>, and the start of the server: the port it was bound to comes from gRPC.\<close>

fun replace_all :: "string \<Rightarrow> string \<Rightarrow> string \<Rightarrow> string" where
  "replace_all old new [] = []"
| "replace_all old new (c # s) =
     (if prefix old (c # s) then new @ replace_all old new (drop (length old - 1) s) else c # replace_all old new s)"

definition start_ingest :: "bool \<Rightarrow> int \<Rightarrow> GrpcIngestService \<Rightarrow> bool result \<times> GrpcIngestService" where
  "start_ingest grpc_installed port g =
     (if \<not> gi_enabled g then (Inr False, g)
      else if gi_running g then (Inr True, g)
      else if gi_bind g = [] then (Inl (RuntimeError ''grpc ingest bind is required''), g)
      else if \<not> grpc_installed then (Inl (RuntimeError ''grpcio is required for grpc ingest''), g)
      else if port \<le> 0 then (Inl (RuntimeError (''failed to bind grpc ingest server: '' @ gi_bind g)), g)
      else (Inr True, g\<lparr> gi_running := True,
                         gi_runtime_bind := replace_all '':0'' ('':'' @ py_str_int port) (gi_bind g) \<rparr>))"

definition stop_ingest :: "GrpcIngestService \<Rightarrow> GrpcIngestService" where
  "stop_ingest g = (if \<not> gi_running g then g else g\<lparr> gi_running := False, gi_runtime_bind := [] \<rparr>)"

section \<open>The gate\<close>

text \<open>Every operation below holds the gate's lock from its first read to its last write.\<close>

definition acquire_collection :: "string \<Rightarrow> GrpcIngestService \<Rightarrow> bool \<times> GrpcIngestService" where
  "acquire_collection capture_session_id g =
     (if gi_collection_capture_session_id g \<noteq> None \<and> gi_collection_capture_session_id g \<noteq> Some capture_session_id
           \<and> gi_active_authorized_stream_count g > 0
      then (False, g)
      else let g = (if gi_collection_capture_session_id g = None \<or> gi_collection_capture_session_id g = Some capture_session_id
                    then g else reset_collection g)
           in (True, g\<lparr> gi_collection_capture_session_id := Some capture_session_id,
                        gi_active_authorized_stream_count := gi_active_authorized_stream_count g + 1 \<rparr>))"

definition release_collection :: "string \<Rightarrow> GrpcIngestService \<Rightarrow> GrpcIngestService" where
  "release_collection capture_session_id g =
     (if gi_collection_capture_session_id g \<noteq> Some capture_session_id then g
      else g\<lparr> gi_active_authorized_stream_count := max 0 (gi_active_authorized_stream_count g - 1) \<rparr>)"

definition open_gate :: "GrpcIngestService \<Rightarrow> GrpcIngestService" where
  "open_gate g =
     (let g = g\<lparr> gi_gate_open := True, gi_collection_started := True \<rparr>;
          ids = sorted_list_of_set (if gi_expected_device_ids g \<noteq> {} then gi_expected_device_ids g else gi_active_device_ids g);
          timestamps = List.map_filter (dict_get (gi_latest_device_timestamp_ms g)) ids
      in if gi_gate_start_timestamp_ms g \<noteq> None \<or> timestamps = [] then g
         else g\<lparr> gi_gate_start_timestamp_ms := Some (list_max timestamps) \<rparr>)"

definition all_devices_seen :: "GrpcIngestService \<Rightarrow> bool" where
  "all_devices_seen g =
     (if gi_expected_device_ids g \<noteq> {} then gi_expected_device_ids g \<subseteq> gi_active_device_ids g
      else (case gi_expected_device_count g of None \<Rightarrow> 0 | Some n \<Rightarrow> n) \<le> int (card (gi_active_device_ids g)))"

definition allow_ingest :: "string \<Rightarrow> int option \<Rightarrow> GrpcIngestService \<Rightarrow> bool \<times> GrpcIngestService" where
  "allow_ingest device_id timestamp_ms g =
     (if gi_collection_stopped g then (False, g)
      else if gi_expected_device_ids g \<noteq> {} \<and> device_id \<notin> gi_expected_device_ids g then (False, g)
      else if gi_gate_open g then
        (if gate_enabled g
            \<and> (case (gi_gate_start_timestamp_ms g, timestamp_ms) of (Some s, Some t) \<Rightarrow> t < s | _ \<Rightarrow> False)
         then (False, g\<lparr> gi_stale_after_gate_dropped_count := gi_stale_after_gate_dropped_count g + 1 \<rparr>)
         else (True, if gi_first_accepted_timestamp_ms g = None \<and> timestamp_ms \<noteq> None
                     then g\<lparr> gi_first_accepted_timestamp_ms := timestamp_ms \<rparr> else g))
      else let g = (if all_devices_seen g then open_gate g else g)
           in (False, g\<lparr> gi_pre_gate_dropped_count := gi_pre_gate_dropped_count g + 1 \<rparr>))"

definition stream_count :: "GrpcIngestService \<Rightarrow> string \<Rightarrow> int" where
  "stream_count g device_id = (case dict_get (gi_active_device_stream_counts g) device_id of None \<Rightarrow> 0 | Some n \<Rightarrow> n)"

definition mark_device_active :: "string \<Rightarrow> GrpcIngestService \<Rightarrow> GrpcIngestService" where
  "mark_device_active device_id g = g\<lparr>
     gi_observed_device_ids := insert device_id (gi_observed_device_ids g),
     gi_active_device_stream_counts := dict_set (gi_active_device_stream_counts g) device_id (stream_count g device_id + 1),
     gi_active_device_ids := insert device_id (gi_active_device_ids g),
     gi_stream_closed_at_ms := dict_pop (gi_stream_closed_at_ms g) device_id \<rparr>"

definition record_device_timestamp :: "string \<Rightarrow> int \<Rightarrow> GrpcIngestService \<Rightarrow> GrpcIngestService" where
  "record_device_timestamp device_id timestamp_ms g =
     (case dict_get (gi_latest_device_timestamp_ms g) device_id of
        Some previous \<Rightarrow>
          if timestamp_ms > previous
          then g\<lparr> gi_latest_device_timestamp_ms := dict_set (gi_latest_device_timestamp_ms g) device_id timestamp_ms \<rparr> else g
      | None \<Rightarrow> g\<lparr> gi_latest_device_timestamp_ms := dict_set (gi_latest_device_timestamp_ms g) device_id timestamp_ms \<rparr>)"

definition next_server_receive_sequence :: "GrpcIngestService \<Rightarrow> int \<times> GrpcIngestService" where
  "next_server_receive_sequence g =
     (let n = gi_server_receive_sequence g + 1 in (n, g\<lparr> gi_server_receive_sequence := n \<rparr>))"

definition close_device :: "int \<Rightarrow> string \<Rightarrow> GrpcIngestService \<Rightarrow> GrpcIngestService" where
  "close_device closed_at_ms device_id g =
     (let n = stream_count g device_id - 1
      in if n > 0 then g\<lparr> gi_active_device_stream_counts := dict_set (gi_active_device_stream_counts g) device_id n \<rparr>
         else g\<lparr> gi_active_device_stream_counts := dict_pop (gi_active_device_stream_counts g) device_id,
                 gi_active_device_ids := gi_active_device_ids g - {device_id},
                 gi_stream_closed_at_ms := dict_set (gi_stream_closed_at_ms g) device_id closed_at_ms \<rparr>)"

text \<open>A started collection whose gate is on ends when a device it needs has no stream left.\<close>

definition stop_if_missing :: "GrpcIngestService \<Rightarrow> GrpcIngestService" where
  "stop_if_missing g =
     (if \<not> gi_collection_started g \<or> gi_collection_stopped g \<or> \<not> gate_enabled g \<or> all_devices_seen g then g
      else g\<lparr> gi_gate_open := False, gi_collection_stopped := True,
              gi_collection_stop_reason := Some
                (if gi_expected_device_ids g \<noteq> {}
                 then ''expected device disconnected: ''
                        @ join '','' (sorted_list_of_set (gi_expected_device_ids g - gi_active_device_ids g))
                 else ''expected device count disconnected'') \<rparr>)"

definition mark_stream_closed :: "int \<Rightarrow> string set \<Rightarrow> GrpcIngestService \<Rightarrow> GrpcIngestService" where
  "mark_stream_closed closed_at_ms device_ids g =
     (if device_ids = {} then g
      else stop_if_missing (fold (close_device closed_at_ms) (sorted_list_of_set device_ids) g))"

section \<open>Status\<close>

text \<open>\<open>dict(sorted(d.items()))\<close>.\<close>

definition sorted_dict :: "(string, 'v) dict \<Rightarrow> (string, 'v) dict" where
  "sorted_dict d = sort_key fst d"

record IngestStatus =
  is_enabled :: bool
  is_bind :: string
  is_running :: bool
  is_gate_enabled :: bool
  is_gate_open :: bool
  is_expected_device_count :: "int option"
  is_expected_device_ids :: "string list"
  is_observed_device_ids :: "string list"
  is_active_device_ids :: "string list"
  is_stream_closed_at_ms :: "(string, int) dict"
  is_latest_device_timestamp_ms :: "(string, int) dict"
  is_missing_device_ids :: "string list"
  is_unexpected_device_ids :: "string list"
  is_gate_start_timestamp_ms :: "int option"
  is_first_accepted_timestamp_ms :: "int option"
  is_pre_gate_dropped_count :: int
  is_stale_after_gate_dropped_count :: int
  is_server_receive_sequence :: int
  is_collection_started :: bool
  is_collection_stopped :: bool
  is_collection_stop_reason :: "string option"
  is_collection_capture_session_id :: "string option"
  is_active_authorized_stream_count :: int

definition ingest_status :: "GrpcIngestService \<Rightarrow> IngestStatus" where
  "ingest_status g =
     \<lparr> is_enabled = gi_enabled g,
       is_bind = (if gi_runtime_bind g = [] then gi_bind g else gi_runtime_bind g),
       is_running = gi_running g, is_gate_enabled = gate_enabled g, is_gate_open = gi_gate_open g,
       is_expected_device_count = gi_expected_device_count g,
       is_expected_device_ids = sorted_list_of_set (gi_expected_device_ids g),
       is_observed_device_ids = sorted_list_of_set (gi_observed_device_ids g),
       is_active_device_ids = sorted_list_of_set (gi_active_device_ids g),
       is_stream_closed_at_ms = sorted_dict (gi_stream_closed_at_ms g),
       is_latest_device_timestamp_ms = sorted_dict (gi_latest_device_timestamp_ms g),
       is_missing_device_ids = sorted_list_of_set (gi_expected_device_ids g - gi_active_device_ids g),
       is_unexpected_device_ids =
         (if gi_expected_device_ids g \<noteq> {} then sorted_list_of_set (gi_observed_device_ids g - gi_expected_device_ids g) else []),
       is_gate_start_timestamp_ms = gi_gate_start_timestamp_ms g,
       is_first_accepted_timestamp_ms = gi_first_accepted_timestamp_ms g,
       is_pre_gate_dropped_count = gi_pre_gate_dropped_count g,
       is_stale_after_gate_dropped_count = gi_stale_after_gate_dropped_count g,
       is_server_receive_sequence = gi_server_receive_sequence g,
       is_collection_started = gi_collection_started g, is_collection_stopped = gi_collection_stopped g,
       is_collection_stop_reason = gi_collection_stop_reason g,
       is_collection_capture_session_id = gi_collection_capture_session_id g,
       is_active_authorized_stream_count = gi_active_authorized_stream_count g \<rparr>"

section \<open>The gate's own invariant\<close>

text \<open>
  With the gate on: while it is open every device it waits for is connected, and it has a start; while it
  is shut and not stopped, nothing was accepted; what was accepted first is not older than the start.
\<close>

definition gate_ok :: "GrpcIngestService \<Rightarrow> bool" where
  "gate_ok g \<longleftrightarrow>
     (gi_gate_open g \<longrightarrow> \<not> gi_collection_stopped g)
     \<and> (gi_collection_stopped g \<longrightarrow> gi_collection_started g)
     \<and> (\<not> gate_enabled g \<longrightarrow> gi_gate_open g)
     \<and> (gate_enabled g \<longrightarrow> gi_gate_open g \<longrightarrow>
          gi_collection_started g \<and> all_devices_seen g \<and> gi_gate_start_timestamp_ms g \<noteq> None)
     \<and> (gate_enabled g \<longrightarrow> \<not> gi_gate_open g \<longrightarrow> \<not> gi_collection_stopped g \<longrightarrow>
          \<not> gi_collection_started g \<and> gi_gate_start_timestamp_ms g = None \<and> gi_first_accepted_timestamp_ms g = None)
     \<and> (gate_enabled g \<longrightarrow> (\<forall>f. gi_first_accepted_timestamp_ms g = Some f \<longrightarrow>
          (\<exists>s. gi_gate_start_timestamp_ms g = Some s \<and> s \<le> f)))"

text \<open>What a device that is marked active and stamped brings along.\<close>

definition device_ready :: "GrpcIngestService \<Rightarrow> string \<Rightarrow> bool" where
  "device_ready g device_id \<longleftrightarrow>
     device_id \<in> gi_active_device_ids g \<and> dict_get (gi_latest_device_timestamp_ms g) device_id \<noteq> None
     \<and> finite (gi_active_device_ids g) \<and> finite (gi_expected_device_ids g)"

lemma reset_gate_ok: "gate_ok (reset_collection g)"
  by (simp add: gate_ok_def reset_collection_def gate_enabled_def)

lemma configure_gate_ok: "gate_ok (configure_ingest bind enabled expected_count expected_ids verifier g)"
  by (simp add: configure_ingest_def Let_def gate_ok_def reset_collection_def gate_enabled_def)

lemma gate_untouched:
  "gate_ok (g\<lparr> gi_server_receive_sequence := n \<rparr>) = gate_ok g"
  "gate_ok (g\<lparr> gi_active_authorized_stream_count := i \<rparr>) = gate_ok g"
  "gate_ok (g\<lparr> gi_collection_capture_session_id := session \<rparr>) = gate_ok g"
  "gate_ok (g\<lparr> gi_latest_device_timestamp_ms := latest \<rparr>) = gate_ok g"
  "gate_ok (g\<lparr> gi_pre_gate_dropped_count := n \<rparr>) = gate_ok g"
  "gate_ok (g\<lparr> gi_stale_after_gate_dropped_count := n \<rparr>) = gate_ok g"
  by (simp_all add: gate_ok_def gate_enabled_def all_devices_seen_def)

lemma acquire_gate_ok: "gate_ok g \<Longrightarrow> acquire_collection session g = (b, g') \<Longrightarrow> gate_ok g'"
  by (auto simp: acquire_collection_def Let_def gate_untouched reset_gate_ok split: if_splits)

lemma release_gate_ok: "gate_ok g \<Longrightarrow> gate_ok (release_collection session g)"
  by (simp add: release_collection_def gate_untouched)

lemma number_gate_ok: "gate_ok g \<Longrightarrow> next_server_receive_sequence g = (n, g') \<Longrightarrow> gate_ok g'"
  by (auto simp: next_server_receive_sequence_def Let_def gate_untouched)

lemma record_gate_ok: "gate_ok g \<Longrightarrow> gate_ok (record_device_timestamp device_id t g)"
  by (simp add: record_device_timestamp_def gate_untouched split: option.split)

lemma mark_gate_ok:
  assumes "gate_ok g" "finite (gi_active_device_ids g)" shows "gate_ok (mark_device_active device_id g)"
proof -
  have "all_devices_seen g \<Longrightarrow> all_devices_seen (mark_device_active device_id g)"
    using card_insert_le [of "gi_active_device_ids g" device_id]
    by (cases "gi_expected_device_ids g = {}") (auto simp: all_devices_seen_def mark_device_active_def)
  with assms(1) show ?thesis by (simp add: gate_ok_def gate_enabled_def mark_device_active_def)
qed

lemma open_gate_simps:
  "gi_gate_open (open_gate g)" "gi_collection_started (open_gate g)"
  "gi_collection_stopped (open_gate g) = gi_collection_stopped g"
  "gi_active_device_ids (open_gate g) = gi_active_device_ids g"
  "gi_expected_device_ids (open_gate g) = gi_expected_device_ids g"
  "gi_expected_device_count (open_gate g) = gi_expected_device_count g"
  "gi_first_accepted_timestamp_ms (open_gate g) = gi_first_accepted_timestamp_ms g"
  "gi_latest_device_timestamp_ms (open_gate g) = gi_latest_device_timestamp_ms g"
  by (simp_all add: open_gate_def Let_def)

lemma map_filter_members: "set (List.map_filter f xs) = {y. \<exists>x \<in> set xs. f x = Some y}"
  by (induction xs) (auto split: option.splits)

text \<open>The gate opens with a start: the latest timestamp among the devices it waited for.\<close>

lemma open_gate_start:
  assumes "device_ready g device_id" "gi_expected_device_ids g \<noteq> {} \<longrightarrow> device_id \<in> gi_expected_device_ids g"
    "gi_gate_start_timestamp_ms g = None"
  obtains start where "gi_gate_start_timestamp_ms (open_gate g) = Some start"
    "\<forall>d t. d \<in> (if gi_expected_device_ids g \<noteq> {} then gi_expected_device_ids g else gi_active_device_ids g)
       \<longrightarrow> dict_get (gi_latest_device_timestamp_ms g) d = Some t \<longrightarrow> t \<le> start"
proof -
  let ?ids = "if gi_expected_device_ids g \<noteq> {} then gi_expected_device_ids g else gi_active_device_ids g"
  let ?ts = "List.map_filter (dict_get (gi_latest_device_timestamp_ms g)) (sorted_list_of_set ?ids)"
  have fin: "finite ?ids" using assms(1) by (simp add: device_ready_def)
  have member: "t \<in> set ?ts" if "d \<in> ?ids" "dict_get (gi_latest_device_timestamp_ms g) d = Some t" for d t
    unfolding map_filter_members set_sorted_list_of_set [OF fin] using that by blast
  obtain t where "dict_get (gi_latest_device_timestamp_ms g) device_id = Some t" "device_id \<in> ?ids"
    using assms(1,2) by (auto simp: device_ready_def)
  then have "?ts \<noteq> []" using member by fastforce
  then have "gi_gate_start_timestamp_ms (open_gate g) = Some (list_max ?ts)"
    using assms(3) unfolding open_gate_def Let_def by (simp split: if_splits)
  then show ?thesis using that [of "list_max ?ts"] member list_max_ge by blast
qed

lemma allow_open:
  assumes "gi_gate_open g" "allow_ingest device_id (Some t) g = (b, g')"
  shows "g' = g \<or> (\<exists>n. g' = g\<lparr> gi_stale_after_gate_dropped_count := n \<rparr>)
    \<or> g' = g\<lparr> gi_first_accepted_timestamp_ms := Some t \<rparr>
      \<and> (gate_enabled g \<longrightarrow> (\<forall>start. gi_gate_start_timestamp_ms g = Some start \<longrightarrow> start \<le> t))"
proof (cases "gi_collection_stopped g \<or> gi_expected_device_ids g \<noteq> {} \<and> device_id \<notin> gi_expected_device_ids g")
  case False
  let ?stale = "gate_enabled g \<and> (case gi_gate_start_timestamp_ms g of Some s \<Rightarrow> t < s | None \<Rightarrow> False)"
  have "snd (allow_ingest device_id (Some t) g) = (if ?stale
      then g\<lparr> gi_stale_after_gate_dropped_count := gi_stale_after_gate_dropped_count g + 1 \<rparr>
      else if gi_first_accepted_timestamp_ms g = None then g\<lparr> gi_first_accepted_timestamp_ms := Some t \<rparr> else g)"
    using False assms(1) by (cases "gi_gate_start_timestamp_ms g") (simp_all add: allow_ingest_def)
  then have g': "g' = (if ?stale
      then g\<lparr> gi_stale_after_gate_dropped_count := gi_stale_after_gate_dropped_count g + 1 \<rparr>
      else if gi_first_accepted_timestamp_ms g = None then g\<lparr> gi_first_accepted_timestamp_ms := Some t \<rparr> else g)"
    unfolding assms(2) snd_conv .
  show ?thesis
  proof (cases ?stale)
    case True
    with g' have "g' = g\<lparr> gi_stale_after_gate_dropped_count := gi_stale_after_gate_dropped_count g + 1 \<rparr>" by simp
    then show ?thesis by blast
  next
    case False
    then have "g' = g \<or> g' = g\<lparr> gi_first_accepted_timestamp_ms := Some t \<rparr>" using g' by presburger
    moreover have "gate_enabled g \<longrightarrow> (\<forall>start. gi_gate_start_timestamp_ms g = Some start \<longrightarrow> start \<le> t)"
      using False by (cases "gi_gate_start_timestamp_ms g") auto
    ultimately show ?thesis by blast
  qed
next
  case True
  then have "allow_ingest device_id (Some t) g = (False, g)" by (auto simp: allow_ingest_def)
  with assms(2) show ?thesis by (simp only: prod.inject) blast
qed

lemma allow_gate_ok:
  assumes ok: "gate_ok g" and ready: "device_ready g device_id" and a: "allow_ingest device_id (Some t) g = (allowed, g')"
  shows "gate_ok g'"
proof (cases "gi_gate_open g \<or> gi_collection_stopped g \<or> (gi_expected_device_ids g \<noteq> {} \<and> device_id \<notin> gi_expected_device_ids g)
    \<or> \<not> all_devices_seen g")
  case True
  from ok a show ?thesis
  proof (cases "gi_gate_open g")
    case True
    from a True consider "g' = g" | n where "g' = g\<lparr> gi_stale_after_gate_dropped_count := n \<rparr>"
      | "g' = g\<lparr> gi_first_accepted_timestamp_ms := Some t \<rparr>"
        "gate_enabled g \<longrightarrow> (\<forall>start. gi_gate_start_timestamp_ms g = Some start \<longrightarrow> start \<le> t)"
      using allow_open [OF True a] by blast
    then show ?thesis
    proof cases
      case 3
      have "gate_enabled g' = gate_enabled g" "all_devices_seen g' = all_devices_seen g"
        by (simp_all add: 3(1) gate_enabled_def all_devices_seen_def)
      with ok True 3 show ?thesis unfolding gate_ok_def by auto
    qed (use ok in \<open>simp_all add: gate_untouched\<close>)
  next
    case False
    with True have "gate_ok (snd (allow_ingest device_id (Some t) g))"
      using ok by (cases "gi_collection_stopped g"; cases "all_devices_seen g") (auto simp: allow_ingest_def Let_def gate_untouched)
    then show ?thesis unfolding a snd_conv .
  qed
next
  case False
  then have shut: "\<not> gi_gate_open g" "\<not> gi_collection_stopped g" "all_devices_seen g"
      "gi_expected_device_ids g \<noteq> {} \<longrightarrow> device_id \<in> gi_expected_device_ids g" by auto
  then have none: "gi_gate_start_timestamp_ms g = None" "gi_first_accepted_timestamp_ms g = None"
    using ok by (auto simp: gate_ok_def)
  obtain start where "gi_gate_start_timestamp_ms (open_gate g) = Some start"
    by (rule open_gate_start [OF ready shut(4) none(1)]) (rule that)
  then have "gate_ok (open_gate g)" using shut(2,3) none(2) unfolding gate_ok_def
    by (simp add: open_gate_simps gate_enabled_def all_devices_seen_def)
  then have "gate_ok (snd (allow_ingest device_id (Some t) g))"
    using shut by (auto simp: allow_ingest_def Let_def gate_untouched)
  then show ?thesis unfolding a snd_conv .
qed

text \<open>A frame that is let through.\<close>

lemma allowed:
  assumes "gate_ok g" "allow_ingest device_id (Some t) g = (True, g')"
  shows "gi_gate_open g \<and> \<not> gi_collection_stopped g
    \<and> (gi_expected_device_ids g \<noteq> {} \<longrightarrow> device_id \<in> gi_expected_device_ids g)
    \<and> (gate_enabled g \<longrightarrow> all_devices_seen g \<and> (\<exists>start. gi_gate_start_timestamp_ms g = Some start \<and> start \<le> t))"
proof -
  have "gi_gate_open g" "\<not> gi_collection_stopped g" "gi_expected_device_ids g \<noteq> {} \<longrightarrow> device_id \<in> gi_expected_device_ids g"
    using assms(2) by (auto simp: allow_ingest_def Let_def split: if_splits)
  moreover have "gate_enabled g \<longrightarrow> all_devices_seen g \<and> (\<exists>start. gi_gate_start_timestamp_ms g = Some start \<and> start \<le> t)"
    using assms \<open>gi_gate_open g\<close> by (auto simp: allow_ingest_def gate_ok_def Let_def split: if_splits option.splits)
  ultimately show ?thesis by blast
qed

lemma close_device_simps:
  "gi_gate_open (close_device t d g) = gi_gate_open g" "gi_collection_started (close_device t d g) = gi_collection_started g"
  "gi_collection_stopped (close_device t d g) = gi_collection_stopped g"
  "gi_expected_device_ids (close_device t d g) = gi_expected_device_ids g"
  "gi_expected_device_count (close_device t d g) = gi_expected_device_count g"
  "gi_first_accepted_timestamp_ms (close_device t d g) = gi_first_accepted_timestamp_ms g"
  "gi_gate_start_timestamp_ms (close_device t d g) = gi_gate_start_timestamp_ms g"
  "gi_latest_device_timestamp_ms (close_device t d g) = gi_latest_device_timestamp_ms g"
  "gi_server_receive_sequence (close_device t d g) = gi_server_receive_sequence g"
  "gi_collection_capture_session_id (close_device t d g) = gi_collection_capture_session_id g"
  "gi_active_authorized_stream_count (close_device t d g) = gi_active_authorized_stream_count g"
  "gi_session_token_verifier (close_device t d g) = gi_session_token_verifier g"
  by (simp_all add: close_device_def Let_def)

definition frame_of :: "GrpcIngestService \<Rightarrow> _" where
  "frame_of g = (gi_gate_open g, gi_collection_started g, gi_collection_stopped g, gi_expected_device_ids g,
     gi_expected_device_count g, gi_first_accepted_timestamp_ms g, gi_gate_start_timestamp_ms g, gi_latest_device_timestamp_ms g,
     gi_server_receive_sequence g, gi_collection_capture_session_id g, gi_active_authorized_stream_count g,
     gi_session_token_verifier g)"

lemma close_devices_frame: "frame_of (fold (close_device t) ds g) = frame_of g"
  by (induction ds arbitrary: g) (simp_all add: frame_of_def close_device_simps)

lemma stop_gate_ok:
  assumes ok: "gate_ok g" and same: "frame_of g' = frame_of g" shows "gate_ok (stop_if_missing g')"
proof -
  have eqs: "gi_gate_open g' = gi_gate_open g" "gi_collection_started g' = gi_collection_started g"
      "gi_collection_stopped g' = gi_collection_stopped g" "gate_enabled g' = gate_enabled g"
      "gi_first_accepted_timestamp_ms g' = gi_first_accepted_timestamp_ms g" "gi_gate_start_timestamp_ms g' = gi_gate_start_timestamp_ms g"
    using same by (simp_all add: frame_of_def gate_enabled_def)
  have "gate_enabled (g'\<lparr> gi_gate_open := b, gi_collection_stopped := b', gi_collection_stop_reason := r \<rparr>) = gate_enabled g" for b b' r
    using eqs(4) by (simp add: gate_enabled_def)
  with ok eqs show ?thesis by (auto simp: stop_if_missing_def gate_ok_def)
qed

lemma closed_gate_ok: "gate_ok g \<Longrightarrow> gate_ok (mark_stream_closed t ds g)"
  by (simp add: mark_stream_closed_def stop_gate_ok close_devices_frame)

end
