(* ===== verification/IngestServer.thy ===== *)
theory IngestServer
  imports IngestGate
begin

text \<open>
  The streams of the gRPC ingest server: \<open>_stream_frames\<close> of infrastructure/grpc/grpc_ingest_server.py as a
  thread that takes one locked step at a time (\<open>stream_step\<close>), and the server as the interleaving of its
  threads (\<open>server_step\<close>). The ingest function, the sidecar file and PyJWT are the environment; what the
  ingest function works on is the state \<open>sv_world\<close>.

  A context that cannot abort a call (it exists in unit tests only) is not modelled, nor the experiment
  recorder, which only observes. The invariant \<open>server_ok\<close> ties the gate's books to the streams that are open.
\<close>

section \<open>One stream of frames\<close>

text \<open>
  A packet as its message has it: text and bytes are empty, numbers zero, where a field is not set.
  \<open>fp_metadata_payload\<close> is what protobuf's \<open>MessageToDict\<close> gives for the metadata.
\<close>

record FramePacket =
  fp_camera_id :: string
  fp_device_id :: string
  fp_frame_sequence :: int
  fp_device_timestamp_ms :: int
  fp_format :: string
  fp_session_id :: "string option"
  fp_jpeg :: bytes
  fp_session_scope :: "DeclaredScope option"
  fp_metadata_payload :: "(string \<times> json) list"

text \<open>The arguments of one call of the ingest function.\<close>

record IngestRequest =
  ir_device_id :: string
  ir_timestamp_ms :: int
  ir_image_bytes :: bytes
  ir_sequence :: "int option"
  ir_content_type :: string
  ir_filename :: string
  ir_session_id :: "string option"
  ir_camera_stream_id :: string
  ir_received_at_ms :: int
  ir_capture_metadata :: "(string \<times> json) list"
  ir_authorization_scope :: "IngestScope option"

record Sidecar =
  sc_service :: string
  sc_metadata :: "(string \<times> json) list"
  sc_received_at_ms :: int
  sc_received_monotonic_ns :: int
  sc_ingested_at_ms :: int
  sc_ingested_monotonic_ns :: int
  sc_ingest_elapsed_ms :: int
  sc_server_receive_sequence :: int
  sc_gate_start_timestamp_ms :: "int option"

text \<open>How a call ends: a response, a status the context is aborted with, or an exception.\<close>

datatype StreamOutcome =
    Responded int string
  | Aborted string string
  | Raised exn

text \<open>A request on its way, with the clocks and the number it got on arrival.\<close>

record Pending =
  pd_packet :: FramePacket
  pd_received_at_ms :: int
  pd_received_monotonic_ns :: int
  pd_sequence :: int

text \<open>Where a thread of the server stands between two of its steps: each phase names what has been done.\<close>

datatype Phase =
    Ready
  | Numbered Pending
  | Marked Pending
  | Stamped Pending
  | Admitted Pending
  | Closing StreamOutcome
  | Closed StreamOutcome
  | Finished StreamOutcome

record IngestStream =
  sm_received_count :: int
  sm_device_ids :: "string set"
  sm_scope :: "IngestScope option"
  sm_phase :: Phase

text \<open>What is outside: tokens, the ingest function (the path of the frame it archived), and the sidecar files.\<close>

record ('key, 'w) IngestEnv =
  ie_library :: "'key JwtLibrary"
  ie_ingest :: "IngestRequest \<Rightarrow> 'w \<Rightarrow> string option result \<times> 'w"
  ie_write_sidecar :: "string \<Rightarrow> Sidecar \<Rightarrow> 'w \<Rightarrow> unit result \<times> 'w"

record ('key, 'w) IngestServer =
  sv_gate :: GrpcIngestService
  sv_caches :: "'key AuthCaches"
  sv_sessions :: SessionStore
  sv_cameras :: CameraStore
  sv_streams :: "(nat, IngestStream) dict"
  sv_world :: 'w

text \<open>What one step of a thread reads: the answers for the session check, the clocks, and what the request iterator does.\<close>

datatype Incoming = NextFrame FramePacket | EndOfStream | Broken exn

record StepInputs =
  si_auth :: AuthInputs
  si_now :: int
  si_time_ms :: int
  si_monotonic_ns :: int
  si_incoming :: Incoming

fun scope_capture_session_id :: "IngestScope \<Rightarrow> string" where
  "scope_capture_session_id (SessionScope s) = ss_capture_session_id s"
| "scope_capture_session_id (CameraScope s) = ci_capture_session_id s"

fun matches_declared_scope :: "IngestScope \<Rightarrow> DeclaredScope \<Rightarrow> string \<Rightarrow> string option \<Rightarrow> bool" where
  "matches_declared_scope (SessionScope s) = session_matches_declared_scope s"
| "matches_declared_scope (CameraScope s) = camera_matches_declared_scope s"

definition internal_device_id :: "FramePacket \<Rightarrow> string" where
  "internal_device_id p = (if fp_device_id p = [] then fp_camera_id p else fp_device_id p)"

definition packet_camera_id :: "FramePacket \<Rightarrow> string" where
  "packet_camera_id p = (if fp_camera_id p = [] then ''unknown'' else fp_camera_id p)"

definition ingest_request :: "IngestStream \<Rightarrow> Pending \<Rightarrow> IngestRequest" where
  "ingest_request s d =
     (let p = pd_packet d
      in \<lparr> ir_device_id = internal_device_id p, ir_timestamp_ms = fp_device_timestamp_ms p,
           ir_image_bytes = fp_jpeg p,
           ir_sequence = (if fp_frame_sequence p = 0 then None else Some (fp_frame_sequence p)),
           ir_content_type = resolve_content_type (if fp_format p = [] then ''jpeg'' else fp_format p),
           ir_filename = internal_device_id p @ ''_'' @ packet_camera_id p @ ''_'' @ py_str_int (fp_frame_sequence p) @ ''.jpg'',
           ir_session_id = fp_session_id p, ir_camera_stream_id = packet_camera_id p,
           ir_received_at_ms = pd_received_at_ms d, ir_capture_metadata = fp_metadata_payload p,
           ir_authorization_scope = sm_scope s \<rparr>)"

text \<open>The session check before each frame.\<close>

definition assert_stream_active ::
  "StepInputs \<Rightarrow> IngestStream \<Rightarrow> ('key, 'w) IngestServer \<Rightarrow> unit result \<times> ('key, 'w) IngestServer" where
  "assert_stream_active inp s w =
     (case sm_scope s of
        None \<Rightarrow> (Inr (), w)
      | Some scope \<Rightarrow>
          (case gi_session_token_verifier (sv_gate w) of
             None \<Rightarrow> (Inl (AttributeError ''assert_active''), w)
           | Some v \<Rightarrow>
               (case versioned_assert_active (si_auth inp) v scope (sv_caches w) of
                  (Inl e, caches) \<Rightarrow> (Inl e, w\<lparr> sv_caches := caches \<rparr>)
                | (Inr _, caches) \<Rightarrow>
                    (let w = w\<lparr> sv_caches := caches \<rparr>
                     in case scope of
                          SessionScope _ \<Rightarrow> (Inr (), w)
                        | CameraScope c \<Rightarrow>
                            (case assert_current_camera (si_now inp) c (sv_cameras w) of
                               (r, cameras) \<Rightarrow> (r, w\<lparr> sv_cameras := cameras \<rparr>))))))"

text \<open>A frame is taken from the iterator: the session is checked, then the frame gets its number.\<close>

definition receive_frame ::
  "StepInputs \<Rightarrow> FramePacket \<Rightarrow> IngestStream \<Rightarrow> ('key, 'w) IngestServer \<Rightarrow> Phase \<times> ('key, 'w) IngestServer" where
  "receive_frame inp p s w =
     (case assert_stream_active inp s w of
        (Inl (SessionTokenError _), w) \<Rightarrow> (Closing (Aborted ''UNAUTHENTICATED'' ''Main session is no longer active''), w)
      | (Inl e, w) \<Rightarrow> (Closing (Raised e), w)
      | (Inr _, w) \<Rightarrow>
          (case next_server_receive_sequence (sv_gate w) of
             (n, g) \<Rightarrow>
               (Numbered \<lparr> pd_packet = p, pd_received_at_ms = si_time_ms inp,
                           pd_received_monotonic_ns = si_monotonic_ns inp, pd_sequence = n \<rparr>,
                w\<lparr> sv_gate := g \<rparr>)))"

text \<open>Checks of a frame, and the mark of its device: the reason to end the call, if there is one.\<close>

definition frame_refusal :: "IngestStream \<Rightarrow> FramePacket \<Rightarrow> StreamOutcome option" where
  "frame_refusal s p =
     (if internal_device_id p = [] then Some (Responded (sm_received_count s) ''device_id or camera_id is required'')
      else if fp_device_timestamp_ms p \<le> 0
      then Some (Responded (sm_received_count s) ''device_timestamp_ms must be greater than 0'')
      else case sm_scope s of
        None \<Rightarrow> None
      | Some scope \<Rightarrow>
          if (case fp_session_scope p of None \<Rightarrow> False
              | Some declared \<Rightarrow> matches_declared_scope scope declared (packet_camera_id p)
                    (if fp_device_id p = [] then None else Some (fp_device_id p)))
          then None
          else Some (Aborted ''PERMISSION_DENIED'' ''frame scope does not match Main session credentials''))"

definition check_frame :: "Pending \<Rightarrow> IngestStream \<Rightarrow> GrpcIngestService \<Rightarrow> IngestStream \<times> GrpcIngestService" where
  "check_frame d s g =
     (let device = internal_device_id (pd_packet d)
      in case frame_refusal s (pd_packet d) of
           Some refusal \<Rightarrow> (s\<lparr> sm_phase := Closing refusal \<rparr>, g)
         | None \<Rightarrow>
             if device \<in> sm_device_ids s then (s\<lparr> sm_phase := Marked d \<rparr>, g)
             else (s\<lparr> sm_device_ids := insert device (sm_device_ids s), sm_phase := Marked d \<rparr>, mark_device_active device g))"

text \<open>An admitted frame is ingested, and a sidecar is written beside its archived file.\<close>

definition ingest_admitted ::
  "('key, 'w) IngestEnv \<Rightarrow> StepInputs \<Rightarrow> Pending \<Rightarrow> IngestStream \<Rightarrow> GrpcIngestService \<Rightarrow> 'w \<Rightarrow> unit result \<times> 'w" where
  "ingest_admitted env inp d s g world =
     (case ie_ingest env (ingest_request s d) world of
        (Inl e, world) \<Rightarrow> (Inl e, world)
      | (Inr path, world) \<Rightarrow>
          (if truthy path
           then ie_write_sidecar env (the path @ ''.metadata.json'')
                  \<lparr> sc_service = ''gc.collector.v1.FrameIngestService'',
                    sc_metadata = fp_metadata_payload (pd_packet d), sc_received_at_ms = pd_received_at_ms d,
                    sc_received_monotonic_ns = pd_received_monotonic_ns d, sc_ingested_at_ms = si_time_ms inp,
                    sc_ingested_monotonic_ns = si_monotonic_ns inp,
                    sc_ingest_elapsed_ms = si_time_ms inp - pd_received_at_ms d,
                    sc_server_receive_sequence = pd_sequence d,
                    sc_gate_start_timestamp_ms = gi_gate_start_timestamp_ms g \<rparr> world
           else (Inr (), world)))"

text \<open>One step of the thread of a stream; \<open>finally\<close> is the pair of steps from \<open>Closing\<close> to \<open>Finished\<close>.\<close>

definition stream_step ::
  "('key, 'w) IngestEnv \<Rightarrow> StepInputs \<Rightarrow> IngestStream \<Rightarrow> ('key, 'w) IngestServer \<Rightarrow> IngestStream \<times> ('key, 'w) IngestServer" where
  "stream_step env inp s w =
     (case sm_phase s of
        Ready \<Rightarrow>
          (case si_incoming inp of
             NextFrame p \<Rightarrow> (case receive_frame inp p s w of (phase, w) \<Rightarrow> (s\<lparr> sm_phase := phase \<rparr>, w))
           | EndOfStream \<Rightarrow>
               (s\<lparr> sm_phase := Closing (Responded (sm_received_count s) ''collector ingest stream completed'') \<rparr>, w)
           | Broken e \<Rightarrow> (s\<lparr> sm_phase := Closing (Raised e) \<rparr>, w))
      | Numbered d \<Rightarrow> (case check_frame d s (sv_gate w) of (s, g) \<Rightarrow> (s, w\<lparr> sv_gate := g \<rparr>))
      | Marked d \<Rightarrow>
          (s\<lparr> sm_phase := Stamped d \<rparr>,
           w\<lparr> sv_gate := record_device_timestamp (internal_device_id (pd_packet d))
                (fp_device_timestamp_ms (pd_packet d)) (sv_gate w) \<rparr>)
      | Stamped d \<Rightarrow>
          (case allow_ingest (internal_device_id (pd_packet d)) (Some (fp_device_timestamp_ms (pd_packet d))) (sv_gate w) of
             (allowed, g) \<Rightarrow> (s\<lparr> sm_phase := (if allowed then Admitted d else Ready) \<rparr>, w\<lparr> sv_gate := g \<rparr>))
      | Admitted d \<Rightarrow>
          (case ingest_admitted env inp d s (sv_gate w) (sv_world w) of
             (Inl e, world) \<Rightarrow> (s\<lparr> sm_phase := Closing (Raised e) \<rparr>, w\<lparr> sv_world := world \<rparr>)
           | (Inr _, world) \<Rightarrow>
               (s\<lparr> sm_received_count := sm_received_count s + 1, sm_phase := Ready \<rparr>, w\<lparr> sv_world := world \<rparr>))
      | Closing outcome \<Rightarrow>
          (s\<lparr> sm_phase := Closed outcome \<rparr>,
           w\<lparr> sv_gate := mark_stream_closed (si_time_ms inp) (sm_device_ids s) (sv_gate w) \<rparr>)
      | Closed outcome \<Rightarrow>
          (s\<lparr> sm_phase := Finished outcome \<rparr>,
           (case sm_scope s of None \<Rightarrow> w
            | Some scope \<Rightarrow> w\<lparr> sv_gate := release_collection (scope_capture_session_id scope) (sv_gate w) \<rparr>))
      | Finished outcome \<Rightarrow> (s, w))"

section \<open>The server\<close>

text \<open>The opening of a call: its scope is verified and registered, and its capture session takes the collection.\<close>

definition register_scope ::
  "int \<Rightarrow> string \<Rightarrow> IngestScope \<Rightarrow> ('key, 'w) IngestServer \<Rightarrow> unit result \<times> ('key, 'w) IngestServer" where
  "register_scope now token scope w =
     (case scope of
        CameraScope c \<Rightarrow>
          (case register_camera now token c (sv_cameras w) of (r, cameras) \<Rightarrow> (map_sum id (\<lambda>_. ()) r, w\<lparr> sv_cameras := cameras \<rparr>))
      | SessionScope s \<Rightarrow>
          (case register_session now token s (sv_sessions w) of (r, creds) \<Rightarrow> (map_sum id (\<lambda>_. ()) r, w\<lparr> sv_sessions := creds \<rparr>)))"

definition authenticate_stream ::
  "('key, 'w) IngestEnv \<Rightarrow> (string \<times> string) list option \<Rightarrow> StepInputs \<Rightarrow> VersionedVerifier \<Rightarrow> ('key, 'w) IngestServer
   \<Rightarrow> (bool \<times> IngestScope) result \<times> ('key, 'w) IngestServer" where
  "authenticate_stream env metadata inp v w =
     (case extract_bearer_token metadata of
        Inl e \<Rightarrow> (Inl e, w)
      | Inr token \<Rightarrow>
          (case versioned_verify (ie_library env) (si_auth inp) v token (sv_caches w) of
             (Inl e, caches) \<Rightarrow> (Inl e, w\<lparr> sv_caches := caches \<rparr>)
           | (Inr scope, caches) \<Rightarrow>
               (case register_scope (si_now inp) token scope (w\<lparr> sv_caches := caches \<rparr>) of
                  (Inl e, w) \<Rightarrow> (Inl e, w)
                | (Inr _, w) \<Rightarrow>
                    (case acquire_collection (scope_capture_session_id scope) (sv_gate w) of
                       (acquired, g) \<Rightarrow> (Inr (acquired, scope), w\<lparr> sv_gate := g \<rparr>)))))"

definition open_stream ::
  "('key, 'w) IngestEnv \<Rightarrow> (string \<times> string) list option \<Rightarrow> StepInputs \<Rightarrow> ('key, 'w) IngestServer
   \<Rightarrow> IngestStream \<times> ('key, 'w) IngestServer" where
  "open_stream env metadata inp w =
     (let start = (\<lambda>scope phase. \<lparr> sm_received_count = 0, sm_device_ids = {}, sm_scope = scope, sm_phase = phase \<rparr>)
      in case gi_session_token_verifier (sv_gate w) of
           None \<Rightarrow> (start None Ready, w)
         | Some v \<Rightarrow>
             (case authenticate_stream env metadata inp v w of
                (Inl (SessionTokenError _), w) \<Rightarrow>
                  (start None (Finished (Aborted ''UNAUTHENTICATED'' ''valid Main session credentials are required'')), w)
              | (Inl e, w) \<Rightarrow> (start None (Finished (Raised e)), w)
              | (Inr (False, scope), w) \<Rightarrow>
                  (start None (Finished (Aborted ''FAILED_PRECONDITION'' ''another capture session owns the ingest collection'')), w)
              | (Inr (True, scope), w) \<Rightarrow> (start (Some scope) Ready, w)))"

text \<open>
  The server runs four worker threads: a call is taken up only when fewer than four are unfinished. The
  events are the opening of a call under a new number and a step of the thread of a call, in any order.
\<close>

fun finished :: "IngestStream \<Rightarrow> bool" where
  "finished s = (case sm_phase s of Finished _ \<Rightarrow> True | _ \<Rightarrow> False)"

definition open_streams :: "('key, 'w) IngestServer \<Rightarrow> IngestStream list" where
  "open_streams w = filter (\<lambda>s. \<not> finished s) (dict_values (sv_streams w))"

datatype ServerEvent =
    OpenStream nat "(string \<times> string) list option" StepInputs
  | StepStream nat StepInputs

fun server_step :: "('key, 'w) IngestEnv \<Rightarrow> ('key, 'w) IngestServer \<Rightarrow> ServerEvent \<Rightarrow> ('key, 'w) IngestServer" where
  "server_step env w (OpenStream k metadata inp) =
     (if dict_get (sv_streams w) k \<noteq> None \<or> 4 \<le> length (open_streams w) then w
      else case open_stream env metadata inp w of (s, w) \<Rightarrow> w\<lparr> sv_streams := dict_set (sv_streams w) k s \<rparr>)"
| "server_step env w (StepStream k inp) =
     (case dict_get (sv_streams w) k of
        None \<Rightarrow> w
      | Some s \<Rightarrow> (case stream_step env inp s w of (s, w) \<Rightarrow> w\<lparr> sv_streams := dict_set (sv_streams w) k s \<rparr>))"

section \<open>Streams and the gate's books\<close>

text \<open>A stream holds the devices it has marked until its \<open>finally\<close> has closed them, and its collection until it is released.\<close>

fun let_go :: "Phase \<Rightarrow> bool" where
  "let_go (Closed _) = True"
| "let_go (Finished _) = True"
| "let_go _ = False"

definition holds :: "IngestStream \<Rightarrow> string \<Rightarrow> bool" where
  "holds s d \<longleftrightarrow> d \<in> sm_device_ids s \<and> \<not> let_go (sm_phase s)"

definition owns :: "IngestStream \<Rightarrow> bool" where
  "owns s \<longleftrightarrow> sm_scope s \<noteq> None \<and> \<not> finished s"

definition holders :: "IngestStream list \<Rightarrow> string \<Rightarrow> int" where
  "holders ss d = int (length (filter (\<lambda>s. holds s d) ss))"

definition owners :: "IngestStream list \<Rightarrow> int" where
  "owners ss = int (length (filter owns ss))"

lemma holders_simps [simp]:
  "holders [] d = 0" "holders (s # ss) d = (if holds s d then 1 else 0) + holders ss d"
  "holders (xs @ ys) d = holders xs d + holders ys d" "0 \<le> holders ss d"
  by (simp_all add: holders_def)

lemma owners_simps [simp]:
  "owners [] = 0" "owners (s # ss) = (if owns s then 1 else 0) + owners ss"
  "owners (xs @ ys) = owners xs + owners ys" "0 \<le> owners ss"
  by (simp_all add: owners_def)

lemma holders_pos: "0 < holders ss d \<longleftrightarrow> (\<exists>s \<in> set ss. holds s d)"
  by (induction ss) (auto simp: add_pos_nonneg add_nonneg_pos)

lemma holders_zero: "holders ss d = 0 \<longleftrightarrow> (\<forall>s \<in> set ss. \<not> holds s d)"
  using holders_pos [of ss d] holders_simps(4) [of ss d] by (metis less_le)

lemma owners_zero: "owners ss = 0 \<longleftrightarrow> (\<forall>s \<in> set ss. \<not> owns s)"
  by (auto simp: owners_def filter_empty_conv)

text \<open>
  The books: each device is counted once for every stream that holds it and is active while one does; the
  collection counts the authorized streams, which are all of its capture session.
\<close>

definition books :: "GrpcIngestService \<Rightarrow> IngestStream list \<Rightarrow> bool" where
  "books g ss \<longleftrightarrow>
     (\<forall>d. stream_count g d = holders ss d)
     \<and> gi_active_device_ids g = {d. 0 < holders ss d}
     \<and> gi_active_authorized_stream_count g = owners ss
     \<and> (\<forall>s \<in> set ss. owns s \<longrightarrow> gi_collection_capture_session_id g = Some (scope_capture_session_id (the (sm_scope s))))
     \<and> (\<forall>s \<in> set ss. \<not> finished s \<longrightarrow> (sm_scope s = None) = (gi_session_token_verifier g = None))
     \<and> (\<forall>s \<in> set ss. finite (sm_device_ids s))"

definition accounts :: "GrpcIngestService \<Rightarrow> _" where
  "accounts g = (gi_active_device_stream_counts g, gi_active_device_ids g, gi_active_authorized_stream_count g,
     gi_collection_capture_session_id g, gi_session_token_verifier g)"

lemma books_swap:
  assumes "books g (xs @ s # ys)" "accounts g' = accounts g"
    and "\<And>d. holds s' d = holds s d" "sm_scope s' = sm_scope s" "finished s' = finished s" "finite (sm_device_ids s')"
  shows "books g' (xs @ s' # ys)"
proof -
  have "owns s' = owns s" using assms(4,5) by (simp add: owns_def)
  with assms show ?thesis by (auto simp: books_def accounts_def stream_count_def)
qed

lemma stream_count_mark: "stream_count (mark_device_active x g) d = stream_count g d + (if d = x then 1 else 0)"
  by (simp add: stream_count_def mark_device_active_def)

lemma books_mark:
  assumes b: "books g (xs @ s # ys)" and new: "\<not> holds s device" "\<And>d. holds s' d = (holds s d \<or> d = device)"
    and same: "sm_scope s' = sm_scope s" "finished s' = finished s" "finite (sm_device_ids s')"
  shows "books (mark_device_active device g) (xs @ s' # ys)"
proof -
  have "owns s' = owns s" using same by (simp add: owns_def)
  moreover have "holders (xs @ s' # ys) d = holders (xs @ s # ys) d + (if d = device then 1 else 0)" for d
    using new by auto
  moreover have "0 \<le> holders (xs @ s # ys) device" by (rule holders_simps)
  moreover have "gi_active_device_ids (mark_device_active device g) = insert device (gi_active_device_ids g)"
    "gi_active_authorized_stream_count (mark_device_active device g) = gi_active_authorized_stream_count g"
    "gi_collection_capture_session_id (mark_device_active device g) = gi_collection_capture_session_id g"
    "gi_session_token_verifier (mark_device_active device g) = gi_session_token_verifier g"
    by (simp_all add: mark_device_active_def)
  ultimately show ?thesis using b same
    unfolding books_def stream_count_mark by (auto simp del: holders_simps)
qed

text \<open>Closing devices one after another.\<close>

lemma stream_count_close: "0 < stream_count g x \<Longrightarrow> stream_count (close_device t x g) d = stream_count g d - (if d = x then 1 else 0)"
  by (auto simp: stream_count_def close_device_def Let_def delete_conv')

lemma close_device_active:
  assumes "gi_active_device_ids g = {d. 0 < stream_count g d}" "0 < stream_count g x"
  shows "gi_active_device_ids (close_device t x g) = {d. 0 < stream_count (close_device t x g) d}"
proof -
  have "gi_active_device_ids (close_device t x g) = (if 1 < stream_count g x then gi_active_device_ids g else gi_active_device_ids g - {x})"
    by (simp add: close_device_def Let_def)
  moreover have "stream_count (close_device t x g) d = stream_count g d - (if d = x then 1 else 0)" for d
    by (rule stream_count_close [OF assms(2)])
  ultimately show ?thesis using assms by auto
qed

lemma close_devices:
  assumes "gi_active_device_ids g = {d. 0 < stream_count g d}" "\<forall>x \<in> set ds. 0 < stream_count g x" "distinct ds"
  shows "(\<forall>d. stream_count (fold (close_device t) ds g) d = stream_count g d - (if d \<in> set ds then 1 else 0))
    \<and> gi_active_device_ids (fold (close_device t) ds g) = {d. 0 < stream_count (fold (close_device t) ds g) d}"
  using assms
proof (induction ds arbitrary: g)
  case (Cons x ds)
  have x: "0 < stream_count g x" using Cons.prems(2) by simp
  note step = stream_count_close [OF x, of t]
  have "\<forall>y \<in> set ds. 0 < stream_count (close_device t x g) y" using Cons.prems(2,3) by (auto simp: step)
  from Cons.IH [OF close_device_active [OF Cons.prems(1) x] this] Cons.prems(3)
  show ?case by (auto simp: step)
qed simp

lemma stop_accounts: "accounts (stop_if_missing g) = accounts g"
  by (simp add: stop_if_missing_def accounts_def)

lemma books_close:
  assumes b: "books g (xs @ s # ys)" and s: "\<not> let_go (sm_phase s)" "\<And>d. \<not> holds s' d"
    and same: "sm_scope s' = sm_scope s" "finished s' = finished s" "finite (sm_device_ids s')"
  shows "books (mark_stream_closed t (sm_device_ids s) g) (xs @ s' # ys)"
proof -
  define g' where "g' = fold (close_device t) (sorted_list_of_set (sm_device_ids s)) g"
  have fin: "finite (sm_device_ids s)" using b by (simp add: books_def)
  have holds_iff: "holds s d \<longleftrightarrow> d \<in> sm_device_ids s" for d using s(1) by (simp add: holds_def)
  have count: "stream_count g d = holders (xs @ s # ys) d" for d using b by (simp add: books_def)
  have "\<forall>x \<in> set (sorted_list_of_set (sm_device_ids s)). 0 < stream_count g x"
    using holders_simps(4) by (auto simp: fin count holds_iff add_pos_nonneg add_nonneg_pos)
  moreover have "gi_active_device_ids g = {d. 0 < stream_count g d}" using b by (simp add: books_def count)
  ultimately have closed: "(\<forall>d. stream_count g' d = stream_count g d - (if d \<in> sm_device_ids s then 1 else 0))
      \<and> gi_active_device_ids g' = {d. 0 < stream_count g' d}"
    using close_devices [of g "sorted_list_of_set (sm_device_ids s)" t] by (simp add: g'_def fin)
  have frame: "frame_of g' = frame_of g" by (simp add: g'_def close_devices_frame)
  have "holders (xs @ s' # ys) d = holders (xs @ s # ys) d - (if d \<in> sm_device_ids s then 1 else 0)" for d
    using s(2) holds_iff by simp
  then have "stream_count g' d = holders (xs @ s' # ys) d" for d using closed count by simp
  moreover have "owns s' = owns s" using same by (simp add: owns_def)
  ultimately have after: "books g' (xs @ s' # ys)" using b closed frame same
    unfolding books_def frame_of_def by (auto simp del: holders_simps)
  have "books h (xs @ s' # ys)" if "accounts h = accounts g'" for h
    using books_swap [OF after that, of s'] same(3) by simp
  then show ?thesis
  proof (cases "sm_device_ids s = {}")
    case True
    then have "g' = g" by (simp add: g'_def)
    with True after show ?thesis by (simp add: mark_stream_closed_def)
  next
    case False
    with \<open>\<And>h. accounts h = accounts g' \<Longrightarrow> books h (xs @ s' # ys)\<close> show ?thesis
      by (simp add: mark_stream_closed_def g'_def stop_accounts)
  qed
qed

lemma books_release:
  assumes b: "books g (xs @ s # ys)" and s: "\<And>d. \<not> holds s d" "\<not> finished s" "finished s'"
    and same: "\<And>d. \<not> holds s' d" "sm_scope s' = sm_scope s" "finite (sm_device_ids s')"
    and g': "g' = (case sm_scope s of None \<Rightarrow> g | Some scope \<Rightarrow> release_collection (scope_capture_session_id scope) g)"
  shows "books g' (xs @ s' # ys)"
proof (cases "sm_scope s")
  case None
  then have "owns s' = owns s" using same(2) by (simp add: owns_def)
  with b s same g' None show ?thesis by (auto simp: books_def)
next
  case (Some scope)
  have "owns s" "\<not> owns s'" using Some s same by (simp_all add: owns_def)
  moreover have "gi_collection_capture_session_id g = Some (scope_capture_session_id scope)"
    using b \<open>owns s\<close> Some by (auto simp: books_def)
  ultimately show ?thesis using b s same g' Some
    by (auto simp: books_def release_collection_def stream_count_def)
qed

section \<open>The invariant of the server\<close>

fun pending_of :: "Phase \<Rightarrow> Pending option" where
  "pending_of (Numbered d) = Some d"
| "pending_of (Marked d) = Some d"
| "pending_of (Stamped d) = Some d"
| "pending_of (Admitted d) = Some d"
| "pending_of _ = None"

definition number_of :: "IngestStream \<Rightarrow> int list" where
  "number_of s = (case pending_of (sm_phase s) of None \<Rightarrow> [] | Some d \<Rightarrow> [pd_sequence d])"

definition numbers :: "IngestStream list \<Rightarrow> int list" where
  "numbers ss = concat (map number_of ss)"

text \<open>What a thread may rely on between its steps: its device is its own, it is stamped, and its number was given out.\<close>

definition thread_ok :: "GrpcIngestService \<Rightarrow> IngestStream \<Rightarrow> bool" where
  "thread_ok g s \<longleftrightarrow>
     (case sm_phase s of
        Marked d \<Rightarrow> internal_device_id (pd_packet d) \<in> sm_device_ids s
      | Stamped d \<Rightarrow> internal_device_id (pd_packet d) \<in> sm_device_ids s
          \<and> dict_get (gi_latest_device_timestamp_ms g) (internal_device_id (pd_packet d)) \<noteq> None
      | _ \<Rightarrow> True)
     \<and> (\<forall>n \<in> set (number_of s). 1 \<le> n \<and> n \<le> gi_server_receive_sequence g)"

definition service_ok :: "GrpcIngestService \<Rightarrow> IngestStream list \<Rightarrow> bool" where
  "service_ok g ss \<longleftrightarrow> books g ss \<and> gate_ok g \<and> (\<forall>s \<in> set ss. thread_ok g s) \<and> distinct (numbers ss)
     \<and> finite (gi_expected_device_ids g) \<and> 0 \<le> gi_server_receive_sequence g"

lemma numbers_simps [simp]: "numbers (xs @ s # ys) = numbers xs @ number_of s @ numbers ys"
  by (simp add: numbers_def)

definition gate_advances :: "GrpcIngestService \<Rightarrow> GrpcIngestService \<Rightarrow> bool" where
  "gate_advances g g' \<longleftrightarrow> gi_server_receive_sequence g \<le> gi_server_receive_sequence g'
     \<and> gi_expected_device_ids g' = gi_expected_device_ids g
     \<and> (\<forall>d. dict_get (gi_latest_device_timestamp_ms g) d \<noteq> None \<longrightarrow> dict_get (gi_latest_device_timestamp_ms g') d \<noteq> None)"

lemma thread_carried: "thread_ok g s \<Longrightarrow> gate_advances g g' \<Longrightarrow> thread_ok g' s"
  by (auto simp: thread_ok_def gate_advances_def split: Phase.splits)

lemma numbers_bound:
  assumes "\<forall>s \<in> set ss. thread_ok g s" "n \<in> set (numbers ss)" shows "1 \<le> n \<and> n \<le> gi_server_receive_sequence g"
  using assms by (auto simp: numbers_def thread_ok_def)

lemma service_swap:
  assumes ok: "service_ok g (xs @ s # ys)" and b: "books g' (xs @ s' # ys)" and go: "gate_ok g'" and c: "gate_advances g g'"
    and t: "thread_ok g' s'" and n: "number_of s' = [] \<or> number_of s' = number_of s \<or> (\<forall>n \<in> set (number_of s'). gi_server_receive_sequence g < n)"
  shows "service_ok g' (xs @ s' # ys)"
proof -
  have others: "\<forall>x \<in> set (xs @ s' # ys). thread_ok g' x" using ok t thread_carried [OF _ c] by (auto simp: service_ok_def)
  have "n \<notin> set (numbers xs)" "n \<notin> set (numbers ys)" if "gi_server_receive_sequence g < n" for n
    using ok that numbers_bound [of xs g n] numbers_bound [of ys g n] by (auto simp: service_ok_def)
  moreover have "distinct (number_of s')" by (simp add: number_of_def split: option.split)
  ultimately have "distinct (numbers (xs @ s' # ys))" using ok n by (auto simp: service_ok_def)
  then show ?thesis using ok b go others c by (simp add: service_ok_def gate_advances_def)
qed

lemma active_finite: assumes "books g ss" shows "finite (gi_active_device_ids g)"
proof -
  have "gi_active_device_ids g \<subseteq> (\<Union>s \<in> set ss. sm_device_ids s)"
    using assms by (auto simp: books_def holders_pos holds_def)
  then show ?thesis by (rule finite_subset) (use assms in \<open>auto simp: books_def\<close>)
qed

lemma assert_active_gate: "assert_stream_active inp s w = (r, w') \<Longrightarrow> sv_gate w' = sv_gate w \<and> sv_streams w' = sv_streams w"
  by (auto simp: assert_stream_active_def Let_def split: option.splits prod.splits sum.splits IngestScope.splits)

lemma receive_frame_cases:
  assumes "receive_frame inp p s w = (phase, w')"
  obtains (refused) outcome where "phase = Closing outcome" "sv_gate w' = sv_gate w" "sv_streams w' = sv_streams w"
    | (numbered) d where "phase = Numbered d" "pd_sequence d = gi_server_receive_sequence (sv_gate w) + 1" "pd_packet d = p"
        "sv_gate w' = (sv_gate w)\<lparr> gi_server_receive_sequence := gi_server_receive_sequence (sv_gate w) + 1 \<rparr>"
        "sv_streams w' = sv_streams w"
proof -
  obtain r v where a: "assert_stream_active inp s w = (r, v)" by fastforce
  show ?thesis
  proof (cases r)
    case (Inl e)
    then show ?thesis using assms a assert_active_gate [OF a] refused by (cases e) (auto simp: receive_frame_def)
  next
    case (Inr u)
    then show ?thesis using assms a assert_active_gate [OF a] numbered
      by (auto simp: receive_frame_def next_server_receive_sequence_def Let_def)
  qed
qed

lemma holds_phase: "holds (s\<lparr> sm_phase := p \<rparr>) d \<longleftrightarrow> d \<in> sm_device_ids s \<and> \<not> let_go p"
  by (simp add: holds_def)

lemma finished_phase [simp]: "finished (s\<lparr> sm_phase := p \<rparr>) = (case p of Finished _ \<Rightarrow> True | _ \<Rightarrow> False)"
  by simp

declare finished.simps [simp del]

lemma allow_accounts: "allow_ingest device t g = (b, g') \<Longrightarrow> accounts g' = accounts g \<and> gate_advances g g'"
  by (auto simp: allow_ingest_def accounts_def gate_advances_def open_gate_def Let_def split: if_splits option.splits)

lemma record_accounts: "accounts (record_device_timestamp device t g) = accounts g \<and> gate_advances g (record_device_timestamp device t g)
    \<and> dict_get (gi_latest_device_timestamp_ms (record_device_timestamp device t g)) device \<noteq> None"
  by (auto simp: record_device_timestamp_def accounts_def gate_advances_def split: option.splits)

lemma mark_carries: "gate_advances g (mark_device_active device g)"
  by (simp add: gate_advances_def mark_device_active_def)

lemma closed_carries: "gate_advances g (mark_stream_closed t ds g)"
proof -
  have "gate_advances g (fold (close_device t) xs g)" for xs
    using close_devices_frame [of t xs g] by (simp add: frame_of_def gate_advances_def)
  then show ?thesis by (simp add: mark_stream_closed_def stop_if_missing_def gate_advances_def)
qed

lemma released_carries: "gate_advances g (release_collection session g)"
  by (simp add: gate_advances_def release_collection_def)

lemma service_phase:
  assumes ok: "service_ok g (xs @ s # ys)" and g: "accounts g' = accounts g" "gate_ok g'" "gate_advances g g'"
    and s: "\<not> let_go (sm_phase s)" "\<not> let_go p" "thread_ok g' (s\<lparr> sm_received_count := n, sm_phase := p \<rparr>)"
    and num: "number_of (s\<lparr> sm_phase := p \<rparr>) = [] \<or> pending_of p = pending_of (sm_phase s)
      \<or> (\<forall>n \<in> set (number_of (s\<lparr> sm_phase := p \<rparr>)). gi_server_receive_sequence g < n)"
  shows "service_ok g' (xs @ s\<lparr> sm_received_count := n, sm_phase := p \<rparr> # ys)"
proof (rule service_swap [OF ok _ g(2,3) s(3)])
  have "finished (s\<lparr> sm_received_count := n, sm_phase := p \<rparr>) = finished s"
    using s by (cases "sm_phase s"; cases p) (simp_all add: finished.simps)
  moreover have "books g (xs @ s # ys)" "finite (sm_device_ids s)" using ok by (auto simp: service_ok_def books_def)
  ultimately show "books g' (xs @ s\<lparr> sm_received_count := n, sm_phase := p \<rparr> # ys)"
    using s by (intro books_swap [OF _ g(1)]) (simp_all add: holds_def)
  show "number_of (s\<lparr> sm_received_count := n, sm_phase := p \<rparr>) = [] \<or> number_of (s\<lparr> sm_received_count := n, sm_phase := p \<rparr>) = number_of s
      \<or> (\<forall>n \<in> set (number_of (s\<lparr> sm_received_count := n, sm_phase := p \<rparr>)). gi_server_receive_sequence g < n)"
    using num by (auto simp: number_of_def)
qed

section \<open>Every step keeps the invariant\<close>

lemma same_gate: "accounts g = accounts g \<and> gate_advances g g"
  by (simp add: gate_advances_def)

lemma number_carries: "accounts (g\<lparr> gi_server_receive_sequence := gi_server_receive_sequence g + 1 \<rparr>) = accounts g
    \<and> gate_advances g (g\<lparr> gi_server_receive_sequence := gi_server_receive_sequence g + 1 \<rparr>)"
  by (simp add: accounts_def gate_advances_def)

lemma check_frame_ok:
  assumes ok: "service_ok g (xs @ s # ys)" and ph: "sm_phase s = Numbered d" and c: "check_frame d s g = (s', g')"
  shows "service_ok g' (xs @ s' # ys)"
proof -
  let ?device = "internal_device_id (pd_packet d)"
  have b: "books g (xs @ s # ys)" using ok by (simp only: service_ok_def)
  have t: "thread_ok g s" "gate_ok g" "finite (sm_device_ids s)" using ok by (auto simp: service_ok_def books_def)
  consider (refused) o1 where "s' = s\<lparr> sm_phase := Closing o1 \<rparr>" "g' = g"
    | (known) "?device \<in> sm_device_ids s" "s' = s\<lparr> sm_phase := Marked d \<rparr>" "g' = g"
    | (fresh) "?device \<notin> sm_device_ids s" "g' = mark_device_active ?device g"
        "s' = s\<lparr> sm_device_ids := insert ?device (sm_device_ids s), sm_phase := Marked d \<rparr>"
    using c by (auto simp: check_frame_def Let_def split: option.splits if_splits)
  then show ?thesis
  proof cases
    case refused
    then show ?thesis using service_phase [OF ok _ t(2), of "Closing o1" "sm_received_count s"] ph same_gate [of g]
      by (simp add: thread_ok_def number_of_def)
  next
    case known
    have "thread_ok g s'" using t(1) ph known by (simp add: thread_ok_def number_of_def)
    then show ?thesis using service_phase [OF ok _ t(2), of "Marked d" "sm_received_count s"] ph same_gate [of g] known by simp
  next
    case fresh
    have h: "\<not> holds s ?device" "\<And>x. holds s' x = (holds s x \<or> x = ?device)" using fresh ph by (auto simp: holds_def)
    have f: "sm_scope s' = sm_scope s" "finished s' = finished s" "finite (sm_device_ids s')" using fresh t(3) ph by (simp_all add: finished.simps)
    have "books g' (xs @ s' # ys)" unfolding fresh(2) by (rule books_mark [OF b h f])
    moreover have "gate_ok g'" unfolding fresh(2) by (rule mark_gate_ok [OF t(2) active_finite [OF b]])
    moreover have "gate_advances g g'" unfolding fresh(2) by (rule mark_carries)
    moreover have "thread_ok g' s'" using t(1) ph fresh by (simp add: thread_ok_def number_of_def mark_device_active_def)
    ultimately show ?thesis using service_swap [OF ok, of g' s'] ph fresh(3) by (simp add: number_of_def)
  qed
qed

lemma stream_step_ok:
  assumes ok: "service_ok (sv_gate w) (xs @ s # ys)" and step: "stream_step env inp s w = (s', w')"
  shows "service_ok (sv_gate w') (xs @ s' # ys) \<and> sv_streams w' = sv_streams w"
proof -
  let ?g = "sv_gate w"
  have t: "thread_ok ?g s" "gate_ok ?g" "books ?g (xs @ s # ys)" "finite (sm_device_ids s)"
    using ok by (auto simp: service_ok_def books_def)
  note phase = service_phase [OF ok, where n = "sm_received_count s"]
  show ?thesis
  proof (cases "sm_phase s")
    case Ready
    show ?thesis
    proof (cases "si_incoming inp")
      case (NextFrame p)
      obtain ph v where r: "receive_frame inp p s w = (ph, v)" by fastforce
      then have s': "s' = s\<lparr> sm_phase := ph \<rparr>" "w' = v" using step Ready NextFrame by (simp_all add: stream_step_def)
      from r show ?thesis
      proof (cases rule: receive_frame_cases)
        case (refused o1)
        then show ?thesis using phase [of ?g "Closing o1"] t(2) Ready s' same_gate [of ?g] by (simp add: thread_ok_def number_of_def)
      next
        case (numbered d)
        have "gate_ok (sv_gate v)" using numbered t(2) by (simp add: gate_untouched)
        moreover have "0 \<le> gi_server_receive_sequence ?g" using ok by (simp add: service_ok_def)
        ultimately show ?thesis using phase [of "sv_gate v" "Numbered d"] Ready s' number_carries [of ?g] numbered
          by (simp add: thread_ok_def number_of_def)
      qed
    qed (use phase [of ?g] t(2) Ready same_gate [of ?g] step in
        \<open>auto simp: stream_step_def thread_ok_def number_of_def\<close>)
  next
    case (Numbered d)
    obtain u g where "check_frame d s ?g = (u, g)" by fastforce
    with check_frame_ok [OF ok Numbered this] step Numbered show ?thesis by (auto simp: stream_step_def)
  next
    case (Marked d)
    let ?dev = "internal_device_id (pd_packet d)" and ?ts = "fp_device_timestamp_ms (pd_packet d)"
    have s': "s' = s\<lparr> sm_phase := Stamped d \<rparr>" "sv_gate w' = record_device_timestamp ?dev ?ts ?g" "sv_streams w' = sv_streams w"
      using step Marked by (auto simp: stream_step_def)
    have "thread_ok (sv_gate w') s'" using thread_carried [OF t(1), of "record_device_timestamp ?dev ?ts ?g"] record_accounts [of ?dev ?ts ?g] Marked
      unfolding s'(2) by (simp add: s'(1) thread_ok_def number_of_def)
    then show ?thesis using phase [of "sv_gate w'" "Stamped d"] Marked record_accounts [of ?dev ?ts ?g] record_gate_ok [OF t(2)] s' by simp
  next
    case (Stamped d)
    let ?dev = "internal_device_id (pd_packet d)" and ?ts = "fp_device_timestamp_ms (pd_packet d)"
    obtain b g where a: "allow_ingest ?dev (Some ?ts) ?g = (b, g)" by fastforce
    have s': "s' = s\<lparr> sm_phase := (if b then Admitted d else Ready) \<rparr>" "sv_gate w' = g" "sv_streams w' = sv_streams w"
      using step Stamped a by (auto simp: stream_step_def)
    have "holds s ?dev" using t(1) Stamped by (simp add: thread_ok_def holds_def)
    then have "0 < holders (xs @ s # ys) ?dev" unfolding holders_pos by auto
    moreover have "gi_active_device_ids ?g = {d. 0 < holders (xs @ s # ys) d}" using t(3) unfolding books_def by blast
    ultimately have "?dev \<in> gi_active_device_ids ?g" by blast
    then have "device_ready ?g ?dev" using t(1) Stamped active_finite [OF t(3)] ok
      by (simp add: device_ready_def thread_ok_def service_ok_def)
    then have "gate_ok g" by (rule allow_gate_ok [OF t(2) _ a])
    moreover have "thread_ok g s'" using thread_carried [OF t(1), of g] allow_accounts [OF a] Stamped s'(1)
      by (simp add: thread_ok_def number_of_def)
    ultimately show ?thesis using phase [of g "if b then Admitted d else Ready"] Stamped allow_accounts [OF a] s'
      by (simp add: number_of_def)
  next
    case (Admitted d)
    obtain r world where "ingest_admitted env inp d s ?g (sv_world w) = (r, world)" by fastforce
    then consider (failed) e where "s' = s\<lparr> sm_phase := Closing (Raised e) \<rparr>" "sv_gate w' = ?g" "sv_streams w' = sv_streams w"
      | (stored) "s' = s\<lparr> sm_received_count := sm_received_count s + 1, sm_phase := Ready \<rparr>" "sv_gate w' = ?g" "sv_streams w' = sv_streams w"
      using step Admitted by (auto simp: stream_step_def split: sum.splits)
    then show ?thesis
    proof cases
      case failed
      then show ?thesis using phase [of ?g "Closing (Raised e)"] t(2) Admitted same_gate [of ?g] by (simp add: thread_ok_def number_of_def)
    next
      case stored
      then show ?thesis using service_phase [OF ok, of ?g Ready "sm_received_count s + 1"] t(2) Admitted same_gate [of ?g]
        by (simp add: thread_ok_def number_of_def)
    qed
  next
    case (Closing o1)
    let ?g' = "mark_stream_closed (si_time_ms inp) (sm_device_ids s) ?g"
    have s': "s' = s\<lparr> sm_phase := Closed o1 \<rparr>" "sv_gate w' = ?g'" "sv_streams w' = sv_streams w"
      using step Closing by (auto simp: stream_step_def)
    have "books ?g' (xs @ s' # ys)"
      by (rule books_close [OF t(3)]) (use Closing t(4) s' in \<open>simp_all add: holds_def finished.simps\<close>)
    then show ?thesis using service_swap [OF ok _ closed_gate_ok [OF t(2)] closed_carries, of _ _ s'] s'
      by (simp add: thread_ok_def number_of_def)
  next
    case (Closed o1)
    let ?g' = "case sm_scope s of None \<Rightarrow> ?g | Some scope \<Rightarrow> release_collection (scope_capture_session_id scope) ?g"
    have s': "s' = s\<lparr> sm_phase := Finished o1 \<rparr>" "sv_gate w' = ?g'" "sv_streams w' = sv_streams w"
      using step Closed by (auto simp: stream_step_def split: option.splits)
    have "books ?g' (xs @ s' # ys)"
      by (rule books_release [OF t(3)]) (use Closed t(4) s' in \<open>simp_all add: holds_def finished.simps\<close>)
    moreover have "gate_ok ?g'" "gate_advances ?g ?g'" using t(2) released_carries same_gate
      by (auto simp: release_gate_ok split: option.splits)
    ultimately show ?thesis using service_swap [OF ok, of ?g' s'] s'
      by (simp add: thread_ok_def number_of_def)
  next
    case (Finished o1)
    then have "s' = s" "w' = w" using step by (simp_all add: stream_step_def)
    with ok show ?thesis by simp
  qed
qed

section \<open>Opening a call\<close>

text \<open>A call that is refused leaves the gate as it was; an accepted one has taken the collection of its capture session.\<close>

lemma authenticate_cases:
  assumes "authenticate_stream env metadata inp v w = (r, w')"
  obtains (failed) e where "r = Inl e" "sv_gate w' = sv_gate w" "sv_streams w' = sv_streams w"
    | (acquired) b scope where "r = Inr (b, scope)" "acquire_collection (scope_capture_session_id scope) (sv_gate w) = (b, sv_gate w')"
        "sv_streams w' = sv_streams w"
proof -
  have reg: "sv_gate x = sv_gate w \<and> sv_streams x = sv_streams w"
    if "register_scope (si_now inp) token scope (w\<lparr> sv_caches := c \<rparr>) = (q, x)" for token scope c q x
    using that by (auto simp: register_scope_def split: IngestScope.splits prod.splits)
  from assms show ?thesis
    by (auto simp: authenticate_stream_def split: sum.splits prod.splits dest!: reg intro: failed acquired)
qed

definition new_stream :: "IngestScope option \<Rightarrow> Phase \<Rightarrow> IngestStream" where
  "new_stream scope phase = \<lparr> sm_received_count = 0, sm_device_ids = {}, sm_scope = scope, sm_phase = phase \<rparr>"

lemma open_stream_cases:
  assumes "open_stream env metadata inp w = (s, w')"
  obtains (plain) "gi_session_token_verifier (sv_gate w) = None" "s = new_stream None Ready" "w' = w"
    | (refused) outcome where "s = new_stream None (Finished outcome)" "sv_gate w' = sv_gate w" "sv_streams w' = sv_streams w"
    | (accepted) scope where "gi_session_token_verifier (sv_gate w) \<noteq> None" "s = new_stream (Some scope) Ready"
        "acquire_collection (scope_capture_session_id scope) (sv_gate w) = (True, sv_gate w')" "sv_streams w' = sv_streams w"
proof (cases "gi_session_token_verifier (sv_gate w)")
  case None
  then show ?thesis using assms by (intro plain) (simp_all add: open_stream_def Let_def new_stream_def)
next
  case (Some v)
  obtain r x where a: "authenticate_stream env metadata inp v w = (r, x)" by fastforce
  then show ?thesis
  proof (cases rule: authenticate_cases)
    case (failed e)
    then show ?thesis using assms a Some refused
      by (cases e) (auto simp: open_stream_def Let_def new_stream_def)
  next
    case (acquired b scope)
    show ?thesis
    proof (cases b)
      case True
      then have "s = new_stream (Some scope) Ready" "w' = x" using assms a Some acquired by (auto simp: open_stream_def Let_def new_stream_def)
      then show ?thesis using accepted [of scope] acquired True Some by simp
    next
      case False
      then have "sv_gate x = sv_gate w" using acquired(2) by (auto simp: acquire_collection_def Let_def split: if_splits)
      moreover have "s = new_stream None (Finished (Aborted ''FAILED_PRECONDITION''
          ''another capture session owns the ingest collection''))" "w' = x"
        using assms a Some acquired False by (auto simp: open_stream_def Let_def new_stream_def)
      ultimately show ?thesis using refused acquired by blast
    qed
  qed
qed

lemma new_stream_simps [simp]:
  "sm_device_ids (new_stream scope phase) = {}" "sm_scope (new_stream scope phase) = scope"
  "sm_phase (new_stream scope phase) = phase" "holds (new_stream scope phase) d \<longleftrightarrow> False"
  by (simp_all add: new_stream_def holds_def)

text \<open>With a verifier, a collection that no authorized stream owns has no open stream at all.\<close>

lemma unowned_idle:
  assumes "books g ss" "gi_session_token_verifier g \<noteq> None" "owners ss = 0"
  shows "\<forall>s \<in> set ss. finished s \<and> (\<forall>d. \<not> holds s d)"
proof
  fix s assume s: "s \<in> set ss"
  then have "\<not> owns s" using assms(3) owners_zero by blast
  moreover have "\<not> finished s \<longrightarrow> sm_scope s \<noteq> None" using assms(1,2) s by (auto simp: books_def)
  ultimately have "finished s" by (auto simp: owns_def)
  then show "finished s \<and> (\<forall>d. \<not> holds s d)" by (auto simp: finished.simps holds_def split: Phase.splits)
qed

lemma finished_thread_ok: "finished s \<Longrightarrow> thread_ok g s \<and> number_of s = []"
  by (auto simp: finished.simps thread_ok_def number_of_def split: Phase.splits)

lemma numbers_snoc [simp]: "numbers [] = []"
  by (simp add: numbers_def)

lemma service_acquire:
  assumes ok: "service_ok g ss" and v: "gi_session_token_verifier g \<noteq> None"
    and a: "acquire_collection (scope_capture_session_id scope) g = (True, g')"
  shows "service_ok g' (ss @ [new_stream (Some scope) Ready])"
proof -
  let ?s = "new_stream (Some scope) Ready" and ?session = "scope_capture_session_id scope"
  have s: "owns ?s" "thread_ok h ?s" "number_of ?s = []" "finished ?s = False" for h
    by (simp_all add: owns_def finished.simps thread_ok_def number_of_def)
  have b: "books g ss" and parts: "\<forall>s \<in> set ss. thread_ok g s" "distinct (numbers ss)" "finite (gi_expected_device_ids g)" "0 \<le> gi_server_receive_sequence g"
    using ok by (simp_all add: service_ok_def)
  have gate: "gate_ok g'" using ok a by (auto simp: service_ok_def intro: acquire_gate_ok)
  show ?thesis
  proof (cases "gi_collection_capture_session_id g = Some ?session \<or> gi_collection_capture_session_id g = None")
    case True
    then have g': "g' = g\<lparr> gi_collection_capture_session_id := Some ?session,
        gi_active_authorized_stream_count := gi_active_authorized_stream_count g + 1 \<rparr>"
      using a by (auto simp: acquire_collection_def Let_def split: if_splits)
    have "books g' (ss @ [?s])" using b True s(1,4) v
      unfolding books_def g' by (auto simp: stream_count_def)
    moreover have "\<forall>s \<in> set ss. thread_ok g' s" using parts(1) thread_carried by (auto simp: g' gate_advances_def)
    ultimately show ?thesis using gate s parts by (simp add: service_ok_def) (simp add: g')
  next
    case False
    then have idle: "gi_active_authorized_stream_count g \<le> 0"
        and g': "g' = (reset_collection g)\<lparr> gi_collection_capture_session_id := Some ?session,
        gi_active_authorized_stream_count := gi_active_authorized_stream_count g + 1 \<rparr>"
      using a by (auto simp: acquire_collection_def Let_def reset_collection_def split: if_splits)
    have "gi_active_authorized_stream_count g = owners ss" using b unfolding books_def by blast
    then have none: "owners ss = 0" using idle owners_simps(4) [of ss] by simp
    have quiet: "\<forall>s \<in> set ss. finished s \<and> (\<forall>d. \<not> holds s d)" by (rule unowned_idle [OF b v none])
    then have "holders ss d = 0" for d using holders_zero by blast
    moreover have "\<forall>s \<in> set ss. \<not> owns s" using none owners_zero by blast
    moreover have "\<forall>s \<in> set ss. finite (sm_device_ids s)" using b by (simp add: books_def)
    ultimately have "books g' (ss @ [?s])" using s(1,4) v none quiet \<open>gi_active_authorized_stream_count g = owners ss\<close>
      unfolding books_def g' by (auto simp: stream_count_def reset_collection_def)
    moreover have "\<forall>s \<in> set ss. thread_ok g' s" using quiet finished_thread_ok by blast
    ultimately show ?thesis using gate s parts by (simp add: service_ok_def) (simp add: g' reset_collection_def)
  qed
qed

lemma open_stream_ok:
  assumes ok: "service_ok (sv_gate w) ss" and o: "open_stream env metadata inp w = (s, w')"
  shows "service_ok (sv_gate w') (ss @ [s]) \<and> sv_streams w' = sv_streams w"
  using o
proof (cases rule: open_stream_cases)
  case plain
  have "owners ss = 0" using ok plain(1) unfolding owners_zero by (auto simp: service_ok_def books_def owns_def)
  then show ?thesis using ok plain
    by (auto simp: service_ok_def books_def owns_def thread_ok_def number_of_def)
next
  case (refused o1)
  then have "finished s" by (simp add: finished.simps)
  then show ?thesis using ok refused finished_thread_ok [of s]
    by (auto simp: service_ok_def books_def owns_def)
next
  case (accepted scope)
  then show ?thesis using service_acquire [OF ok accepted(1,3)] by simp
qed

section \<open>The server's invariant\<close>

definition server_ok :: "('key, 'w) IngestServer \<Rightarrow> bool" where
  "server_ok w \<longleftrightarrow> service_ok (sv_gate w) (dict_values (sv_streams w)) \<and> distinct (dict_keys (sv_streams w))"

lemma dict_replace:
  "dict_get d k = Some v \<Longrightarrow> \<exists>xs ys. d = xs @ (k, v) # ys \<and> (\<forall>v'. dict_set d k v' = xs @ (k, v') # ys)"
proof (induction d)
  case (Cons p d)
  obtain k0 v0 where p: "p = (k0, v0)" by fastforce
  show ?case
  proof (cases "k0 = k")
    case True
    then have "p # d = [] @ (k, v) # d \<and> (\<forall>v'. dict_set (p # d) k v' = [] @ (k, v') # d)" using Cons.prems p by simp
    then show ?thesis by blast
  next
    case False
    then obtain xs ys where "d = xs @ (k, v) # ys \<and> (\<forall>v'. dict_set d k v' = xs @ (k, v') # ys)"
      using Cons p by auto
    then have "p # d = (p # xs) @ (k, v) # ys" "dict_set (p # d) k v' = (p # xs) @ (k, v') # ys" for v' using p False by auto
    then show ?thesis by blast
  qed
qed simp

lemma server_step_ok: "server_ok w \<Longrightarrow> server_ok (server_step env w e)"
proof (induction e)
  case (OpenStream k metadata inp)
  show ?case
  proof (cases "dict_get (sv_streams w) k \<noteq> None \<or> 4 \<le> length (open_streams w)")
    case False
    obtain s w' where o: "open_stream env metadata inp w = (s, w')" by fastforce
    have "service_ok (sv_gate w') (dict_values (sv_streams w) @ [s]) \<and> sv_streams w' = sv_streams w"
      by (rule open_stream_ok [OF _ o]) (use OpenStream in \<open>simp add: server_ok_def\<close>)
    moreover have new: "dict_set (sv_streams w) k s = sv_streams w @ [(k, s)]" by (rule dict_set_new) (use False in simp)
    moreover have "distinct (dict_keys (sv_streams w @ [(k, s)]))"
      unfolding new [symmetric] using OpenStream by (intro distinct_update) (simp add: server_ok_def)
    moreover have "server_step env w (OpenStream k metadata inp) = w'\<lparr> sv_streams := dict_set (sv_streams w') k s \<rparr>"
      using False o by simp
    ultimately show ?thesis by (simp add: server_ok_def)
  qed (use OpenStream in auto)
next
  case (StepStream k inp)
  show ?case
  proof (cases "dict_get (sv_streams w) k")
    case (Some s)
    obtain xs ys where d: "sv_streams w = xs @ (k, s) # ys" "\<And>v'. dict_set (sv_streams w) k v' = xs @ (k, v') # ys"
      using dict_replace [OF Some] by blast
    obtain s' w' where st: "stream_step env inp s w = (s', w')" by fastforce
    have "service_ok (sv_gate w) (map snd xs @ s # map snd ys)" using StepStream by (simp add: server_ok_def d(1))
    from stream_step_ok [OF this st] show ?thesis using StepStream Some st d(2) by (simp add: server_ok_def) (simp add: d(1))
  qed (use StepStream in simp)
qed

text \<open>A server that is configured and has taken no call.\<close>

definition started_server ::
  "GrpcIngestService \<Rightarrow> 'key AuthCaches \<Rightarrow> SessionStore \<Rightarrow> CameraStore \<Rightarrow> 'w \<Rightarrow> ('key, 'w) IngestServer" where
  "started_server g caches sessions cameras world =
     \<lparr> sv_gate = g, sv_caches = caches, sv_sessions = sessions, sv_cameras = cameras, sv_streams = [], sv_world = world \<rparr>"

lemma started_server_ok:
  "server_ok (started_server (configure_ingest bind enabled expected_count expected_ids verifier g) caches sessions cameras world)"
proof -
  let ?g = "configure_ingest bind enabled expected_count expected_ids verifier g"
  have "gi_active_device_stream_counts ?g = []" "gi_active_device_ids ?g = {}" "gi_active_authorized_stream_count ?g = 0"
      "gi_server_receive_sequence ?g = 0" "finite (gi_expected_device_ids ?g)"
    by (cases expected_ids; simp add: configure_ingest_def reset_collection_def Let_def)+
  then show ?thesis using configure_gate_ok [of bind enabled expected_count expected_ids verifier g]
    by (simp add: server_ok_def started_server_def service_ok_def books_def stream_count_def)
qed

interpretation server: guarded_machine "server_step env" "\<lambda>_. True" server_ok for env :: "('key, 'w) IngestEnv"
  by unfold_locales (rule server_step_ok)

section \<open>What the gate lets through\<close>

lemma reached_ok: "server_ok w \<Longrightarrow> server_ok (run (server_step env) w es)"
  by (rule server.run_inv) (simp_all add: list_all_iff)

lemma service_stream:
  assumes "server_ok w" "dict_get (sv_streams w) k = Some s"
  shows "service_ok (sv_gate w) (dict_values (sv_streams w)) \<and> s \<in> set (dict_values (sv_streams w))"
  using assms by (force simp: server_ok_def dest: map_of_SomeD)

text \<open>A thread comes to ingest a frame only through the gate.\<close>

lemma step_admits:
  assumes "stream_step env inp s w = (s', w')" "sm_phase s' = Admitted d"
  shows "\<exists>g. sm_phase s = Stamped d
    \<and> allow_ingest (internal_device_id (pd_packet d)) (Some (fp_device_timestamp_ms (pd_packet d))) (sv_gate w) = (True, g)"
proof (cases "sm_phase s")
  case Ready
  then show ?thesis using assms
    by (auto simp: stream_step_def receive_frame_def split: Incoming.splits prod.splits sum.splits exn.splits)
next
  case (Numbered x)
  then show ?thesis using assms by (auto simp: stream_step_def check_frame_def Let_def split: prod.splits option.splits if_splits)
next
  case (Stamped x)
  then show ?thesis using assms by (auto simp: stream_step_def split: prod.splits if_splits)
qed (use assms in \<open>auto simp: stream_step_def split: prod.splits sum.splits\<close>)

lemma admitted_passed:
  assumes ok: "server_ok w" and s: "dict_get (sv_streams w) k = Some s" and st: "stream_step env inp s w = (s', w')"
    and p: "sm_phase s' = Admitted d"
  shows "gi_gate_open (sv_gate w) \<and> \<not> gi_collection_stopped (sv_gate w)
    \<and> (gi_expected_device_ids (sv_gate w) \<noteq> {} \<longrightarrow> internal_device_id (pd_packet d) \<in> gi_expected_device_ids (sv_gate w))
    \<and> (gate_enabled (sv_gate w) \<longrightarrow>
        (\<forall>e \<in> gi_expected_device_ids (sv_gate w). \<exists>t \<in> set (dict_values (sv_streams w)). holds t e)
        \<and> (\<exists>start. gi_gate_start_timestamp_ms (sv_gate w) = Some start \<and> start \<le> fp_device_timestamp_ms (pd_packet d)))"
proof -
  let ?g = "sv_gate w"
  obtain g where a: "allow_ingest (internal_device_id (pd_packet d)) (Some (fp_device_timestamp_ms (pd_packet d))) ?g = (True, g)"
    using step_admits [OF st p] by blast
  have sv: "service_ok ?g (dict_values (sv_streams w))" using ok by (simp add: server_ok_def)
  then have gate: "gate_ok ?g" by (simp add: service_ok_def)
  have "gi_active_device_ids ?g = {d. \<exists>t \<in> set (dict_values (sv_streams w)). holds t d}"
    using sv unfolding service_ok_def books_def holders_pos by blast
  then have "all_devices_seen ?g \<Longrightarrow> \<forall>e \<in> gi_expected_device_ids ?g. \<exists>t \<in> set (dict_values (sv_streams w)). holds t e"
    by (auto simp: all_devices_seen_def split: if_splits)
  with allowed [OF gate a] show ?thesis by blast
qed

section \<open>An open gate stays open\<close>

text \<open>The gate is open since \<open>start\<close> for the devices \<open>ids\<close>; and a collection that is over or has not begun.\<close>

definition open_since :: "int \<Rightarrow> string set \<Rightarrow> GrpcIngestService \<Rightarrow> bool" where
  "open_since start ids g \<longleftrightarrow> gate_enabled g \<and> gi_gate_open g \<and> gi_collection_started g \<and> \<not> gi_collection_stopped g
     \<and> gi_gate_start_timestamp_ms g = Some start \<and> gi_expected_device_ids g = ids"

definition ended :: "GrpcIngestService \<Rightarrow> bool" where
  "ended g \<longleftrightarrow> gi_collection_stopped g \<or> \<not> gi_collection_started g"

lemma open_since_frame: "frame_of g' = frame_of g \<Longrightarrow> open_since start ids g' = open_since start ids g"
  by (auto simp: open_since_def frame_of_def gate_enabled_def)

lemma open_since_stop: "open_since start ids g \<Longrightarrow> open_since start ids (stop_if_missing g) \<or> ended (stop_if_missing g)"
  by (auto simp: open_since_def ended_def stop_if_missing_def)

lemma open_since_closed:
  assumes "open_since start ids g"
  shows "open_since start ids (mark_stream_closed t ds g) \<or> ended (mark_stream_closed t ds g)"
proof -
  have "open_since start ids (fold (close_device t) xs g)" for xs
    using assms open_since_frame [OF close_devices_frame [of t xs g]] by simp
  then show ?thesis using assms open_since_stop by (simp add: mark_stream_closed_def)
qed

lemma open_since_allow: "open_since start ids g \<Longrightarrow> open_since start ids (snd (allow_ingest device t g))"
  by (auto simp: open_since_def allow_ingest_def gate_enabled_def split: option.splits)

lemma open_since_acquire:
  "open_since start ids g \<Longrightarrow> acquire_collection session g = (b, g') \<Longrightarrow> open_since start ids g' \<or> ended g'"
  by (auto simp: acquire_collection_def open_since_def ended_def reset_collection_def gate_enabled_def Let_def split: if_splits)

lemma open_since_other:
  assumes "open_since start ids g"
  shows "open_since start ids (mark_device_active device g)" "open_since start ids (record_device_timestamp device t g)"
    "open_since start ids (release_collection session g)" "open_since start ids (g\<lparr> gi_server_receive_sequence := n \<rparr>)"
  using assms
  by (auto simp: open_since_def gate_enabled_def mark_device_active_def record_device_timestamp_def release_collection_def
      split: option.splits)

lemma open_since_stream:
  assumes "open_since start ids (sv_gate w)" "stream_step env inp s w = (s', w')"
  shows "open_since start ids (sv_gate w') \<or> ended (sv_gate w')"
proof (cases "sm_phase s")
  case Ready
  show ?thesis
  proof (cases "si_incoming inp")
    case (NextFrame p)
    obtain ph v where r: "receive_frame inp p s w = (ph, v)" by fastforce
    then have "w' = v" using assms(2) Ready NextFrame by (simp add: stream_step_def)
    with r assms(1) show ?thesis by (cases rule: receive_frame_cases) (simp_all add: open_since_other)
  qed (use assms Ready in \<open>auto simp: stream_step_def\<close>)
next
  case (Numbered d)
  then show ?thesis using assms
    by (auto simp: stream_step_def check_frame_def Let_def open_since_other split: prod.splits option.splits if_splits)
next
  case (Stamped d)
  then show ?thesis
    using assms open_since_allow [OF assms(1), of "internal_device_id (pd_packet d)" "Some (fp_device_timestamp_ms (pd_packet d))"]
    by (auto simp: stream_step_def split: prod.splits)
next
  case (Closing o1)
  then show ?thesis using assms(2) open_since_closed [OF assms(1), of "si_time_ms inp" "sm_device_ids s"] by (auto simp: stream_step_def)
next
  case (Admitted d)
  then show ?thesis using assms by (auto simp: stream_step_def split: prod.splits sum.splits)
qed (use assms open_since_other in \<open>auto simp: stream_step_def split: option.splits\<close>)

lemma open_since_step:
  assumes "open_since start ids (sv_gate w)"
  shows "open_since start ids (sv_gate (server_step env w e)) \<or> ended (sv_gate (server_step env w e))"
proof (cases e)
  case (OpenStream k metadata inp)
  obtain s w' where o: "open_stream env metadata inp w = (s, w')" by fastforce
  from o have "open_since start ids (sv_gate w') \<or> ended (sv_gate w')"
    by (cases rule: open_stream_cases) (use assms open_since_acquire in auto)
  then show ?thesis using assms OpenStream o by auto
next
  case (StepStream k inp)
  show ?thesis
  proof (cases "dict_get (sv_streams w) k")
    case (Some s)
    obtain s' w' where st: "stream_step env inp s w = (s', w')" by fastforce
    show ?thesis using open_since_stream [OF assms st] StepStream Some st by simp
  qed (use assms StepStream in simp)
qed

lemma open_since_run:
  "open_since start ids (sv_gate w) \<Longrightarrow> open_since start ids (sv_gate (run (server_step env) w es))
    \<or> (\<exists>before after. es = before @ after \<and> ended (sv_gate (run (server_step env) w before)))"
proof (induction es arbitrary: w)
  case (Cons e es)
  from open_since_step [OF Cons.prems, of env e] show ?case
  proof
    assume "open_since start ids (sv_gate (server_step env w e))"
    from Cons.IH [OF this] show ?thesis
    proof
      assume "\<exists>before after. es = before @ after \<and> ended (sv_gate (run (server_step env) (server_step env w e) before))"
      then obtain before after where "es = before @ after" "ended (sv_gate (run (server_step env) (server_step env w e) before))"
        by blast
      then have "e # es = (e # before) @ after \<and> ended (sv_gate (run (server_step env) w (e # before)))" by simp
      then show ?thesis by blast
    qed simp
  next
    assume "ended (sv_gate (server_step env w e))"
    then have "e # es = [e] @ es \<and> ended (sv_gate (run (server_step env) w [e]))" by simp
    then show ?thesis by blast
  qed
qed simp

lemma open_since_allows:
  assumes "open_since start ids g" "ids \<noteq> {} \<longrightarrow> device \<in> ids" "start \<le> t"
  shows "fst (allow_ingest device (Some t) g)"
  using assms by (auto simp: open_since_def allow_ingest_def)

text \<open>The gate opens at the next frame once every device is connected.\<close>

lemma gate_opens_since:
  assumes ok: "server_ok w" and s: "dict_get (sv_streams w) k = Some s" "sm_phase s = Stamped d"
    and shut: "gate_enabled (sv_gate w)" "\<not> gi_gate_open (sv_gate w)" "\<not> gi_collection_stopped (sv_gate w)" "all_devices_seen (sv_gate w)"
    and dev: "gi_expected_device_ids (sv_gate w) \<noteq> {} \<longrightarrow> internal_device_id (pd_packet d) \<in> gi_expected_device_ids (sv_gate w)"
    and st: "stream_step env inp s w = (s', w')"
  shows "\<exists>start. sm_phase s' = Ready \<and> open_since start (gi_expected_device_ids (sv_gate w)) (sv_gate w')"
proof -
  let ?g = "sv_gate w" and ?dev = "internal_device_id (pd_packet d)"
  have sv: "service_ok ?g (dict_values (sv_streams w))" "s \<in> set (dict_values (sv_streams w))"
    using service_stream [OF ok s(1)] by auto
  then have b: "books ?g (dict_values (sv_streams w))" and t: "thread_ok ?g s" "gate_ok ?g" unfolding service_ok_def by blast+
  have "holds s ?dev" using t(1) s(2) by (simp add: thread_ok_def holds_def)
  then have "0 < holders (dict_values (sv_streams w)) ?dev" unfolding holders_pos using sv(2) by blast
  then have "device_ready ?g ?dev" using t(1) s(2) active_finite [OF b] sv(1) b
    unfolding device_ready_def thread_ok_def service_ok_def books_def by auto
  moreover have "gi_gate_start_timestamp_ms ?g = None" using t(2) shut by (simp add: gate_ok_def)
  ultimately obtain start where start: "gi_gate_start_timestamp_ms (open_gate ?g) = Some start"
    using open_gate_start [OF _ dev] by metis
  define n where "n = gi_pre_gate_dropped_count (open_gate ?g) + 1"
  have a: "allow_ingest ?dev (Some (fp_device_timestamp_ms (pd_packet d))) ?g = (False, (open_gate ?g)\<lparr> gi_pre_gate_dropped_count := n \<rparr>)"
    using shut dev by (cases "gi_expected_device_ids ?g = {}") (simp_all add: allow_ingest_def Let_def n_def)
  then have w': "sm_phase s' = Ready" "sv_gate w' = (open_gate ?g)\<lparr> gi_pre_gate_dropped_count := n \<rparr>"
    using st s(2) by (auto simp: stream_step_def)
  then have "open_since start (gi_expected_device_ids ?g) (sv_gate w')"
    using shut(1,3) start by (simp add: open_since_def gate_enabled_def open_gate_simps)
  with w' show ?thesis by blast
qed

text \<open>A stopped collection stays stopped until another capture session takes the service.\<close>

lemma foreign_session_refused:
  assumes "authenticate_stream env metadata inp v w = (Inr (b, scope), w')"
    and "gi_collection_capture_session_id (sv_gate w) = Some session" "session \<noteq> scope_capture_session_id scope"
    and "0 < gi_active_authorized_stream_count (sv_gate w)"
  shows "\<not> b \<and> sv_gate w' = sv_gate w"
  using assms(1)
proof (cases rule: authenticate_cases)
  case (acquired c s)
  then show ?thesis using assms(2-4) by (simp add: acquire_collection_def)
qed simp

section \<open>More devices than threads\<close>

text \<open>What the service was configured with; no operation of a running server changes it.\<close>

definition settings_of :: "GrpcIngestService \<Rightarrow> _" where
  "settings_of g = (gi_expected_device_ids g, gi_expected_device_count g, gi_session_token_verifier g)"

lemma settings_kept:
  "settings_of (mark_device_active x g) = settings_of g" "settings_of (record_device_timestamp x t g) = settings_of g"
  "settings_of (release_collection c g) = settings_of g"
  by (simp_all add: settings_of_def mark_device_active_def record_device_timestamp_def release_collection_def split: option.split)

lemma settings_closed: "settings_of (mark_stream_closed t ds g) = settings_of g"
proof -
  have "settings_of (fold (close_device t) xs g) = settings_of g" for xs
    using close_devices_frame [of t xs g] by (simp add: frame_of_def settings_of_def)
  then show ?thesis by (simp add: mark_stream_closed_def stop_if_missing_def settings_of_def)
qed

lemma settings_allow: "allow_ingest x t g = (b, g') \<Longrightarrow> settings_of g' = settings_of g"
  by (cases "gi_gate_open g") (auto simp: allow_ingest_def settings_of_def open_gate_def Let_def split: if_splits option.splits)

lemma settings_acquire: "acquire_collection c g = (b, g') \<Longrightarrow> settings_of g' = settings_of g"
  by (auto simp: acquire_collection_def settings_of_def reset_collection_def Let_def split: if_splits)

lemma settings_stream_step: "stream_step env inp s w = (s', w') \<Longrightarrow> settings_of (sv_gate w') = settings_of (sv_gate w)"
proof (cases "sm_phase s")
  case Ready
  assume st: "stream_step env inp s w = (s', w')"
  show ?thesis
  proof (cases "si_incoming inp")
    case (NextFrame p)
    obtain ph v where r: "receive_frame inp p s w = (ph, v)" by fastforce
    then have "w' = v" using st Ready NextFrame by (auto simp: stream_step_def)
    with r show ?thesis by (cases rule: receive_frame_cases) (auto simp: settings_of_def)
  qed (use st Ready in \<open>auto simp: stream_step_def\<close>)
next
  case (Numbered d)
  assume "stream_step env inp s w = (s', w')"
  then show ?thesis using Numbered
    by (auto simp: stream_step_def check_frame_def Let_def settings_kept split: prod.splits option.splits if_splits)
qed (auto simp: stream_step_def settings_kept settings_closed settings_allow split: prod.splits sum.splits option.splits)

text \<open>With camera credentials alone a stream brings one device.\<close>

definition one_device :: "IngestStream \<Rightarrow> bool" where
  "one_device s \<longleftrightarrow>
     (case sm_scope s of
        None \<Rightarrow> sm_device_ids s = {}
      | Some (CameraScope c) \<Rightarrow> sm_device_ids s \<subseteq> {ci_device_id c}
      | Some (SessionScope _) \<Rightarrow> False)"

lemma one_device_same: "sm_scope s' = sm_scope s \<Longrightarrow> sm_device_ids s' = sm_device_ids s \<Longrightarrow> one_device s' = one_device s"
  by (simp add: one_device_def split: option.split IngestScope.split)

lemma one_device_step:
  assumes "one_device s" "gi_session_token_verifier (sv_gate w) \<noteq> None" "sm_scope s = None \<longrightarrow> finished s"
    and st: "stream_step env inp s w = (s', w')"
  shows "one_device s'"
proof (cases "sm_device_ids s' = sm_device_ids s \<and> sm_scope s' = sm_scope s")
  case True
  then show ?thesis using assms(1) one_device_same by blast
next
  case False
  then obtain d where n: "sm_phase s = Numbered d" "frame_refusal s (pd_packet d) = None"
      "s' = s\<lparr> sm_device_ids := insert (internal_device_id (pd_packet d)) (sm_device_ids s), sm_phase := Marked d \<rparr>"
    using st by (cases "sm_phase s") (auto simp: stream_step_def receive_frame_def check_frame_def Let_def
        split: Incoming.splits prod.splits sum.splits option.splits if_splits exn.splits)
  have "sm_scope s \<noteq> None" using assms(3) n(1) by (auto simp: finished.simps)
  then obtain c where c: "sm_scope s = Some (CameraScope c)" using assms(1)
    by (auto simp: one_device_def split: option.splits IngestScope.splits)
  then have "internal_device_id (pd_packet d) = ci_device_id c" using n(2)
    by (auto simp: frame_refusal_def camera_matches_declared_scope_def internal_device_id_def split: if_splits option.splits)
  then show ?thesis using assms(1) c n(3) by (simp add: one_device_def)
qed

lemma camera_credentials_only:
  assumes "authenticate_stream env metadata inp v w = (Inr (b, scope), w')" "vv_legacy v = None"
  shows "\<exists>c. scope = CameraScope c"
proof -
  have "\<exists>c. scope = CameraScope c" if "versioned_verify (ie_library env) (si_auth inp) v token caches = (Inr scope, q)" for token caches q
    using that assms(2) by (auto simp: versioned_verify_def Let_def map_sum_Inr split: option.splits if_splits prod.splits)
  then show ?thesis using assms(1)
    by (auto simp: authenticate_stream_def split: sum.splits prod.splits)
qed

text \<open>What holds of a server with camera credentials and more devices to wait for than threads.\<close>

definition crowded :: "'w \<Rightarrow> ('key, 'w) IngestServer \<Rightarrow> bool" where
  "crowded world w \<longleftrightarrow> server_ok w
     \<and> (\<exists>v. gi_session_token_verifier (sv_gate w) = Some v \<and> vv_legacy v = None)
     \<and> (\<exists>n > 4. gi_expected_device_count (sv_gate w) = Some n
          \<and> (gi_expected_device_ids (sv_gate w) \<noteq> {} \<longrightarrow> n = int (card (gi_expected_device_ids (sv_gate w)))))
     \<and> (\<forall>s \<in> set (dict_values (sv_streams w)). one_device s \<and> (\<forall>d. sm_phase s \<noteq> Admitted d))
     \<and> length (open_streams w) \<le> 4 \<and> sv_world w = world"

lemma crowded_shut:
  assumes "crowded world w" shows "\<not> gi_gate_open (sv_gate w)"
proof -
  let ?g = "sv_gate w" and ?ss = "dict_values (sv_streams w)"
  let ?open = "filter (\<lambda>s. \<not> finished s) ?ss"
  have sv: "gate_ok ?g" "books ?g ?ss" "finite (gi_expected_device_ids ?g)" using assms by (simp_all add: crowded_def server_ok_def service_ok_def)
  obtain n where n: "gi_expected_device_count ?g = Some n" "4 < n"
      "gi_expected_device_ids ?g \<noteq> {} \<longrightarrow> n = int (card (gi_expected_device_ids ?g))" using assms by (auto simp: crowded_def)
  have one: "card (sm_device_ids s) \<le> 1" if "s \<in> set ?ss" for s
  proof -
    have "one_device s" using assms that unfolding crowded_def by blast
    then obtain x where "sm_device_ids s \<subseteq> {x}" by (auto simp: one_device_def split: option.splits IngestScope.splits)
    then show ?thesis using card_mono [of "{x}" "sm_device_ids s"] by simp
  qed
  have "gi_active_device_ids ?g = {d. \<exists>s \<in> set ?ss. holds s d}" using sv(2) unfolding books_def holders_pos by blast
  then have "gi_active_device_ids ?g \<subseteq> (\<Union>s \<in> set ?open. sm_device_ids s)"
    by (auto simp: holds_def finished.simps split: Phase.splits)
  moreover have "finite (\<Union>s \<in> set ?open. sm_device_ids s)" using sv(2) by (auto simp: books_def)
  ultimately have "card (gi_active_device_ids ?g) \<le> card (\<Union>s \<in> set ?open. sm_device_ids s)" by (rule card_mono [rotated])
  also have "\<dots> \<le> (\<Sum>s \<in> set ?open. card (sm_device_ids s))" by (rule card_UN_le) simp
  also have "\<dots> \<le> (\<Sum>s \<in> set ?open. 1)" by (rule sum_mono) (use one in auto)
  also have "\<dots> = card (set ?open)" by (simp only: card_eq_sum)
  also have "\<dots> \<le> length ?open" by (rule card_length)
  also have "\<dots> \<le> 4" using assms by (simp add: crowded_def open_streams_def)
  finally have few: "card (gi_active_device_ids ?g) \<le> 4" .
  have "\<not> all_devices_seen ?g"
  proof (cases "gi_expected_device_ids ?g = {}")
    case True
    then show ?thesis using few n by (simp add: all_devices_seen_def)
  next
    case False
    then have "4 < card (gi_expected_device_ids ?g)" using n by simp
    then have "\<not> gi_expected_device_ids ?g \<subseteq> gi_active_device_ids ?g"
      using few card_mono [OF active_finite [OF sv(2)], of "gi_expected_device_ids ?g"] by linarith
    then show ?thesis using False by (simp add: all_devices_seen_def)
  qed
  then show ?thesis using sv(1) n(1) by (simp add: gate_ok_def gate_enabled_def)
qed

lemma crowded_settings:
  "settings_of g' = settings_of g \<Longrightarrow> gi_session_token_verifier g' = gi_session_token_verifier g
    \<and> gi_expected_device_count g' = gi_expected_device_count g \<and> gi_expected_device_ids g' = gi_expected_device_ids g"
  by (simp add: settings_of_def)

lemma open_streams_length:
  assumes "sv_streams w = xs @ (k, s) # ys" "sv_streams w' = xs @ (k, s') # ys" "finished s \<longrightarrow> finished s'"
  shows "length (open_streams w') \<le> length (open_streams w)"
  using assms by (auto simp: open_streams_def)

lemma stream_step_finished: "stream_step env inp s w = (s', w') \<Longrightarrow> finished s \<Longrightarrow> finished s'"
  by (auto simp: stream_step_def finished.simps split: Phase.splits)

lemma stream_step_world:
  "stream_step env inp s w = (s', w') \<Longrightarrow> \<forall>d. sm_phase s \<noteq> Admitted d \<Longrightarrow> sv_world w' = sv_world w"
proof (cases "sm_phase s")
  case Ready
  assume st: "stream_step env inp s w = (s', w')"
  have "sv_world v = sv_world w" if "assert_stream_active inp s w = (r, v)" for r v
    using that by (auto simp: assert_stream_active_def Let_def split: option.splits prod.splits sum.splits IngestScope.splits)
  then show ?thesis using st Ready
    by (auto simp: stream_step_def receive_frame_def split: Incoming.splits prod.splits sum.splits exn.splits)
qed (auto simp: stream_step_def split: prod.splits option.splits)

lemma open_stream_world: "open_stream env metadata inp w = (s, w') \<Longrightarrow> sv_world w' = sv_world w"
proof -
  have "sv_world v = sv_world w" if "authenticate_stream env metadata inp x w = (r, v)" for x r v
    using that by (auto simp: authenticate_stream_def register_scope_def split: sum.splits prod.splits IngestScope.splits)
  then show "open_stream env metadata inp w = (s, w') \<Longrightarrow> sv_world w' = sv_world w"
    by (auto simp: open_stream_def Let_def split: option.splits prod.splits sum.splits exn.splits bool.splits)
qed

lemma crowded_step:
  assumes c: "crowded world w" shows "crowded world (server_step env w e)"
proof (cases e)
  case (OpenStream k metadata inp)
  show ?thesis
  proof (cases "dict_get (sv_streams w) k \<noteq> None \<or> 4 \<le> length (open_streams w)")
    case True
    then show ?thesis using c OpenStream by auto
  next
    case False
    obtain s w' where o: "open_stream env metadata inp w = (s, w')" by fastforce
    have after: "server_step env w e = w'\<lparr> sv_streams := dict_set (sv_streams w') k s \<rparr>" using False o OpenStream by simp
    have new: "dict_set (sv_streams w) k s = sv_streams w @ [(k, s)]" by (rule dict_set_new) (use False in simp)
    have streams: "sv_streams w' = sv_streams w" and set: "settings_of (sv_gate w') = settings_of (sv_gate w)"
      and s: "one_device s" "\<forall>d. sm_phase s \<noteq> Admitted d"
    proof -
      from o show "sv_streams w' = sv_streams w" "settings_of (sv_gate w') = settings_of (sv_gate w)" "\<forall>d. sm_phase s \<noteq> Admitted d"
        by (cases rule: open_stream_cases; simp add: settings_acquire)+
      obtain v where v: "gi_session_token_verifier (sv_gate w) = Some v" "vv_legacy v = None" using c by (auto simp: crowded_def)
      from o v show "one_device s"
        by (auto dest!: camera_credentials_only [OF _ v(2)] simp: open_stream_def Let_def one_device_def split: prod.splits sum.splits exn.splits bool.splits)
    qed
    have "server_ok w" using c unfolding crowded_def by blast
    then have "server_ok (server_step env w e)" by (rule server_step_ok)
    then show ?thesis using c s False crowded_settings [OF set] open_stream_world [OF o]
      unfolding after crowded_def open_streams_def streams by (auto simp: new)
  qed
next
  case (StepStream k inp)
  show ?thesis
  proof (cases "dict_get (sv_streams w) k")
    case None
    then show ?thesis using c StepStream by simp
  next
    case (Some s)
    obtain s' w' where st: "stream_step env inp s w = (s', w')" by fastforce
    have after: "server_step env w e = w'\<lparr> sv_streams := dict_set (sv_streams w') k s' \<rparr>" using Some st StepStream by simp
    obtain xs ys where d: "sv_streams w = xs @ (k, s) # ys" "dict_set (sv_streams w) k s' = xs @ (k, s') # ys"
      using dict_replace [OF Some] by blast
    have ok: "server_ok w" "server_ok (server_step env w e)" using c server_step_ok by (auto simp: crowded_def)
    have s: "one_device s" "\<forall>d. sm_phase s \<noteq> Admitted d" using c d(1) by (auto simp: crowded_def)
    have v: "gi_session_token_verifier (sv_gate w) \<noteq> None" using c by (auto simp: crowded_def)
    have "sm_scope s = None \<longrightarrow> finished s" using ok(1) v by (auto simp: server_ok_def service_ok_def books_def d(1))
    then have s': "one_device s'" by (rule one_device_step [OF s(1) v _ st])
    have "sv_streams w' = sv_streams w"
      using stream_step_ok [OF _ st, of "map snd xs" "map snd ys"] ok(1) by (simp add: server_ok_def d(1))
    then have streams: "sv_streams (server_step env w e) = xs @ (k, s') # ys" by (simp add: after d(2))
    have admitted: "sm_phase s' \<noteq> Admitted x" for x
      using admitted_passed [OF ok(1) Some st, of x] crowded_shut [OF c] by blast
    have len: "length (open_streams (server_step env w e)) \<le> length (open_streams w)"
      by (rule open_streams_length [OF d(1) streams]) (use stream_step_finished [OF st] in blast)
    have gate: "sv_gate (server_step env w e) = sv_gate w'" "sv_world (server_step env w e) = sv_world w"
      by (simp_all add: after stream_step_world [OF st s(2)])
    have "\<forall>s \<in> set (dict_values (sv_streams w)). one_device s \<and> (\<forall>d. sm_phase s \<noteq> Admitted d)" using c unfolding crowded_def by blast
    then have "\<forall>s \<in> set (dict_values (sv_streams (server_step env w e))). one_device s \<and> (\<forall>d. sm_phase s \<noteq> Admitted d)"
      unfolding streams d(1) using s' admitted by auto
    moreover have "gi_session_token_verifier (sv_gate w') = gi_session_token_verifier (sv_gate w)"
      "gi_expected_device_count (sv_gate w') = gi_expected_device_count (sv_gate w)"
      "gi_expected_device_ids (sv_gate w') = gi_expected_device_ids (sv_gate w)"
      using crowded_settings [OF settings_stream_step [OF st]] by auto
    moreover have "length (open_streams (server_step env w e)) \<le> 4" using len c unfolding crowded_def by linarith
    ultimately show ?thesis using c ok(2) unfolding crowded_def gate by metis
  qed
qed

lemma crowded_run: "crowded world w \<Longrightarrow> crowded world (run (server_step env) w es)"
  by (induction es arbitrary: w) (auto intro: crowded_step)

lemma configured_count:
  "gi_expected_device_count (configure_ingest bind enabled c ids v g) = Some n \<Longrightarrow>
    gi_expected_device_ids (configure_ingest bind enabled c ids v g) \<noteq> {} \<Longrightarrow>
    n = int (card (gi_expected_device_ids (configure_ingest bind enabled c ids v g)))"
  by (auto simp: configure_ingest_def reset_collection_def Let_def split: if_splits)

lemma started_fields:
  "sv_gate (started_server service caches sessions cameras world) = service"
  "sv_streams (started_server service caches sessions cameras world) = []"
  "sv_world (started_server service caches sessions cameras world) = world"
  by (simp_all add: started_server_def)

end
