(* ===== verification/FrameArchive.thy ===== *)
theory FrameArchive
  imports SyncModels
begin

text \<open>
  services/frames/service.py with models/frame.py (the table of frames and its unique constraints) and
  services/ingest/archive.py (writing a frame's file and row). Then what the table keeps under any
  interleaving with other sessions, that a write is atomic, and when the files stay what the rows say; the locale
  \<open>archive_writer\<close> is what the archive relies on of its writer, provided by \<open>durable_write_bytes\<close>.
  Paths are text as the code builds them; directories are not modelled.
\<close>

section \<open>The table of frames\<close>

record FrameScope =
  fo_tenant_id :: "string option"
  fo_site_id :: "string option"
  fo_capture_session_id :: "string option"
  fo_processing_job_id :: "string option"
  fo_profile_digest :: "string option"
  fo_authorized_subject :: "string option"
  fo_session_token_jti :: "string option"
  fo_authorized_camera_id :: "string option"
  fo_camera_claim_id :: "string option"

record FrameRow =
  fr_device_id :: string
  fr_timestamp :: int
  fr_file_path :: "string option"
  fr_source_session_id :: "string option"
  fr_camera_stream_id :: "string option"
  fr_frame_sequence :: "int option"
  fr_source_frame_uid :: "string option"
  fr_content_digest :: "string option"
  fr_identity_mode :: string
  fr_archive_state :: string
  fr_archive_error :: "string option"
  fr_file_size :: "int option"
  fr_content_type :: "string option"
  fr_received_at_ms :: "int option"
  fr_capture_config_digest :: "string option"
  fr_capture_metadata_json :: "string option"
  fr_scope :: FrameScope

type_synonym FrameTable = "(int, FrameRow) dict"

text \<open>Two rows the unique constraints do not let stand together; NULL is equal to nothing.\<close>

definition same_value :: "'a option \<Rightarrow> 'a option \<Rightarrow> bool" where
  "same_value x y \<longleftrightarrow> x \<noteq> None \<and> x = y"

definition rows_conflict :: "FrameRow \<Rightarrow> FrameRow \<Rightarrow> bool" where
  "rows_conflict a b \<longleftrightarrow>
     same_value (fr_source_frame_uid a) (fr_source_frame_uid b)
     \<or> same_value (fr_source_session_id a) (fr_source_session_id b)
        \<and> same_value (fr_camera_stream_id a) (fr_camera_stream_id b)
        \<and> same_value (fr_frame_sequence a) (fr_frame_sequence b)
     \<or> fr_identity_mode a = IDENTITY_MODE_LEGACY \<and> fr_identity_mode b = IDENTITY_MODE_LEGACY
        \<and> fr_device_id a = fr_device_id b \<and> fr_timestamp a = fr_timestamp b"

section \<open>Storing a frame\<close>

definition nonblank :: "string option \<Rightarrow> bool" where
  "nonblank s = (case s of None \<Rightarrow> False | Some t \<Rightarrow> strip t \<noteq> [])"

definition resolve_frame_identity ::
  "string option \<Rightarrow> string option \<Rightarrow> int option \<Rightarrow> string option \<Rightarrow> (string option \<times> string) result" where
  "resolve_frame_identity source_session_id camera_stream_id frame_sequence content_digest =
     (case (source_session_id, camera_stream_id, frame_sequence) of
        (Some session, Some camera, Some sequence) \<Rightarrow>
          if nonblank (Some session) \<and> nonblank (Some camera)
          then bind_result (build_source_frame_uid session camera sequence) (\<lambda>uid.
                 Inr (Some uid, if nonblank content_digest then IDENTITY_MODE_V2 else IDENTITY_MODE_LEGACY))
          else Inr (None, IDENTITY_MODE_LEGACY)
      | _ \<Rightarrow> Inr (None, IDENTITY_MODE_LEGACY))"

definition find_existing_frame :: "FrameTable \<Rightarrow> string option \<Rightarrow> string \<Rightarrow> int \<Rightarrow> string \<Rightarrow> (int \<times> FrameRow) option" where
  "find_existing_frame table uid device_id timestamp mode =
     (if uid \<noteq> None then find (\<lambda>(k, row). fr_source_frame_uid row = uid) table
      else find (\<lambda>(k, row). fr_device_id row = device_id \<and> fr_timestamp row = timestamp \<and> fr_identity_mode row = mode) table)"

definition verify_duplicate_digest :: "FrameRow \<Rightarrow> string option \<Rightarrow> unit result" where
  "verify_duplicate_digest row content_digest =
     (if fr_source_frame_uid row \<noteq> None \<and> fr_content_digest row \<noteq> None \<and> content_digest \<noteq> None
         \<and> fr_content_digest row \<noteq> content_digest
      then Inl (FrameIntegrityError ''source_frame_uid was reused with a different content digest'') else Inr ())"

definition verify_duplicate_scope :: "FrameRow \<Rightarrow> FrameScope \<Rightarrow> unit result" where
  "verify_duplicate_scope row declared =
     (if fr_scope row \<noteq> declared
      then Inl (FrameIntegrityError ''source_frame_uid was reused with a different authorization scope'') else Inr ())"

definition apply_archive_recovery :: "FrameRow \<Rightarrow> FrameRow \<Rightarrow> FrameRow" where
  "apply_archive_recovery new row =
     (if fr_archive_state new = ARCHIVE_DURABLE \<and> fr_archive_state row \<noteq> ARCHIVE_DURABLE
      then row\<lparr> fr_file_path := fr_file_path new, fr_archive_state := fr_archive_state new,
                fr_archive_error := fr_archive_error new, fr_file_size := fr_file_size new \<rparr>
      else row)"

definition reuse_frame :: "FrameRow \<Rightarrow> int \<times> FrameRow \<Rightarrow> FrameTable \<Rightarrow> (int \<times> FrameRow) result \<times> FrameTable" where
  "reuse_frame new existing table =
     (case existing of (k, row) \<Rightarrow>
        (case bind_result (verify_duplicate_digest row (fr_content_digest new)) (\<lambda>_. verify_duplicate_scope row (fr_scope new)) of
           Inl e \<Rightarrow> (Inl e, table)
         | Inr _ \<Rightarrow> (let row' = apply_archive_recovery new row in (Inr (k, row'), dict_set table k row'))))"

text \<open>
  \<open>create_frame\<close>: the row to store comes with every column but the identity. What other sessions commit between the
  lookup and the insertion is \<open>others\<close>; the identifier of a new row is the database's.
\<close>

definition create_frame ::
  "(FrameTable \<Rightarrow> FrameTable) \<Rightarrow> int \<Rightarrow> FrameRow \<Rightarrow> FrameTable \<Rightarrow> (int \<times> FrameRow) result \<times> FrameTable" where
  "create_frame others fresh_id row table =
     (case resolve_frame_identity (fr_source_session_id row) (fr_camera_stream_id row) (fr_frame_sequence row) (fr_content_digest row) of
        Inl e \<Rightarrow> (Inl e, table)
      | Inr (uid, mode) \<Rightarrow>
          (let new = row\<lparr> fr_source_frame_uid := uid, fr_identity_mode := mode \<rparr>;
               lookup = (\<lambda>t. find_existing_frame t uid (fr_device_id new) (fr_timestamp new) mode)
           in case lookup table of
                Some existing \<Rightarrow> reuse_frame new existing table
              | None \<Rightarrow>
                  (let table = others table
                   in if dict_get table fresh_id = None \<and> list_all (\<lambda>(k, old). \<not> rows_conflict old new) table
                      then (Inr (fresh_id, new), table @ [(fresh_id, new)])
                      else (case lookup table of
                              Some existing \<Rightarrow> reuse_frame new existing table
                            | None \<Rightarrow> (Inl (IntegrityError ''UNIQUE constraint failed''), table)))))"

definition get_frames :: "nat \<Rightarrow> FrameTable \<Rightarrow> FrameRow list" where
  "get_frames limit table = take limit (rev (sort_key fr_timestamp (dict_values table)))"

definition get_recent_frames :: "FrameTable \<Rightarrow> FrameRow list" where
  "get_recent_frames table = sort_key fr_timestamp (dict_values table)"

section \<open>Writing a file\<close>

text \<open>
  The files by path. A write can fail at each of its steps, by the exception given for it; \<open>wf_partial\<close> bytes are
  in the temporary file when writing it fails, and \<open>wf_unlink\<close> says that removing it fails too.
\<close>

type_synonym Files = "(string, bytes) dict"

record WriteFaults =
  wf_mkdir :: "exn option"
  wf_open :: "exn option"
  wf_write :: "exn option"
  wf_fsync :: "exn option"
  wf_replace :: "exn option"
  wf_unlink :: bool
  wf_partial :: nat

definition path_name :: "string \<Rightarrow> string" where
  "path_name path = rev (takeWhile (\<lambda>c. c \<noteq> CHR ''/'') (rev path))"

definition path_folder :: "string \<Rightarrow> string" where
  "path_folder path = rev (dropWhile (\<lambda>c. c \<noteq> CHR ''/'') (rev path))"

definition temporary_path :: "string \<Rightarrow> string \<Rightarrow> string" where
  "temporary_path token path = path_folder path @ ''.'' @ path_name path @ ''.'' @ token @ ''.tmp''"

definition durable_write_bytes :: "WriteFaults \<Rightarrow> string \<Rightarrow> string \<Rightarrow> bytes \<Rightarrow> Files \<Rightarrow> unit result \<times> Files" where
  "durable_write_bytes faults token path payload files =
     (let temporary = temporary_path token path;
          cleanup = (\<lambda>e fs. (Inl e, if wf_unlink faults then fs else dict_pop fs temporary))
      in case wf_mkdir faults of
           Some e \<Rightarrow> (Inl e, files)
         | None \<Rightarrow>
             (case wf_open faults of
                Some e \<Rightarrow> cleanup e files
              | None \<Rightarrow>
                  if dict_get files temporary \<noteq> None then cleanup (OSError temporary) files
                  else (case wf_write faults of
                          Some e \<Rightarrow> cleanup e (dict_set files temporary (take (wf_partial faults) payload))
                        | None \<Rightarrow>
                            (let fs = dict_set files temporary payload
                             in case wf_fsync faults of
                                  Some e \<Rightarrow> cleanup e fs
                                | None \<Rightarrow>
                                    (case wf_replace faults of
                                       Some e \<Rightarrow> cleanup e fs
                                     | None \<Rightarrow> (Inr (), dict_set (dict_pop fs temporary) path payload))))))"

section \<open>Archiving a frame\<close>

record FrameArchiveOutcome =
  ao_frame :: "(int \<times> FrameRow) option"
  ao_state :: string
  ao_file_path :: "string option"
  ao_error :: "string option"

text \<open>
  What one archiving meets: the writer, how an exception prints with its class, what other sessions store, the new
  row's identifier, and an exception of the database, if there is one.
\<close>

record ArchiveInputs =
  av_writer :: "string \<Rightarrow> bytes \<Rightarrow> Files \<Rightarrow> unit result \<times> Files"
  av_exn_text :: "exn \<Rightarrow> string"
  av_others :: "FrameTable \<Rightarrow> FrameTable"
  av_fresh_id :: int
  av_db_fault :: "exn option"

definition error_text :: "string list \<Rightarrow> string option" where
  "error_text errors = (let joined = join ''; '' errors in if joined = [] then None else Some joined)"

definition write_archive_file ::
  "ArchiveInputs \<Rightarrow> string option \<Rightarrow> string list \<Rightarrow> bytes \<Rightarrow> Files \<Rightarrow> (bool \<times> string list) \<times> Files" where
  "write_archive_file inp save_path errors image_bytes files =
     (case save_path of
        None \<Rightarrow> ((False, errors), files)
      | Some path \<Rightarrow>
          if errors \<noteq> [] then ((False, errors), files)
          else (case av_writer inp path image_bytes files of
                  (Inl e, files) \<Rightarrow> ((False, errors @ [''file archive failed: '' @ av_exn_text inp e]), files)
                | (Inr _, files) \<Rightarrow> ((True, errors), files)))"

definition with_archive :: "bool \<Rightarrow> string option \<Rightarrow> string list \<Rightarrow> bytes \<Rightarrow> FrameRow \<Rightarrow> FrameRow" where
  "with_archive durable save_path errors image_bytes row =
     row\<lparr> fr_file_path := (if durable then save_path else None),
          fr_archive_state := (if durable then ARCHIVE_DURABLE else ARCHIVE_DEGRADED_LIVE_ONLY),
          fr_archive_error := error_text errors,
          fr_file_size := (if durable then Some (int (length image_bytes)) else None) \<rparr>"

text \<open>The row arrives with the columns of the call; the archive's columns are filled in.\<close>

definition persist_frame_archive ::
  "ArchiveInputs \<Rightarrow> FrameRow \<Rightarrow> bytes \<Rightarrow> string option \<Rightarrow> string option \<Rightarrow> FrameTable \<times> Files
   \<Rightarrow> FrameArchiveOutcome \<times> FrameTable \<times> Files" where
  "persist_frame_archive inp row image_bytes save_path initial_error store =
     (case store of (table, files) \<Rightarrow>
        (case write_archive_file inp save_path (if truthy initial_error then [the initial_error] else []) image_bytes files of
           ((file_durable, errors), files) \<Rightarrow>
             (let row = with_archive file_durable save_path errors image_bytes row
              in case (case av_db_fault inp of Some e \<Rightarrow> (Inl e, table)
                       | None \<Rightarrow> create_frame (av_others inp) (av_fresh_id inp) row table) of
                   (Inl e, table) \<Rightarrow>
                     (\<lparr> ao_frame = None, ao_state = ARCHIVE_DEGRADED_LIVE_ONLY, ao_file_path = None,
                        ao_error = Some (join ''; '' (errors @ [''metadata archive failed: '' @ av_exn_text inp e])) \<rparr>, table, files)
                 | (Inr (k, frame), table) \<Rightarrow>
                     (\<lparr> ao_frame = Some (k, frame), ao_state = fr_archive_state frame,
                        ao_file_path = (if fr_archive_state frame = ARCHIVE_DURABLE then fr_file_path frame else None),
                        ao_error = fr_archive_error frame \<rparr>, table, files))))"

section \<open>What the table keeps\<close>

definition identified :: "FrameRow \<Rightarrow> bool" where
  "identified row \<longleftrightarrow> resolve_frame_identity (fr_source_session_id row) (fr_camera_stream_id row) (fr_frame_sequence row)
     (fr_content_digest row) = Inr (fr_source_frame_uid row, fr_identity_mode row)"

definition frames_ok :: "FrameTable \<Rightarrow> bool" where
  "frames_ok table \<longleftrightarrow> distinct (dict_keys table)
     \<and> (\<forall>i a j b. dict_get table i = Some a \<longrightarrow> dict_get table j = Some b \<longrightarrow> i \<noteq> j \<longrightarrow> \<not> rows_conflict a b)
     \<and> (\<forall>k row. dict_get table k = Some row \<longrightarrow> identified row)"

text \<open>Rows stay, with everything but their archive columns; a durable row stays as it is.\<close>

definition same_frame :: "FrameRow \<Rightarrow> FrameRow \<Rightarrow> bool" where
  "same_frame a b \<longleftrightarrow>
     b = a\<lparr> fr_file_path := fr_file_path b, fr_archive_state := fr_archive_state b,
            fr_archive_error := fr_archive_error b, fr_file_size := fr_file_size b \<rparr>
     \<and> (fr_archive_state a = ARCHIVE_DURABLE \<longrightarrow> b = a)"

definition keeps_frames :: "FrameTable \<Rightarrow> FrameTable \<Rightarrow> bool" where
  "keeps_frames t t' \<longleftrightarrow> (\<forall>k row. dict_get t k = Some row \<longrightarrow> (\<exists>row'. dict_get t' k = Some row' \<and> same_frame row row'))"

lemma same_frame_refl [simp]: "same_frame a a"
  by (simp add: same_frame_def)

lemma keeps_frames_refl [simp]: "keeps_frames t t"
  by (simp add: keeps_frames_def)

lemma same_frame_fields:
  assumes "same_frame a b"
  shows "fr_device_id b = fr_device_id a" "fr_timestamp b = fr_timestamp a" "fr_source_session_id b = fr_source_session_id a"
    "fr_camera_stream_id b = fr_camera_stream_id a" "fr_frame_sequence b = fr_frame_sequence a"
    "fr_source_frame_uid b = fr_source_frame_uid a" "fr_content_digest b = fr_content_digest a"
    "fr_identity_mode b = fr_identity_mode a" "fr_scope b = fr_scope a"
  by (subst conjunct1 [OF assms [unfolded same_frame_def]], simp)+

lemma same_frame_trans: "same_frame a b \<Longrightarrow> same_frame b c \<Longrightarrow> same_frame a c"
  unfolding same_frame_def by (cases a; cases b; cases c) auto

lemma keeps_frames_trans: "keeps_frames t u \<Longrightarrow> keeps_frames u v \<Longrightarrow> keeps_frames t v"
  unfolding keeps_frames_def by (meson same_frame_trans)

lemma recovery_same: "same_frame row (apply_archive_recovery new row)"
  by (simp add: same_frame_def apply_archive_recovery_def)

lemma conflict_same: "same_frame a a' \<Longrightarrow> rows_conflict a' b = rows_conflict a b"
  by (simp add: rows_conflict_def same_frame_fields)

lemma conflict_sym: "rows_conflict a b = rows_conflict b a"
  unfolding rows_conflict_def same_value_def by metis

lemma identified_same: "same_frame a a' \<Longrightarrow> identified a' = identified a"
  by (simp add: identified_def same_frame_fields)

lemma frames_ok_update:
  assumes ok: "frames_ok t" and row: "dict_get t k = Some row" "same_frame row row'"
  shows "frames_ok (dict_set t k row') \<and> keeps_frames t (dict_set t k row')"
proof -
  have before: "\<exists>a0. dict_get t i = Some a0 \<and> same_frame a0 a" if "dict_get (dict_set t k row') i = Some a" for i a
    using that row by (cases "i = k") auto
  have "distinct (dict_keys (dict_set t k row'))" using ok by (intro distinct_update) (simp add: frames_ok_def)
  moreover have "\<not> rows_conflict a b"
    if at: "dict_get (dict_set t k row') i = Some a" "dict_get (dict_set t k row') j = Some b" "i \<noteq> j" for i a j b
  proof -
    obtain a0 b0 where "dict_get t i = Some a0" "same_frame a0 a" "dict_get t j = Some b0" "same_frame b0 b"
      using before [OF at(1)] before [OF at(2)] by blast
    then have "rows_conflict a b = rows_conflict a0 b0"
      using conflict_same [of a0 a b] conflict_same [of b0 b a0] conflict_sym [of a0 b] conflict_sym [of b0 a0] by simp
    moreover have "\<not> rows_conflict a0 b0" using ok at(3) \<open>dict_get t i = Some a0\<close> \<open>dict_get t j = Some b0\<close>
      unfolding frames_ok_def by blast
    ultimately show ?thesis by simp
  qed
  moreover have "identified a" if "dict_get (dict_set t k row') i = Some a" for i a
    using that ok row identified_same [OF row(2)] by (cases "i = k") (auto simp: frames_ok_def)
  ultimately show ?thesis using row by (auto simp: frames_ok_def keeps_frames_def)
qed

lemma find_dict: "find P t = Some (k, row) \<Longrightarrow> distinct (dict_keys t) \<Longrightarrow> dict_get t k = Some row \<and> P (k, row)"
  by (auto simp: find_Some_iff map_of_eq_Some_iff)

lemma existing_found:
  assumes "find_existing_frame t uid device_id timestamp mode = Some (k, row)" "distinct (dict_keys t)"
  shows "dict_get t k = Some row \<and> (uid \<noteq> None \<longrightarrow> fr_source_frame_uid row = uid)
    \<and> (uid = None \<longrightarrow> fr_device_id row = device_id \<and> fr_timestamp row = timestamp \<and> fr_identity_mode row = mode)"
  using assms by (auto simp: find_existing_frame_def dest!: find_dict split: if_splits)

lemma reuse_cases:
  assumes "reuse_frame new (k, row) t = (r, t')"
  obtains (refused) e where "r = Inl e" "t' = t"
    | (reused) "r = Inr (k, apply_archive_recovery new row)" "t' = dict_set t k (apply_archive_recovery new row)"
        "fr_scope row = fr_scope new"
        "fr_source_frame_uid row \<noteq> None \<and> fr_content_digest row \<noteq> None \<and> fr_content_digest new \<noteq> None
          \<longrightarrow> fr_content_digest row = fr_content_digest new"
  using assms by (auto simp: reuse_frame_def verify_duplicate_digest_def verify_duplicate_scope_def Let_def split: if_splits)

text \<open>What \<open>create_frame\<close> may come to; \<open>table\<close> is the table it found its row in or added it to.\<close>

lemma create_frame_cases:
  assumes c: "create_frame others fresh_id row t = (r, t')"
  obtains (failed) e where "r = Inl e" "t' = t \<or> t' = others t"
    | (reused) table uid mode k old where
        "resolve_frame_identity (fr_source_session_id row) (fr_camera_stream_id row) (fr_frame_sequence row) (fr_content_digest row) = Inr (uid, mode)"
        "table = t \<or> table = others t" "find_existing_frame table uid (fr_device_id row) (fr_timestamp row) mode = Some (k, old)"
        "r = Inr (k, apply_archive_recovery (row\<lparr> fr_source_frame_uid := uid, fr_identity_mode := mode \<rparr>) old)"
        "t' = dict_set table k (apply_archive_recovery (row\<lparr> fr_source_frame_uid := uid, fr_identity_mode := mode \<rparr>) old)"
        "fr_scope old = fr_scope row"
        "fr_source_frame_uid old \<noteq> None \<and> fr_content_digest old \<noteq> None \<and> fr_content_digest row \<noteq> None
          \<longrightarrow> fr_content_digest old = fr_content_digest row"
    | (stored) uid mode where
        "resolve_frame_identity (fr_source_session_id row) (fr_camera_stream_id row) (fr_frame_sequence row) (fr_content_digest row) = Inr (uid, mode)"
        "r = Inr (fresh_id, row\<lparr> fr_source_frame_uid := uid, fr_identity_mode := mode \<rparr>)"
        "dict_get (others t) fresh_id = None"
        "list_all (\<lambda>(k, old). \<not> rows_conflict old (row\<lparr> fr_source_frame_uid := uid, fr_identity_mode := mode \<rparr>)) (others t)"
        "t' = others t @ [(fresh_id, row\<lparr> fr_source_frame_uid := uid, fr_identity_mode := mode \<rparr>)]"
proof (cases "resolve_frame_identity (fr_source_session_id row) (fr_camera_stream_id row) (fr_frame_sequence row) (fr_content_digest row)")
  case (Inl e)
  then show ?thesis using c failed by (auto simp: create_frame_def)
next
  case (Inr um)
  obtain uid mode where um: "um = (uid, mode)" by fastforce
  let ?new = "row\<lparr> fr_source_frame_uid := uid, fr_identity_mode := mode \<rparr>"
  let ?lookup = "\<lambda>t. find_existing_frame t uid (fr_device_id row) (fr_timestamp row) mode"
  note outer = reused
  have again: thesis if "?lookup table = Some (k, old)" "table = t \<or> table = others t" "reuse_frame ?new (k, old) table = (r, t')" for table k old
    using that(3)
  proof (cases rule: reuse_cases)
    case (refused e)
    then show ?thesis using failed that(2) by blast
  next
    case reused
    then show ?thesis using outer [of uid mode table k old] Inr um that by simp
  qed
  show ?thesis
  proof (cases "?lookup t")
    case (Some existing)
    obtain k old where e: "existing = (k, old)" by fastforce
    then show ?thesis using again [of t k old] c Some Inr um by (simp add: create_frame_def Let_def)
  next
    case None
    show ?thesis
    proof (cases "dict_get (others t) fresh_id = None \<and> list_all (\<lambda>(k, old). \<not> rows_conflict old ?new) (others t)")
      case True
      then have "(r, t') = (Inr (fresh_id, ?new), others t @ [(fresh_id, ?new)])"
        using c None Inr um by (simp add: create_frame_def Let_def)
      then show ?thesis using stored [of uid mode] True Inr um by simp
    next
      case False
      then have e: "(r, t') = (case ?lookup (others t) of Some existing \<Rightarrow> reuse_frame ?new existing (others t)
          | None \<Rightarrow> (Inl (IntegrityError ''UNIQUE constraint failed''), others t))"
        using c None Inr um unfolding create_frame_def Let_def by (simp only: sum.case prod.case option.case if_False) simp
      show ?thesis
      proof (cases "?lookup (others t)")
        case None
        then show ?thesis using e failed by simp
      next
        case (Some existing)
        obtain k old where "existing = (k, old)" by fastforce
        then show ?thesis using again [of "others t" k old] e Some by simp
      qed
    qed
  qed
qed

lemma dict_get_append: "dict_get t k = None \<Longrightarrow> dict_get (t @ [(k, v)]) j = (if j = k then Some v else dict_get t j)"
  by (auto simp: map_add_def split: option.split)

lemma frames_ok_insert:
  assumes ok: "frames_ok t" and fresh: "dict_get t k = None" and row: "identified new"
    and apart: "list_all (\<lambda>(k, old). \<not> rows_conflict old new) t"
  shows "frames_ok (t @ [(k, new)]) \<and> keeps_frames t (t @ [(k, new)])"
proof -
  have out: "\<not> rows_conflict a new" if "dict_get t i = Some a" for i a
    using that apart by (auto simp: list_all_iff dest!: map_of_SomeD)
  have "k \<notin> set (dict_keys t)" using fresh by (simp add: map_of_eq_None_iff)
  then have "distinct (dict_keys (t @ [(k, new)]))" using ok by (simp add: frames_ok_def)
  moreover have "\<not> rows_conflict a b"
    if "dict_get (t @ [(k, new)]) i = Some a" "dict_get (t @ [(k, new)]) j = Some b" "i \<noteq> j" for i a j b
    using that ok out conflict_sym unfolding dict_get_append [OF fresh] frames_ok_def by (metis option.inject)
  moreover have "identified a" if "dict_get (t @ [(k, new)]) i = Some a" for i a
    using that ok row unfolding dict_get_append [OF fresh] frames_ok_def by (metis option.inject)
  moreover have "dict_get (t @ [(k, new)]) i = Some a" if "dict_get t i = Some a" for i a
    using that fresh unfolding dict_get_append [OF fresh] by auto
  ultimately show ?thesis unfolding frames_ok_def keeps_frames_def by (metis same_frame_refl)
qed

text \<open>What the other sessions may do: they keep the table's rows and its constraints.\<close>

definition table_step :: "FrameTable \<Rightarrow> FrameTable \<Rightarrow> bool" where
  "table_step t t' \<longleftrightarrow> (frames_ok t \<longrightarrow> frames_ok t' \<and> keeps_frames t t')"

lemma table_step_refl [simp]: "table_step t t"
  by (simp add: table_step_def)

lemma table_step_trans: "table_step t u \<Longrightarrow> table_step u v \<Longrightarrow> table_step t v"
  unfolding table_step_def using keeps_frames_trans by blast

lemma create_frame_step:
  assumes c: "create_frame others fresh_id row t = (r, t')" and others: "table_step t (others t)"
  shows "table_step t t'"
  using c
proof (cases rule: create_frame_cases)
  case (failed e)
  then show ?thesis using others by (auto simp: table_step_def)
next
  case (reused table uid mode k old)
  let ?row = "apply_archive_recovery (row\<lparr> fr_source_frame_uid := uid, fr_identity_mode := mode \<rparr>) old"
  have step: "table_step t table" using reused(2) others by (elim disjE) simp_all
  have "table_step table (dict_set table k ?row)" if "frames_ok table"
    using frames_ok_update [OF that _ recovery_same] existing_found [OF reused(3)] that
    by (simp add: table_step_def frames_ok_def [of table])
  then show ?thesis using step reused(5) table_step_trans by (auto simp: table_step_def)
next
  case (stored uid mode)
  let ?new = "row\<lparr> fr_source_frame_uid := uid, fr_identity_mode := mode \<rparr>"
  have "identified ?new" using stored(1) by (simp add: identified_def)
  then have "table_step (others t) t'"
    using frames_ok_insert [OF _ stored(3) _ stored(4)] stored(5) by (simp add: table_step_def)
  then show ?thesis using others table_step_trans by blast
qed

text \<open>
  The row returned is in the table, has the identity the call resolves and the scope the call declares, and, where it has
  a digest, the call's; a durable call is answered by a durable row.
\<close>

lemma created_row:
  assumes c: "create_frame others fresh_id row t = (Inr (k, frame), t')" and ok: "frames_ok t" and others: "table_step t (others t)"
  shows "dict_get t' k = Some frame \<and> fr_scope frame = fr_scope row
    \<and> (fr_archive_state row = ARCHIVE_DURABLE \<longrightarrow> fr_archive_state frame = ARCHIVE_DURABLE)
    \<and> (\<exists>uid mode. resolve_frame_identity (fr_source_session_id row) (fr_camera_stream_id row) (fr_frame_sequence row)
           (fr_content_digest row) = Inr (uid, mode)
         \<and> (uid \<noteq> None \<longrightarrow> fr_source_frame_uid frame = uid
             \<and> (fr_content_digest frame \<noteq> None \<longrightarrow> fr_content_digest row \<noteq> None \<longrightarrow> fr_content_digest frame = fr_content_digest row))
         \<and> (uid = None \<longrightarrow> fr_device_id frame = fr_device_id row \<and> fr_timestamp frame = fr_timestamp row))"
  using c
proof (cases rule: create_frame_cases)
  case (reused table uid mode k' old)
  have "frames_ok table" using reused(2) ok others by (auto simp: table_step_def)
  then have found: "dict_get table k' = Some old \<and> (uid \<noteq> None \<longrightarrow> fr_source_frame_uid old = uid)
      \<and> (uid = None \<longrightarrow> fr_device_id old = fr_device_id row \<and> fr_timestamp old = fr_timestamp row \<and> fr_identity_mode old = mode)"
    using existing_found [OF reused(3)] by (simp add: frames_ok_def)
  have frame: "k = k'" "same_frame old frame" "t' = dict_set table k frame"
    using reused(4,5) recovery_same by auto
  have durable: "fr_archive_state frame = ARCHIVE_DURABLE" if "fr_archive_state row = ARCHIVE_DURABLE"
    using reused(4) that by (auto simp: apply_archive_recovery_def)
  show ?thesis using durable frame(1,3) reused(1,6,7) found unfolding same_frame_fields [OF frame(2)] by auto
next
  case (stored uid mode)
  then show ?thesis using dict_get_append [OF stored(3)] by auto
qed simp

section \<open>What the archive promises\<close>

lemma temporary_other: "temporary_path token path \<noteq> path"
proof -
  have "length (path_folder path) + length (path_name path) = length path"
    using arg_cong [OF takeWhile_dropWhile_id [of "\<lambda>c. c \<noteq> CHR ''/''" "rev path"], of length]
    by (simp add: path_folder_def path_name_def del: takeWhile_dropWhile_id)
  then have "length (temporary_path token path) > length path" by (simp add: temporary_path_def)
  then show ?thesis by auto
qed

text \<open>
  A write has either put the whole payload under the path and nothing else, or left the path and every other file but
  the temporary one as it was.
\<close>

lemma write_is_atomic:
  assumes w: "durable_write_bytes faults token path payload files = (r, files')"
  shows "(case r of Inr _ \<Rightarrow> dict_get files' path = Some payload | Inl _ \<Rightarrow> dict_get files' path = dict_get files path)
    \<and> (\<forall>p. p \<noteq> path \<longrightarrow> p \<noteq> temporary_path token path \<longrightarrow> dict_get files' p = dict_get files p)
    \<and> (\<not> wf_unlink faults \<longrightarrow> wf_mkdir faults = None \<longrightarrow> dict_get files' (temporary_path token path) = None)"
  using w temporary_other [of token path]
  by (auto simp: durable_write_bytes_def Let_def dict_get_pop split: option.splits if_splits)

lemma with_archive_fields [simp]:
  "fr_source_session_id (with_archive durable path errors image_bytes row) = fr_source_session_id row"
  "fr_camera_stream_id (with_archive durable path errors image_bytes row) = fr_camera_stream_id row"
  "fr_frame_sequence (with_archive durable path errors image_bytes row) = fr_frame_sequence row"
  "fr_content_digest (with_archive durable path errors image_bytes row) = fr_content_digest row"
  "fr_device_id (with_archive durable path errors image_bytes row) = fr_device_id row"
  "fr_timestamp (with_archive durable path errors image_bytes row) = fr_timestamp row"
  "fr_scope (with_archive durable path errors image_bytes row) = fr_scope row"
  "fr_archive_state (with_archive durable path errors image_bytes row) = (if durable then ARCHIVE_DURABLE else ARCHIVE_DEGRADED_LIVE_ONLY)"
  "fr_file_path (with_archive durable path errors image_bytes row) = (if durable then path else None)"
  by (simp_all add: with_archive_def)

lemma archive_cases:
  assumes p: "persist_frame_archive inp row image_bytes save_path initial_error (table, files) = (out, table', files')"
  obtains (refused) durable errors e where
      "write_archive_file inp save_path (if truthy initial_error then [the initial_error] else []) image_bytes files = ((durable, errors), files')"
      "ao_frame out = None" "ao_state out = ARCHIVE_DEGRADED_LIVE_ONLY" "ao_file_path out = None"
      "table' = table \<or> create_frame (av_others inp) (av_fresh_id inp) (with_archive durable save_path errors image_bytes row) table = (Inl e, table')"
    | (kept) durable errors k frame where
      "write_archive_file inp save_path (if truthy initial_error then [the initial_error] else []) image_bytes files = ((durable, errors), files')"
      "create_frame (av_others inp) (av_fresh_id inp) (with_archive durable save_path errors image_bytes row) table = (Inr (k, frame), table')"
      "ao_frame out = Some (k, frame)" "ao_state out = fr_archive_state frame" "ao_error out = fr_archive_error frame"
      "ao_file_path out = (if fr_archive_state frame = ARCHIVE_DURABLE then fr_file_path frame else None)"
proof -
  obtain durable errors fs where w: "write_archive_file inp save_path (if truthy initial_error then [the initial_error] else []) image_bytes files
      = ((durable, errors), fs)"
    by (metis surj_pair)
  obtain r t where c: "create_frame (av_others inp) (av_fresh_id inp) (with_archive durable save_path errors image_bytes row) table = (r, t)"
    by fastforce
  consider (fault) e where "av_db_fault inp = Some e" | (error) e where "av_db_fault inp = None" "r = Inl e"
    | (row) k frame where "av_db_fault inp = None" "r = Inr (k, frame)"
    by (cases "av_db_fault inp"; cases r) auto
  then show ?thesis
  proof cases
    case fault
    then have "out = \<lparr> ao_frame = None, ao_state = ARCHIVE_DEGRADED_LIVE_ONLY, ao_file_path = None,
        ao_error = Some (join ''; '' (errors @ [''metadata archive failed: '' @ av_exn_text inp e])) \<rparr>" "table' = table" "files' = fs"
      using p w by (simp_all add: persist_frame_archive_def)
    then show ?thesis using refused [of durable errors e] w by simp
  next
    case error
    then have "out = \<lparr> ao_frame = None, ao_state = ARCHIVE_DEGRADED_LIVE_ONLY, ao_file_path = None,
        ao_error = Some (join ''; '' (errors @ [''metadata archive failed: '' @ av_exn_text inp e])) \<rparr>" "table' = t" "files' = fs"
      using p w c by (simp_all add: persist_frame_archive_def)
    then show ?thesis using refused [of durable errors e] w c error by simp
  next
    case row
    then have "out = \<lparr> ao_frame = Some (k, frame), ao_state = fr_archive_state frame,
        ao_file_path = (if fr_archive_state frame = ARCHIVE_DURABLE then fr_file_path frame else None),
        ao_error = fr_archive_error frame \<rparr>" "table' = t" "files' = fs"
      using p w c by (simp_all add: persist_frame_archive_def)
    then show ?thesis using kept [of durable errors k frame] w c row by simp
  qed
qed

lemma persist_table_step:
  assumes p: "persist_frame_archive inp row image_bytes save_path initial_error (table, files) = (out, table', files')"
    and others: "table_step table (av_others inp table)"
  shows "table_step table table'"
  using p by (cases rule: archive_cases) (auto dest: create_frame_step [where others = "av_others inp", OF _ others])

text \<open>An archive that says it is durable has a durable row, and the path it names is the row's.\<close>

lemma durable_has_row:
  assumes p: "persist_frame_archive inp row image_bytes save_path initial_error (table, files) = (out, table', files')"
    and durable: "ao_state out = ARCHIVE_DURABLE" and ok: "frames_ok table" "table_step table (av_others inp table)"
  shows "\<exists>k frame. ao_frame out = Some (k, frame) \<and> dict_get table' k = Some frame
    \<and> fr_archive_state frame = ARCHIVE_DURABLE \<and> ao_file_path out = fr_file_path frame \<and> fr_scope frame = fr_scope row"
  using p
proof (cases rule: archive_cases)
  case (refused d errors e)
  then show ?thesis using durable by (simp add: archive_state_defs)
next
  case (kept d errors k frame)
  then show ?thesis using durable created_row [OF kept(2) ok] by simp
qed

text \<open>The file behind a durable row holds the content the row's digest names.\<close>

definition backed :: "Files \<Rightarrow> FrameRow \<Rightarrow> bool" where
  "backed files row \<longleftrightarrow> (fr_archive_state row = ARCHIVE_DURABLE \<longrightarrow>
     (\<exists>path content. fr_file_path row = Some path \<and> dict_get files path = Some content
        \<and> fr_content_digest row = Some (sha256_bytes content)))"

definition archive_backed :: "FrameTable \<Rightarrow> Files \<Rightarrow> bool" where
  "archive_backed table files \<longleftrightarrow> (\<forall>k row. dict_get table k = Some row \<longrightarrow> backed files row)"

text \<open>
  A frame can be written to its path without disturbing the table: no durable row has the temporary path, one with the
  path has the frame's digest, and a row with a frame identity has a digest.
\<close>

definition undisturbed :: "FrameTable \<Rightarrow> string \<Rightarrow> string \<Rightarrow> string option \<Rightarrow> bool" where
  "undisturbed table temporary path digest \<longleftrightarrow>
     (\<forall>k row. dict_get table k = Some row \<longrightarrow>
        (fr_archive_state row = ARCHIVE_DURABLE \<longrightarrow> fr_file_path row \<noteq> Some temporary
           \<and> (fr_file_path row = Some path \<longrightarrow> fr_content_digest row = digest))
        \<and> (fr_source_frame_uid row \<noteq> None \<longrightarrow> fr_content_digest row \<noteq> None))"

locale archive_writer =
  fixes writer :: "string \<Rightarrow> bytes \<Rightarrow> Files \<Rightarrow> unit result \<times> Files" and temporary :: "string \<Rightarrow> string"
  assumes written: "writer path payload files = (Inr u, files') \<Longrightarrow> dict_get files' path = Some payload"
    and unwritten: "writer path payload files = (Inl e, files') \<Longrightarrow> dict_get files' path = dict_get files path"
    and elsewhere: "writer path payload files = (r, files') \<Longrightarrow> p \<noteq> path \<Longrightarrow> p \<noteq> temporary path
      \<Longrightarrow> dict_get files' p = dict_get files p"
begin

lemma writes_keep_backed:
  assumes backed: "archive_backed table files" and apart: "undisturbed table (temporary path) path (Some (sha256_bytes payload))"
    and w: "writer path payload files = (r, files')"
  shows "archive_backed table files'"
  unfolding archive_backed_def backed_def
proof (intro allI impI)
  fix k row
  assume row: "dict_get table k = Some row" and durable: "fr_archive_state row = ARCHIVE_DURABLE"
  obtain p content where p: "fr_file_path row = Some p" "dict_get files p = Some content" "fr_content_digest row = Some (sha256_bytes content)"
    using backed row durable unfolding archive_backed_def backed_def by blast
  show "\<exists>p content. fr_file_path row = Some p \<and> dict_get files' p = Some content \<and> fr_content_digest row = Some (sha256_bytes content)"
  proof (cases "p = path")
    case True
    then have "fr_content_digest row = Some (sha256_bytes payload)" using apart row durable p(1) unfolding undisturbed_def by blast
    then show ?thesis using p True written [of path payload files] unwritten [of path payload files] w
      by (cases r) auto
  next
    case False
    then show ?thesis using p elsewhere [OF w] apart row durable unfolding undisturbed_def by metis
  qed
qed

end

interpretation durable_writer: archive_writer "durable_write_bytes faults token" "temporary_path token" for faults token
  by unfold_locales (use write_is_atomic in \<open>fastforce+\<close>)

lemma archive_backed_set:
  assumes "archive_backed t files" "backed files row"
  shows "archive_backed (dict_set t k row) files"
  using assms by (simp add: archive_backed_def)

text \<open>
  A frame without a source identity is looked up by its device and its time. \<open>same_by_time\<close> says that a row found that
  way has the frame's digest: nothing checks it.
\<close>

definition same_by_time :: "FrameTable \<Rightarrow> FrameRow \<Rightarrow> string \<Rightarrow> bool" where
  "same_by_time table row mode \<longleftrightarrow>
     (\<forall>k old. find_existing_frame table None (fr_device_id row) (fr_timestamp row) mode = Some (k, old)
        \<longrightarrow> fr_content_digest old = fr_content_digest row)"

context archive_writer begin

lemma archive_keeps_backed:
  assumes p: "persist_frame_archive inp row image_bytes (Some path) initial_error (table, files) = (out, table', files')"
    and writer: "av_writer inp = writer"
    and ok: "frames_ok table" "table_step table (av_others inp table)"
    and digest: "fr_content_digest row = Some (sha256_bytes image_bytes)"
    and unnamed: "\<And>mode. resolve_frame_identity (fr_source_session_id row) (fr_camera_stream_id row) (fr_frame_sequence row)
        (fr_content_digest row) = Inr (None, mode) \<Longrightarrow> same_by_time table row mode \<and> same_by_time (av_others inp table) row mode"
    and backed: "archive_backed table files" "archive_backed (av_others inp table) files"
    and apart: "undisturbed table (temporary path) path (fr_content_digest row)"
      "undisturbed (av_others inp table) (temporary path) path (fr_content_digest row)"
  shows "archive_backed table' files'"
proof -
  have wrote: "archive_backed t files' \<and> (d \<longrightarrow> dict_get files' path = Some image_bytes)"
    if w: "write_archive_file inp (Some path) es image_bytes files = ((d, errors), files')"
      and t: "archive_backed t files" "undisturbed t (temporary path) path (fr_content_digest row)" for t es d errors
  proof -
    obtain r fs where r: "writer path image_bytes files = (r, fs)" by fastforce
    show ?thesis
      using w t writer digest writes_keep_backed [OF _ _ r, of t] r written [of path image_bytes files]
      by (auto simp: write_archive_file_def split: if_splits sum.splits)
  qed
  show ?thesis using p
  proof (cases rule: archive_cases)
    case (refused d errors e)
    have "table' = table \<or> table' = av_others inp table" using refused(5)
    proof
      assume c: "create_frame (av_others inp) (av_fresh_id inp) (with_archive d (Some path) errors image_bytes row) table = (Inl e, table')"
      show ?thesis using c by (cases rule: create_frame_cases) auto
    qed simp
    then show ?thesis using wrote [OF refused(1)] backed apart by blast
  next
    case (kept d errors k frame)
    note both = wrote [OF kept(1) backed(1) apart(1)] wrote [OF kept(1) backed(2) apart(2)]
    show ?thesis using kept(2)
    proof (cases rule: create_frame_cases)
      case (failed e)
      then show ?thesis by simp
    next
      case (reused t u m k' old)
      have t: "archive_backed t files'" "undisturbed t (temporary path) path (fr_content_digest row)" "frames_ok t"
        using reused(2) both apart ok by (auto simp: table_step_def)
      have old: "dict_get t k' = Some old" "u \<noteq> None \<longrightarrow> fr_source_frame_uid old = u"
        using existing_found [OF reused(3)] t(3) by (simp_all add: frames_ok_def)
      have same: "fr_content_digest old = fr_content_digest row"
      proof (cases u)
        case None
        then have "same_by_time t row m" using unnamed [of m] reused(1,2) by auto
        then show ?thesis using reused(3) None by (simp add: same_by_time_def)
      next
        case (Some uid)
        then show ?thesis using old t(2) reused(7) digest unfolding undisturbed_def by auto
      qed
      have was: "backed files' old" using t(1) old unfolding archive_backed_def by blast
      have new: "backed files' (old\<lparr> fr_file_path := Some path, fr_archive_state := ARCHIVE_DURABLE,
          fr_archive_error := err, fr_file_size := size \<rparr>)" if d for err size
        using both(1) that same digest by (simp add: backed_def)
      have "backed files' (apply_archive_recovery ((with_archive d (Some path) errors image_bytes row)
          \<lparr> fr_source_frame_uid := u, fr_identity_mode := m \<rparr>) old)"
        using new was by (cases d) (auto simp: apply_archive_recovery_def archive_state_defs)
      then show ?thesis unfolding reused(5) by (rule archive_backed_set [OF t(1)])
    next
      case (stored u m)
      have "backed files' (with_archive d (Some path) errors image_bytes row\<lparr> fr_source_frame_uid := u, fr_identity_mode := m \<rparr>)"
        using both(1) digest by (simp add: backed_def archive_state_defs)
      then show ?thesis using both(2) dict_get_append [OF stored(3)]
        unfolding stored(5) archive_backed_def by simp
    qed
  qed
qed

end

section \<open>The file is written before the identity is checked\<close>

lemma uid_found:
  assumes ok: "frames_ok t" and row: "dict_get t k = Some old" "fr_source_frame_uid old = Some uid"
  shows "find_existing_frame t (Some uid) device_id timestamp mode = Some (k, old)"
proof -
  have "(k, old) \<in> set t" using row(1) by (rule map_of_SomeD)
  then have "find (\<lambda>(k, row). fr_source_frame_uid row = Some uid) t \<noteq> None"
    using row(2) by (auto simp: find_None_iff)
  then obtain j b where f: "find_existing_frame t (Some uid) device_id timestamp mode = Some (j, b)"
    by (auto simp: find_existing_frame_def)
  then have b: "dict_get t j = Some b" "fr_source_frame_uid b = Some uid"
    using existing_found [OF f] ok by (simp_all add: frames_ok_def)
  then have "rows_conflict old b" using row(2) by (simp add: rows_conflict_def same_value_def)
  then have "j = k" using ok row(1) b(1) unfolding frames_ok_def by blast
  then show ?thesis using f b row by simp
qed

lemma conflicting_frame_refused:
  assumes ok: "frames_ok t" and row: "dict_get t k = Some old" "fr_source_frame_uid old = Some uid" "fr_content_digest old \<noteq> None"
    and named: "resolve_frame_identity (fr_source_session_id row) (fr_camera_stream_id row) (fr_frame_sequence row) (fr_content_digest row) = Inr (Some uid, mode)"
    and other: "fr_content_digest row \<noteq> None" "fr_content_digest old \<noteq> fr_content_digest row"
  shows "create_frame others fresh_id row t = (Inl (FrameIntegrityError ''source_frame_uid was reused with a different content digest''), t)"
  using uid_found [OF ok row(1,2)] row(2,3) named other
  by (simp add: create_frame_def reuse_frame_def verify_duplicate_digest_def)

lemma conflicting_frame_overwrites:
  assumes ok: "frames_ok table" and row: "dict_get table k = Some old" "fr_source_frame_uid old = Some uid" "fr_content_digest old \<noteq> None"
    and named: "resolve_frame_identity (fr_source_session_id row) (fr_camera_stream_id row) (fr_frame_sequence row) (fr_content_digest row) = Inr (Some uid, mode)"
    and other: "fr_content_digest row = Some (sha256_bytes image_bytes)" "fr_content_digest old \<noteq> fr_content_digest row"
    and w: "av_writer inp = durable_write_bytes faults token" "av_writer inp path image_bytes files = (Inr (), files')"
    and p: "persist_frame_archive inp row image_bytes (Some path) None (table, files) = (out, table', files'')"
  shows "ao_frame out = None \<and> ao_state out = ARCHIVE_DEGRADED_LIVE_ONLY \<and> table' = table \<and> dict_get files'' path = Some image_bytes
    \<and> (fr_archive_state old = ARCHIVE_DURABLE \<longrightarrow> fr_file_path old = Some path \<longrightarrow> \<not> archive_backed table' files'')"
proof -
  have written: "write_archive_file inp (Some path) [] image_bytes files = ((True, []), files')"
    using w(2) by (simp add: write_archive_file_def)
  have content: "dict_get files' path = Some image_bytes" using durable_writer.written w by metis
  have conflict: "create_frame (av_others inp) (av_fresh_id inp) (with_archive durable (Some path) errors image_bytes row) table
      = (Inl (FrameIntegrityError ''source_frame_uid was reused with a different content digest''), table)" for durable errors
    by (rule conflicting_frame_refused [OF ok row]) (use named other in simp_all)
  have out: "ao_frame out = None \<and> ao_state out = ARCHIVE_DEGRADED_LIVE_ONLY \<and> table' = table \<and> files'' = files'"
    using p
  proof (cases rule: archive_cases)
    case (refused d errors e)
    then show ?thesis using written conflict by auto
  next
    case (kept d errors k frame)
    then show ?thesis using conflict by simp
  qed
  have "\<not> archive_backed table files'" if "fr_archive_state old = ARCHIVE_DURABLE" "fr_file_path old = Some path"
  proof
    assume "archive_backed table files'"
    then have "backed files' old" using row(1) by (auto simp: archive_backed_def)
    then show False using that content other unfolding backed_def by auto
  qed
  then show ?thesis using out content by simp
qed

section \<open>A frame without identity recovers a row of other content\<close>

lemma unnamed_frame_breaks_archive:
  assumes row: "find_existing_frame table None (fr_device_id row) (fr_timestamp row) mode = Some (k, old)" "distinct (dict_keys table)"
    and old: "fr_archive_state old \<noteq> ARCHIVE_DURABLE" "fr_source_frame_uid old = None" "fr_scope old = fr_scope row"
    and unnamed: "resolve_frame_identity (fr_source_session_id row) (fr_camera_stream_id row) (fr_frame_sequence row) (fr_content_digest row) = Inr (None, mode)"
    and other: "fr_content_digest old \<noteq> Some (sha256_bytes image_bytes)"
    and w: "av_writer inp = durable_write_bytes faults token" "av_writer inp path image_bytes files = (Inr (), files')" "av_db_fault inp = None"
    and p: "persist_frame_archive inp row image_bytes (Some path) None (table, files) = (out, table', files'')"
  shows "ao_state out = ARCHIVE_DURABLE \<and> \<not> archive_backed table' files''"
proof -
  have written: "write_archive_file inp (Some path) [] image_bytes files = ((True, []), files')"
    using w(2) by (simp add: write_archive_file_def)
  have content: "dict_get files' path = Some image_bytes" using durable_writer.written w(1,2) by metis
  let ?new = "with_archive True (Some path) [] image_bytes row"
  let ?row' = "apply_archive_recovery (?new\<lparr> fr_source_frame_uid := None, fr_identity_mode := mode \<rparr>) old"
  have found: "dict_get table k = Some old" using existing_found [OF row] by simp
  have "create_frame (av_others inp) (av_fresh_id inp) ?new table = (Inr (k, ?row'), dict_set table k ?row')"
    using unnamed row(1) old(2,3) by (simp add: create_frame_def reuse_frame_def verify_duplicate_digest_def verify_duplicate_scope_def Let_def)
  then have out: "ao_state out = fr_archive_state ?row'" "table' = dict_set table k ?row'" "files'' = files'"
    using p written w(3) by (auto simp: persist_frame_archive_def Let_def)
  have state: "fr_archive_state ?row' = ARCHIVE_DURABLE" "fr_file_path ?row' = Some path" "fr_content_digest ?row' = fr_content_digest old"
    using old(1) by (simp_all add: apply_archive_recovery_def archive_state_defs)
  have "\<not> archive_backed table' files''"
  proof
    assume "archive_backed table' files''"
    then have "backed files' ?row'" unfolding out archive_backed_def by (auto dest: spec [of _ k])
    then show False using state content other unfolding backed_def by auto
  qed
  then show ?thesis using out(1) state(1) by simp
qed

section \<open>Any sequence of archived frames\<close>

record ArchiveOp =
  op_inputs :: ArchiveInputs
  op_row :: FrameRow
  op_image_bytes :: bytes
  op_save_path :: "string option"
  op_initial_error :: "string option"

definition archive_op :: "FrameTable \<times> Files \<Rightarrow> ArchiveOp \<Rightarrow> FrameTable \<times> Files" where
  "archive_op store op =
     snd (persist_frame_archive (op_inputs op) (op_row op) (op_image_bytes op) (op_save_path op) (op_initial_error op) store)"

definition archive_op_ok :: "ArchiveOp \<Rightarrow> bool" where
  "archive_op_ok op \<longleftrightarrow> (\<forall>t. table_step t (av_others (op_inputs op) t))"

lemma archive_op_step: "archive_op_ok op \<Longrightarrow> table_step (fst store) (fst (archive_op store op))"
  using persist_table_step [of "op_inputs op" "op_row op" "op_image_bytes op" "op_save_path op" "op_initial_error op" "fst store" "snd store"]
  by (cases "persist_frame_archive (op_inputs op) (op_row op) (op_image_bytes op) (op_save_path op) (op_initial_error op) store")
    (auto simp: archive_op_def archive_op_ok_def)

interpretation frame_table: guarded_machine archive_op archive_op_ok
    "\<lambda>s. frames_ok (fst s) \<and> keeps_frames start (fst s)" for start
  by unfold_locales (use archive_op_step keeps_frames_trans in \<open>fastforce simp: table_step_def\<close>)

end
