(* ===== verification/ProcessingRelay.thy ===== *)
theory ProcessingRelay
  imports SyncModels
begin

text \<open>
  infrastructure/grpc/processing_relay_client.py: the two relays to the processing service, of single frames and
  of frame sets, with their queue, their worker thread and the counters. The two classes share their methods
  up to the message type, which is the parameter \<open>'f\<close>. Two fields are ghosts: \<open>pq_sent\<close>, the frames the
  request iterators have taken since the relay was last cleared, and \<open>pq_iterators\<close>, the threads that have made a
  call. The gRPC stub and the waiting of the threads are the environment: it may draw from the request iterator of a
  call at any time once the call was made, also after the call has ended, when a consumer of the iterator is still
  waiting for the queue. The experiment recorder, which only observes, is left out.
\<close>

section \<open>Messages\<close>

record RelayFrame =
  rf_device_id :: string
  rf_timestamp_ms :: int
  rf_sequence :: int
  rf_content_type :: string
  rf_image_bytes :: bytes
  rf_file_path :: "string option"

record RelayFrameSetFrame = RelayFrame +
  rf_frame_id :: "int option"

record RelayFrameSet =
  rt_frame_set_id :: int
  rt_anchor_timestamp_ms :: int
  rt_max_delta_ms :: int
  rt_frames :: "RelayFrameSetFrame list"

definition build_raw_relay_frame :: "SyncInputFrame \<Rightarrow> RelayFrame" where
  "build_raw_relay_frame frame =
     \<lparr> rf_device_id = f_device_id frame, rf_timestamp_ms = f_timestamp_ms frame,
       rf_sequence = (case f_sequence frame of None \<Rightarrow> 0 | Some n \<Rightarrow> n), rf_content_type = f_content_type frame,
       rf_image_bytes = f_image_bytes frame, rf_file_path = f_file_path frame \<rparr>"

definition relay_frame_set_frame :: "StoredSyncFrame \<Rightarrow> RelayFrameSetFrame" where
  "relay_frame_set_frame frame =
     \<lparr> rf_device_id = f_device_id frame, rf_timestamp_ms = f_timestamp_ms frame,
       rf_sequence = (case f_sequence frame of None \<Rightarrow> 0 | Some n \<Rightarrow> n), rf_content_type = f_content_type frame,
       rf_image_bytes = f_image_bytes frame, rf_file_path = f_file_path frame, rf_frame_id = f_frame_id frame \<rparr>"

definition build_relay_frame_set :: "SynchronizedFrameSet \<Rightarrow> RelayFrameSet" where
  "build_relay_frame_set fset =
     \<lparr> rt_frame_set_id = fs_frame_set_id fset, rt_anchor_timestamp_ms = fs_anchor_timestamp_ms fset,
       rt_max_delta_ms = fs_max_delta_ms fset,
       rt_frames = map (relay_frame_set_frame \<circ> snd) (sort_key fst (fs_frames fset)) \<rparr>"

section \<open>The service\<close>

text \<open>
  A worker thread, by what it does: it is at the top of its loop, or in a call of the stub, whose request
  iterator takes from the queue. Its stop event is its own. A thread that has ended is gone from \<open>pq_workers\<close>.
\<close>

datatype WorkerPhase = Looping | Calling

record Worker =
  wk_stopping :: bool
  wk_phase :: WorkerPhase

record 'f RelayService =
  pq_queue :: "'f list"
  pq_sent :: "'f list"
  pq_iterators :: "nat set"
  pq_workers :: "(nat, Worker) dict"
  pq_runtime :: "nat option"
  pq_target :: "string option"
  pq_timeout_sec :: "string option"
  pq_enabled :: bool
  pq_enqueued_count :: int
  pq_sent_count :: int
  pq_ack_received_count :: int
  pq_error_count :: int
  pq_last_error :: "string option"
  pq_last_ack_success :: "bool option"
  pq_last_ack_received_count :: "int option"
  pq_last_frame_set_id :: "int option"

definition new_relay_service :: "'f RelayService" where
  "new_relay_service =
     \<lparr> pq_queue = [], pq_sent = [], pq_iterators = {}, pq_workers = [], pq_runtime = None, pq_target = None, pq_timeout_sec = None,
       pq_enabled = False, pq_enqueued_count = 0, pq_sent_count = 0, pq_ack_received_count = 0, pq_error_count = 0,
       pq_last_error = None, pq_last_ack_success = None, pq_last_ack_received_count = None, pq_last_frame_set_id = None \<rparr>"

definition configure_relay :: "string \<Rightarrow> string option \<Rightarrow> bool \<Rightarrow> 'f RelayService \<Rightarrow> 'f RelayService" where
  "configure_relay target timeout_sec enabled r =
     r\<lparr> pq_target := Some target, pq_timeout_sec := timeout_sec, pq_enabled := enabled \<rparr>"

definition enqueue_relay :: "'f \<Rightarrow> 'f RelayService \<Rightarrow> bool \<times> 'f RelayService" where
  "enqueue_relay frame r =
     (if \<not> pq_enabled r then (False, r)
      else (True, r\<lparr> pq_queue := pq_queue r @ [frame], pq_enqueued_count := pq_enqueued_count r + 1 \<rparr>))"

definition enqueue_frame_set :: "RelayFrameSet \<Rightarrow> RelayFrameSet RelayService \<Rightarrow> bool \<times> RelayFrameSet RelayService" where
  "enqueue_frame_set fset r =
     (case enqueue_relay fset r of
        (True, r) \<Rightarrow> (True, r\<lparr> pq_last_frame_set_id := Some (rt_frame_set_id fset) \<rparr>)
      | (False, r) \<Rightarrow> (False, r))"

definition enqueue_synchronized_frame_set ::
  "SynchronizedFrameSet \<Rightarrow> RelayFrameSet RelayService \<Rightarrow> bool \<times> RelayFrameSet RelayService" where
  "enqueue_synchronized_frame_set fset r = enqueue_frame_set (build_relay_frame_set fset) r"

definition worker_alive :: "'f RelayService \<Rightarrow> bool" where
  "worker_alive r = (case pq_runtime r of None \<Rightarrow> False | Some k \<Rightarrow> dict_get (pq_workers r) k \<noteq> None)"

text \<open>\<open>start\<close>: the new thread gets a number no thread has had; whether there is a runtime is returned.\<close>

definition start_relay :: "string \<Rightarrow> nat \<Rightarrow> 'f RelayService \<Rightarrow> bool result \<times> 'f RelayService" where
  "start_relay missing k r =
     (if \<not> pq_enabled r then (Inr False, r)
      else if \<not> truthy (pq_target r) then (Inl (RuntimeError missing), r)
      else if worker_alive r then (Inr True, r)
      else (Inr True, r\<lparr> pq_workers := dict_set (pq_workers r) k \<lparr> wk_stopping = False, wk_phase = Looping \<rparr>,
                         pq_runtime := Some k, pq_last_error := None \<rparr>))"

definition start_raw_relay :: "nat \<Rightarrow> RelayFrame RelayService \<Rightarrow> bool result \<times> RelayFrame RelayService" where
  "start_raw_relay = start_relay ''stream relay target is required''"

definition start_frame_set_relay :: "nat \<Rightarrow> RelayFrameSet RelayService \<Rightarrow> bool result \<times> RelayFrameSet RelayService" where
  "start_frame_set_relay = start_relay ''stream frame-set relay target is required''"

text \<open>\<open>stop\<close> asks the thread to stop; the join may run out of time, the thread goes on until it has drained the queue.\<close>

definition stop_relay :: "'f RelayService \<Rightarrow> 'f RelayService" where
  "stop_relay r =
     (case pq_runtime r of
        None \<Rightarrow> r
      | Some k \<Rightarrow>
          (case dict_get (pq_workers r) k of
             None \<Rightarrow> r\<lparr> pq_runtime := None \<rparr>
           | Some w \<Rightarrow> r\<lparr> pq_workers := dict_set (pq_workers r) k (w\<lparr> wk_stopping := True \<rparr>), pq_runtime := None \<rparr>))"

definition clear_relay :: "'f RelayService \<Rightarrow> 'f RelayService" where
  "clear_relay r =
     (stop_relay r)\<lparr> pq_queue := [], pq_enabled := False, pq_target := None, pq_timeout_sec := None,
       pq_enqueued_count := 0, pq_sent_count := 0, pq_ack_received_count := 0, pq_error_count := 0,
       pq_last_error := None, pq_last_ack_success := None, pq_last_ack_received_count := None,
       pq_last_frame_set_id := None \<rparr>"

record RelayServiceStatus =
  qs_enabled :: bool
  qs_target :: "string option"
  qs_queue_size :: int
  qs_running :: bool
  qs_last_error :: "string option"
  qs_last_ack_success :: "bool option"
  qs_last_ack_received_count :: "int option"
  qs_enqueued_count :: int
  qs_sent_count :: int
  qs_ack_received_count :: int
  qs_error_count :: int

definition relay_status :: "'f RelayService \<Rightarrow> RelayServiceStatus" where
  "relay_status r =
     \<lparr> qs_enabled = pq_enabled r, qs_target = pq_target r, qs_queue_size = int (length (pq_queue r)),
       qs_running = worker_alive r, qs_last_error = pq_last_error r, qs_last_ack_success = pq_last_ack_success r,
       qs_last_ack_received_count = pq_last_ack_received_count r, qs_enqueued_count = pq_enqueued_count r,
       qs_sent_count = pq_sent_count r, qs_ack_received_count = pq_ack_received_count r, qs_error_count = pq_error_count r \<rparr>"

section \<open>The worker\<close>

definition end_worker :: "nat \<Rightarrow> 'f RelayService \<Rightarrow> 'f RelayService" where
  "end_worker k r = r\<lparr> pq_workers := dict_pop (pq_workers r) k \<rparr>"

definition go_on :: "Worker \<Rightarrow> 'f RelayService \<Rightarrow> bool" where
  "go_on w r \<longleftrightarrow> \<not> wk_stopping w \<or> pq_queue r \<noteq> []"

text \<open>The top of \<open>_run\<close>'s loop: the thread ends or calls the stub.\<close>

definition begin_call :: "nat \<Rightarrow> Worker \<Rightarrow> 'f RelayService \<Rightarrow> 'f RelayService" where
  "begin_call k w r =
     (if go_on w r
      then r\<lparr> pq_workers := dict_set (pq_workers r) k (w\<lparr> wk_phase := Calling \<rparr>), pq_iterators := insert k (pq_iterators r) \<rparr>
      else end_worker k r)"

text \<open>The request iterator: the next frame of the queue is counted and handed to the call.\<close>

definition take_frame :: "'f RelayService \<Rightarrow> 'f RelayService" where
  "take_frame r =
     (case pq_queue r of
        [] \<Rightarrow> r
      | frame # rest \<Rightarrow> r\<lparr> pq_queue := rest, pq_sent := pq_sent r @ [frame], pq_sent_count := pq_sent_count r + 1 \<rparr>)"

text \<open>The call returns with an acknowledgement, which ends the thread, or fails, and is made again unless the thread is to stop.\<close>

definition call_acknowledged :: "nat \<Rightarrow> bool \<Rightarrow> int \<Rightarrow> string \<Rightarrow> 'f RelayService \<Rightarrow> 'f RelayService" where
  "call_acknowledged k success received_count message r =
     end_worker k (r\<lparr> pq_last_ack_success := Some success, pq_last_ack_received_count := Some received_count,
       pq_ack_received_count := pq_ack_received_count r + received_count,
       pq_last_error := (if success then None else Some message),
       pq_error_count := pq_error_count r + (if success then 0 else 1) \<rparr>)"

definition call_failed :: "nat \<Rightarrow> Worker \<Rightarrow> string \<Rightarrow> 'f RelayService \<Rightarrow> 'f RelayService" where
  "call_failed k w message r =
     (let r = r\<lparr> pq_last_error := Some message, pq_last_ack_success := Some False, pq_error_count := pq_error_count r + 1 \<rparr>
      in if wk_stopping w then end_worker k r
         else r\<lparr> pq_workers := dict_set (pq_workers r) k (w\<lparr> wk_phase := Looping \<rparr>) \<rparr>)"

datatype 'f RelayServiceEvent =
    ConfigureRelay string "string option" bool
  | EnqueueRelay 'f
  | StartRelay nat
  | StopRelay
  | BeginCall nat
  | TakeFrame nat
  | Acknowledged nat bool int string
  | CallFailed nat string
  | ClearRelay

definition with_worker :: "nat \<Rightarrow> (Worker \<Rightarrow> bool) \<Rightarrow> (Worker \<Rightarrow> 'f RelayService \<Rightarrow> 'f RelayService) \<Rightarrow> 'f RelayService \<Rightarrow> 'f RelayService" where
  "with_worker k ready step r =
     (case dict_get (pq_workers r) k of None \<Rightarrow> r | Some w \<Rightarrow> if ready w then step w r else r)"

fun relay_service_step :: "'f RelayService \<Rightarrow> 'f RelayServiceEvent \<Rightarrow> 'f RelayService" where
  "relay_service_step r (ConfigureRelay target timeout_sec enabled) = configure_relay target timeout_sec enabled r"
| "relay_service_step r (EnqueueRelay frame) = snd (enqueue_relay frame r)"
| "relay_service_step r (StartRelay k) = (if dict_get (pq_workers r) k = None then snd (start_relay [] k r) else r)"
| "relay_service_step r StopRelay = stop_relay r"
| "relay_service_step r (BeginCall k) = with_worker k (\<lambda>w. wk_phase w = Looping) (begin_call k) r"
| "relay_service_step r (TakeFrame k) = (if k \<in> pq_iterators r then take_frame r else r)"
| "relay_service_step r (Acknowledged k success n message) =
     with_worker k (\<lambda>w. wk_phase w = Calling) (\<lambda>w. call_acknowledged k success n message) r"
| "relay_service_step r (CallFailed k message) = with_worker k (\<lambda>w. True) (\<lambda>w. call_failed k w message) r"
| "relay_service_step r ClearRelay = (clear_relay r)\<lparr> pq_sent := [] \<rparr>"

section \<open>Order and counts\<close>

text \<open>The frames a run of events puts into the queue, since it last clears the relay.\<close>

fun accepted_frames :: "'f RelayService \<Rightarrow> 'f RelayServiceEvent list \<Rightarrow> 'f list" where
  "accepted_frames r [] = []"
| "accepted_frames r (e # es) =
     (case e of EnqueueRelay frame \<Rightarrow> if pq_enabled r \<and> ClearRelay \<notin> set es then [frame] else [] | _ \<Rightarrow> [])
     @ accepted_frames (relay_service_step r e) es"

definition flows :: "'f RelayService \<Rightarrow> 'f list \<times> 'f list \<times> int \<times> int" where
  "flows r = (pq_sent r, pq_queue r, pq_sent_count r, pq_enqueued_count r)"

lemma flows_control:
  "flows (configure_relay target timeout_sec enabled r) = flows r" "flows (snd (start_relay missing k r)) = flows r"
  "flows (stop_relay r) = flows r" "flows (begin_call k w r) = flows r"
  "flows (call_acknowledged k success n message r) = flows r" "flows (call_failed k w message r) = flows r"
  by (simp_all add: flows_def configure_relay_def start_relay_def stop_relay_def begin_call_def end_worker_def
      call_acknowledged_def call_failed_def Let_def split: option.split)

lemma flows_with_worker: "(\<And>w. flows (step w r) = flows r) \<Longrightarrow> flows (with_worker k ready step r) = flows r"
  by (simp add: with_worker_def split: option.split)

lemma relay_step_flows:
  assumes "e \<noteq> ClearRelay"
  shows "flows (relay_service_step r e) =
     (case e of
        EnqueueRelay frame \<Rightarrow>
          if pq_enabled r then (pq_sent r, pq_queue r @ [frame], pq_sent_count r, pq_enqueued_count r + 1) else flows r
      | TakeFrame k \<Rightarrow> flows (relay_service_step r (TakeFrame k))
      | _ \<Rightarrow> flows r)"
proof (cases e)
  case (EnqueueRelay frame)
  then show ?thesis by (simp add: enqueue_relay_def) (simp add: flows_def)
qed (use assms in \<open>simp_all add: flows_control flows_with_worker\<close>)

lemma take_flows:
  "flows (relay_service_step r (TakeFrame k)) = flows r
    \<or> (\<exists>frame rest. pq_queue r = frame # rest
        \<and> flows (relay_service_step r (TakeFrame k)) = (pq_sent r @ [frame], rest, pq_sent_count r + 1, pq_enqueued_count r))"
  by (cases "pq_queue r") (simp_all add: take_frame_def flows_def)

definition balanced :: "'f list \<Rightarrow> 'f RelayService \<Rightarrow> 'f RelayService \<Rightarrow> bool" where
  "balanced new r r' \<longleftrightarrow> pq_sent r' @ pq_queue r' = pq_sent r @ pq_queue r @ new
     \<and> pq_sent_count r' - int (length (pq_sent r')) = pq_sent_count r - int (length (pq_sent r))
     \<and> pq_enqueued_count r' = pq_enqueued_count r + int (length new)"

lemma balanced_step:
  assumes "e \<noteq> ClearRelay"
  shows "balanced (case e of EnqueueRelay frame \<Rightarrow> if pq_enabled r then [frame] else [] | _ \<Rightarrow> []) r (relay_service_step r e)"
proof (cases e)
  case (TakeFrame k)
  show ?thesis using take_flows [of r k] unfolding TakeFrame by (auto simp: flows_def balanced_def)
next
  case (EnqueueRelay frame)
  show ?thesis using relay_step_flows [OF assms, of r] unfolding EnqueueRelay by (auto simp: flows_def balanced_def split: if_splits)
qed (use assms relay_step_flows [OF assms, of r] in
    \<open>simp_all only: flows_def balanced_def RelayServiceEvent.case prod.inject, simp_all\<close>)

lemma relay_run_frames: "ClearRelay \<notin> set es \<Longrightarrow> balanced (accepted_frames r es) r (run relay_service_step r es)"
proof (induction es arbitrary: r)
  case (Cons e es)
  then show ?case using balanced_step [of e r] Cons.IH [of "relay_service_step r e"]
    by (cases e) (simp_all add: balanced_def del: relay_service_step.simps)
qed (simp add: balanced_def)

text \<open>What came before a clearing does not count: the relay starts anew.\<close>

lemma accepted_after_clear:
  "accepted_frames r (es @ ClearRelay # fs) = accepted_frames (relay_service_step (run relay_service_step r es) ClearRelay) fs"
  by (induction es arbitrary: r) (simp_all split: RelayServiceEvent.split)

lemma relay_conserves:
  assumes "r = run relay_service_step new_relay_service events"
  shows "pq_sent r @ pq_queue r = accepted_frames new_relay_service events
    \<and> pq_sent_count r = int (length (pq_sent r))
    \<and> pq_enqueued_count r = int (length (accepted_frames new_relay_service events))"
proof (cases "ClearRelay \<in> set events")
  case True
  then obtain es fs where e: "events = es @ ClearRelay # fs" "ClearRelay \<notin> set fs" by (metis split_list_last)
  define c where "c = relay_service_step (run relay_service_step new_relay_service es) ClearRelay"
  have "pq_sent c = []" "pq_queue c = []" "pq_sent_count c = 0" "pq_enqueued_count c = 0"
    by (simp_all add: c_def clear_relay_def)
  moreover have "r = run relay_service_step c fs" using assms e(1) by (simp add: c_def run_append)
  moreover have "accepted_frames new_relay_service events = accepted_frames c fs"
    unfolding e(1) c_def by (rule accepted_after_clear)
  ultimately show ?thesis using relay_run_frames [OF e(2), of c] by (simp add: balanced_def)
next
  case False
  from relay_run_frames [OF False, of new_relay_service] show ?thesis
    by (simp add: assms balanced_def new_relay_service_def)
qed

text \<open>An acknowledgement ends the thread: until the next start no call is made, while frames are still accepted.\<close>

lemma acknowledged_ends_worker:
  assumes "dict_get (pq_workers r) k = Some w" "wk_phase w = Calling" "pq_runtime r = Some k"
  shows "\<not> worker_alive (relay_service_step r (Acknowledged k success n message))
    \<and> pq_enabled (relay_service_step r (Acknowledged k success n message)) = pq_enabled r"
  using assms by (simp add: with_worker_def call_acknowledged_def end_worker_def worker_alive_def dict_get_pop)

text \<open>
  Without a thread and without a start no call is made any more; frames then leave the queue only through the
  iterators of calls made before, and when nothing draws from those either, all that is enqueued stays.
\<close>

definition no_start :: "'f RelayServiceEvent \<Rightarrow> bool" where
  "no_start e \<longleftrightarrow> (case e of StartRelay k \<Rightarrow> False | _ \<Rightarrow> True)"

lemma idle_step:
  assumes "pq_workers r = []" "no_start e"
  shows "pq_workers (relay_service_step r e) = [] \<and> pq_iterators (relay_service_step r e) = pq_iterators r
    \<and> ((\<forall>k. e \<noteq> TakeFrame k) \<and> e \<noteq> ClearRelay \<longrightarrow> pq_sent (relay_service_step r e) = pq_sent r)"
  using assms
  by (cases e) (auto simp: no_start_def configure_relay_def enqueue_relay_def stop_relay_def with_worker_def clear_relay_def
      take_frame_def split: option.split list.split)

lemma idle_run:
  assumes "pq_workers r = []" "list_all no_start es"
  shows "pq_workers (run relay_service_step r es) = [] \<and> pq_iterators (run relay_service_step r es) = pq_iterators r
    \<and> (ClearRelay \<notin> set es \<and> (\<forall>k. TakeFrame k \<notin> set es) \<longrightarrow> pq_sent (run relay_service_step r es) = pq_sent r)"
  using assms
proof (induction es arbitrary: r)
  case (Cons e es)
  then show ?case using idle_step [of r e] by (auto simp del: relay_service_step.simps)
qed simp

lemma acknowledged_relay_stops:
  assumes "pq_workers r = [(k, w)]" "wk_phase w = Calling" "list_all no_start es"
    and "r1 = relay_service_step r (Acknowledged k success n message)"
    and "ClearRelay \<notin> set es" "\<And>k. TakeFrame k \<notin> set es"
  shows "pq_sent (run relay_service_step r1 es) = pq_sent r
    \<and> pq_queue (run relay_service_step r1 es) = pq_queue r @ accepted_frames r1 es"
proof -
  have r1: "pq_workers r1 = []" "pq_sent r1 = pq_sent r" "pq_queue r1 = pq_queue r"
    using assms(1,2) by (simp_all add: assms(4) with_worker_def call_acknowledged_def end_worker_def)
  show ?thesis using idle_run [OF r1(1) assms(3)] relay_run_frames [OF assms(5), of r1] r1 assms(5,6) by (simp add: balanced_def)
qed

end
