(* ===== verification/StreamState.thy ===== *)
theory StreamState
  imports SyncModels
begin

text \<open>
  services/stream/state.py: the latest frame and the running counts of each camera. Each method is one step
  under the lock. The entry of a device is a summary of the frames of that device alone.
\<close>

section \<open>Cameras\<close>

record StreamFrameState =
  sf_frame_id :: "int option"
  sf_device_id :: string
  sf_timestamp :: int
  sf_sequence :: "int option"
  sf_file_path :: "string option"
  sf_content_type :: string
  sf_image_bytes_size :: int
  sf_received_at_ms :: int
  sf_archive_state :: string
  sf_archive_error :: "string option"

record CameraStreamState =
  ca_device_id :: string
  ca_latest_frame :: "StreamFrameState option"
  ca_frame_count :: int
  ca_sequence_gap_count :: int
  ca_last_sequence :: "int option"
  ca_recent_timestamps_ms :: "int list"
  ca_recent_received_at_ms :: "int list"

type_synonym StreamState = "(string, CameraStreamState) dict"

definition RECENT_LIMIT :: nat where "RECENT_LIMIT = 300"

definition new_camera_state :: "string \<Rightarrow> CameraStreamState" where
  "new_camera_state device_id =
     \<lparr> ca_device_id = device_id, ca_latest_frame = None, ca_frame_count = 0, ca_sequence_gap_count = 0,
       ca_last_sequence = None, ca_recent_timestamps_ms = [], ca_recent_received_at_ms = [] \<rparr>"

section \<open>Operations\<close>

text \<open>The frame arrives with \<open>sf_received_at_ms\<close> resolved: the caller's value, or the clock's.\<close>

definition missed_sequences :: "int option \<Rightarrow> int option \<Rightarrow> int" where
  "missed_sequences last_sequence sequence =
     (case (last_sequence, sequence) of
        (Some l, Some n) \<Rightarrow> if l + 1 < n then n - l - 1 else 0
      | _ \<Rightarrow> 0)"

definition note_frame :: "StreamFrameState \<Rightarrow> CameraStreamState \<Rightarrow> CameraStreamState" where
  "note_frame frame camera =
     camera\<lparr> ca_sequence_gap_count := ca_sequence_gap_count camera + missed_sequences (ca_last_sequence camera) (sf_sequence frame),
             ca_last_sequence := (if sf_sequence frame \<noteq> None then sf_sequence frame else ca_last_sequence camera),
             ca_frame_count := ca_frame_count camera + 1,
             ca_recent_timestamps_ms := deque_append RECENT_LIMIT (ca_recent_timestamps_ms camera) (sf_timestamp frame),
             ca_recent_received_at_ms := deque_append RECENT_LIMIT (ca_recent_received_at_ms camera) (sf_received_at_ms frame),
             ca_latest_frame := Some frame \<rparr>"

definition update_frame :: "StreamFrameState \<Rightarrow> StreamState \<Rightarrow> CameraStreamState \<times> StreamState" where
  "update_frame frame state =
     (let camera = note_frame frame (case dict_get state (sf_device_id frame) of
                                       None \<Rightarrow> new_camera_state (sf_device_id frame) | Some c \<Rightarrow> c)
      in (camera, dict_set state (sf_device_id frame) camera))"

text \<open>The lock makes a copy as good as the camera itself.\<close>

definition get_camera :: "string \<Rightarrow> StreamState \<Rightarrow> CameraStreamState option" where
  "get_camera device_id state = dict_get state device_id"

definition list_cameras :: "StreamState \<Rightarrow> CameraStreamState list" where
  "list_cameras state = dict_values state"

definition clear_stream_state :: "StreamState \<Rightarrow> StreamState" where
  "clear_stream_state state = []"

section \<open>What a camera's entry says\<close>

text \<open>The entry of a device after a list of frames, told from that device's frames alone.\<close>

definition frames_of :: "string \<Rightarrow> StreamFrameState list \<Rightarrow> StreamFrameState list" where
  "frames_of device_id frames = filter (\<lambda>f. sf_device_id f = device_id) frames"

text \<open>The numbers between one sequence number and the next, counted.\<close>

definition gaps :: "int list \<Rightarrow> int" where
  "gaps ns = (\<Sum>(l, n) \<leftarrow> zip ns (tl ns). int (card {l<..<n}))"

definition sequences :: "StreamFrameState list \<Rightarrow> int list" where
  "sequences frames = List.map_filter sf_sequence frames"

definition camera_summary :: "string \<Rightarrow> StreamFrameState list \<Rightarrow> CameraStreamState option" where
  "camera_summary device_id frames =
     (if frames = [] then None
      else Some \<lparr> ca_device_id = device_id, ca_latest_frame = Some (last frames), ca_frame_count = int (length frames),
                  ca_sequence_gap_count = gaps (sequences frames),
                  ca_last_sequence = (if sequences frames = [] then None else Some (last (sequences frames))),
                  ca_recent_timestamps_ms = deque_of RECENT_LIMIT (map sf_timestamp frames),
                  ca_recent_received_at_ms = deque_of RECENT_LIMIT (map sf_received_at_ms frames) \<rparr>)"

lemma deque_of_append: "deque_append n (deque_of n xs) x = deque_of n (xs @ [x])"
  by (cases "length xs \<le> n") (simp_all add: deque_append_def deque_of_def Suc_diff_le)

lemma sequences_snoc: "sequences (frames @ [f]) = sequences frames @ (case sf_sequence f of None \<Rightarrow> [] | Some n \<Rightarrow> [n])"
  by (simp add: sequences_def map_filter_def split: option.split)

lemma gaps_Nil [simp]: "gaps [] = 0" "gaps [n] = 0"
  by (simp_all add: gaps_def)

lemma missed_between: "missed_sequences (Some l) (Some n) = int (card {l<..<n})"
  by (simp add: missed_sequences_def)

lemma gaps_snoc: "gaps (ns @ [n]) = gaps ns + (if ns = [] then 0 else missed_sequences (Some (last ns)) (Some n))"
proof (induction ns)
  case (Cons a ns)
  then show ?case by (cases ns) (simp_all add: gaps_def missed_between)
qed simp

lemma missed_sequences_None [simp]: "missed_sequences l None = 0" "missed_sequences None s = 0"
  by (simp_all add: missed_sequences_def split: option.split)

lemma note_summary:
  "note_frame f (case camera_summary d frames of None \<Rightarrow> new_camera_state d | Some c \<Rightarrow> c) = the (camera_summary d (frames @ [f]))"
proof (cases "frames = []")
  case True
  then show ?thesis
    by (cases "sf_sequence f")
      (simp_all add: camera_summary_def note_frame_def new_camera_state_def sequences_def map_filter_def deque_append_def)
next
  case False
  then show ?thesis
    by (cases "sf_sequence f")
      (simp_all add: camera_summary_def note_frame_def sequences_snoc gaps_snoc deque_of_append)
qed

lemma frames_of_simps [simp]: "frames_of d [] = []" "camera_summary d [] = None"
  "frames_of d (frames @ [f]) = frames_of d frames @ (if sf_device_id f = d then [f] else [])"
  by (simp_all add: frames_of_def camera_summary_def)

lemma camera_summary_snoc: "camera_summary d (frames @ [f]) = Some (the (camera_summary d (frames @ [f])))"
  by (simp add: camera_summary_def)

lemma stream_state_summary:
  "get_camera device_id (run (\<lambda>s f. snd (update_frame f s)) [] frames) = camera_summary device_id (frames_of device_id frames)"
proof (induction frames rule: rev_induct)
  case (snoc f frames)
  show ?case
  proof (cases "sf_device_id f = device_id")
    case True
    then have "get_camera device_id (run (\<lambda>s f. snd (update_frame f s)) [] (frames @ [f]))
        = Some (note_frame f (case camera_summary device_id (frames_of device_id frames) of None \<Rightarrow> new_camera_state device_id | Some c \<Rightarrow> c))"
      using snoc True by (simp add: run_append update_frame_def get_camera_def Let_def cong: option.case_cong)
    then show ?thesis using True camera_summary_snoc note_summary by simp
  next
    case False
    then show ?thesis using snoc by (simp add: run_append update_frame_def get_camera_def Let_def)
  qed
qed (simp add: get_camera_def)

text \<open>The deques stay short and the count of gaps never falls.\<close>

lemma gaps_nonneg: "0 \<le> gaps ns"
  unfolding gaps_def by (rule sum_list_nonneg) auto

lemma summary_bounds:
  assumes "camera_summary d frames = Some c"
  shows "length (ca_recent_timestamps_ms c) \<le> 300 \<and> length (ca_recent_received_at_ms c) \<le> 300
    \<and> 0 \<le> ca_sequence_gap_count c \<and> int (length (ca_recent_timestamps_ms c)) \<le> ca_frame_count c"
  using assms gaps_nonneg deque_of_length [of RECENT_LIMIT]
  by (auto simp: camera_summary_def RECENT_LIMIT_def deque_of_def split: if_splits)

end
