(* ===== verification/IngestPipeline.thy ===== *)
theory IngestPipeline
  imports FrameArchive ProcessingRelay StreamState ManifestStore SessionIdentity
begin

text \<open>
  services/ingest/ingest_pipeline.py with core/relay.py: a frame's way through the synchronizer, the relays, the
  archive, the stream state and the ledger. \<open>IngestWorld\<close> (iw_) holds the services the call works on,
  \<open>IngestInputs\<close> (in_) what it meets; before the n-th access to a shared service the other threads of the
  program have changed the world by \<open>in_others inp n\<close>. The experiment recorder, which only observes, is left out.
\<close>

section \<open>Relay modes\<close>

definition STREAM_RELAY_MODE_OFF :: string where "STREAM_RELAY_MODE_OFF = ''off''"
definition STREAM_RELAY_MODE_RAW :: string where "STREAM_RELAY_MODE_RAW = ''raw''"
definition STREAM_RELAY_MODE_FRAME_SET :: string where "STREAM_RELAY_MODE_FRAME_SET = ''frame_set''"

lemmas relay_mode_defs = STREAM_RELAY_MODE_OFF_def STREAM_RELAY_MODE_RAW_def STREAM_RELAY_MODE_FRAME_SET_def

definition VALID_STREAM_RELAY_MODES :: "string list" where
  "VALID_STREAM_RELAY_MODES = [STREAM_RELAY_MODE_OFF, STREAM_RELAY_MODE_RAW, STREAM_RELAY_MODE_FRAME_SET]"

definition normalize_stream_relay_mode :: "string \<Rightarrow> string result" where
  "normalize_stream_relay_mode mode =
     (let normalized = lower (strip mode)
      in if normalized \<in> set VALID_STREAM_RELAY_MODES then Inr normalized
         else Inl (RuntimeError ''STREAM_RELAY_MODE must be one of: off, raw, frame_set''))"

definition enabled_relay_mode :: "bool \<Rightarrow> bool \<Rightarrow> string" where
  "enabled_relay_mode raw_enabled frame_set_enabled =
     (if frame_set_enabled then STREAM_RELAY_MODE_FRAME_SET
      else if raw_enabled then STREAM_RELAY_MODE_RAW else STREAM_RELAY_MODE_OFF)"

definition resolve_stream_relay_mode :: "string \<Rightarrow> bool \<Rightarrow> bool \<Rightarrow> string result" where
  "resolve_stream_relay_mode configured_mode raw_enabled frame_set_enabled =
     (if strip configured_mode \<noteq> [] then normalize_stream_relay_mode configured_mode
      else Inr (enabled_relay_mode raw_enabled frame_set_enabled))"

definition resolve_ingest_relay_mode ::
  "string option \<Rightarrow> RelayFrame RelayService \<Rightarrow> RelayFrameSet RelayService \<Rightarrow> string result" where
  "resolve_ingest_relay_mode relay_mode raw sets =
     (case relay_mode of
        Some mode \<Rightarrow> normalize_stream_relay_mode mode
      | None \<Rightarrow> Inr (enabled_relay_mode (pq_enabled raw) (pq_enabled sets)))"

section \<open>The frame in memory\<close>

definition no_scope :: FrameScope where
  "no_scope = \<lparr> fo_tenant_id = None, fo_site_id = None, fo_capture_session_id = None, fo_processing_job_id = None,
     fo_profile_digest = None, fo_authorized_subject = None, fo_session_token_jti = None,
     fo_authorized_camera_id = None, fo_camera_claim_id = None \<rparr>"

definition authorization_scope_fields :: "IngestScope option \<Rightarrow> string option \<Rightarrow> FrameScope" where
  "authorization_scope_fields scope camera_id =
     (case scope of
        None \<Rightarrow> no_scope
      | Some (SessionScope s) \<Rightarrow>
          \<lparr> fo_tenant_id = Some (ss_tenant_id s), fo_site_id = Some (ss_site_id s),
            fo_capture_session_id = Some (ss_capture_session_id s), fo_processing_job_id = Some (ss_processing_job_id s),
            fo_profile_digest = Some (ss_profile_digest s), fo_authorized_subject = Some (ss_authorized_subject s),
            fo_session_token_jti = Some (ss_token_jti s), fo_authorized_camera_id = camera_id, fo_camera_claim_id = None \<rparr>
      | Some (CameraScope s) \<Rightarrow>
          \<lparr> fo_tenant_id = Some (ci_tenant_id s), fo_site_id = Some (ci_site_id s),
            fo_capture_session_id = Some (ci_capture_session_id s), fo_processing_job_id = Some (ci_processing_job_id s),
            fo_profile_digest = Some (ci_profile_digest s), fo_authorized_subject = Some (ci_authorized_subject s),
            fo_session_token_jti = Some (ci_token_jti s), fo_authorized_camera_id = camera_id,
            fo_camera_claim_id = Some (ci_camera_claim_id s) \<rparr>)"

text \<open>The arguments of \<open>ingest_frame\<close>.\<close>

record IngestCall =
  ic_device_id :: string
  ic_timestamp_ms :: int
  ic_image_bytes :: bytes
  ic_sequence :: "int option"
  ic_content_type :: string
  ic_filename :: "string option"
  ic_session_id :: "string option"
  ic_camera_stream_id :: "string option"
  ic_relay_mode :: "string option"
  ic_received_at_ms :: "int option"
  ic_capture_metadata :: "(string \<times> json) list option"
  ic_authorization_scope :: "IngestScope option"

definition target_filename :: "IngestCall \<Rightarrow> string" where
  "target_filename c = str_or (ic_filename c) (ic_device_id c @ ''_'' @ py_str_int (ic_timestamp_ms c) @ ''.jpg'')"

definition resolved_camera_stream_id :: "IngestCall \<Rightarrow> string option result" where
  "resolved_camera_stream_id c =
     (if truthy (ic_session_id c) \<and> ic_sequence c \<noteq> None
      then map_sum id Some (canonical_camera_stream_id (ic_device_id c) (ic_camera_stream_id c))
      else Inr (ic_camera_stream_id c))"

definition memory_frame :: "int \<Rightarrow> IngestCall \<Rightarrow> SyncInputFrame result" where
  "memory_frame now_ms c =
     (let digest = sha256_bytes (ic_image_bytes c);
          scope = authorization_scope_fields (ic_authorization_scope c) (ic_camera_stream_id c)
      in bind_result (resolved_camera_stream_id c) (\<lambda>camera_stream_id.
         bind_result (resolve_frame_identity (ic_session_id c) camera_stream_id (ic_sequence c) (Some digest)) (\<lambda>(uid, mode).
         Inr \<lparr> f_frame_id = None, f_device_id = ic_device_id c, f_timestamp_ms = ic_timestamp_ms c,
               f_sequence = ic_sequence c, f_content_type = ic_content_type c, f_image_bytes = ic_image_bytes c,
               f_file_path = None, f_source_session_id = ic_session_id c, f_camera_stream_id = camera_stream_id,
               f_source_frame_uid = uid, f_content_digest = Some digest, f_identity_mode = mode,
               f_archive_state = ARCHIVE_PENDING, f_archive_error = None,
               f_received_at_ms = Some (case ic_received_at_ms c of Some t \<Rightarrow> t | None \<Rightarrow> now_ms),
               f_capture_config_digest = Some (build_capture_config_digest (ic_capture_metadata c)),
               f_capture_metadata_json = Some (canonical_json (JObj (case ic_capture_metadata c of None \<Rightarrow> [] | Some m \<Rightarrow> m))),
               f_tenant_id = fo_tenant_id scope, f_site_id = fo_site_id scope,
               f_capture_session_id = fo_capture_session_id scope, f_processing_job_id = fo_processing_job_id scope,
               f_profile_digest = fo_profile_digest scope, f_authorized_subject = fo_authorized_subject scope,
               f_session_token_jti = fo_session_token_jti scope, f_authorized_camera_id = fo_authorized_camera_id scope,
               f_camera_claim_id = fo_camera_claim_id scope \<rparr>)))"

text \<open>The columns of the row the archive is asked to store.\<close>

definition frame_row :: "FrameScope \<Rightarrow> SyncInputFrame \<Rightarrow> FrameRow" where
  "frame_row scope frame =
     \<lparr> fr_device_id = f_device_id frame, fr_timestamp = f_timestamp_ms frame, fr_file_path = None,
       fr_source_session_id = f_source_session_id frame, fr_camera_stream_id = f_camera_stream_id frame,
       fr_frame_sequence = f_sequence frame, fr_source_frame_uid = None, fr_content_digest = f_content_digest frame,
       fr_identity_mode = IDENTITY_MODE_LEGACY, fr_archive_state = ARCHIVE_DURABLE, fr_archive_error = None,
       fr_file_size = None, fr_content_type = Some (f_content_type frame), fr_received_at_ms = f_received_at_ms frame,
       fr_capture_config_digest = f_capture_config_digest frame, fr_capture_metadata_json = f_capture_metadata_json frame,
       fr_scope = scope \<rparr>"

section \<open>The world and the inputs\<close>

record IngestWorld =
  iw_sync :: StreamSyncService
  iw_ledger :: ManifestDb
  iw_frames :: FrameTable
  iw_files :: Files
  iw_state :: StreamState
  iw_raw :: "RelayFrame RelayService"
  iw_sets :: "RelayFrameSet RelayService"

text \<open>
  What one call meets: the clocks, the path builder, the archive's inputs, an exception of the database at the
  manifest or at the projection, and what other threads do before each of its steps.
\<close>

record IngestInputs =
  in_now_ms :: int
  in_match_ms :: int
  in_fresh_uuid :: string
  in_build_path :: "string \<Rightarrow> int \<Rightarrow> string \<Rightarrow> string option \<Rightarrow> string result"
  in_archive :: ArchiveInputs
  in_state_ms :: int
  in_manifest_ms :: int
  in_manifest_others :: "ManifestDb \<Rightarrow> ManifestDb"
  in_manifest_fault :: "exn option"
  in_projection_ms :: int
  in_projection_fault :: "exn option"
  in_others :: "nat \<Rightarrow> IngestWorld \<Rightarrow> IngestWorld"

section \<open>Steps\<close>

definition archive_frame :: "IngestInputs \<Rightarrow> IngestCall \<Rightarrow> SyncInputFrame \<Rightarrow> IngestWorld \<Rightarrow> FrameArchiveOutcome \<times> IngestWorld" where
  "archive_frame inp c frame w =
     (let (save_path, path_error) =
            (case in_build_path inp (ic_device_id c) (ic_timestamp_ms c) (target_filename c) (ic_session_id c) of
               Inr path \<Rightarrow> (Some path, None)
             | Inl e \<Rightarrow> (None, Some (''archive path failed: '' @ av_exn_text (in_archive inp) e)));
          scope = authorization_scope_fields (ic_authorization_scope c) (ic_camera_stream_id c);
          (out, frames, files) = persist_frame_archive (in_archive inp) (frame_row scope frame) (ic_image_bytes c)
                                   save_path path_error (iw_frames w, iw_files w)
      in (out, w\<lparr> iw_frames := frames, iw_files := files \<rparr>))"

definition stream_frame :: "int \<Rightarrow> IngestCall \<Rightarrow> FrameArchiveOutcome \<Rightarrow> StreamFrameState" where
  "stream_frame state_ms c out =
     \<lparr> sf_frame_id = map_option fst (ao_frame out), sf_device_id = ic_device_id c, sf_timestamp = ic_timestamp_ms c,
       sf_sequence = ic_sequence c, sf_file_path = ao_file_path out, sf_content_type = ic_content_type c,
       sf_image_bytes_size = int (length (ic_image_bytes c)),
       sf_received_at_ms = (case ic_received_at_ms c of Some t \<Rightarrow> t | None \<Rightarrow> state_ms),
       sf_archive_state = ao_state out, sf_archive_error = ao_error out \<rparr>"

text \<open>Whether the manifest was stored, and the archive state and error the frame set is left with.\<close>

definition store_manifest :: "IngestInputs \<Rightarrow> SynchronizedFrameSet \<Rightarrow> IngestWorld \<Rightarrow> (bool \<times> string \<times> string option) \<times> IngestWorld" where
  "store_manifest inp fset w =
     (if fs_identity_mode fset = IDENTITY_MODE_V2 \<and> fs_archive_state fset = ARCHIVE_PENDING
      then (case (case in_manifest_fault inp of Some e \<Rightarrow> (Inl e, iw_ledger w)
                  | None \<Rightarrow> persist_frame_set_manifest (in_manifest_others inp) (in_manifest_ms inp) fset (iw_ledger w)) of
              (Inr persisted, db) \<Rightarrow> ((persisted, ARCHIVE_DURABLE, None), w\<lparr> iw_ledger := db \<rparr>)
            | (Inl e, db) \<Rightarrow>
                ((False, ARCHIVE_DEGRADED_LIVE_ONLY, Some (''manifest archive failed: '' @ av_exn_text (in_archive inp) e)),
                 w\<lparr> iw_ledger := db \<rparr>))
      else ((False, if fs_archive_state fset = ARCHIVE_PENDING then ARCHIVE_DURABLE else fs_archive_state fset,
             fs_archive_error fset), w))"

definition legacy_relay_outcome :: "string \<Rightarrow> bool \<Rightarrow> bool \<Rightarrow> string \<times> string option" where
  "legacy_relay_outcome mode frame_set_enqueued raw_enqueued =
     (if mode = STREAM_RELAY_MODE_FRAME_SET \<and> frame_set_enqueued then (''FRAME_SET_ENQUEUED'', None)
      else if mode = STREAM_RELAY_MODE_RAW \<and> raw_enqueued then (''RAW_ENQUEUED'', None)
      else if mode = STREAM_RELAY_MODE_FRAME_SET then (''NOT_ENQUEUED'', Some ''FRAME_SET_RELAY_NOT_ENQUEUED'')
      else if mode = STREAM_RELAY_MODE_RAW then (''NOT_ENQUEUED'', Some ''LEGACY_RAW_RELAY_NOT_ENQUEUED'')
      else (''NOT_ENQUEUED'', None))"

definition project_delivery ::
  "IngestInputs \<Rightarrow> SynchronizedFrameSet \<Rightarrow> string \<Rightarrow> string \<times> string option \<Rightarrow> IngestWorld \<Rightarrow> IngestWorld" where
  "project_delivery inp fset state relay w =
     (if truthy (fs_frame_set_uid fset) \<and> state = ARCHIVE_DURABLE \<and> in_projection_fault inp = None
      then w\<lparr> iw_ledger := snd (update_delivery_projection (in_projection_ms inp) (the (fs_frame_set_uid fset))
                (Some state) None (Some (fst relay)) (snd relay) (iw_ledger w)) \<rparr>
      else w)"

section \<open>Ingesting a frame\<close>

record IngestResult =
  ir_frame :: "(int \<times> FrameRow) option"
  ir_camera_state :: CameraStreamState
  ir_archive_state :: string
  ir_archive_error :: "string option"
  ir_relay_enqueued :: bool
  ir_relay_mode :: string
  ir_synchronized_frame_set :: "SynchronizedFrameSet option"
  ir_manifest_persisted :: bool
  ir_frame_set_relay_enqueued :: bool

text \<open>
  The call up to the live relay of a frame set: the frame in memory, the relay's mode, what the synchronizer
  made of it and whether it was enqueued.
\<close>

definition live_part :: "IngestInputs \<Rightarrow> IngestCall \<Rightarrow> IngestWorld
    \<Rightarrow> (SyncInputFrame \<times> string \<times> SynchronizedFrameSet option \<times> bool) result \<times> IngestWorld" where
  "live_part inp c w =
     (case memory_frame (in_now_ms inp) c of
        Inl e \<Rightarrow> (Inl e, w)
      | Inr frame \<Rightarrow>
          (let w = in_others inp 0 w
           in case resolve_ingest_relay_mode (ic_relay_mode c) (iw_raw w) (iw_sets w) of
                Inl e \<Rightarrow> (Inl e, w)
              | Inr mode \<Rightarrow>
                  (let w = in_others inp 1 w
                   in case handle_frame (in_match_ms inp) (in_fresh_uuid inp) (iw_sync w) frame of
                        (Inl e, sync) \<Rightarrow> (Inl e, w\<lparr> iw_sync := sync \<rparr>)
                      | (Inr None, sync) \<Rightarrow> (Inr (frame, mode, None, False), w\<lparr> iw_sync := sync \<rparr>)
                      | (Inr (Some fset), sync) \<Rightarrow>
                          (let w = w\<lparr> iw_sync := sync \<rparr>
                           in if mode = STREAM_RELAY_MODE_FRAME_SET
                              then (let w = in_others inp 2 w;
                                        (enqueued, sets) = enqueue_synchronized_frame_set fset (iw_sets w)
                                    in (Inr (frame, mode, Some fset, enqueued), w\<lparr> iw_sets := sets \<rparr>))
                              else (Inr (frame, mode, Some fset, False), w)))))"

text \<open>The frame set's manifest, its archive state and its delivery projection.\<close>

definition finish_frame_set ::
  "IngestInputs \<Rightarrow> string \<Rightarrow> bool \<Rightarrow> bool \<Rightarrow> SynchronizedFrameSet \<Rightarrow> IngestWorld
   \<Rightarrow> (SynchronizedFrameSet \<times> bool) \<times> IngestWorld" where
  "finish_frame_set inp mode frame_set_enqueued raw_enqueued fset w =
     (let ((persisted, state, error), w) = store_manifest inp fset (in_others inp 6 w);
          w = in_others inp 7 w;
          (fset, sync) = service_finalize_archive_state (iw_sync w) fset state error;
          w = in_others inp 8 (w\<lparr> iw_sync := sync \<rparr>)
      in ((fset, persisted), project_delivery inp fset state
            (legacy_relay_outcome mode frame_set_enqueued raw_enqueued) w))"

definition archive_part :: "IngestInputs \<Rightarrow> IngestCall
    \<Rightarrow> SyncInputFrame \<times> string \<times> SynchronizedFrameSet option \<times> bool \<Rightarrow> IngestWorld \<Rightarrow> IngestResult \<times> IngestWorld" where
  "archive_part inp c live w =
     (case live of (frame, mode, fset, frame_set_enqueued) \<Rightarrow>
        (let (out, w) = archive_frame inp c frame (in_others inp 3 w);
             frame_id = map_option fst (ao_frame out);
             w = in_others inp 4 w;
             (fset, sync) = finalize_frame_archive (iw_sync w) frame fset frame_id (ao_file_path out) (ao_state out) (ao_error out);
             w = in_others inp 5 (w\<lparr> iw_sync := sync \<rparr>);
             (camera, state) = update_frame (stream_frame (in_state_ms inp) c out) (iw_state w);
             archived = frame\<lparr> f_frame_id := frame_id, f_file_path := ao_file_path out,
                               f_archive_state := ao_state out, f_archive_error := ao_error out \<rparr>;
             (raw_enqueued, raw) = (if mode = STREAM_RELAY_MODE_RAW
                                    then enqueue_relay (build_raw_relay_frame archived) (iw_raw w) else (False, iw_raw w));
             w = w\<lparr> iw_state := state, iw_raw := raw \<rparr>;
             ((fset, persisted), w) = (case fset of
                None \<Rightarrow> ((None, False), w)
              | Some x \<Rightarrow> (let ((x, persisted), w) = finish_frame_set inp mode frame_set_enqueued raw_enqueued x w
                           in ((Some x, persisted), w)))
         in (\<lparr> ir_frame = ao_frame out, ir_camera_state = camera,
               ir_archive_state = (case fset of Some x \<Rightarrow> fs_archive_state x | None \<Rightarrow> ao_state out),
               ir_archive_error = (case fset of Some x \<Rightarrow> fs_archive_error x | None \<Rightarrow> ao_error out),
               ir_relay_enqueued = raw_enqueued, ir_relay_mode = mode, ir_synchronized_frame_set = fset,
               ir_manifest_persisted = persisted, ir_frame_set_relay_enqueued = frame_set_enqueued \<rparr>, w)))"

definition ingest_frame :: "IngestInputs \<Rightarrow> IngestCall \<Rightarrow> IngestWorld \<Rightarrow> IngestResult result \<times> IngestWorld" where
  "ingest_frame inp c w =
     (case live_part inp c w of
        (Inl e, w) \<Rightarrow> (Inl e, w)
      | (Inr live, w) \<Rightarrow> map_prod Inr id (archive_part inp c live w))"

section \<open>The live part does not depend on the archive\<close>

text \<open>Inputs that differ only in what the archive and the database do.\<close>

definition same_live_inputs :: "IngestInputs \<Rightarrow> IngestInputs \<Rightarrow> bool" where
  "same_live_inputs inp inp' \<longleftrightarrow> in_now_ms inp' = in_now_ms inp \<and> in_match_ms inp' = in_match_ms inp
     \<and> in_fresh_uuid inp' = in_fresh_uuid inp \<and> in_others inp' = in_others inp"

lemma live_part_same: "same_live_inputs inp inp' \<Longrightarrow> live_part inp' c w = live_part inp c w"
proof -
  assume "same_live_inputs inp inp'"
  then have e: "in_now_ms inp' = in_now_ms inp" "in_match_ms inp' = in_match_ms inp"
      "in_fresh_uuid inp' = in_fresh_uuid inp" "in_others inp' = in_others inp"
    by (simp_all add: same_live_inputs_def)
  show ?thesis unfolding live_part_def e ..
qed

lemma archive_part_live:
  "ir_relay_mode (fst (archive_part inp c (frame, mode, fset, enqueued) w)) = mode
   \<and> ir_frame_set_relay_enqueued (fst (archive_part inp c (frame, mode, fset, enqueued) w)) = enqueued"
  by (simp add: archive_part_def Let_def split: prod.split)

lemma ingest_cases:
  obtains (failed) e w' where "live_part inp c w = (Inl e, w')" "ingest_frame inp c w = (Inl e, w')"
    | (ingested) frame mode fset enqueued w1 where "live_part inp c w = (Inr (frame, mode, fset, enqueued), w1)"
        "ingest_frame inp c w = map_prod Inr id (archive_part inp c (frame, mode, fset, enqueued) w1)"
proof (cases "fst (live_part inp c w)")
  case (Inl e)
  then show ?thesis using failed [of e "snd (live_part inp c w)"] by (cases "live_part inp c w") (simp add: ingest_frame_def)
next
  case (Inr live)
  then show ?thesis using ingested [of "fst live" "fst (snd live)" "fst (snd (snd live))" "snd (snd (snd live))" "snd (live_part inp c w)"]
    by (cases "live_part inp c w") (simp add: ingest_frame_def)
qed

lemma archive_never_stops_live_lemma:
  assumes "same_live_inputs inp inp'"
  shows "case fst (ingest_frame inp c w) of
      Inl e \<Rightarrow> fst (ingest_frame inp' c w) = Inl e
    | Inr r \<Rightarrow> \<exists>r'. fst (ingest_frame inp' c w) = Inr r' \<and> ir_relay_mode r' = ir_relay_mode r
        \<and> ir_frame_set_relay_enqueued r' = ir_frame_set_relay_enqueued r"
proof (cases rule: ingest_cases [of inp c w])
  case (failed e w')
  then show ?thesis using live_part_same [OF assms, of c w] by (simp add: ingest_frame_def)
next
  case (ingested frame mode fset enqueued w1)
  then show ?thesis using live_part_same [OF assms, of c w] archive_part_live by (simp add: ingest_frame_def)
qed

lemma live_part_archive:
  assumes "in_others inp = (\<lambda>_ w. w)" "live_part inp c w = (r, w')"
  shows "iw_frames w' = iw_frames w \<and> iw_files w' = iw_files w \<and> iw_ledger w' = iw_ledger w \<and> iw_state w' = iw_state w
    \<and> iw_raw w' = iw_raw w \<and> (isl r \<longrightarrow> iw_sets w' = iw_sets w)"
  using assms by (auto simp: live_part_def Let_def split: sum.splits option.splits prod.splits if_splits)

section \<open>The archive state of a frame set\<close>

definition unsettled :: "SynchronizedFrameSet \<Rightarrow> bool" where
  "unsettled fset \<longleftrightarrow> fs_archive_state fset = ARCHIVE_PENDING \<or> fs_archive_state fset = ARCHIVE_DEGRADED_LIVE_ONLY"

lemma archive_state_of_cases: "archive_state_of fs = ARCHIVE_PENDING \<or> archive_state_of fs = ARCHIVE_DEGRADED_LIVE_ONLY"
  by (simp add: archive_state_of_def)

lemma build_unsettled: "unsettled (build_frame_set mt ident sel span t uid payload)"
  using archive_state_of_cases by (simp add: build_frame_set_def unsettled_def split: prod.split)

lemma try_match_unsettled:
  assumes "try_match t u (mt, m) trigger = (Inr (Some fset), mt', m')"
  shows "unsettled fset"
proof -
  have emit: "unsettled x" if "emit_frame_set t u ident sel span (mt0, m0) = (Inr (Some x), mt1, m1)" for ident sel span mt0 m0 x mt1 m1
    using that by (auto simp: emit_frame_set_def Let_def build_unsettled split: sum.splits)
  show ?thesis
    using assms by (auto simp: try_match_def split: if_splits sum.splits option.splits prod.splits exn.splits dest: emit)
qed

lemma handle_unsettled:
  assumes "handle_frame t u s frame = (Inr (Some fset), s')"
  shows "unsettled fset"
  using assms by (auto simp: handle_frame_def Let_def split: option.splits if_splits prod.splits dest: try_match_unsettled)

lemma live_unsettled:
  assumes "live_part inp c w = (Inr (frame, mode, Some fset, enqueued), w')"
  shows "unsettled fset"
  using assms by (auto simp: live_part_def Let_def split: sum.splits option.splits prod.splits if_splits dest: handle_unsettled)

lemma replace_unsettled: "unsettled (fst (replace_frame_member mt x f))"
  using archive_state_of_cases by (simp add: replace_frame_member_def unsettled_def Let_def)

lemma finalize_unsettled:
  assumes "finalize_frame_archive s frame fset i p st er = (Some x, s')" "\<forall>y. fset = Some y \<longrightarrow> unsettled y"
  shows "unsettled x"
proof -
  have recent: "unsettled y" if "replace_recent_frame_member mt f = (Some y, mt')" for mt f y mt'
    using that replace_unsettled
    by (cases rule: replace_recent_member_cases [of mt f]) auto
  have member: "unsettled y" if "replace_frame_member mt z f = (y, mt')" for mt z f y mt'
    using replace_unsettled [of mt z f] that by simp
  show ?thesis
    using assms by (auto simp: finalize_frame_archive_def Let_def split: option.splits prod.splits dest: recent member)
qed

section \<open>A durable frame set is in the ledger\<close>

definition stored_manifest :: "SynchronizedFrameSet \<Rightarrow> ManifestDb \<Rightarrow> bool" where
  "stored_manifest fset db \<longleftrightarrow> (\<exists>row. dict_get (db_manifests db) (str_or (fs_frame_set_uid fset) []) = Some row
     \<and> Some (mf_manifest_digest row) = fs_manifest_digest fset \<and> Some (mf_manifest_json row) = fs_manifest_json fset)"

definition keeps_manifests :: "ManifestDb \<Rightarrow> ManifestDb \<Rightarrow> bool" where
  "keeps_manifests db db' \<longleftrightarrow> (\<forall>uid row. dict_get (db_manifests db) uid = Some row \<longrightarrow> dict_get (db_manifests db') uid = Some row)"

lemma keeps_manifests_refl [simp]: "keeps_manifests db db"
  by (simp add: keeps_manifests_def)

lemma keeps_stored: "keeps_manifests db db' \<Longrightarrow> stored_manifest fset db \<Longrightarrow> stored_manifest fset db'"
  unfolding keeps_manifests_def stored_manifest_def by blast

lemma project_manifests [simp]:
  "db_manifests (snd (update_delivery_projection t uid a l r reason db)) = db_manifests db"
  by (simp add: update_delivery_projection_def Let_def)

lemma persist_stores:
  assumes "persist_frame_set_manifest others t fset db = (Inr b, db')" "fs_identity_mode fset = IDENTITY_MODE_V2"
    and others: "\<And>db. keeps_manifests db (others db)"
  shows "stored_manifest fset db'"
proof -
  have valid: "validate_v2_frame_set fset = Inr ()" using assms(1,2)
    by (auto simp: persist_frame_set_manifest_def split: sum.splits)
  have verified: "stored_manifest fset d" if "dict_get (db_manifests d) (str_or (fs_frame_set_uid fset) []) = Some row"
    "verify_existing_manifest row fset = Inr u" for d row u
    using that unfolding stored_manifest_def verify_existing_manifest_def by (auto split: if_splits)
  show ?thesis
  proof (cases "dict_get (db_manifests db) (str_or (fs_frame_set_uid fset) [])")
    case (Some row)
    then have "verify_existing_manifest row fset = Inr ()" and after: "db_manifests db' = db_manifests db \<or> db_manifests db' = db_manifests (others db)"
      using assms(1,2) valid by (auto simp: persist_frame_set_manifest_def Let_def split: sum.splits if_splits)
    then have "stored_manifest fset db" using verified Some by simp
    then show ?thesis using after keeps_stored [OF others, of fset db] by (auto simp: stored_manifest_def)
  next
    case None
    then obtain ch where ch: "manifest_changes t fset db = Inr ch"
      using assms(1,2) valid by (auto simp: persist_frame_set_manifest_def Let_def split: sum.splits)
    show ?thesis
    proof (cases "commit_changes ch (others db)")
      case (Inr stored)
      have "db' = stored" using assms(1,2) valid None ch Inr by (simp add: persist_frame_set_manifest_def Let_def)
      moreover have "ch_manifest ch = manifest_row t fset" by (rule manifest_changes_Inr(7) [OF ch])
      moreover have "dict_get (db_manifests stored) (mf_frame_set_uid (ch_manifest ch)) = Some (ch_manifest ch)"
        using Inr not_key_get [of _ "db_manifests (others db)"]
        by (auto simp: commit_changes_def Let_def constraints_hold_def insert_row_get split: if_splits)
      moreover note validate_required(4,5) [OF valid]
      ultimately show ?thesis by (auto simp: stored_manifest_def manifest_row_def truthy_iff)
    next
      case (Inl e)
      then show ?thesis using assms(1,2) valid None ch verified [of "others db"]
        by (auto simp: persist_frame_set_manifest_def Let_def split: option.splits sum.splits)
    qed
  qed
qed

text \<open>The other threads and sessions never remove or change a stored manifest.\<close>

definition others_keep_manifests :: "IngestInputs \<Rightarrow> bool" where
  "others_keep_manifests inp \<longleftrightarrow> (\<forall>n w. keeps_manifests (iw_ledger w) (iw_ledger (in_others inp n w)))
     \<and> (\<forall>db. keeps_manifests db (in_manifest_others inp db))"

lemma keeps_project: "keeps_manifests (iw_ledger w) (iw_ledger (project_delivery inp x state relay w))"
  by (simp add: project_delivery_def keeps_manifests_def)

lemma finalize_set_fields:
  assumes "service_finalize_archive_state s x state error = (y, s')"
  shows "fs_frame_set_uid y = fs_frame_set_uid x \<and> fs_manifest_digest y = fs_manifest_digest x
    \<and> fs_manifest_json y = fs_manifest_json x \<and> fs_identity_mode y = fs_identity_mode x
    \<and> fs_archive_state y = (if sv_matcher s = None then fs_archive_state x else state)"
  using assms by (auto simp: service_finalize_archive_state_def finalize_archive_state_def Let_def split: option.splits prod.splits)

text \<open>What finishing a frame set comes to: the manifest's step, then the frame set with the state it gives.\<close>

lemma finish_cases:
  assumes "finish_frame_set inp mode a b x w = ((y, persisted), w')"
  obtains state error w1 sync where
    "store_manifest inp x (in_others inp 6 w) = ((persisted, state, error), w1)"
    "service_finalize_archive_state (iw_sync (in_others inp 7 w1)) x state error = (y, sync)"
    "w' = project_delivery inp y state (legacy_relay_outcome mode a b) (in_others inp 8 ((in_others inp 7 w1)\<lparr> iw_sync := sync \<rparr>))"
  using assms by (auto simp: finish_frame_set_def Let_def split: prod.splits)

lemma finish_keeps:
  assumes "finish_frame_set inp mode a b x w = ((y, persisted), w')" "others_keep_manifests inp"
    and s: "store_manifest inp x (in_others inp 6 w) = ((p, state, error), w1)" "stored_manifest x (iw_ledger w1)"
  shows "stored_manifest y (iw_ledger w')"
  using assms(1)
proof (cases rule: finish_cases)
  case (1 state' error' w1' sync)
  let ?w = "in_others inp 7 w1"
  have k: "keeps_manifests (iw_ledger v) (iw_ledger (in_others inp n v))" for n v
    using assms(2) by (simp add: others_keep_manifests_def)
  have "stored_manifest x (iw_ledger ?w)" by (rule keeps_stored [OF k s(2)])
  then have "stored_manifest x (iw_ledger (in_others inp 8 (?w\<lparr> iw_sync := sync \<rparr>)))"
    using k [of "?w\<lparr> iw_sync := sync \<rparr>" 8] keeps_stored by simp
  then have "stored_manifest x (iw_ledger w')" using 1 s keeps_stored [OF keeps_project] by simp
  then show ?thesis using finalize_set_fields [OF 1(2)] by (simp add: stored_manifest_def)
qed

lemma finish_durable:
  assumes f: "finish_frame_set inp mode a b x w = ((y, persisted), w')" and others: "others_keep_manifests inp"
    and x: "unsettled x" and y: "fs_identity_mode y = IDENTITY_MODE_V2" "fs_archive_state y = ARCHIVE_DURABLE"
  shows "stored_manifest y (iw_ledger w')"
  using f
proof (cases rule: finish_cases)
  case (1 state error w1 sync)
  note fields = finalize_set_fields [OF 1(2)]
  have durable: "state = ARCHIVE_DURABLE" using fields y(2) x by (auto simp: unsettled_def split: if_splits)
  have v2: "fs_identity_mode x = IDENTITY_MODE_V2" using fields y(1) by simp
  have pending: "fs_archive_state x = ARCHIVE_PENDING"
    using 1(1) durable x by (auto simp: store_manifest_def unsettled_def split: if_splits)
  obtain db where db: "persist_frame_set_manifest (in_manifest_others inp) (in_manifest_ms inp) x (iw_ledger (in_others inp 6 w)) = (Inr persisted, db)"
      "iw_ledger w1 = db"
    using 1(1) durable v2 pending
    by (cases "in_manifest_fault inp") (auto simp: store_manifest_def split: prod.splits sum.splits)
  have "stored_manifest x (iw_ledger w1)"
    using persist_stores [OF db(1) v2] others db(2) by (simp add: others_keep_manifests_def)
  then show ?thesis by (rule finish_keeps [OF f others 1(1)])
qed

text \<open>The result of the archive's part.\<close>

lemma archive_part_cases:
  assumes "archive_part inp c (frame, mode, fset, enqueued) w = (r, w')" "\<forall>y. fset = Some y \<longrightarrow> unsettled y"
    "ir_synchronized_frame_set r = Some y"
  obtains x w1 where "unsettled x" "finish_frame_set inp mode enqueued (ir_relay_enqueued r) x w1 = ((y, ir_manifest_persisted r), w')"
    "ir_archive_state r = fs_archive_state y"
proof -
  obtain out w2 where out: "archive_frame inp c frame (in_others inp 3 w) = (out, w2)" by fastforce
  let ?w = "in_others inp 4 w2"
  obtain fin sync where fin: "finalize_frame_archive (iw_sync ?w) frame fset (map_option fst (ao_frame out)) (ao_file_path out)
      (ao_state out) (ao_error out) = (fin, sync)" by fastforce
  show ?thesis
  proof (cases fin)
    case None
    then show ?thesis using assms(1,3) out fin by (auto simp: archive_part_def Let_def split: prod.splits)
  next
    case (Some x)
    have "unsettled x" by (rule finalize_unsettled [OF fin [unfolded Some] assms(2)])
    then show ?thesis using that [of x] assms(1,3) out fin Some
      by (auto simp: archive_part_def Let_def split: prod.splits)
  qed
qed

lemma ingest_durable:
  assumes i: "ingest_frame inp c w = (Inr r, w')" and others: "others_keep_manifests inp"
    and y: "ir_synchronized_frame_set r = Some y" "fs_identity_mode y = IDENTITY_MODE_V2" "ir_archive_state r = ARCHIVE_DURABLE"
  shows "stored_manifest y (iw_ledger w')"
proof (cases rule: ingest_cases [of inp c w])
  case (failed e w1)
  then show ?thesis using i by simp
next
  case (ingested frame mode fset enqueued w1)
  then have a: "archive_part inp c (frame, mode, fset, enqueued) w1 = (r, w')" using i by (auto simp: map_prod_def split: prod.splits)
  have "\<forall>y. fset = Some y \<longrightarrow> unsettled y" using live_unsettled ingested(1) by blast
  from archive_part_cases [OF a this y(1)] obtain x w2 where x: "unsettled x"
      "finish_frame_set inp mode enqueued (ir_relay_enqueued r) x w2 = ((y, ir_manifest_persisted r), w')"
      "ir_archive_state r = fs_archive_state y" .
  show ?thesis by (rule finish_durable [OF x(2) others x(1) y(2)]) (use x(3) y(3) in simp)
qed

section \<open>A frame set with a member still to be archived\<close>

text \<open>
  The call that finishes one member of a frame set stores the manifest although another member may still be being
  archived. The store refuses it and the frame set is reported degraded, even where the other member's call has
  finished in between and stored the manifest.
\<close>

lemma incomplete_refused:
  assumes "fs_identity_mode x = IDENTITY_MODE_V2" "\<not> list_all member_durable (dict_values (fs_frames x))"
  shows "\<exists>e. persist_frame_set_manifest others t x db = (Inl e, db)"
proof -
  have "validate_v2_frame_set x \<noteq> Inr ()" using validate_required(6) assms(2) by blast
  then obtain e where "validate_v2_frame_set x = Inl e" by (cases "validate_v2_frame_set x") auto
  then show ?thesis using assms(1) by (simp add: persist_frame_set_manifest_def)
qed

lemma incomplete_store:
  assumes x: "fs_identity_mode x = IDENTITY_MODE_V2" "fs_archive_state x = ARCHIVE_PENDING"
      "\<not> list_all member_durable (dict_values (fs_frames x))"
  shows "\<exists>error. store_manifest inp x w = ((False, ARCHIVE_DEGRADED_LIVE_ONLY, Some error), w)"
proof (cases "in_manifest_fault inp")
  case None
  obtain e where "persist_frame_set_manifest (in_manifest_others inp) (in_manifest_ms inp) x (iw_ledger w) = (Inl e, iw_ledger w)"
    using incomplete_refused [OF x(1,3)] by blast
  then show ?thesis using x None by (simp add: store_manifest_def)
qed (use x in \<open>simp add: store_manifest_def\<close>)

lemma incomplete_finish:
  assumes x: "fs_identity_mode x = IDENTITY_MODE_V2" "fs_archive_state x = ARCHIVE_PENDING"
      "\<not> list_all member_durable (dict_values (fs_frames x))"
  shows "\<exists>y sync. finish_frame_set inp mode a b x w
      = ((y, False), in_others inp 8 ((in_others inp 7 (in_others inp 6 w))\<lparr> iw_sync := sync \<rparr>))
    \<and> fs_archive_state y = (if sv_matcher (iw_sync (in_others inp 7 (in_others inp 6 w))) = None
        then ARCHIVE_PENDING else ARCHIVE_DEGRADED_LIVE_ONLY)"
proof -
  obtain y persisted w' where f: "finish_frame_set inp mode a b x w = ((y, persisted), w')" by (metis surj_pair)
  from f show ?thesis
  proof (cases rule: finish_cases)
    case (1 state error w1 sync)
    have s: "\<not> persisted" "state = ARCHIVE_DEGRADED_LIVE_ONLY" "w1 = in_others inp 6 w"
      using incomplete_store [OF x, of inp "in_others inp 6 w"] 1(1) by auto
    then have "w' = in_others inp 8 ((in_others inp 7 (in_others inp 6 w))\<lparr> iw_sync := sync \<rparr>)"
      using 1(3) by (simp add: project_delivery_def archive_state_defs)
    moreover have "fs_archive_state y = (if sv_matcher (iw_sync (in_others inp 7 (in_others inp 6 w))) = None
        then ARCHIVE_PENDING else ARCHIVE_DEGRADED_LIVE_ONLY)"
      using finalize_set_fields [OF 1(2)] s(2,3) x(2) by simp
    ultimately show ?thesis using f s(1) by auto
  qed
qed

section \<open>One copy for the relays\<close>

lemma store_queues: "store_manifest inp x w = (s, w') \<Longrightarrow> iw_raw w' = iw_raw w \<and> iw_sets w' = iw_sets w"
  by (auto simp: store_manifest_def split: if_splits sum.splits prod.splits)

lemma finish_queues:
  assumes "in_others inp = (\<lambda>_ w. w)" "finish_frame_set inp mode a b x w = (s, w')"
  shows "iw_raw w' = iw_raw w \<and> iw_sets w' = iw_sets w"
proof -
  obtain y p where s: "s = (y, p)" by fastforce
  show ?thesis using assms(2) unfolding s
  proof (cases rule: finish_cases)
    case (1 state error w1 sync)
    then show ?thesis using store_queues [OF 1(1)] assms(1) by (simp add: project_delivery_def)
  qed
qed

lemma live_queues:
  assumes "in_others inp = (\<lambda>_ w. w)" "live_part inp c w = (Inr (frame, mode, fset, enqueued), w')"
  shows "iw_raw w' = iw_raw w \<and> (enqueued \<longrightarrow> mode = STREAM_RELAY_MODE_FRAME_SET)
    \<and> (\<exists>m. pq_queue (iw_sets w') = pq_queue (iw_sets w) @ (if enqueued then [m] else []))
    \<and> memory_frame (in_now_ms inp) c = Inr frame"
  using assms
  by (auto simp: live_part_def Let_def enqueue_synchronized_frame_set_def enqueue_frame_set_def enqueue_relay_def
      split: sum.splits option.splits prod.splits if_splits)

lemma archive_queues:
  assumes "in_others inp = (\<lambda>_ w. w)" "archive_part inp c (frame, mode, fset, enqueued) w = (r, w')"
  shows "iw_sets w' = iw_sets w \<and> (ir_relay_enqueued r \<longrightarrow> mode = STREAM_RELAY_MODE_RAW)
    \<and> (if ir_relay_enqueued r
         then \<exists>m. rf_image_bytes m = f_image_bytes frame \<and> rf_device_id m = f_device_id frame
           \<and> pq_queue (iw_raw w') = pq_queue (iw_raw w) @ [m]
         else iw_raw w' = iw_raw w)"
proof -
  obtain out w2 where out: "archive_frame inp c frame w = (out, w2)" by fastforce
  have w2: "iw_raw w2 = iw_raw w" "iw_sets w2 = iw_sets w"
    using out by (auto simp: archive_frame_def Let_def split: sum.splits prod.splits)
  obtain fin sync where fin: "finalize_frame_archive (iw_sync w2) frame fset (map_option fst (ao_frame out)) (ao_file_path out)
      (ao_state out) (ao_error out) = (fin, sync)" by fastforce
  show ?thesis
    using assms out w2 fin
    by (cases fin)
      (auto simp: archive_part_def Let_def enqueue_relay_def build_raw_relay_frame_def split: prod.splits if_splits dest!: finish_queues [OF assms(1)])
qed

section \<open>A durable frame is in the table\<close>

definition stored_frame :: "(int \<times> FrameRow) option \<Rightarrow> FrameTable \<Rightarrow> bool" where
  "stored_frame entry table \<longleftrightarrow>
     (\<exists>k frame. entry = Some (k, frame) \<and> dict_get table k = Some frame \<and> fr_archive_state frame = ARCHIVE_DURABLE)"

text \<open>The other threads and sessions keep the frames and the constraints of their table.\<close>

definition others_keep_frames :: "IngestInputs \<Rightarrow> bool" where
  "others_keep_frames inp \<longleftrightarrow> (\<forall>n w. table_step (iw_frames w) (iw_frames (in_others inp n w)))
     \<and> (\<forall>t. table_step t (av_others (in_archive inp) t))"

lemma step_keeps_stored: "table_step t t' \<Longrightarrow> frames_ok t \<Longrightarrow> stored_frame x t \<Longrightarrow> stored_frame x t' \<and> frames_ok t'"
  unfolding table_step_def keeps_frames_def stored_frame_def same_frame_def by blast

lemma others_step:
  assumes "others_keep_frames inp" shows "table_step (iw_frames w) (iw_frames (in_others inp n w))"
  using assms by (simp add: others_keep_frames_def)

lemma live_frames:
  assumes others: "others_keep_frames inp" and l: "live_part inp c w = (r, w')"
  shows "table_step (iw_frames w) (iw_frames w')"
proof -
  let ?w0 = "in_others inp 0 w"
  let ?w1 = "in_others inp 1 ?w0"
  note step = others_step [OF others]
  have one: "table_step (iw_frames w) (iw_frames ?w1)" by (rule table_step_trans [OF step step])
  have two: "table_step (iw_frames w) (iw_frames (in_others inp 2 (?w1\<lparr> iw_sync := s \<rparr>)))" for s
    by (rule table_step_trans [OF one]) (use step [of "?w1\<lparr> iw_sync := s \<rparr>" 2] in simp)
  show ?thesis using l one two step [of w 0]
    by (auto simp: live_part_def Let_def split: sum.splits option.splits prod.splits if_splits)
qed

lemma archived_frame:
  assumes a: "archive_frame inp c frame w = (out, w')" and others: "others_keep_frames inp" and ok: "frames_ok (iw_frames w)"
  shows "frames_ok (iw_frames w') \<and> (ao_state out = ARCHIVE_DURABLE \<longrightarrow> stored_frame (ao_frame out) (iw_frames w'))"
proof -
  obtain save_path path_error where p: "(case in_build_path inp (ic_device_id c) (ic_timestamp_ms c) (target_filename c) (ic_session_id c) of
      Inr path \<Rightarrow> (Some path, None)
    | Inl e \<Rightarrow> (None, Some (''archive path failed: '' @ av_exn_text (in_archive inp) e))) = (save_path, path_error)" by fastforce
  obtain table files where out: "persist_frame_archive (in_archive inp) (frame_row (authorization_scope_fields (ic_authorization_scope c)
        (ic_camera_stream_id c)) frame) (ic_image_bytes c) save_path path_error (iw_frames w, iw_files w) = (out, table, files)"
      "w' = w\<lparr> iw_frames := table, iw_files := files \<rparr>"
    using a p by (auto simp: archive_frame_def Let_def split: prod.splits)
  have others': "table_step (iw_frames w) (av_others (in_archive inp) (iw_frames w))" using others by (simp add: others_keep_frames_def)
  have "frames_ok table" using persist_table_step [OF out(1) others'] ok by (simp add: table_step_def)
  then show ?thesis using durable_has_row [OF out(1) _ ok others'] out(2) by (auto simp: stored_frame_def)
qed

lemma store_frames: "store_manifest inp x w = (s, w') \<Longrightarrow> iw_frames w' = iw_frames w"
  by (auto simp: store_manifest_def split: if_splits sum.splits prod.splits)

lemma finish_frames:
  assumes others: "others_keep_frames inp" and f: "finish_frame_set inp mode a b x w = ((y, persisted), w')"
  shows "table_step (iw_frames w) (iw_frames w')"
  using f
proof (cases rule: finish_cases)
  case (1 state error w1 sync)
  note step = others_step [OF others]
  have "table_step (iw_frames w) (iw_frames (in_others inp 7 w1))"
    using table_step_trans [OF step step [of w1 7, unfolded store_frames [OF 1(1)]]] .
  then have "table_step (iw_frames w) (iw_frames (in_others inp 8 ((in_others inp 7 w1)\<lparr> iw_sync := sync \<rparr>)))"
    by (rule table_step_trans) (use step [of "(in_others inp 7 w1)\<lparr> iw_sync := sync \<rparr>" 8] in simp)
  then show ?thesis using 1(3) by (simp add: project_delivery_def)
qed

lemma archive_part_frame:
  assumes a: "archive_part inp c (frame, mode, fset, enqueued) w = (r, w')" and others: "others_keep_frames inp"
    and ok: "frames_ok (iw_frames w)" and r: "ir_synchronized_frame_set r = None" "ir_archive_state r = ARCHIVE_DURABLE"
  shows "stored_frame (ir_frame r) (iw_frames w')"
proof -
  note step = others_step [OF others]
  obtain out w2 where out: "archive_frame inp c frame (in_others inp 3 w) = (out, w2)" by fastforce
  let ?w = "in_others inp 4 w2"
  obtain fin sync where fin: "finalize_frame_archive (iw_sync ?w) frame fset (map_option fst (ao_frame out)) (ao_file_path out)
      (ao_state out) (ao_error out) = (fin, sync)" by fastforce
  let ?v = "in_others inp 5 (?w\<lparr> iw_sync := sync \<rparr>)"
  have "frames_ok (iw_frames (in_others inp 3 w))" using step [of w 3] ok by (simp add: table_step_def)
  note w2 = archived_frame [OF out others this]
  have v: "table_step (iw_frames w2) (iw_frames ?v)"
    by (rule table_step_trans [OF step]) (use step [of "?w\<lparr> iw_sync := sync \<rparr>" 5] in simp)
  show ?thesis
  proof (cases fin)
    case None
    then have "ir_frame r = ao_frame out" "ir_archive_state r = ao_state out" "iw_frames w' = iw_frames ?v"
      using a out fin by (auto simp: archive_part_def Let_def split: prod.splits)
    then show ?thesis using w2 r step_keeps_stored [OF v] by simp
  next
    case (Some x)
    then show ?thesis using a out fin r by (auto simp: archive_part_def Let_def split: prod.splits)
  qed
qed

lemma ingest_durable_frame:
  assumes i: "ingest_frame inp c w = (Inr r, w')" and others: "others_keep_frames inp" and ok: "frames_ok (iw_frames w)"
    and r: "ir_synchronized_frame_set r = None" "ir_archive_state r = ARCHIVE_DURABLE"
  shows "stored_frame (ir_frame r) (iw_frames w')"
proof (cases rule: ingest_cases [of inp c w])
  case (failed e w1)
  then show ?thesis using i by simp
next
  case (ingested frame mode fset enqueued w1)
  then have a: "archive_part inp c (frame, mode, fset, enqueued) w1 = (r, w')" using i by (auto simp: map_prod_def split: prod.splits)
  have "frames_ok (iw_frames w1)" using live_frames [OF others ingested(1)] ok by (simp add: table_step_def)
  then show ?thesis by (rule archive_part_frame [OF a others _ r])
qed

lemma memory_frame_fields:
  assumes "memory_frame t c = Inr frame"
  shows "f_image_bytes frame = ic_image_bytes c" "f_device_id frame = ic_device_id c"
  using assms by (auto simp: memory_frame_def bind_result_eq_Inr Let_def)

end
