(* ===== verification/Reconciliation.thy ===== *)
theory Reconciliation
  imports FrameArchive ManifestStore
begin

text \<open>
  services/ingest/reconciliation.py: the check of the archive when the program starts. The loop runs in one
  session, whose pending state is \<open>Reconciliation\<close> (ry_), and commits at its end; the loop over the files
  only counts and reports. \<open>reconciled_row\<close> is what becomes of a row, told without the session.
\<close>

section \<open>One frame\<close>

text \<open>
  What a run meets: its identifier and time, how paths resolve, the resolved root and the files found below it (none
  when it is no directory), and the text of the \<open>OSError\<close> reading a file may raise.
\<close>

record ReconcileInputs =
  rn_run_id :: string
  rn_detected_at_ms :: int
  rn_resolve :: "string \<Rightarrow> string"
  rn_root :: string
  rn_listing :: "string list"
  rn_read_error :: "string \<Rightarrow> string option"

definition is_relative_to :: "string \<Rightarrow> string \<Rightarrow> bool" where
  "is_relative_to path root \<longleftrightarrow> path = root \<or> prefix (root @ ''/'') path"

text \<open>What is wrong with a durable frame's file, and the row with the size and digest it lacked.\<close>

definition validate_frame_file :: "ReconcileInputs \<Rightarrow> Files \<Rightarrow> FrameRow \<Rightarrow> (string \<times> string) option \<times> FrameRow" where
  "validate_frame_file inp files row =
     (if \<not> truthy (fr_file_path row) then (Some (''MISSING_FILE'', ''durable frame has no file path''), row)
      else (let path = rn_resolve inp (the (fr_file_path row))
            in if \<not> is_relative_to path (rn_root inp)
               then (Some (''PATH_OUTSIDE_ARCHIVE_ROOT'', ''path is outside archive root: '' @ path), row)
               else (case dict_get files path of
                 None \<Rightarrow> (Some (''MISSING_FILE'', ''archive payload is missing: '' @ path), row)
               | Some content \<Rightarrow>
                   (case rn_read_error inp path of
                      Some text \<Rightarrow> (Some (''FILE_READ_ERROR'', ''archive payload cannot be read: '' @ text), row)
                    | None \<Rightarrow>
                        (let file_size = int (length content); digest = sha256_bytes content
                         in if fr_file_size row \<noteq> None \<and> fr_file_size row \<noteq> Some file_size
                            then (Some (''SIZE_MISMATCH'', ''expected '' @ py_str_int (the (fr_file_size row)) @ '' bytes but found ''
                                   @ py_str_int file_size @ '': '' @ path), row)
                            else if fr_content_digest row \<noteq> None \<and> fr_content_digest row \<noteq> Some digest
                            then (Some (''DIGEST_MISMATCH'', ''content SHA-256 mismatch: '' @ path), row)
                            else (None, row\<lparr> fr_file_size := Some file_size, fr_content_digest := Some digest \<rparr>))))))"

section \<open>The session\<close>

record ArchiveReconciliationIssue =
  ai_reconciliation_run_id :: string
  ai_issue_type :: string
  ai_frame_id :: "int option"
  ai_file_path :: "string option"
  ai_detail :: string
  ai_detected_at_ms :: int

text \<open>
  The state of the loop: the frames visited, the projections as the session sees them, the projections it will
  insert, the issues, the counts and the paths that frames refer to.
\<close>

record Reconciliation =
  ry_frames :: FrameTable
  ry_projections :: "(string, FrameSetDeliveryProjection) dict"
  ry_inserted :: "(string \<times> FrameSetDeliveryProjection) list"
  ry_issues :: "ArchiveReconciliationIssue list"
  ry_checked :: int
  ry_healthy :: int
  ry_degraded :: int
  ry_orphans :: int
  ry_partial :: int
  ry_referenced :: "string list"

definition degraded_projection :: "ReconcileInputs \<Rightarrow> string \<Rightarrow> FrameSetDeliveryProjection \<Rightarrow> FrameSetDeliveryProjection" where
  "degraded_projection inp issue_type pj =
     pj\<lparr> pj_archive_state := ARCHIVE_DEGRADED_LIVE_ONLY, pj_last_reason := Some issue_type,
         pj_updated_at_ms := rn_detected_at_ms inp \<rparr>"

definition degrade_projection :: "ReconcileInputs \<Rightarrow> ManifestDb \<Rightarrow> string \<Rightarrow> string \<Rightarrow> Reconciliation \<Rightarrow> Reconciliation" where
  "degrade_projection inp db issue_type uid y =
     (case dict_get (ry_projections y) uid of
        Some pj \<Rightarrow> y\<lparr> ry_projections := dict_set (ry_projections y) uid (degraded_projection inp issue_type pj) \<rparr>
      | None \<Rightarrow>
          if dict_get (db_manifests db) uid = None then y
          else y\<lparr> ry_inserted := ry_inserted y
                   @ [(uid, degraded_projection inp issue_type (new_delivery_projection (rn_detected_at_ms inp) ''ELIGIBLE'' None))] \<rparr>)"

definition frame_set_uids :: "ManifestDb \<Rightarrow> int \<Rightarrow> string list" where
  "frame_set_uids db frame_id = map mm_frame_set_uid (filter (\<lambda>m. mm_frame_id m = Some frame_id) (db_members db))"

definition new_issue :: "ReconcileInputs \<Rightarrow> string \<Rightarrow> int option \<Rightarrow> string option \<Rightarrow> string \<Rightarrow> ArchiveReconciliationIssue" where
  "new_issue inp issue_type frame_id file_path detail =
     \<lparr> ai_reconciliation_run_id = rn_run_id inp, ai_issue_type = issue_type, ai_frame_id = frame_id,
       ai_file_path = file_path, ai_detail = detail, ai_detected_at_ms = rn_detected_at_ms inp \<rparr>"

definition refer_to :: "ReconcileInputs \<Rightarrow> FrameRow \<Rightarrow> Reconciliation \<Rightarrow> Reconciliation" where
  "refer_to inp row y =
     (if truthy (fr_file_path row) then y\<lparr> ry_referenced := ry_referenced y @ [rn_resolve inp (the (fr_file_path row))] \<rparr> else y)"

definition reconcile_frame :: "ReconcileInputs \<Rightarrow> ManifestDb \<Rightarrow> Files \<Rightarrow> int \<times> FrameRow \<Rightarrow> Reconciliation \<Rightarrow> Reconciliation" where
  "reconcile_frame inp db files frame y =
     (case frame of (k, row) \<Rightarrow>
        (let y = refer_to inp row y
         in if fr_archive_state row \<noteq> ARCHIVE_DURABLE then y\<lparr> ry_frames := ry_frames y @ [(k, row)] \<rparr>
            else (case validate_frame_file inp files row of
                    (None, row) \<Rightarrow>
                      y\<lparr> ry_frames := ry_frames y @ [(k, row)], ry_checked := ry_checked y + 1, ry_healthy := ry_healthy y + 1 \<rparr>
                  | (Some (issue_type, detail), row) \<Rightarrow>
                      fold (degrade_projection inp db issue_type) (frame_set_uids db k)
                        (y\<lparr> ry_frames := ry_frames y @ [(k, row\<lparr> fr_archive_state := ARCHIVE_DEGRADED_LIVE_ONLY, fr_archive_error := Some issue_type \<rparr>)],
                            ry_checked := ry_checked y + 1, ry_degraded := ry_degraded y + 1,
                            ry_issues := ry_issues y @ [new_issue inp issue_type (Some k) (fr_file_path row) detail] \<rparr>))))"

section \<open>The files\<close>

definition suffix_of :: "string \<Rightarrow> string" where
  "suffix_of name =
     (let ext = rev (takeWhile (\<lambda>c. c \<noteq> CHR ''.'') (rev name))
      in if ext = [] \<or> length name \<le> length ext + 1 then [] else CHR ''.'' # ext)"

definition PAYLOAD_SUFFIXES :: "string list" where
  "PAYLOAD_SUFFIXES = [''.jpg'', ''.jpeg'', ''.png'', ''.webp'', ''.bin'']"

definition is_partial_path :: "string \<Rightarrow> bool" where
  "is_partial_path path \<longleftrightarrow> prefix ''.'' (path_name path) \<and> suffix ''.tmp'' (path_name path)"

definition reconcile_file :: "ReconcileInputs \<Rightarrow> string \<Rightarrow> Reconciliation \<Rightarrow> Reconciliation" where
  "reconcile_file inp path y =
     (if is_partial_path path
      then y\<lparr> ry_partial := ry_partial y + 1,
              ry_issues := ry_issues y @ [new_issue inp ''PARTIAL_TEMP_FILE'' None (Some path) ''temporary archive file remained after restart''] \<rparr>
      else if lower (suffix_of (path_name path)) \<in> set PAYLOAD_SUFFIXES \<and> rn_resolve inp path \<notin> set (ry_referenced y)
      then y\<lparr> ry_orphans := ry_orphans y + 1,
              ry_issues := ry_issues y @ [new_issue inp ''ORPHAN_FILE'' None (Some path) ''payload file has no frame metadata row''] \<rparr>
      else y)"

section \<open>A run\<close>

record ArchiveReconciliationReport =
  ap_run_id :: string
  ap_checked_frames :: int
  ap_healthy_frames :: int
  ap_degraded_frames :: int
  ap_orphan_files :: int
  ap_partial_files :: int

definition start_reconciliation :: "ManifestDb \<Rightarrow> Reconciliation" where
  "start_reconciliation db =
     \<lparr> ry_frames = [], ry_projections = db_projections db, ry_inserted = [], ry_issues = [], ry_checked = 0,
       ry_healthy = 0, ry_degraded = 0, ry_orphans = 0, ry_partial = 0, ry_referenced = [] \<rparr>"

definition reconciliation_report :: "ReconcileInputs \<Rightarrow> Reconciliation \<Rightarrow> ArchiveReconciliationReport" where
  "reconciliation_report inp y =
     \<lparr> ap_run_id = rn_run_id inp, ap_checked_frames = ry_checked y, ap_healthy_frames = ry_healthy y,
       ap_degraded_frames = ry_degraded y, ap_orphan_files = ry_orphans y, ap_partial_files = ry_partial y \<rparr>"

text \<open>The commit inserts the pending projections; two of them for one frame set violate its primary key.\<close>

definition reconcile_archive ::
  "ReconcileInputs \<Rightarrow> Files \<Rightarrow> FrameTable \<times> ManifestDb
   \<Rightarrow> (ArchiveReconciliationReport \<times> ArchiveReconciliationIssue list) result \<times> FrameTable \<times> ManifestDb" where
  "reconcile_archive inp files tables =
     (case tables of (frames, db) \<Rightarrow>
        (let y = fold (reconcile_file inp) (rn_listing inp)
                   (fold (reconcile_frame inp db files) frames (start_reconciliation db))
         in if \<not> distinct (map fst (ry_inserted y)) then (Inl (IntegrityError ''UNIQUE constraint failed''), frames, db)
            else (Inr (reconciliation_report inp y, ry_issues y), ry_frames y,
                  db\<lparr> db_projections := ry_projections y @ ry_inserted y \<rparr>)))"

section \<open>What a run leaves\<close>

text \<open>What becomes of a row, told without the session.\<close>

definition reconciled_row :: "ReconcileInputs \<Rightarrow> Files \<Rightarrow> FrameRow \<Rightarrow> FrameRow" where
  "reconciled_row inp files row =
     (if fr_archive_state row \<noteq> ARCHIVE_DURABLE then row
      else (case validate_frame_file inp files row of
              (None, row) \<Rightarrow> row
            | (Some (issue_type, _), row) \<Rightarrow> row\<lparr> fr_archive_state := ARCHIVE_DEGRADED_LIVE_ONLY, fr_archive_error := Some issue_type \<rparr>))"

definition tallies :: "Reconciliation \<Rightarrow> FrameTable \<times> int \<times> int \<times> int \<times> int" where
  "tallies y = (ry_frames y, ry_checked y, ry_healthy y, ry_degraded y, int (length (ry_issues y)) - ry_orphans y - ry_partial y)"

lemma degrade_projection_tallies [simp]: "tallies (fold (degrade_projection inp db t) uids y) = tallies y"
proof (induction uids arbitrary: y)
  case (Cons uid uids)
  have "tallies (degrade_projection inp db t uid y) = tallies y" by (simp add: degrade_projection_def tallies_def split: option.split)
  then show ?case using Cons by simp
qed simp

lemma reconcile_frame_tallies:
  "tallies (reconcile_frame inp db files (k, row) y) = (ry_frames y @ [(k, reconciled_row inp files row)],
     ry_checked y + (if fr_archive_state row = ARCHIVE_DURABLE then 1 else 0),
     ry_healthy y + (if fr_archive_state row = ARCHIVE_DURABLE \<and> fr_archive_state (reconciled_row inp files row) = ARCHIVE_DURABLE then 1 else 0),
     ry_degraded y + (if fr_archive_state row = ARCHIVE_DURABLE \<and> fr_archive_state (reconciled_row inp files row) \<noteq> ARCHIVE_DURABLE then 1 else 0),
     int (length (ry_issues y)) - ry_orphans y - ry_partial y
       + (if fr_archive_state row = ARCHIVE_DURABLE \<and> fr_archive_state (reconciled_row inp files row) \<noteq> ARCHIVE_DURABLE then 1 else 0))"
proof -
  obtain issue row' where v: "validate_frame_file inp files row = (issue, row')" by fastforce
  have kept: "fr_archive_state row' = fr_archive_state row"
    using v by (auto simp: validate_frame_file_def Let_def split: if_splits option.splits)
  show ?thesis
    using v kept
    by (cases issue) (auto simp: reconcile_frame_def reconciled_row_def refer_to_def Let_def tallies_def [of "_\<lparr> ry_frames := _ \<rparr>"]
        tallies_def [of "_\<lparr> ry_issues := _ \<rparr>"] tallies_def [of "_\<lparr> ry_healthy := _ \<rparr>"] split: prod.split)
qed

lemma reconcile_file_tallies: "tallies (fold (reconcile_file inp) paths y) = tallies y
    \<and> ry_projections (fold (reconcile_file inp) paths y) = ry_projections y \<and> ry_inserted (fold (reconcile_file inp) paths y) = ry_inserted y"
proof (induction paths arbitrary: y)
  case (Cons path paths)
  have "tallies (reconcile_file inp path y) = tallies y \<and> ry_projections (reconcile_file inp path y) = ry_projections y
      \<and> ry_inserted (reconcile_file inp path y) = ry_inserted y"
    by (simp add: reconcile_file_def tallies_def)
  then show ?case using Cons by simp
qed simp

definition durable_frames :: "FrameTable \<Rightarrow> int" where
  "durable_frames t = int (length (filter (\<lambda>(k, row). fr_archive_state row = ARCHIVE_DURABLE) t))"

definition broken_frames :: "ReconcileInputs \<Rightarrow> Files \<Rightarrow> FrameTable \<Rightarrow> int" where
  "broken_frames inp files t = int (length (filter (\<lambda>(k, row). fr_archive_state row = ARCHIVE_DURABLE
     \<and> fr_archive_state (reconciled_row inp files row) \<noteq> ARCHIVE_DURABLE) t))"

lemma frames_tallies:
  "tallies (fold (reconcile_frame inp db files) t y) = (ry_frames y @ map (\<lambda>(k, row). (k, reconciled_row inp files row)) t,
     ry_checked y + durable_frames t, ry_healthy y + durable_frames t - broken_frames inp files t,
     ry_degraded y + broken_frames inp files t,
     int (length (ry_issues y)) - ry_orphans y - ry_partial y + broken_frames inp files t)"
proof (induction t arbitrary: y)
  case Nil
  then show ?case by (simp add: tallies_def durable_frames_def broken_frames_def)
next
  case (Cons e t)
  obtain k row where e: "e = (k, row)" by fastforce
  show ?case
    using reconcile_frame_tallies [of inp db files k row y] Cons [of "reconcile_frame inp db files (k, row) y"]
    by (simp add: e tallies_def durable_frames_def broken_frames_def)
qed

text \<open>A projection once degraded by the run stays degraded.\<close>

definition marked :: "ManifestDb \<Rightarrow> string \<Rightarrow> Reconciliation \<Rightarrow> bool" where
  "marked db uid y \<longleftrightarrow>
     (case dict_get (ry_projections y) uid of
        Some pj \<Rightarrow> pj_archive_state pj = ARCHIVE_DEGRADED_LIVE_ONLY
      | None \<Rightarrow> dict_get (db_manifests db) uid = None \<or> uid \<in> set (map fst (ry_inserted y)))"

definition inserted_degraded :: "Reconciliation \<Rightarrow> bool" where
  "inserted_degraded y \<longleftrightarrow> (\<forall>(uid, pj) \<in> set (ry_inserted y). pj_archive_state pj = ARCHIVE_DEGRADED_LIVE_ONLY)"

lemma degrade_marks:
  "(uid = uid' \<or> marked db uid' y \<longrightarrow> marked db uid' (degrade_projection inp db t uid y))
   \<and> (inserted_degraded y \<longrightarrow> inserted_degraded (degrade_projection inp db t uid y))"
  by (auto simp: marked_def inserted_degraded_def degrade_projection_def degraded_projection_def split: option.splits)

lemma fold_degrade_marks:
  "(uid \<in> set uids \<or> marked db uid y \<longrightarrow> marked db uid (fold (degrade_projection inp db t) uids y))
   \<and> (inserted_degraded y \<longrightarrow> inserted_degraded (fold (degrade_projection inp db t) uids y))"
proof (induction uids arbitrary: y)
  case (Cons u uids)
  show ?case using Cons [of "degrade_projection inp db t u y"] degrade_marks [of u uid db y inp t] by auto
qed simp

lemma marks_cong:
  "ry_projections y' = ry_projections y \<Longrightarrow> ry_inserted y' = ry_inserted y
    \<Longrightarrow> marked db uid y' = marked db uid y \<and> inserted_degraded y' = inserted_degraded y"
  by (simp add: marked_def inserted_degraded_def cong: option.case_cong)

lemma frame_marks:
  "(marked db uid y \<longrightarrow> marked db uid (reconcile_frame inp db files (k, row) y))
   \<and> (inserted_degraded y \<longrightarrow> inserted_degraded (reconcile_frame inp db files (k, row) y))
   \<and> (fr_archive_state row = ARCHIVE_DURABLE \<longrightarrow> fr_archive_state (reconciled_row inp files row) \<noteq> ARCHIVE_DURABLE
       \<longrightarrow> uid \<in> set (frame_set_uids db k) \<longrightarrow> marked db uid (reconcile_frame inp db files (k, row) y))"
proof -
  let ?z = "reconcile_frame inp db files (k, row) y"
  have same: "marked db uid y' = marked db uid y" "inserted_degraded y' = inserted_degraded y"
    if "ry_projections y' = ry_projections y" "ry_inserted y' = ry_inserted y" for y'
    using marks_cong [OF that] by simp_all
  have refer: "ry_projections (refer_to inp row y) = ry_projections y" "ry_inserted (refer_to inp row y) = ry_inserted y"
    by (simp_all add: refer_to_def)
  obtain issue row' where v: "validate_frame_file inp files row = (issue, row')" by fastforce
  have kept: "fr_archive_state row' = fr_archive_state row"
    using v by (auto simp: validate_frame_file_def Let_def split: if_splits option.splits)
  consider (skipped) "fr_archive_state row \<noteq> ARCHIVE_DURABLE" | (healthy) "fr_archive_state row = ARCHIVE_DURABLE" "issue = None"
    | (broken) t d where "fr_archive_state row = ARCHIVE_DURABLE" "issue = Some (t, d)"
    by (cases issue) auto
  then show ?thesis
  proof cases
    case skipped
    then have "ry_projections ?z = ry_projections y" "ry_inserted ?z = ry_inserted y"
      using refer by (simp_all add: reconcile_frame_def Let_def)
    then show ?thesis using same [of ?z] skipped by simp
  next
    case healthy
    then have "ry_projections ?z = ry_projections y" "ry_inserted ?z = ry_inserted y"
        "fr_archive_state (reconciled_row inp files row) = ARCHIVE_DURABLE"
      using refer v kept by (simp_all add: reconcile_frame_def reconciled_row_def Let_def)
    then show ?thesis using same [of ?z] by simp
  next
    case (broken t d)
    define y1 where "y1 = (refer_to inp row y)
      \<lparr> ry_frames := ry_frames (refer_to inp row y) @ [(k, row'\<lparr> fr_archive_state := ARCHIVE_DEGRADED_LIVE_ONLY, fr_archive_error := Some t \<rparr>)],
        ry_checked := ry_checked (refer_to inp row y) + 1, ry_degraded := ry_degraded (refer_to inp row y) + 1,
        ry_issues := ry_issues (refer_to inp row y) @ [new_issue inp t (Some k) (fr_file_path row') d] \<rparr>"
    have "reconcile_frame inp db files (k, row) y = fold (degrade_projection inp db t) (frame_set_uids db k) y1"
      using broken v by (simp add: reconcile_frame_def Let_def y1_def)
    moreover have "marked db uid y1 = marked db uid y" "inserted_degraded y1 = inserted_degraded y"
      using same [of y1] refer by (simp_all add: y1_def)
    ultimately show ?thesis using fold_degrade_marks [of uid "frame_set_uids db k" db y1 inp t] by simp
  qed
qed

lemma frames_mark:
  "(marked db uid y \<longrightarrow> marked db uid (fold (reconcile_frame inp db files) t y))
   \<and> (inserted_degraded y \<longrightarrow> inserted_degraded (fold (reconcile_frame inp db files) t y))
   \<and> ((k, row) \<in> set t \<longrightarrow> fr_archive_state row = ARCHIVE_DURABLE \<longrightarrow> fr_archive_state (reconciled_row inp files row) \<noteq> ARCHIVE_DURABLE
       \<longrightarrow> uid \<in> set (frame_set_uids db k) \<longrightarrow> marked db uid (fold (reconcile_frame inp db files) t y))"
proof (induction t arbitrary: y)
  case (Cons e t)
  obtain j r where e: "e = (j, r)" by fastforce
  show ?case
    using Cons [of "reconcile_frame inp db files e y"] frame_marks [of db uid y inp files j r] unfolding e by auto
qed simp

section \<open>The properties of a run\<close>

text \<open>What a run that commits leaves in the tables.\<close>

lemma reconciliation_leaves:
  assumes "reconcile_archive inp files (frames, db) = (Inr (report, issues), frames', db')"
  obtains y where
    "frames' = map (\<lambda>(k, row). (k, reconciled_row inp files row)) frames"
    "ap_checked_frames report = durable_frames frames" "ap_degraded_frames report = broken_frames inp files frames"
    "ap_healthy_frames report = ap_checked_frames report - ap_degraded_frames report"
    "int (length issues) = ap_degraded_frames report + ap_orphan_files report + ap_partial_files report"
    "db' = db\<lparr> db_projections := ry_projections y @ ry_inserted y \<rparr>" "inserted_degraded y"
    "\<And>k row uid. (k, row) \<in> set frames \<Longrightarrow> fr_archive_state row = ARCHIVE_DURABLE
      \<Longrightarrow> fr_archive_state (reconciled_row inp files row) \<noteq> ARCHIVE_DURABLE \<Longrightarrow> uid \<in> set (frame_set_uids db k) \<Longrightarrow> marked db uid y"
proof -
  define y1 where "y1 = fold (reconcile_frame inp db files) frames (start_reconciliation db)"
  define y where "y = fold (reconcile_file inp) (rn_listing inp) y1"
  have e: "(report, issues) = (reconciliation_report inp y, ry_issues y)" "frames' = ry_frames y"
      "db' = db\<lparr> db_projections := ry_projections y @ ry_inserted y \<rparr>"
    using assms unfolding reconcile_archive_def y_def y1_def Let_def by (auto split: if_splits)
  have t: "tallies y = (map (\<lambda>(k, row). (k, reconciled_row inp files row)) frames, durable_frames frames,
      durable_frames frames - broken_frames inp files frames, broken_frames inp files frames, broken_frames inp files frames)"
    using reconcile_file_tallies [of inp "rn_listing inp" y1] frames_tallies [of inp db files frames "start_reconciliation db"]
    unfolding y_def y1_def by (simp add: start_reconciliation_def)
  have f: "ry_projections y = ry_projections y1" "ry_inserted y = ry_inserted y1"
    using reconcile_file_tallies [of inp "rn_listing inp" y1] unfolding y_def by simp_all
  show ?thesis
  proof (rule that [of y])
    show "inserted_degraded y"
      using frames_mark [of db undefined "start_reconciliation db" inp files frames] marks_cong [OF f, of db]
      by (simp add: y1_def start_reconciliation_def inserted_degraded_def)
    show "marked db uid y" if "(k, row) \<in> set frames" "fr_archive_state row = ARCHIVE_DURABLE"
      "fr_archive_state (reconciled_row inp files row) \<noteq> ARCHIVE_DURABLE" "uid \<in> set (frame_set_uids db k)" for k row uid
      using frames_mark [of db uid "start_reconciliation db" inp files frames k row] that marks_cong [OF f, of db uid]
      by (simp add: y1_def)
  qed (use e t in \<open>auto simp: tallies_def reconciliation_report_def\<close>)
qed

lemma validated:
  assumes "validate_frame_file inp files row = (None, row')"
  obtains path content where "fr_file_path row = Some path" "dict_get files (rn_resolve inp path) = Some content"
    "row' = row\<lparr> fr_file_size := Some (int (length content)), fr_content_digest := Some (sha256_bytes content) \<rparr>"
  using assms by (cases "fr_file_path row") (auto simp: validate_frame_file_def Let_def split: if_splits option.splits)

text \<open>A row whose file is there, inside the archive and readable, of the size and the digest the row names (where it names one).\<close>

definition sound_file :: "ReconcileInputs \<Rightarrow> Files \<Rightarrow> FrameRow \<Rightarrow> bool" where
  "sound_file inp files row \<longleftrightarrow> (\<exists>path content.
     fr_file_path row = Some path \<and> is_relative_to (rn_resolve inp path) (rn_root inp)
     \<and> dict_get files (rn_resolve inp path) = Some content \<and> rn_read_error inp (rn_resolve inp path) = None
     \<and> fr_file_size row \<in> {None, Some (int (length content))}
     \<and> fr_content_digest row \<in> {None, Some (sha256_bytes content)})"

lemma validated_sound: "validate_frame_file inp files row = (None, row') \<Longrightarrow> sound_file inp files row"
  by (cases "fr_file_path row")
    (auto simp: validate_frame_file_def sound_file_def Let_def split: if_splits option.splits)

lemma still_durable_sound:
  "fr_archive_state row = ARCHIVE_DURABLE \<Longrightarrow> fr_archive_state (reconciled_row inp files row) = ARCHIVE_DURABLE
   \<Longrightarrow> sound_file inp files row"
  using validated_sound [of inp files row]
  by (auto simp: reconciled_row_def archive_state_defs split: prod.splits option.splits)

lemma reconciled_backed:
  assumes "fr_archive_state (reconciled_row inp files row) = ARCHIVE_DURABLE"
    and resolve: "\<And>path. fr_file_path row = Some path \<Longrightarrow> rn_resolve inp path = path"
  shows "backed files (reconciled_row inp files row)"
proof (cases "fr_archive_state row = ARCHIVE_DURABLE")
  case True
  obtain issue row' where v: "validate_frame_file inp files row = (issue, row')" by fastforce
  have ok: "issue = None" "reconciled_row inp files row = row'"
    using True v assms(1) by (auto simp: reconciled_row_def split: option.splits)
  obtain path content where "fr_file_path row = Some path" "dict_get files (rn_resolve inp path) = Some content"
      "row' = row\<lparr> fr_file_size := Some (int (length content)), fr_content_digest := Some (sha256_bytes content) \<rparr>"
    using v unfolding ok(1) by (rule validated)
  then show ?thesis using resolve by (simp add: ok(2) backed_def)
qed (use assms(1) in \<open>simp add: reconciled_row_def backed_def\<close>)

lemma reconcile_restores:
  assumes "reconcile_archive inp files (frames, db) = (Inr (report, issues), frames', db')"
    and resolve: "\<And>k row path. dict_get frames k = Some row \<Longrightarrow> fr_file_path row = Some path \<Longrightarrow> rn_resolve inp path = path"
  shows "archive_backed frames' files"
  using assms(1)
proof (cases rule: reconciliation_leaves)
  case (1 y)
  show ?thesis unfolding archive_backed_def
  proof (intro allI impI)
    fix k row'
    assume "dict_get frames' k = Some row'"
    then obtain row where row: "dict_get frames k = Some row" "row' = reconciled_row inp files row"
      by (auto simp: 1(1) map_of_map)
    show "backed files row'" using reconciled_backed [of inp files row] resolve [OF row(1)] row(2) by (auto simp: backed_def)
  qed
qed

lemma reconcile_withdraws:
  assumes "reconcile_archive inp files (frames, db) = (Inr (report, issues), frames', db')"
    and offered: "mf \<in> set (deliverable db')" "mf_frame_set_uid mf = mm_frame_set_uid m" "m \<in> set (db_members db)" "mm_frame_id m = Some k"
    and wf: "ledger_wf db" and row: "dict_get frames k = Some row" "fr_archive_state row = ARCHIVE_DURABLE" "distinct (dict_keys frames)"
  shows "sound_file inp files row \<and> (\<exists>row'. dict_get frames' k = Some row' \<and> fr_archive_state row' = ARCHIVE_DURABLE)"
  using assms(1)
proof (cases rule: reconciliation_leaves)
  case (1 y)
  let ?uid = "mm_frame_set_uid m"
  obtain uid pj where mf: "(uid, mf) \<in> set (db_manifests db)" "dict_get (db_projections db') uid = Some pj" "pj_archive_state pj = ARCHIVE_DURABLE"
    using offered(1) 1(6) by (auto simp: deliverable_def split: option.splits)
  have m: "dict_get (db_manifests db) uid = Some mf" using mf(1) wf by (simp add: ledger_wf_def unique_manifests_def)
  then have uid: "uid = ?uid" using wf offered(2) unfolding ledger_wf_def run_of_manifest_def by metis
  have "\<not> marked db uid y"
  proof
    assume "marked db uid y"
    then show False using mf(2,3) m 1(6,7)
      by (auto simp: marked_def inserted_degraded_def map_add_def archive_state_defs split: option.splits dest!: map_of_SomeD)
  qed
  then have "fr_archive_state (reconciled_row inp files row) = ARCHIVE_DURABLE"
    using 1(8) [of k row uid] row uid offered(3,4) by (auto simp: frame_set_uids_def dest: map_of_SomeD)
  moreover have "dict_get frames' k = Some (reconciled_row inp files row)" using row(1) by (simp add: 1(1) map_of_map)
  ultimately show ?thesis using still_durable_sound [OF row(2)] by blast
qed

lemma reconciled_counts:
  assumes "reconcile_archive inp files (frames, db) = (Inr (report, issues), frames', db')"
  shows "dict_keys frames' = dict_keys frames \<and> ap_checked_frames report = durable_frames frames
    \<and> ap_healthy_frames report = durable_frames frames' \<and> ap_degraded_frames report = durable_frames frames - durable_frames frames'
    \<and> int (length issues) = ap_degraded_frames report + ap_orphan_files report + ap_partial_files report"
  using assms
proof (cases rule: reconciliation_leaves)
  case (1 y)
  have "durable_frames frames' = durable_frames frames - broken_frames inp files frames" unfolding 1(1)
  proof (induction frames)
    case (Cons e t)
    then show ?case by (cases e) (auto simp: durable_frames_def broken_frames_def reconciled_row_def)
  qed (simp add: durable_frames_def broken_frames_def)
  then show ?thesis using 1(1-5) by (auto simp: comp_def split_def)
qed

end
