(* ===== verification/AlertForwarding.thy ===== *)
theory AlertForwarding
  imports SyncModels
begin

text \<open>
  services/alerts/processing_alerts.py and services/alerts/phone_delivery.py: the store of the recent alerts and the
  queues of the phones that listen, with the route of api/routes/internal.py that puts an alert into both. The store
  works under one lock, each subscription's queue under its own: what other threads do to a subscription between two
  operations on its queue is given as functions. \<open>store_ok\<close> is the invariant of the store, \<open>with_alert\<close>
  what a publication does to a phone when it runs alone.
\<close>

section \<open>Alerts\<close>

text \<open>An alert's fields that the code reads, and the rest of its body.\<close>

record ProcessingAlertEvent =
  pe_event_id :: string
  pe_timestamp_ms :: int
  pe_ttl_ms :: int
  pe_camera_devices :: "string list"
  pe_body :: "(string \<times> json) list"

record AlertRouting =
  ag_camera_devices :: "string list"
  ag_session_id :: "string option"
  ag_delivery_status :: string

record ProcessingAlertRecord =
  px_alert :: ProcessingAlertEvent
  px_received_at_ms :: int
  px_expires_at_ms :: int
  px_routing :: AlertRouting

definition is_expired :: "ProcessingAlertRecord \<Rightarrow> int \<Rightarrow> bool" where
  "is_expired record now_ms \<longleftrightarrow> px_expires_at_ms record < now_ms"

definition build_alert_routing :: "ProcessingAlertEvent \<Rightarrow> AlertRouting" where
  "build_alert_routing alert =
     \<lparr> ag_camera_devices = pe_camera_devices alert, ag_session_id = None, ag_delivery_status = ''not_delivered'' \<rparr>"

definition alert_record :: "int \<Rightarrow> ProcessingAlertEvent \<Rightarrow> ProcessingAlertRecord" where
  "alert_record received_at_ms alert =
     \<lparr> px_alert = alert, px_received_at_ms = received_at_ms,
       px_expires_at_ms = pe_timestamp_ms alert + pe_ttl_ms alert, px_routing = build_alert_routing alert \<rparr>"

definition event_id_of :: "ProcessingAlertRecord \<Rightarrow> string" where
  "event_id_of record = pe_event_id (px_alert record)"

section \<open>The store of recent alerts\<close>

record ProcessingAlertStore =
  as_max_alerts :: nat
  as_records :: "ProcessingAlertRecord list"
  as_event_ids :: "string set"
  as_received_count :: int
  as_duplicate_count :: int
  as_expired_count :: int

definition new_alert_store :: "nat \<Rightarrow> ProcessingAlertStore" where
  "new_alert_store max_alerts =
     \<lparr> as_max_alerts = max_alerts, as_records = [], as_event_ids = {}, as_received_count = 0,
       as_duplicate_count = 0, as_expired_count = 0 \<rparr>"

text \<open>With \<open>max_alerts = 0\<close> the oldest record of the empty deque is asked for.\<close>

definition add_alert ::
  "int \<Rightarrow> ProcessingAlertEvent \<Rightarrow> ProcessingAlertStore \<Rightarrow> (ProcessingAlertRecord \<times> string) result \<times> ProcessingAlertStore" where
  "add_alert now_ms alert s =
     (let record = alert_record now_ms alert;
          s = s\<lparr> as_received_count := as_received_count s + 1 \<rparr>
      in if pe_event_id alert \<in> as_event_ids s
         then (Inr (record, ''duplicate''), s\<lparr> as_duplicate_count := as_duplicate_count s + 1 \<rparr>)
         else if is_expired record now_ms
         then (Inr (record, ''expired''), s\<lparr> as_expired_count := as_expired_count s + 1 \<rparr>)
         else if length (as_records s) = as_max_alerts s \<and> as_records s = []
         then (Inl (IndexError ''deque index out of range''), s)
         else (let ids = (if length (as_records s) = as_max_alerts s
                          then as_event_ids s - {event_id_of (hd (as_records s))} else as_event_ids s)
               in (Inr (record, ''accepted''),
                   s\<lparr> as_records := deque_append (as_max_alerts s) (as_records s) record,
                      as_event_ids := insert (pe_event_id alert) ids \<rparr>)))"

text \<open>\<open>xs[-limit:]\<close>: with 0 it is the whole list, with a negative limit all but the first elements.\<close>

definition last_items :: "int \<Rightarrow> 'a list \<Rightarrow> 'a list" where
  "last_items limit xs = (if 0 < limit then drop (length xs - nat limit) xs else drop (nat (- limit)) xs)"

definition recent_alerts :: "int \<Rightarrow> int \<Rightarrow> ProcessingAlertStore \<Rightarrow> ProcessingAlertRecord list" where
  "recent_alerts limit now_ms s = rev (last_items limit (filter (\<lambda>r. \<not> is_expired r now_ms) (as_records s)))"

record AlertStoreStatus =
  at_received_count :: int
  at_duplicate_count :: int
  at_expired_count :: int
  at_active_count :: int
  at_retained_count :: int

definition alert_store_status :: "int \<Rightarrow> ProcessingAlertStore \<Rightarrow> AlertStoreStatus" where
  "alert_store_status now_ms s =
     \<lparr> at_received_count = as_received_count s, at_duplicate_count = as_duplicate_count s,
       at_expired_count = as_expired_count s,
       at_active_count = int (length (recent_alerts (int (as_max_alerts s)) now_ms s)),
       at_retained_count = int (length (as_records s)) \<rparr>"

definition clear_alerts :: "ProcessingAlertStore \<Rightarrow> ProcessingAlertStore" where
  "clear_alerts s = new_alert_store (as_max_alerts s)"

section \<open>Phones that listen\<close>

definition QUEUE_SIZE :: nat where "QUEUE_SIZE = 50"

record PhoneAlertSubscription =
  sb_subscription_id :: string
  sb_device_ids :: "string list"
  sb_camera_device_ids :: "string list"
  sb_session_id :: "string option"
  sb_connected_at_ms :: int
  sb_queue :: "ProcessingAlertRecord list"
  sb_delivered_count :: int
  sb_dropped_count :: int
  sb_last_sent_event_id :: "string option"

text \<open>
  \<open>enqueue\<close> takes three operations on the queue, each of them locked by itself; \<open>before_get\<close> and
  \<open>before_put\<close> are what other threads do to the subscription in between. \<open>None\<close> is \<open>queue.Full\<close>.
\<close>

definition queue_full :: "PhoneAlertSubscription \<Rightarrow> bool" where
  "queue_full s \<longleftrightarrow> QUEUE_SIZE \<le> length (sb_queue s)"

definition drop_oldest :: "PhoneAlertSubscription \<Rightarrow> PhoneAlertSubscription" where
  "drop_oldest s =
     (case sb_queue s of [] \<Rightarrow> s | _ # rest \<Rightarrow> s\<lparr> sb_queue := rest, sb_dropped_count := sb_dropped_count s + 1 \<rparr>)"

definition put_alert :: "ProcessingAlertRecord \<Rightarrow> PhoneAlertSubscription \<Rightarrow> PhoneAlertSubscription option" where
  "put_alert record s =
     (if queue_full s then None
      else Some (s\<lparr> sb_queue := sb_queue s @ [record], sb_delivered_count := sb_delivered_count s + 1,
                    sb_last_sent_event_id := Some (event_id_of record) \<rparr>))"

definition enqueue_alert ::
  "(PhoneAlertSubscription \<Rightarrow> PhoneAlertSubscription) \<Rightarrow> (PhoneAlertSubscription \<Rightarrow> PhoneAlertSubscription)
   \<Rightarrow> ProcessingAlertRecord \<Rightarrow> PhoneAlertSubscription \<Rightarrow> bool \<times> PhoneAlertSubscription" where
  "enqueue_alert before_get before_put record s =
     (let s = before_put (if queue_full s then drop_oldest (before_get s) else s)
      in case put_alert record s of None \<Rightarrow> (False, s) | Some s \<Rightarrow> (True, s))"

definition next_event :: "PhoneAlertSubscription \<Rightarrow> ProcessingAlertRecord option \<times> PhoneAlertSubscription" where
  "next_event s = (case sb_queue s of [] \<Rightarrow> (None, s) | record # rest \<Rightarrow> (Some record, s\<lparr> sb_queue := rest \<rparr>))"

section \<open>Delivery\<close>

record PhoneAlertDeliveryHub =
  ph_subscriptions :: "(string, PhoneAlertSubscription) dict"
  ph_published_count :: int
  ph_delivered_count :: int
  ph_skipped_expired_count :: int
  ph_skipped_unmatched_count :: int

definition new_delivery_hub :: PhoneAlertDeliveryHub where
  "new_delivery_hub =
     \<lparr> ph_subscriptions = [], ph_published_count = 0, ph_delivered_count = 0, ph_skipped_expired_count = 0,
       ph_skipped_unmatched_count = 0 \<rparr>"

definition from_keys :: "string list \<Rightarrow> string list" where
  "from_keys xs = rev (remdups (rev xs))"

definition subscribe ::
  "string \<Rightarrow> int \<Rightarrow> string list \<Rightarrow> string list option \<Rightarrow> string option \<Rightarrow> PhoneAlertDeliveryHub
   \<Rightarrow> PhoneAlertSubscription \<times> PhoneAlertDeliveryHub" where
  "subscribe fresh_uuid now_ms device_ids camera_device_ids session_id h =
     (let s = \<lparr> sb_subscription_id = fresh_uuid, sb_device_ids = from_keys device_ids,
                sb_camera_device_ids =
                  from_keys (case camera_device_ids of None \<Rightarrow> device_ids | Some ids \<Rightarrow> if ids = [] then device_ids else ids),
                sb_session_id = session_id, sb_connected_at_ms = now_ms, sb_queue = [], sb_delivered_count = 0,
                sb_dropped_count = 0, sb_last_sent_event_id = None \<rparr>
      in (s, h\<lparr> ph_subscriptions := dict_set (ph_subscriptions h) fresh_uuid s \<rparr>))"

definition unsubscribe :: "string \<Rightarrow> PhoneAlertDeliveryHub \<Rightarrow> PhoneAlertDeliveryHub" where
  "unsubscribe subscription_id h = h\<lparr> ph_subscriptions := dict_pop (ph_subscriptions h) subscription_id \<rparr>"

definition subscription_matches :: "ProcessingAlertRecord \<Rightarrow> PhoneAlertSubscription \<Rightarrow> bool" where
  "subscription_matches record s \<longleftrightarrow>
     truthy (sb_session_id s) \<and> ag_session_id (px_routing record) = sb_session_id s
     \<or> set (pe_camera_devices (px_alert record)) \<inter> set (sb_camera_device_ids s) \<noteq> {}"

text \<open>
  The subscriptions are enqueued to one after the other; where \<open>queue.Full\<close> is raised it leaves \<open>publish\<close>.
\<close>

fun enqueue_matching ::
  "(string \<Rightarrow> PhoneAlertSubscription \<Rightarrow> PhoneAlertSubscription) \<Rightarrow> (string \<Rightarrow> PhoneAlertSubscription \<Rightarrow> PhoneAlertSubscription)
   \<Rightarrow> ProcessingAlertRecord \<Rightarrow> (string, PhoneAlertSubscription) dict \<Rightarrow> int option \<times> (string, PhoneAlertSubscription) dict" where
  "enqueue_matching get put record [] = (Some 0, [])"
| "enqueue_matching get put record ((k, s) # rest) =
     (if \<not> subscription_matches record s then map_prod id ((#) (k, s)) (enqueue_matching get put record rest)
      else (case enqueue_alert (get k) (put k) record s of
              (False, s) \<Rightarrow> (None, (k, s) # rest)
            | (True, s) \<Rightarrow> map_prod (map_option (\<lambda>n. n + 1)) ((#) (k, s)) (enqueue_matching get put record rest)))"

definition publish_alert ::
  "(string \<Rightarrow> PhoneAlertSubscription \<Rightarrow> PhoneAlertSubscription) \<Rightarrow> (string \<Rightarrow> PhoneAlertSubscription \<Rightarrow> PhoneAlertSubscription)
   \<Rightarrow> int \<Rightarrow> ProcessingAlertRecord \<Rightarrow> PhoneAlertDeliveryHub \<Rightarrow> int option \<times> PhoneAlertDeliveryHub" where
  "publish_alert get put now_ms record h =
     (if is_expired record now_ms then (Some 0, h\<lparr> ph_skipped_expired_count := ph_skipped_expired_count h + 1 \<rparr>)
      else (let h = h\<lparr> ph_published_count := ph_published_count h + 1 \<rparr>
            in case enqueue_matching get put record (ph_subscriptions h) of
                 (None, subscriptions) \<Rightarrow> (None, h\<lparr> ph_subscriptions := subscriptions \<rparr>)
               | (Some matched, subscriptions) \<Rightarrow>
                   (Some matched, h\<lparr> ph_subscriptions := subscriptions, ph_delivered_count := ph_delivered_count h + matched,
                      ph_skipped_unmatched_count := ph_skipped_unmatched_count h + (if matched = 0 then 1 else 0) \<rparr>)))"

definition clear_hub :: "PhoneAlertDeliveryHub \<Rightarrow> PhoneAlertDeliveryHub" where
  "clear_hub h = new_delivery_hub"

text \<open>\<open>receive_processing_alert\<close>: an accepted alert is stored and published.\<close>

definition receive_processing_alert ::
  "int \<Rightarrow> int \<Rightarrow> ProcessingAlertEvent \<Rightarrow> ProcessingAlertStore \<times> PhoneAlertDeliveryHub
   \<Rightarrow> (ProcessingAlertRecord \<times> string) option \<times> ProcessingAlertStore \<times> PhoneAlertDeliveryHub" where
  "receive_processing_alert now_ms publish_ms alert st =
     (case st of (s, h) \<Rightarrow>
        (case add_alert now_ms alert s of
           (Inl _, s) \<Rightarrow> (None, s, h)
         | (Inr (record, verdict), s) \<Rightarrow>
             if verdict = ''accepted''
             then (case publish_alert (\<lambda>_. id) (\<lambda>_. id) publish_ms record h of
                     (None, h) \<Rightarrow> (None, s, h) | (Some _, h) \<Rightarrow> (Some (record, verdict), s, h))
             else (Some (record, verdict), s, h)))"

section \<open>The store remembers what it retains\<close>

definition store_ok :: "ProcessingAlertStore \<Rightarrow> bool" where
  "store_ok s \<longleftrightarrow> as_event_ids s = event_id_of ` set (as_records s) \<and> distinct (map event_id_of (as_records s))
     \<and> length (as_records s) \<le> as_max_alerts s"

lemma event_id_of_record [simp]: "event_id_of (alert_record t alert) = pe_event_id alert"
  by (simp add: event_id_of_def alert_record_def)

lemma new_alert_store_ok: "store_ok (new_alert_store n)"
  by (simp add: store_ok_def new_alert_store_def)

lemma add_alert_cases:
  obtains (duplicate) "pe_event_id alert \<in> as_event_ids s" "fst (add_alert t alert s) = Inr (alert_record t alert, ''duplicate'')"
      "as_records (snd (add_alert t alert s)) = as_records s" "as_event_ids (snd (add_alert t alert s)) = as_event_ids s"
      "as_max_alerts (snd (add_alert t alert s)) = as_max_alerts s"
    | (dropped) "pe_event_id alert \<notin> as_event_ids s" "fst (add_alert t alert s) \<noteq> Inr (alert_record t alert, ''duplicate'')"
      "as_records (snd (add_alert t alert s)) = as_records s" "as_event_ids (snd (add_alert t alert s)) = as_event_ids s"
      "as_max_alerts (snd (add_alert t alert s)) = as_max_alerts s"
    | (accepted) "pe_event_id alert \<notin> as_event_ids s" "fst (add_alert t alert s) = Inr (alert_record t alert, ''accepted'')"
      "length (as_records s) = as_max_alerts s \<longrightarrow> as_records s \<noteq> []"
      "as_records (snd (add_alert t alert s)) = deque_append (as_max_alerts s) (as_records s) (alert_record t alert)"
      "as_event_ids (snd (add_alert t alert s)) = insert (pe_event_id alert)
         (if length (as_records s) = as_max_alerts s then as_event_ids s - {event_id_of (hd (as_records s))} else as_event_ids s)"
      "as_max_alerts (snd (add_alert t alert s)) = as_max_alerts s"
  by (cases "pe_event_id alert \<in> as_event_ids s"; cases "is_expired (alert_record t alert) t";
      cases "length (as_records s) = as_max_alerts s \<and> as_records s = []") (auto simp: add_alert_def Let_def)

lemma add_alert_ok:
  assumes "store_ok s" shows "store_ok (snd (add_alert t alert s))"
proof (cases rule: add_alert_cases [of alert s t])
  case accepted
  show ?thesis
  proof (cases "length (as_records s) = as_max_alerts s")
    case True
    then obtain r rs where r: "as_records s = r # rs" using accepted(3) by (cases "as_records s") auto
    have "deque_append (as_max_alerts s) (as_records s) (alert_record t alert) = rs @ [alert_record t alert]"
      using True r by (simp add: deque_append_def deque_of_def)
    then show ?thesis using assms accepted True r by (auto simp: store_ok_def)
  next
    case False
    then have "deque_append (as_max_alerts s) (as_records s) (alert_record t alert) = as_records s @ [alert_record t alert]"
      using assms by (simp add: deque_append_def deque_of_def store_ok_def)
    then show ?thesis using assms accepted False by (auto simp: store_ok_def)
  qed
qed (use assms in \<open>simp_all add: store_ok_def\<close>)

lemma add_alert_max: "as_max_alerts (snd (add_alert t alert s)) = as_max_alerts s"
  by (cases rule: add_alert_cases [of alert s t]) simp_all

interpretation alert_store: guarded_machine "\<lambda>s (t, alert). snd (add_alert t alert s)" "\<lambda>_. True"
    "\<lambda>s. store_ok s \<and> as_max_alerts s = n" for n
  by unfold_locales (auto intro: add_alert_ok simp: add_alert_max)

lemma reached_alert_store:
  "store_ok (run (\<lambda>s (t, alert). snd (add_alert t alert s)) (new_alert_store n) arrivals)
   \<and> as_max_alerts (run (\<lambda>s (t, alert). snd (add_alert t alert s)) (new_alert_store n) arrivals) = n"
proof -
  have "store_ok (new_alert_store n) \<and> as_max_alerts (new_alert_store n) = n"
    using new_alert_store_ok by (simp add: new_alert_store_def)
  moreover have "list_all (\<lambda>_. True) arrivals" by (induction arrivals) simp_all
  ultimately show ?thesis by (rule alert_store.run_inv)
qed

lemma duplicate_iff:
  assumes "store_ok s"
  shows "fst (add_alert t alert s) = Inr (alert_record t alert, ''duplicate'') \<longleftrightarrow> pe_event_id alert \<in> event_id_of ` set (as_records s)"
  using assms by (cases rule: add_alert_cases [of alert s t]) (simp_all add: store_ok_def)

text \<open>The whole answer of the store and what it does to the records, told from the records alone.\<close>

lemma add_alert_answer:
  assumes "store_ok s"
  shows "fst (add_alert t alert s) =
      (if pe_event_id alert \<in> event_id_of ` set (as_records s) then Inr (alert_record t alert, ''duplicate'')
       else if pe_timestamp_ms alert + pe_ttl_ms alert < t then Inr (alert_record t alert, ''expired'')
       else if as_max_alerts s = 0 then Inl (IndexError ''deque index out of range'')
       else Inr (alert_record t alert, ''accepted''))"
    and "as_records (snd (add_alert t alert s)) =
      (if fst (add_alert t alert s) = Inr (alert_record t alert, ''accepted'')
       then (if length (as_records s) = as_max_alerts s then tl (as_records s) else as_records s) @ [alert_record t alert]
       else as_records s)"
proof -
  have e: "is_expired (alert_record t alert) t \<longleftrightarrow> pe_timestamp_ms alert + pe_ttl_ms alert < t"
    by (simp add: is_expired_def alert_record_def)
  have full: "length (as_records s) = as_max_alerts s \<and> as_records s = [] \<longleftrightarrow> as_max_alerts s = 0"
    using assms by (auto simp: store_ok_def)
  have ids: "as_event_ids s = event_id_of ` set (as_records s)" using assms by (simp add: store_ok_def)
  show "fst (add_alert t alert s) =
      (if pe_event_id alert \<in> event_id_of ` set (as_records s) then Inr (alert_record t alert, ''duplicate'')
       else if pe_timestamp_ms alert + pe_ttl_ms alert < t then Inr (alert_record t alert, ''expired'')
       else if as_max_alerts s = 0 then Inl (IndexError ''deque index out of range'')
       else Inr (alert_record t alert, ''accepted''))"
    by (simp add: add_alert_def Let_def e ids) (use full in auto)
  have "deque_append (as_max_alerts s) (as_records s) r
      = (if length (as_records s) = as_max_alerts s then tl (as_records s) else as_records s) @ [r]"
    if "length (as_records s) = as_max_alerts s \<longrightarrow> as_records s \<noteq> []" for r
    using assms that by (cases "as_records s") (auto simp: store_ok_def deque_append_def deque_of_def)
  then show "as_records (snd (add_alert t alert s)) =
      (if fst (add_alert t alert s) = Inr (alert_record t alert, ''accepted'')
       then (if length (as_records s) = as_max_alerts s then tl (as_records s) else as_records s) @ [alert_record t alert]
       else as_records s)"
    by (auto simp: add_alert_def Let_def)
qed

section \<open>Publishing alone\<close>

text \<open>The specification: a matching phone gets the alert behind its newest alerts, 50 in all.\<close>

definition with_alert :: "ProcessingAlertRecord \<Rightarrow> PhoneAlertSubscription \<Rightarrow> PhoneAlertSubscription" where
  "with_alert record s =
     s\<lparr> sb_queue := deque_append QUEUE_SIZE (sb_queue s) record,
        sb_dropped_count := sb_dropped_count s + (if queue_full s then 1 else 0),
        sb_delivered_count := sb_delivered_count s + 1, sb_last_sent_event_id := Some (event_id_of record) \<rparr>"

definition queues_ok :: "(string, PhoneAlertSubscription) dict \<Rightarrow> bool" where
  "queues_ok subs \<longleftrightarrow> (\<forall>(k, s) \<in> set subs. length (sb_queue s) \<le> QUEUE_SIZE)"

lemma enqueue_alone:
  assumes "length (sb_queue s) \<le> QUEUE_SIZE"
  shows "enqueue_alert id id record s = (True, with_alert record s)"
proof (cases "sb_queue s")
  case Nil
  then show ?thesis by (simp add: enqueue_alert_def put_alert_def with_alert_def queue_full_def deque_append_def deque_of_def QUEUE_SIZE_def)
next
  case (Cons r rs)
  show ?thesis
  proof (cases "queue_full s")
    case True
    then have "length (sb_queue s) = QUEUE_SIZE" using assms by (simp add: queue_full_def)
    then have "deque_append QUEUE_SIZE (sb_queue s) record = rs @ [record]" "\<not> QUEUE_SIZE \<le> length rs"
      using Cons by (simp_all add: deque_append_def deque_of_def)
    then show ?thesis using True Cons by (simp add: enqueue_alert_def put_alert_def with_alert_def drop_oldest_def queue_full_def)
  next
    case False
    then have "deque_append QUEUE_SIZE (sb_queue s) record = sb_queue s @ [record]"
      by (simp add: deque_append_def deque_of_def queue_full_def)
    then show ?thesis using False by (simp add: enqueue_alert_def put_alert_def with_alert_def)
  qed
qed

lemma enqueue_matching_alone:
  assumes "queues_ok subs"
  shows "enqueue_matching (\<lambda>_. id) (\<lambda>_. id) record subs
    = (Some (int (length (filter (subscription_matches record) (dict_values subs)))),
       map (\<lambda>(k, s). (k, if subscription_matches record s then with_alert record s else s)) subs)"
  using assms
proof (induction subs)
  case (Cons e subs)
  obtain k s where e: "e = (k, s)" by fastforce
  have q: "length (sb_queue s) \<le> QUEUE_SIZE" "queues_ok subs" using Cons.prems by (auto simp: queues_ok_def e)
  show ?case using Cons.IH [OF q(2)] enqueue_alone [OF q(1), of "record", unfolded id_def] by (simp add: e id_def)
qed simp

lemma with_alert_queue: "length (sb_queue (with_alert record s)) \<le> QUEUE_SIZE"
  by (simp add: with_alert_def deque_append_def deque_of_length)

lemma published_queues: "queues_ok subs \<Longrightarrow> queues_ok (map (\<lambda>(k, s). (k, if subscription_matches record s then with_alert record s else s)) subs)"
  using with_alert_queue by (auto simp: queues_ok_def split: if_splits prod.splits)

lemma publish_alone:
  assumes "queues_ok (ph_subscriptions h)" "\<not> is_expired record now_ms"
  shows "fst (publish_alert (\<lambda>_. id) (\<lambda>_. id) now_ms record h)
      = Some (int (length (filter (subscription_matches record) (dict_values (ph_subscriptions h)))))
    \<and> ph_subscriptions (snd (publish_alert (\<lambda>_. id) (\<lambda>_. id) now_ms record h))
      = map (\<lambda>(k, s). (k, if subscription_matches record s then with_alert record s else s)) (ph_subscriptions h)
    \<and> queues_ok (ph_subscriptions (snd (publish_alert (\<lambda>_. id) (\<lambda>_. id) now_ms record h)))"
  using assms published_queues [OF assms(1), of "record"] enqueue_matching_alone [OF assms(1), of "record"]
  by (simp add: publish_alert_def Let_def)

section \<open>Two publishers, and sessions\<close>

lemma put_race:
  assumes "length (sb_queue s) + 1 = QUEUE_SIZE" "put_alert other s = Some s'"
  shows "enqueue_alert id (\<lambda>_. s') record s = (False, s') \<and> record \<notin> set (sb_queue s') - set (sb_queue s) - {other}"
  using assms by (auto simp: enqueue_alert_def put_alert_def queue_full_def split: if_splits)

lemma matches_cameras:
  "subscription_matches (alert_record t alert) s \<longleftrightarrow> set (pe_camera_devices alert) \<inter> set (sb_camera_device_ids s) \<noteq> {}"
  by (cases "sb_session_id s") (auto simp: subscription_matches_def alert_record_def build_alert_routing_def)

lemma subscribed_cameras:
  "sb_camera_device_ids (fst (subscribe u t [] cameras session h)) = from_keys (case cameras of None \<Rightarrow> [] | Some ids \<Rightarrow> ids)"
  by (simp add: subscribe_def Let_def split: option.split)

end
