(* ===== verification/StorageReplay.thy ===== *)
theory StorageReplay
  imports SyncService
begin

text \<open>
  scripts/storage_sync_replay: the matching of a recorded session. The frames of a recording are arranged by
  \<open>arrange_replay_frames\<close> and handled one by one by the live service's matching or by the anchor matcher, which
  takes around each frame the nearest unused frame of every camera. \<open>anchor_ok\<close> is the invariant of the anchor
  matcher with the frame sets it has emitted. The files are a function from paths to contents.
\<close>

section \<open>Frames of a recording\<close>

record ReplayFrame =
  rp_frame_id :: int
  rp_device_id :: string
  rp_timestamp_ms :: int
  rp_original_timestamp_ms :: int
  rp_server_received_at_ms :: "int option"
  rp_server_receive_sequence :: "int option"
  rp_sequence :: int
  rp_file_path :: string
  rp_content_type :: string

definition capture_order :: "ReplayFrame \<Rightarrow> int \<times> string \<times> int" where
  "capture_order f = (rp_timestamp_ms f, rp_device_id f, rp_sequence f)"

definition received_order :: "ReplayFrame \<Rightarrow> int \<times> int \<times> int \<times> string \<times> int" where
  "received_order f =
     (case rp_server_received_at_ms f of None \<Rightarrow> -1 | Some t \<Rightarrow> t,
      case rp_server_receive_sequence f of None \<Rightarrow> -1 | Some n \<Rightarrow> n, capture_order f)"

definition sort_replay_frames :: "ReplayFrame list \<Rightarrow> string \<Rightarrow> ReplayFrame list result" where
  "sort_replay_frames frames order_by =
     (if order_by = ''capture'' then Inr (sort_key capture_order frames)
      else if order_by = ''received'' then Inr (sort_key received_order frames)
      else Inl (ValueError (''Unsupported replay order: '' @ order_by)))"

record CameraRange =
  cg_device_id :: string
  cg_first_timestamp_ms :: int
  cg_last_timestamp_ms :: int

record Overlap =
  ov_has_overlap :: bool
  ov_start_timestamp_ms :: int
  ov_end_timestamp_ms :: int
  ov_duration_ms :: int
  ov_camera_ranges :: "CameraRange list"

definition camera_range :: "string \<times> ReplayFrame list \<Rightarrow> CameraRange" where
  "camera_range entry =
     (let timestamps = map rp_original_timestamp_ms (snd entry)
      in \<lparr> cg_device_id = fst entry, cg_first_timestamp_ms = list_min timestamps, cg_last_timestamp_ms = list_max timestamps \<rparr>)"

text \<open>\<open>None\<close> when a camera has no frames; with no cameras at all \<open>max\<close> of nothing is asked for.\<close>

definition calculate_overlap :: "(string, ReplayFrame list) dict \<Rightarrow> Overlap option result" where
  "calculate_overlap frames_by_camera =
     (if list_ex (\<lambda>(d, frames). frames = []) frames_by_camera then Inr None
      else if frames_by_camera = [] then Inl (ValueError ''max() arg is an empty sequence'')
      else (let ranges = map camera_range frames_by_camera;
                start = list_max (map cg_first_timestamp_ms ranges);
                stop = list_min (map cg_last_timestamp_ms ranges)
            in Inr (Some \<lparr> ov_has_overlap = start \<le> stop, ov_start_timestamp_ms = start, ov_end_timestamp_ms = stop,
                           ov_duration_ms = max (stop - start) 0, ov_camera_ranges = ranges \<rparr>)))"

definition trim_camera_frames :: "Overlap option \<Rightarrow> ReplayFrame list \<Rightarrow> ReplayFrame list" where
  "trim_camera_frames overlap frames =
     (case overlap of None \<Rightarrow> frames
      | Some ov \<Rightarrow> filter (\<lambda>f. ov_start_timestamp_ms ov \<le> rp_original_timestamp_ms f
                             \<and> rp_original_timestamp_ms f \<le> ov_end_timestamp_ms ov) frames)"

definition align_camera_frames :: "ReplayFrame list \<Rightarrow> string \<Rightarrow> ReplayFrame list result" where
  "align_camera_frames frames timestamp_align =
     (if timestamp_align = ''none'' \<or> frames = [] then Inr frames
      else if timestamp_align \<noteq> ''first-frame'' then Inl (ValueError (''Unsupported timestamp alignment: '' @ timestamp_align))
      else Inr (map (\<lambda>f. f\<lparr> rp_timestamp_ms := rp_timestamp_ms f - rp_timestamp_ms (hd frames) \<rparr>) frames))"

text \<open>\<open>collect_replay_frames\<close> without the reading of the folders, whose frames come as a dictionary.\<close>

definition arrange_replay_frames ::
  "(string, ReplayFrame list) dict \<Rightarrow> string \<Rightarrow> bool \<Rightarrow> string
   \<Rightarrow> (ReplayFrame list \<times> (string, int) dict \<times> Overlap option) result" where
  "arrange_replay_frames frames_by_camera timestamp_align trim_overlap order_by =
     bind_result (if order_by \<in> {''capture'', ''received''} then Inr ()
                  else Inl (ValueError (''Unsupported replay order: '' @ order_by))) (\<lambda>_.
     bind_result (if trim_overlap then calculate_overlap frames_by_camera else Inr None) (\<lambda>overlap.
     bind_result (map_result (\<lambda>(d, frames). map_sum id (Pair d) (align_camera_frames (trim_camera_frames overlap frames) timestamp_align))
                    frames_by_camera) (\<lambda>cameras.
     bind_result (sort_replay_frames (concat (dict_values cameras)) order_by) (\<lambda>frames.
     Inr (frames, map (\<lambda>(d, fs). (d, int (length fs))) cameras, overlap)))))"

record TimestampRange =
  tr_first_timestamp_ms :: int
  tr_last_timestamp_ms :: int
  tr_first_original_timestamp_ms :: int
  tr_last_original_timestamp_ms :: int

definition widen_range :: "ReplayFrame \<Rightarrow> (string, TimestampRange) dict \<Rightarrow> (string, TimestampRange) dict" where
  "widen_range f ranges =
     (let r = (case dict_get ranges (rp_device_id f) of Some r \<Rightarrow> r
               | None \<Rightarrow> \<lparr> tr_first_timestamp_ms = rp_timestamp_ms f, tr_last_timestamp_ms = rp_timestamp_ms f,
                           tr_first_original_timestamp_ms = rp_original_timestamp_ms f,
                           tr_last_original_timestamp_ms = rp_original_timestamp_ms f \<rparr>)
      in dict_set ranges (rp_device_id f)
           \<lparr> tr_first_timestamp_ms = min (tr_first_timestamp_ms r) (rp_timestamp_ms f),
             tr_last_timestamp_ms = max (tr_last_timestamp_ms r) (rp_timestamp_ms f),
             tr_first_original_timestamp_ms = min (tr_first_original_timestamp_ms r) (rp_original_timestamp_ms f),
             tr_last_original_timestamp_ms = max (tr_last_original_timestamp_ms r) (rp_original_timestamp_ms f) \<rparr>)"

definition build_timestamp_ranges :: "ReplayFrame list \<Rightarrow> (string, TimestampRange) dict" where
  "build_timestamp_ranges frames = fold widen_range frames []"

section \<open>The anchor matcher\<close>

record AnchorReplayMatcher =
  am_expected_cameras :: "string list"
  am_window_ms :: int
  am_buffer_manager :: SyncFrameBufferManager
  am_next_frame_set_id :: int
  am_emitted_keys :: "string list set"
  am_used_frame_keys :: "string set"
  am_matched_count :: int
  am_missed_count :: int
  am_duplicate_count :: int
  am_ignored_count :: int
  am_last_frame_set_id :: "int option"
  am_last_anchor_timestamp_ms :: "int option"
  am_last_max_delta_ms :: "int option"
  am_last_span_ms :: "int option"
  am_last_missing_cameras :: "string list"
  am_last_reason :: "string option"

definition new_anchor_matcher :: "string list \<Rightarrow> int \<Rightarrow> int \<Rightarrow> AnchorReplayMatcher result" where
  "new_anchor_matcher expected_cameras window_ms buffer_size =
     map_sum id (\<lambda>m. \<lparr> am_expected_cameras = expected_cameras, am_window_ms = window_ms, am_buffer_manager = m,
         am_next_frame_set_id = 1, am_emitted_keys = {}, am_used_frame_keys = {}, am_matched_count = 0, am_missed_count = 0,
         am_duplicate_count = 0, am_ignored_count = 0, am_last_frame_set_id = None, am_last_anchor_timestamp_ms = None,
         am_last_max_delta_ms = None, am_last_span_ms = None, am_last_missing_cameras = [], am_last_reason = None \<rparr>)
       (new_buffer_manager buffer_size)"

fun nearest_members ::
  "SyncFrameBufferManager \<Rightarrow> int \<Rightarrow> int \<Rightarrow> string set \<Rightarrow> selection \<times> string list \<Rightarrow> string list \<Rightarrow> selection \<times> string list" where
  "nearest_members m anchor window used (selected, missing) [] = (selected, missing)"
| "nearest_members m anchor window used (selected, missing) (d # ds) =
     nearest_members m anchor window used
       (case nearest_frame m d anchor window used of
          None \<Rightarrow> (selected, missing @ [d]) | Some f \<Rightarrow> (dict_set selected d f, missing)) ds"

definition member_buffer_keys :: "selection \<Rightarrow> string list" where
  "member_buffer_keys selected = map f_buffer_key (dict_values selected)"

text \<open>A frame set of the anchor matcher has only the fields of the first version; the others have their defaults.\<close>

definition anchor_frame_set :: "int \<Rightarrow> int \<Rightarrow> selection \<Rightarrow> SynchronizedFrameSet" where
  "anchor_frame_set frame_set_id anchor selected =
     (let timestamps = map f_timestamp_ms (dict_values selected)
      in \<lparr> fs_frame_set_id = frame_set_id, fs_anchor_timestamp_ms = anchor,
           fs_max_delta_ms = list_max (map (\<lambda>t. \<bar>t - anchor\<bar>) timestamps), fs_frames = selected,
           fs_span_ms = Some (list_max timestamps - list_min timestamps), fs_capture_session_id = None,
           fs_capture_run_id = None, fs_frame_set_uid = None, fs_manifest_digest = None, fs_manifest_json = None,
           fs_identity_mode = IDENTITY_MODE_LEGACY, fs_archive_state = ARCHIVE_PENDING, fs_archive_error = None,
           fs_sync_window_ms = 0, fs_synchronized_at_ms = 0, fs_member_count = 0, fs_tenant_id = None,
           fs_site_id = None, fs_processing_job_id = None, fs_profile_digest = None, fs_authorized_subject = None,
           fs_session_token_jti = None \<rparr>)"

definition anchor_note :: "int \<Rightarrow> string list \<Rightarrow> string \<Rightarrow> AnchorReplayMatcher \<Rightarrow> AnchorReplayMatcher" where
  "anchor_note anchor missing reason a =
     a\<lparr> am_last_anchor_timestamp_ms := Some anchor, am_last_missing_cameras := missing, am_last_reason := Some reason \<rparr>"

definition anchor_emit :: "SynchronizedFrameSet \<Rightarrow> AnchorReplayMatcher \<Rightarrow> AnchorReplayMatcher" where
  "anchor_emit fset a =
     (let keys = sort (member_buffer_keys (fs_frames fset))
      in a\<lparr> am_next_frame_set_id := am_next_frame_set_id a + 1, am_emitted_keys := insert keys (am_emitted_keys a),
            am_used_frame_keys := am_used_frame_keys a \<union> set keys, am_matched_count := am_matched_count a + 1,
            am_last_frame_set_id := Some (fs_frame_set_id fset), am_last_anchor_timestamp_ms := Some (fs_anchor_timestamp_ms fset),
            am_last_max_delta_ms := Some (fs_max_delta_ms fset), am_last_span_ms := fs_span_ms fset,
            am_last_missing_cameras := [], am_last_reason := Some ''matched'' \<rparr>)"

definition anchor_handle_frame ::
  "AnchorReplayMatcher \<Rightarrow> SyncInputFrame \<Rightarrow> SynchronizedFrameSet option \<times> AnchorReplayMatcher" where
  "anchor_handle_frame a frame =
     (case add_frame (am_buffer_manager a) frame of
        (None, m) \<Rightarrow> (None, a\<lparr> am_buffer_manager := m \<rparr>)
      | (Some stored, m) \<Rightarrow>
          (let a = a\<lparr> am_buffer_manager := m \<rparr>; anchor = f_timestamp_ms stored
           in if f_device_id stored \<notin> set (am_expected_cameras a)
              then (None, anchor_note anchor [] (''unexpected camera: '' @ f_device_id stored)
                            (a\<lparr> am_ignored_count := am_ignored_count a + 1 \<rparr>))
              else (case nearest_members m anchor (am_window_ms a) (am_used_frame_keys a) ([], []) (am_expected_cameras a) of
                      (selected, missing) \<Rightarrow>
                        if missing \<noteq> []
                        then (None, anchor_note anchor missing ''missing cameras inside anchor window''
                                      (a\<lparr> am_missed_count := am_missed_count a + 1 \<rparr>))
                        else if sort (member_buffer_keys selected) \<in> am_emitted_keys a
                        then (None, anchor_note anchor [] ''duplicate frame set''
                                      (a\<lparr> am_duplicate_count := am_duplicate_count a + 1 \<rparr>))
                        else (let fset = anchor_frame_set (am_next_frame_set_id a) anchor selected
                              in (Some fset, anchor_emit fset a)))))"

section \<open>What the anchor matcher emits\<close>

definition set_keys :: "SynchronizedFrameSet \<Rightarrow> string set" where
  "set_keys fset = set (member_buffer_keys (fs_frames fset))"

text \<open>
  Frames under their own cameras, each camera once; and a complete frame set around its anchor, with one frame of
  each camera under its name.
\<close>

definition filed :: "selection \<Rightarrow> bool" where
  "filed sel \<longleftrightarrow> distinct (dict_keys sel) \<and> (\<forall>(d, f) \<in> set sel. f_device_id f = d)"

definition anchored :: "string list \<Rightarrow> int \<Rightarrow> SynchronizedFrameSet \<Rightarrow> bool" where
  "anchored expected window fset \<longleftrightarrow> set (dict_keys (fs_frames fset)) = set expected \<and> filed (fs_frames fset)
     \<and> (\<forall>f \<in> set (dict_values (fs_frames fset)). \<bar>f_timestamp_ms f - fs_anchor_timestamp_ms fset\<bar> \<le> window)"

definition anchor_step ::
  "AnchorReplayMatcher \<times> SynchronizedFrameSet list \<Rightarrow> SyncInputFrame \<Rightarrow> AnchorReplayMatcher \<times> SynchronizedFrameSet list" where
  "anchor_step st frame =
     (case anchor_handle_frame (fst st) frame of (r, a) \<Rightarrow> (a, snd st @ (case r of None \<Rightarrow> [] | Some fset \<Rightarrow> [fset])))"

definition anchor_ok :: "string list \<Rightarrow> int \<Rightarrow> AnchorReplayMatcher \<times> SynchronizedFrameSet list \<Rightarrow> bool" where
  "anchor_ok expected window st \<longleftrightarrow>
     (case st of (a, out) \<Rightarrow>
        am_expected_cameras a = expected \<and> am_window_ms a = window
        \<and> am_used_frame_keys a = (\<Union>x \<in> set out. set_keys x)
        \<and> (\<forall>keys \<in> am_emitted_keys a. keys \<noteq> [] \<and> set keys \<subseteq> am_used_frame_keys a)
        \<and> am_duplicate_count a = 0 \<and> am_matched_count a = int (length out)
        \<and> map fs_frame_set_id out = map int [1..<length out + 1] \<and> am_next_frame_set_id a = int (length out) + 1
        \<and> sorted_wrt (\<lambda>x y. set_keys x \<inter> set_keys y = {}) out \<and> (\<forall>x \<in> set out. anchored expected window x)
        \<and> manager_inv (am_buffer_manager a))"

lemma nearest_frame_near:
  assumes "nearest_frame m d anchor window used = Some f"
  shows "f_buffer_key f \<notin> used \<and> \<bar>f_timestamp_ms f - anchor\<bar> \<le> window"
proof -
  obtain b where "buffer_nearest_frame b anchor window used = Some f"
    using assms by (auto simp: nearest_frame_def split: option.splits)
  then have "near_candidate anchor window used f" using buffer_nearest_frame_spec [of b anchor window used] by simp
  then show ?thesis by (simp add: near_candidate_def)
qed

lemma nearest_frame_device:
  assumes "nearest_frame m d anchor window used = Some f" "manager_inv m" shows "f_device_id f = d"
proof -
  obtain b where b: "dict_get (bm_buffers m) d = Some b" "buffer_nearest_frame b anchor window used = Some f"
    using assms(1) by (auto simp: nearest_frame_def split: option.splits)
  then have "f \<in> set (cb_frames b)" using buffer_nearest_frame_spec [of b anchor window used] by simp
  then show ?thesis using manager_invD(4) [OF assms(2) b(1)] by (simp add: camera_inv_def)
qed

lemma filed_set: "filed sel \<Longrightarrow> f_device_id f = d \<Longrightarrow> filed (dict_set sel d f)"
proof -
  assume sel: "filed sel" and f: "f_device_id f = d"
  have "set (dict_set sel d f) \<subseteq> insert (d, f) (set sel)" by (induction sel) (auto split: if_splits)
  then show ?thesis using sel f dict_distinct_set by (auto simp: filed_def)
qed

lemma nearest_members_filed:
  "nearest_members m anchor window used (sel, miss) ds = (sel', miss') \<Longrightarrow> manager_inv m \<Longrightarrow> filed sel \<Longrightarrow> filed sel'"
proof (induction ds arbitrary: sel miss)
  case (Cons d ds)
  show ?case
  proof (cases "nearest_frame m d anchor window used")
    case (Some f)
    then show ?thesis using Cons.prems Cons.IH [of "dict_set sel d f" miss] filed_set nearest_frame_device by simp
  qed (use Cons in simp)
qed simp

lemma nearest_members_found:
  assumes "nearest_members m anchor window used (sel, miss) ds = (sel', [])"
  shows "miss = [] \<and> set (dict_keys sel') = set (dict_keys sel) \<union> set ds
    \<and> (\<forall>f \<in> set (dict_values sel'). f \<in> set (dict_values sel) \<or> f_buffer_key f \<notin> used \<and> \<bar>f_timestamp_ms f - anchor\<bar> \<le> window)"
  using assms
proof (induction ds arbitrary: sel miss)
  case (Cons d ds)
  show ?case
  proof (cases "nearest_frame m d anchor window used")
    case None
    then show ?thesis using Cons.IH [of sel "miss @ [d]"] Cons.prems by simp
  next
    case (Some f)
    have sub: "set (dict_values (dict_set sel d f)) \<subseteq> insert f (set (dict_values sel))"
      by (induction sel) (auto split: if_splits)
    have keys: "set (dict_keys (dict_set sel d f)) = insert d (set (dict_keys sel))" by (rule dict_keys_set)
    have "nearest_members m anchor window used (dict_set sel d f, miss) ds = (sel', [])" using Cons.prems Some by simp
    note ih = Cons.IH [OF this]
    have "g \<in> set (dict_values sel) \<or> f_buffer_key g \<notin> used \<and> \<bar>f_timestamp_ms g - anchor\<bar> \<le> window"
      if "g \<in> set (dict_values sel')" for g
      using ih that sub nearest_frame_near [OF Some] by blast
    then show ?thesis using ih keys by simp
  qed
qed simp

text \<open>What one frame does to the matcher: nothing but counts, or a frame set of unused frames.\<close>

lemma anchor_handle_cases:
  assumes "anchor_handle_frame a frame = (r, a')"
  obtains (quiet) "r = None" "am_used_frame_keys a' = am_used_frame_keys a" "am_emitted_keys a' = am_emitted_keys a"
      "am_duplicate_count a' = am_duplicate_count a" "am_matched_count a' = am_matched_count a"
      "am_next_frame_set_id a' = am_next_frame_set_id a" "am_expected_cameras a' = am_expected_cameras a" "am_window_ms a' = am_window_ms a"
      "am_buffer_manager a' = snd (add_frame (am_buffer_manager a) frame)"
    | (repeated) selected where "sort (member_buffer_keys selected) \<in> am_emitted_keys a" "member_buffer_keys selected \<noteq> []"
        "\<forall>f \<in> set (dict_values selected). f_buffer_key f \<notin> am_used_frame_keys a"
    | (emitted) selected m anchor where "r = Some (anchor_frame_set (am_next_frame_set_id a) anchor selected)"
        "a' = anchor_emit (anchor_frame_set (am_next_frame_set_id a) anchor selected) (a\<lparr> am_buffer_manager := m \<rparr>)"
        "m = snd (add_frame (am_buffer_manager a) frame)" "manager_inv m \<longrightarrow> filed selected"
        "selected \<noteq> []" "set (dict_keys selected) = set (am_expected_cameras a)"
        "\<forall>f \<in> set (dict_values selected). f_buffer_key f \<notin> am_used_frame_keys a \<and> \<bar>f_timestamp_ms f - anchor\<bar> \<le> am_window_ms a"
proof -
  obtain stored m where add: "add_frame (am_buffer_manager a) frame = (stored, m)" by fastforce
  show ?thesis
  proof (cases stored)
    case None
    then show ?thesis using assms add by (intro quiet) (auto simp: anchor_handle_frame_def)
  next
    case (Some f)
    let ?t = "f_timestamp_ms f"
    obtain selected missing where n: "nearest_members m ?t (am_window_ms a) (am_used_frame_keys a) ([], []) (am_expected_cameras a) = (selected, missing)"
      by fastforce
    consider "f_device_id f \<notin> set (am_expected_cameras a)" | "f_device_id f \<in> set (am_expected_cameras a)" "missing \<noteq> []"
      | (full) "f_device_id f \<in> set (am_expected_cameras a)" "missing = []" by blast
    then show ?thesis
    proof cases
      case full
      note found = nearest_members_found [OF n [unfolded full(2)]]
      have sel: "selected \<noteq> []" using found full(1) by auto
      have near: "\<forall>f \<in> set (dict_values selected). f_buffer_key f \<notin> am_used_frame_keys a \<and> \<bar>f_timestamp_ms f - ?t\<bar> \<le> am_window_ms a"
        using found by auto
      show ?thesis
      proof (cases "sort (member_buffer_keys selected) \<in> am_emitted_keys a")
        case True
        then show ?thesis using repeated [of selected] sel near by (auto simp: member_buffer_keys_def)
      next
        case False
        have "(r, a') = (Some (anchor_frame_set (am_next_frame_set_id a) ?t selected),
            anchor_emit (anchor_frame_set (am_next_frame_set_id a) ?t selected) (a\<lparr> am_buffer_manager := m \<rparr>))"
          using assms add Some n full False by (simp add: anchor_handle_frame_def Let_def)
        moreover have "manager_inv m \<longrightarrow> filed selected"
          using nearest_members_filed [OF n] by (simp add: filed_def)
        moreover have "m = snd (add_frame (am_buffer_manager a) frame)" using add by simp
        moreover have "set (dict_keys selected) = set (am_expected_cameras a)" using found by simp
        ultimately show ?thesis using emitted [of ?t selected m] sel near by simp
      qed
    qed (use assms add Some n in \<open>auto simp: anchor_handle_frame_def anchor_note_def Let_def intro!: quiet\<close>)
  qed
qed

lemma anchor_frame_set_simps [simp]:
  "fs_frames (anchor_frame_set n t selected) = selected" "fs_frame_set_id (anchor_frame_set n t selected) = n"
  "fs_anchor_timestamp_ms (anchor_frame_set n t selected) = t"
  by (simp_all add: anchor_frame_set_def Let_def)

lemma anchor_step_ok:
  assumes ok: "anchor_ok expected window st" shows "anchor_ok expected window (anchor_step st frame)"
proof -
  obtain a out where st: "st = (a, out)" by fastforce
  obtain r a' where h: "anchor_handle_frame a frame = (r, a')" by fastforce
  show ?thesis using h
  proof (cases rule: anchor_handle_cases)
    case quiet
    have e: "anchor_step (a, out) frame = (a', out)" using h quiet(1) by (simp add: anchor_step_def)
    have "manager_inv (am_buffer_manager a')" unfolding quiet(9) using ok by (intro add_frame_inv) (simp add: st anchor_ok_def)
    then show ?thesis using ok unfolding st e anchor_ok_def prod.case quiet(2-8) by blast
  next
    case (repeated selected)
    then have "set (member_buffer_keys selected) \<subseteq> am_used_frame_keys a" using ok by (fastforce simp: st anchor_ok_def)
    then show ?thesis using repeated(2,3) by (cases selected) (auto simp: member_buffer_keys_def)
  next
    case (emitted selected m anchor)
    let ?x = "anchor_frame_set (am_next_frame_set_id a) anchor selected"
    have new: "set_keys ?x \<inter> am_used_frame_keys a = {}" using emitted(7) by (auto simp: set_keys_def member_buffer_keys_def)
    have inv: "manager_inv m" unfolding emitted(3) using ok by (intro add_frame_inv) (simp add: st anchor_ok_def)
    then have "filed selected" using emitted(4) by blast
    then have good: "anchored expected window ?x" using emitted(6,7) ok by (auto simp: anchored_def st anchor_ok_def)
    have keys: "sort (member_buffer_keys selected) \<noteq> []"
    proof -
      have "set (sort (member_buffer_keys selected)) \<noteq> {}" using emitted(5) unfolding set_sort by (simp add: member_buffer_keys_def)
      then show ?thesis by (metis empty_set)
    qed
    have a': "am_used_frame_keys a' = am_used_frame_keys a \<union> set_keys ?x" "am_next_frame_set_id a' = am_next_frame_set_id a + 1"
        "am_emitted_keys a' = insert (sort (member_buffer_keys selected)) (am_emitted_keys a)" "am_duplicate_count a' = am_duplicate_count a"
        "am_matched_count a' = am_matched_count a + 1" "am_expected_cameras a' = am_expected_cameras a" "am_window_ms a' = am_window_ms a"
      by (simp_all add: emitted(2) anchor_emit_def Let_def set_keys_def)
    have inv': "manager_inv (am_buffer_manager a')" using inv by (simp add: emitted(2) anchor_emit_def Let_def)
    have e: "anchor_step (a, out) frame = (a', out @ [?x])" using h emitted(1) by (simp add: anchor_step_def)
    have o: "am_expected_cameras a = expected" "am_window_ms a = window" "am_used_frame_keys a = (\<Union>x \<in> set out. set_keys x)"
        "am_duplicate_count a = 0" "am_matched_count a = int (length out)" "am_next_frame_set_id a = int (length out) + 1"
        "map fs_frame_set_id out = map int [1..<length out + 1]"
        "sorted_wrt (\<lambda>x y. set_keys x \<inter> set_keys y = {}) out" "\<forall>x \<in> set out. anchored expected window x"
      and old: "\<forall>keys \<in> am_emitted_keys a. keys \<noteq> [] \<and> set keys \<subseteq> am_used_frame_keys a"
      using ok unfolding st anchor_ok_def prod.case by blast+
    have x: "set (sort (member_buffer_keys selected)) = set_keys ?x" by (simp add: set_keys_def)
    have emitted': "\<forall>keys \<in> am_emitted_keys a'. keys \<noteq> [] \<and> set keys \<subseteq> am_used_frame_keys a'"
    proof
      fix ks assume "ks \<in> am_emitted_keys a'"
      then consider "ks = sort (member_buffer_keys selected)" | "ks \<in> am_emitted_keys a" using a'(3) by auto
      then show "ks \<noteq> [] \<and> set ks \<subseteq> am_used_frame_keys a'"
      proof cases
        case 1
        then show ?thesis using keys x a'(1) by (simp del: set_sort)
      next
        case 2
        then have "ks \<noteq> []" "set ks \<subseteq> am_used_frame_keys a" using old by simp_all
        then show ?thesis using a'(1) by blast
      qed
    qed
    have apart: "sorted_wrt (\<lambda>x y. set_keys x \<inter> set_keys y = {}) (out @ [?x])"
      using o(8) new unfolding o(3) by (auto simp: sorted_wrt_append)
    show ?thesis
      using o good emitted' apart a' inv' unfolding st e anchor_ok_def prod.case by (simp add: Un_commute)
  qed
qed

lemma new_anchor_ok: "new_anchor_matcher expected window buffer_size = Inr a \<Longrightarrow> anchor_ok expected window (a, [])"
  by (cases "new_buffer_manager buffer_size") (auto simp: new_anchor_matcher_def anchor_ok_def intro: new_buffer_manager_inv)

interpretation anchor: guarded_machine anchor_step "\<lambda>_. True" "anchor_ok expected window" for expected window
  by unfold_locales (rule anchor_step_ok)

section \<open>A replay\<close>

datatype ReplayMatcher = SpanReplayMatcher StreamSyncService | AnchorMatcher AnchorReplayMatcher

definition build_replay_matcher :: "string \<Rightarrow> string \<Rightarrow> string list \<Rightarrow> int \<Rightarrow> int \<Rightarrow> int \<Rightarrow> ReplayMatcher result" where
  "build_replay_matcher fresh_uuid matcher_mode expected_cameras window_ms buffer_size recent_limit =
     (if matcher_mode = ''span''
      then (case configure fresh_uuid True expected_cameras window_ms buffer_size recent_limit new_service of
              (Inl e, _) \<Rightarrow> Inl e | (Inr _, service) \<Rightarrow> Inr (SpanReplayMatcher service))
      else if matcher_mode = ''anchor'' then map_sum id AnchorMatcher (new_anchor_matcher expected_cameras window_ms buffer_size)
      else Inl (ValueError (''Unsupported matcher mode: '' @ matcher_mode)))"

text \<open>The clock and the identifier that the matching of the live service takes for each frame.\<close>

fun replay_handle_frame ::
  "int \<Rightarrow> string \<Rightarrow> ReplayMatcher \<Rightarrow> SyncInputFrame \<Rightarrow> SynchronizedFrameSet option result \<times> ReplayMatcher" where
  "replay_handle_frame now_ms fresh_uuid (SpanReplayMatcher service) frame =
     map_prod id SpanReplayMatcher (handle_frame now_ms fresh_uuid service frame)"
| "replay_handle_frame now_ms fresh_uuid (AnchorMatcher a) frame = map_prod Inr AnchorMatcher (anchor_handle_frame a frame)"

record ReplayStatus =
  rs_matched_count :: int
  rs_missed_count :: int
  rs_duplicate_count :: int
  rs_ignored_count :: int
  rs_last_anchor_timestamp_ms :: "int option"
  rs_last_missing_cameras :: "string list"
  rs_last_reason :: "string option"

definition no_replay_status :: ReplayStatus where
  "no_replay_status =
     \<lparr> rs_matched_count = 0, rs_missed_count = 0, rs_duplicate_count = 0, rs_ignored_count = 0,
       rs_last_anchor_timestamp_ms = None, rs_last_missing_cameras = [], rs_last_reason = None \<rparr>"

fun replay_status :: "ReplayMatcher \<Rightarrow> ReplayStatus" where
  "replay_status (SpanReplayMatcher s) =
     (case sv_matcher s of
        None \<Rightarrow> no_replay_status
      | Some mt \<Rightarrow>
          \<lparr> rs_matched_count = mt_matched_count mt, rs_missed_count = mt_missed_count mt,
            rs_duplicate_count = mt_duplicate_count mt, rs_ignored_count = mt_ignored_count mt,
            rs_last_anchor_timestamp_ms = mt_last_anchor_timestamp_ms mt,
            rs_last_missing_cameras = mt_last_missing_cameras mt, rs_last_reason = mt_last_reason mt \<rparr>)"
| "replay_status (AnchorMatcher a) =
     \<lparr> rs_matched_count = am_matched_count a, rs_missed_count = am_missed_count a,
       rs_duplicate_count = am_duplicate_count a, rs_ignored_count = am_ignored_count a,
       rs_last_anchor_timestamp_ms = am_last_anchor_timestamp_ms a,
       rs_last_missing_cameras = am_last_missing_cameras a, rs_last_reason = am_last_reason a \<rparr>"

text \<open>A recorded frame as the matchers receive it: of the first version, with its file's content.\<close>

definition replay_input :: "(string \<Rightarrow> bytes) \<Rightarrow> (string \<Rightarrow> string) \<Rightarrow> ReplayFrame \<Rightarrow> SyncInputFrame" where
  "replay_input read_bytes relative f =
     \<lparr> f_frame_id = Some (rp_frame_id f), f_device_id = rp_device_id f, f_timestamp_ms = rp_timestamp_ms f,
       f_sequence = Some (rp_sequence f), f_content_type = rp_content_type f, f_image_bytes = read_bytes (rp_file_path f),
       f_file_path = Some (relative (rp_file_path f)), f_source_session_id = None, f_camera_stream_id = None,
       f_source_frame_uid = None, f_content_digest = None, f_identity_mode = IDENTITY_MODE_LEGACY,
       f_archive_state = ARCHIVE_PENDING, f_archive_error = None, f_received_at_ms = None,
       f_capture_config_digest = None, f_capture_metadata_json = None, f_tenant_id = None, f_site_id = None,
       f_capture_session_id = None, f_processing_job_id = None, f_profile_digest = None, f_authorized_subject = None,
       f_session_token_jti = None, f_authorized_camera_id = None, f_camera_claim_id = None \<rparr>"

record NoSetFrame =
  ns_frame :: ReplayFrame
  ns_reason :: "string option"
  ns_missing_cameras :: "string list"

text \<open>The loop of \<open>replay_frames\<close>; the clock and the fresh identifiers come with the frames.\<close>

fun replay_loop ::
  "(string \<Rightarrow> bytes) \<Rightarrow> (string \<Rightarrow> string) \<Rightarrow> ReplayMatcher \<Rightarrow> SynchronizedFrameSet list \<Rightarrow> NoSetFrame list
   \<Rightarrow> (int \<times> string \<times> ReplayFrame) list \<Rightarrow> (ReplayStatus \<times> SynchronizedFrameSet list \<times> NoSetFrame list) result" where
  "replay_loop read_bytes relative matcher matched no_set [] = Inr (replay_status matcher, matched, no_set)"
| "replay_loop read_bytes relative matcher matched no_set ((now_ms, fresh_uuid, frame) # frames) =
     (case replay_handle_frame now_ms fresh_uuid matcher (replay_input read_bytes relative frame) of
        (Inl e, _) \<Rightarrow> Inl e
      | (Inr (Some fset), matcher) \<Rightarrow> replay_loop read_bytes relative matcher (matched @ [fset]) no_set frames
      | (Inr None, matcher) \<Rightarrow>
          (let status = replay_status matcher
           in replay_loop read_bytes relative matcher matched
                (if rs_last_anchor_timestamp_ms status = Some (rp_timestamp_ms frame)
                 then no_set @ [\<lparr> ns_frame = frame, ns_reason = rs_last_reason status,
                                  ns_missing_cameras = rs_last_missing_cameras status \<rparr>] else no_set) frames))"

definition replay_frames ::
  "(string \<Rightarrow> bytes) \<Rightarrow> (string \<Rightarrow> string) \<Rightarrow> string \<Rightarrow> string \<Rightarrow> string list \<Rightarrow> int \<Rightarrow> int \<Rightarrow> int
   \<Rightarrow> (int \<times> string \<times> ReplayFrame) list \<Rightarrow> (ReplayStatus \<times> SynchronizedFrameSet list \<times> NoSetFrame list) result" where
  "replay_frames read_bytes relative fresh_uuid matcher_mode expected_cameras window_ms buffer_size recent_limit frames =
     bind_result (build_replay_matcher fresh_uuid matcher_mode expected_cameras window_ms buffer_size recent_limit) (\<lambda>matcher.
       replay_loop read_bytes relative matcher [] [] frames)"

section \<open>What a replay reports\<close>

text \<open>Each frame is in one of the two lists at most.\<close>

lemma replay_loop_counts:
  assumes "replay_loop read_bytes relative matcher matched no_set frames = Inr (status, matched', no_set')"
  shows "length matched' + length no_set' \<le> length matched + length no_set + length frames"
  using assms
proof (induction frames arbitrary: matcher matched no_set)
  case (Cons entry frames)
  obtain now_ms fresh_uuid frame where e: "entry = (now_ms, fresh_uuid, frame)" by (cases entry)
  show ?case
    using Cons.prems Cons.IH unfolding e
    by (force simp: Let_def split: prod.splits sum.splits option.splits if_splits)
qed simp

text \<open>The anchor matcher's replay runs \<open>anchor_step\<close>.\<close>

lemma replay_anchor:
  assumes "replay_loop read_bytes relative (AnchorMatcher a) matched no_set frames = Inr (status, matched', no_set')"
  shows "\<exists>a'. run anchor_step (a, matched) (map (\<lambda>(_, _, frame). replay_input read_bytes relative frame) frames) = (a', matched')
    \<and> status = replay_status (AnchorMatcher a')"
  using assms
proof (induction frames arbitrary: a matched no_set)
  case (Cons entry frames)
  obtain now_ms fresh_uuid frame where e: "entry = (now_ms, fresh_uuid, frame)" by (cases entry)
  obtain r a1 where h: "anchor_handle_frame a (replay_input read_bytes relative frame) = (r, a1)" by fastforce
  show ?case
    using Cons.prems Cons.IH h unfolding e by (cases r) (auto simp: anchor_step_def Let_def)
qed simp

lemma replay_anchor_ok:
  assumes "replay_frames read_bytes relative u ''anchor'' expected window buffer_size recent frames = Inr (status, matched, no_set)"
  shows "\<exists>a. anchor_ok expected window (a, matched) \<and> status = replay_status (AnchorMatcher a)
    \<and> length matched + length no_set \<le> length frames"
proof -
  obtain a where a: "new_anchor_matcher expected window buffer_size = Inr a"
      "replay_loop read_bytes relative (AnchorMatcher a) [] [] frames = Inr (status, matched, no_set)"
    using assms by (cases "new_anchor_matcher expected window buffer_size") (auto simp: replay_frames_def build_replay_matcher_def)
  obtain a' where r: "run anchor_step (a, []) (map (\<lambda>(_, _, frame). replay_input read_bytes relative frame) frames) = (a', matched)"
      "status = replay_status (AnchorMatcher a')"
    using replay_anchor [OF a(2)] by blast
  have "anchor_ok expected window (a', matched)"
    using anchor.run_inv [OF new_anchor_ok [OF a(1)]] r(1) by (metis (mono_tags) list_all_iff)
  then show ?thesis using r(2) replay_loop_counts [OF a(2)] by auto
qed

text \<open>The live service's matching replayed: its frame sets in order.\<close>

fun live_emissions :: "StreamSyncService \<Rightarrow> (int \<times> string \<times> SyncInputFrame) list \<Rightarrow> SynchronizedFrameSet list result" where
  "live_emissions s [] = Inr []"
| "live_emissions s ((now_ms, fresh_uuid, frame) # frames) =
     (case handle_frame now_ms fresh_uuid s frame of
        (Inl e, _) \<Rightarrow> Inl e
      | (Inr r, s) \<Rightarrow> map_sum id ((@) (case r of None \<Rightarrow> [] | Some x \<Rightarrow> [x])) (live_emissions s frames))"

lemma replay_span:
  "map_sum id (\<lambda>(status, matched, no_set). matched) (replay_loop read_bytes relative (SpanReplayMatcher s) matched no_set frames)
    = map_sum id ((@) matched) (live_emissions s (map (\<lambda>(t, u, frame). (t, u, replay_input read_bytes relative frame)) frames))"
proof (induction frames arbitrary: s matched no_set)
  case (Cons entry frames)
  obtain now_ms fresh_uuid frame where e: "entry = (now_ms, fresh_uuid, frame)" by (cases entry)
  obtain r s1 where h: "handle_frame now_ms fresh_uuid s (replay_input read_bytes relative frame) = (r, s1)" by fastforce
  show ?case
    using Cons.IH h unfolding e
    by (cases r) (auto simp: Let_def sum.map_comp comp_def split: option.splits)
qed simp

end
