(* ===== verification/Monitoring.thy ===== *)
theory Monitoring
  imports StreamState FrameArchive IngestGate Complex_Main
begin

text \<open>
  services/monitoring/service.py: what an operator sees of a camera, from the stream state and the status of the
  ingest service, and the file of a camera's latest frame.
\<close>

section \<open>Rates\<close>

text \<open>Rates are rationals instead of floats.\<close>

definition estimate_rate :: "int list \<Rightarrow> rat" where
  "estimate_rate timestamps_ms =
     (if length timestamps_ms < 2 then 0
      else of_int ((int (length timestamps_ms) - 1) * 1000) / of_int (max (last timestamps_ms - hd timestamps_ms) 1))"

definition estimate_capture_fps :: "int \<Rightarrow> CameraStreamState \<Rightarrow> rat" where
  "estimate_capture_fps window_ms camera =
     (if ca_recent_timestamps_ms camera = [] then 0
      else estimate_rate (filter (\<lambda>t. last (ca_recent_timestamps_ms camera) - t \<le> window_ms) (ca_recent_timestamps_ms camera)))"

definition estimate_ingest_fps :: "int \<Rightarrow> int \<Rightarrow> CameraStreamState \<Rightarrow> rat" where
  "estimate_ingest_fps now_ms window_ms camera =
     estimate_rate (filter (\<lambda>t. now_ms - t \<le> window_ms) (ca_recent_received_at_ms camera))"

section \<open>A camera's view\<close>

definition STALE_THRESHOLD_MS :: int where "STALE_THRESHOLD_MS = 3000"
definition FPS_WINDOW_MS :: int where "FPS_WINDOW_MS = 30000"

record CameraView =
  vw_device_id :: string
  vw_connected :: bool
  vw_is_stale :: bool
  vw_status :: string
  vw_frame_count :: int
  vw_latest_frame :: "StreamFrameState option"
  vw_last_received_age_ms :: "int option"
  vw_sequence_gap_count :: int
  vw_estimated_capture_fps :: rat
  vw_estimated_ingest_fps :: rat

text \<open>
  \<open>active_ids\<close> is given for the devices of the ingest service, \<open>closed_ms\<close> for the times at which its streams have
  been closed.
\<close>

definition serialize_camera_state ::
  "int \<Rightarrow> string set option \<Rightarrow> (string, int) dict option \<Rightarrow> CameraStreamState \<Rightarrow> CameraView" where
  "serialize_camera_state now_ms active_ids closed_ms camera =
     (let device = ca_device_id camera;
          latest = ca_latest_frame camera;
          closed_at = (case closed_ms of None \<Rightarrow> None | Some d \<Rightarrow> dict_get d device);
          is_grpc = (active_ids \<noteq> None \<or> closed_at \<noteq> None);
          is_active = (case active_ids of None \<Rightarrow> False | Some ids \<Rightarrow> device \<in> ids);
          age = map_option (\<lambda>f. (case closed_at of
                    Some t \<Rightarrow> if is_grpc \<and> \<not> is_active then max (sf_received_at_ms f) t else now_ms
                  | None \<Rightarrow> now_ms) - sf_received_at_ms f) latest;
          connected = (latest \<noteq> None \<and> (\<not> is_grpc \<or> is_active));
          is_stale = (connected \<and> (case age of None \<Rightarrow> False | Some a \<Rightarrow> STALE_THRESHOLD_MS < a))
      in \<lparr> vw_device_id = device, vw_connected = connected, vw_is_stale = is_stale,
           vw_status = (if connected \<and> \<not> is_stale then ''healthy'' else if is_stale then ''stale'' else ''disconnected''),
           vw_frame_count = ca_frame_count camera, vw_latest_frame = latest, vw_last_received_age_ms = age,
           vw_sequence_gap_count = ca_sequence_gap_count camera,
           vw_estimated_capture_fps = estimate_capture_fps FPS_WINDOW_MS camera,
           vw_estimated_ingest_fps = estimate_ingest_fps now_ms FPS_WINDOW_MS camera \<rparr>)"

definition grpc_device_ids :: "IngestStatus \<Rightarrow> string set" where
  "grpc_device_ids st =
     set (is_expected_device_ids st) \<union> set (is_observed_device_ids st) \<union> set (is_active_device_ids st)
     \<union> set (dict_keys (is_stream_closed_at_ms st))"

definition view_camera :: "int \<Rightarrow> IngestStatus \<Rightarrow> CameraStreamState \<Rightarrow> CameraView" where
  "view_camera now_ms st camera =
     serialize_camera_state now_ms
       (if ca_device_id camera \<in> grpc_device_ids st then Some (set (is_active_device_ids st)) else None)
       (Some (is_stream_closed_at_ms st)) camera"

text \<open>Each camera is viewed at its own reading of the clock.\<close>

definition list_camera_states :: "(string \<Rightarrow> int) \<Rightarrow> GrpcIngestService \<Rightarrow> StreamState \<Rightarrow> CameraView list" where
  "list_camera_states clock g state =
     map (\<lambda>camera. view_camera (clock (ca_device_id camera)) (ingest_status g) camera)
       (sort_key ca_device_id (list_cameras state))"

definition get_camera_state :: "int \<Rightarrow> GrpcIngestService \<Rightarrow> string \<Rightarrow> StreamState \<Rightarrow> CameraView option" where
  "get_camera_state now_ms g device_id state = map_option (view_camera now_ms (ingest_status g)) (get_camera device_id state)"

section \<open>The latest frame\<close>

definition row_order :: "int \<times> FrameRow \<Rightarrow> int \<times> int" where
  "row_order entry = (fr_timestamp (snd entry), fst entry)"

definition get_latest_frame_from_db :: "string \<Rightarrow> FrameTable \<Rightarrow> FrameRow option" where
  "get_latest_frame_from_db device_id table =
     (case rev (sort_key row_order (filter (\<lambda>(k, row). fr_device_id row = device_id) table)) of
        [] \<Rightarrow> None | (k, row) # _ \<Rightarrow> Some row)"

definition get_latest_frame_path :: "string \<Rightarrow> FrameTable \<Rightarrow> StreamState \<Rightarrow> string option" where
  "get_latest_frame_path device_id table state =
     (case get_camera device_id state of
        Some camera \<Rightarrow>
          (case ca_latest_frame camera of
             Some frame \<Rightarrow> sf_file_path frame
           | None \<Rightarrow> (case get_latest_frame_from_db device_id table of None \<Rightarrow> None | Some row \<Rightarrow> fr_file_path row))
      | None \<Rightarrow> (case get_latest_frame_from_db device_id table of None \<Rightarrow> None | Some row \<Rightarrow> fr_file_path row))"

definition latest_frame_file_exists :: "string \<Rightarrow> FrameTable \<Rightarrow> Files \<Rightarrow> StreamState \<Rightarrow> bool" where
  "latest_frame_file_exists device_id table files state =
     (case get_latest_frame_path device_id table state of None \<Rightarrow> False | Some path \<Rightarrow> dict_get files path \<noteq> None)"

section \<open>What the views say\<close>

lemma rate_nonneg: "0 \<le> estimate_rate ts"
  by (auto simp: estimate_rate_def)

lemma rate_bound: "estimate_rate ts \<le> of_nat (1000 * (length ts - 1))"
proof (cases "length ts < 2")
  case False
  define d where "d = max (last ts - hd ts) 1"
  have "of_int ((int (length ts) - 1) * 1000) / of_int d \<le> (of_int ((int (length ts) - 1) * 1000) :: rat) / 1"
    by (rule divide_left_mono) (use False in \<open>auto simp: d_def\<close>)
  then show ?thesis using False by (simp add: estimate_rate_def d_def of_nat_diff)
qed (simp add: estimate_rate_def)

text \<open>A camera of the ingest service is connected while it has a stream; its age stops when the stream is closed.\<close>

lemma grpc_view:
  assumes "ca_device_id camera \<in> grpc_device_ids st" "ca_latest_frame camera = Some f"
  shows "vw_status (view_camera now_ms st camera) =
      (if ca_device_id camera \<notin> set (is_active_device_ids st) then ''disconnected''
       else if 3000 < now_ms - sf_received_at_ms f then ''stale'' else ''healthy'')
    \<and> (ca_device_id camera \<notin> set (is_active_device_ids st) \<longrightarrow>
        dict_get (is_stream_closed_at_ms st) (ca_device_id camera) = Some t \<longrightarrow>
        vw_last_received_age_ms (view_camera now_ms st camera) = Some (max 0 (t - sf_received_at_ms f)))"
  using assms by (auto simp: view_camera_def serialize_camera_state_def Let_def STALE_THRESHOLD_MS_def split: option.split)

lemma other_view:
  assumes "ca_device_id camera \<notin> grpc_device_ids st" "ca_latest_frame camera = Some f"
  shows "vw_status (view_camera now_ms st camera) = (if 3000 < now_ms - sf_received_at_ms f then ''stale'' else ''healthy'')"
proof -
  have "dict_get (is_stream_closed_at_ms st) (ca_device_id camera) = None"
    using assms(1) by (auto simp: grpc_device_ids_def map_of_eq_None_iff)
  then show ?thesis using assms by (simp add: view_camera_def serialize_camera_state_def Let_def STALE_THRESHOLD_MS_def)
qed

end
