(* ===== verification/Examples.thy ===== *)
theory Examples
  imports AlertReceiver RelayClient IngestServer IngestPipeline Reconciliation AlertForwarding ProcessingRelay StorageReplay Monitoring
begin

text \<open>
  Concrete states at which the witnesses of the properties are evaluated: two cameras whose frames
  make a frame set and leave a later frame, a ledger that holds one frame set, and a client that may claim it.
\<close>

section \<open>Two cameras with buffered frames\<close>

definition demo_frame :: "string \<Rightarrow> int \<Rightarrow> SyncInputFrame" where
  "demo_frame camera t =
     \<lparr> f_frame_id = None, f_device_id = camera, f_timestamp_ms = t, f_sequence = Some t,
       f_content_type = ''image/jpeg'', f_image_bytes = [1, 2], f_file_path = None,
       f_source_session_id = Some ''session'', f_camera_stream_id = Some camera,
       f_source_frame_uid = Some (camera @ ''-'' @ py_str_int t), f_content_digest = Some ''digest'',
       f_identity_mode = ''V2'', f_archive_state = ''ARCHIVE_PENDING'', f_archive_error = None,
       f_received_at_ms = Some t, f_capture_config_digest = Some ''config'',
       f_capture_metadata_json = None, f_tenant_id = Some ''tenant'', f_site_id = Some ''site'',
       f_capture_session_id = Some ''capture'', f_processing_job_id = Some ''job'',
       f_profile_digest = Some ''profile'', f_authorized_subject = Some ''subject'',
       f_session_token_jti = Some ''jti'', f_authorized_camera_id = Some camera,
       f_camera_claim_id = None \<rparr>"

definition demo_stored :: "string \<Rightarrow> int \<Rightarrow> StoredSyncFrame" where
  "demo_stored camera t = stored_of_input (demo_frame camera t)"

definition demo_manager :: SyncFrameBufferManager where
  "demo_manager = snd (add_frame (snd (add_frame (snd (add_frame default_buffer_manager
     (demo_frame ''A'' 100))) (demo_frame ''A'' 120))) (demo_frame ''B'' 105))"

definition demo_selection :: selection where
  "demo_selection = [(''A'', demo_stored ''A'' 100), (''B'', demo_stored ''B'' 105)]"

definition demo_matcher :: SyncMatcher where
  "demo_matcher = projr (new_matcher [''A'', ''B''] 50 20 ''run'')"

text \<open>The states are given to the simplifier as they evaluate.\<close>

definition demo_ring :: "string \<Rightarrow> int list \<Rightarrow> int \<Rightarrow> CameraSyncBuffer" where
  "demo_ring camera ts gap =
     \<lparr> cb_max_frames = 120, cb_frames = map (demo_stored camera) ts, cb_received_count = int (length ts),
       cb_last_sequence = Some (last ts), cb_last_timestamp_ms = Some (last ts), cb_sequence_gap_count = gap,
       cb_source_identity = Some (Some ''session'', Some camera),
       cb_retained_keys = map (\<lambda>t. ''source:'' @ camera @ ''-'' @ py_str_int t) ts \<rparr>"

lemma demo_manager_code [code]:
  "demo_manager =
     \<lparr> bm_buffer_size = 120, bm_buffers = [(''A'', demo_ring ''A'' [100, 120] 19), (''B'', demo_ring ''B'' [105] 0)],
       bm_frames_by_key = [(''source:A-100'', demo_stored ''A'' 100), (''source:A-120'', demo_stored ''A'' 120),
         (''source:B-105'', demo_stored ''B'' 105)],
       bm_received_count = 3, bm_duplicate_frame_count = 0, bm_out_of_order_frame_count = 0, bm_evicted_frame_count = 0 \<rparr>"
  by code_simp

lemma demo_manager_inv: "manager_inv demo_manager"
  unfolding demo_manager_def by (intro add_frame_inv default_manager_inv)

lemma demo_select:
  "select_min_span_candidate demo_manager [''A'', ''B''] 50 = Inr (Some (demo_selection, 5), [])"
  by code_simp

lemma demo_selects:
  "selects demo_manager [''A'', ''B''] demo_selection" "selection_span demo_selection 5"
  using select_min_span_candidate_correct [of demo_manager "[''A'', ''B'']" 50] by (simp_all add: demo_select)

lemma demo_matcher_simps [simp]:
  "mt_expected_cameras demo_matcher = [''A'', ''B'']" "mt_window_ms demo_matcher = 50"
  "mt_capture_run_id demo_matcher = ''run''" "mt_recent_frame_sets demo_matcher = []"
  "mt_recent_limit demo_matcher = 20"
  by (simp_all add: demo_matcher_def new_matcher_def)

lemma demo_resolve:
  "\<exists>config key. resolve_capture_identity demo_selection = Inr (IDENTITY_MODE_V2, Some ''capture'', config, Some key)"
proof -
  have "resolve_authorization (dict_values demo_selection) = Inr (Some
      \<lparr> ak_tenant_id = Some ''tenant'', ak_site_id = Some ''site'', ak_capture_session_id = Some ''capture'',
        ak_processing_job_id = Some ''job'', ak_profile_digest = Some ''profile'',
        ak_authorized_subject = Some ''subject'', ak_session_token_jti = Some ''jti'' \<rparr>)" by code_simp
  moreover have "list_all identity_complete (dict_values demo_selection)" by code_simp
  ultimately show ?thesis by (simp add: resolve_capture_identity_def Let_def)
qed

text \<open>What dropping stale frames leaves in the buffers depends on the cameras and the window only.\<close>

lemma drop_stale_buffers:
  assumes "mt_expected_cameras mt = mt_expected_cameras mt'" "mt_window_ms mt = mt_window_ms mt'"
  shows "snd (drop_stale_frames (mt, m)) = snd (drop_stale_frames (mt', m))"
  using assms by (simp add: drop_stale_frames_def Let_def split: prod.splits)

lemma demo_left:
  "map_option (\<lambda>b. map f_timestamp_ms (cb_frames b)) (dict_get (bm_buffers
     (snd (drop_stale_frames (demo_matcher, snd (consume_through demo_manager demo_selection))))) ''A'') = Some [120]"
  by code_simp

lemma demo_match:
  obtains fset mt1 m1 where "try_match 1000 ''fresh'' (demo_matcher, demo_manager) (demo_stored ''B'' 105) = (Inr (Some fset), mt1, m1)"
    "fs_frames fset = demo_selection" "fs_identity_mode fset = IDENTITY_MODE_V2"
    "map_option (\<lambda>b. map f_timestamp_ms (cb_frames b)) (dict_get (bm_buffers m1) ''A'') = Some [120]"
proof -
  obtain config key where r: "resolve_capture_identity demo_selection = Inr (IDENTITY_MODE_V2, Some ''capture'', config, Some key)"
    using demo_resolve by blast
  have "map_sum id (\<lambda>_. ()) (fst (consume_through demo_manager demo_selection)) = Inr ()" by code_simp
  then obtain n m' where c: "consume_through demo_manager demo_selection = (Inr n, m')"
    by (cases "consume_through demo_manager demo_selection"; cases "fst (consume_through demo_manager demo_selection)") auto
  have d: "f_device_id (demo_stored ''B'' 105) = ''B''" by (simp add: demo_stored_def demo_frame_def)
  let ?mt = "advance 1000 ''fresh'' (IDENTITY_MODE_V2, Some ''capture'', config, Some key)
    (demo_matcher\<lparr> mt_dropped_superseded_count := mt_dropped_superseded_count demo_matcher + n \<rparr>)"
  let ?fs = "emitted ?mt (IDENTITY_MODE_V2, Some ''capture'', config, Some key) demo_selection 5"
  let ?fin = "drop_stale_frames (record_match ?mt ?fs, m')"
  have "try_match 1000 ''fresh'' (demo_matcher, demo_manager) (demo_stored ''B'' 105) = (Inr (Some ?fs), fst ?fin, snd ?fin)"
    by (simp add: try_match_def demo_select d r c emit_frame_set_eq Let_def)
  moreover have "snd ?fin = snd (drop_stale_frames (demo_matcher, m'))" by (rule drop_stale_buffers) simp_all
  ultimately show ?thesis using that [of ?fs "fst ?fin" "snd ?fin"] demo_left by (simp add: c)
qed

section \<open>Frame sets as the ledger receives them\<close>

definition demo_set :: "string \<Rightarrow> int \<Rightarrow> int \<Rightarrow> SynchronizedFrameSet" where
  "demo_set uid n t =
     \<lparr> fs_frame_set_id = n, fs_anchor_timestamp_ms = t, fs_max_delta_ms = 0,
       fs_frames = archive_members (\<lambda>_. Some n) (\<lambda>d. ''/'' @ d) [(''A'', demo_stored ''A'' t)],
       fs_span_ms = Some 0, fs_capture_session_id = Some ''capture'', fs_capture_run_id = Some ''run'',
       fs_frame_set_uid = Some uid, fs_manifest_digest = Some (''digest-'' @ uid),
       fs_manifest_json = Some ''{}'', fs_identity_mode = ''V2'', fs_archive_state = ''ARCHIVE_PENDING'',
       fs_archive_error = None, fs_sync_window_ms = 50, fs_synchronized_at_ms = t, fs_member_count = 1,
       fs_tenant_id = Some ''tenant'', fs_site_id = Some ''site'', fs_processing_job_id = Some ''job'',
       fs_profile_digest = Some ''profile'', fs_authorized_subject = Some ''subject'',
       fs_session_token_jti = Some ''jti'' \<rparr>"

definition demo_ledger :: ManifestDb where
  "demo_ledger = snd (persist_frame_set_manifest id 10 (demo_set ''one'' 1 100) empty_db)"

definition demo_rows :: "string \<Rightarrow> ManifestDb" where
  "demo_rows manifest =
     \<lparr> db_sessions = [(''capture'', \<lparr> cap_state = ''OPEN'',
         cap_source_sessions_json = concat [''[{'', [CHR 0x22], ''camera_stream_id'', [CHR 0x22], '':'', [CHR 0x22], ''A'',
           [CHR 0x22], '','', [CHR 0x22], ''source_session_id'', [CHR 0x22], '':'', [CHR 0x22], ''session'', [CHR 0x22], ''}]''],
         cap_started_at_ms = 10, cap_closed_at_ms = None, cap_close_reason = None \<rparr>)],
       db_runs = [(''run'', \<lparr> run_capture_session_id = ''capture'', run_identity_mode = ''V2'', run_state = ''OPEN'',
         run_started_at_ms = 10, run_closed_at_ms = None, run_close_reason = None \<rparr>)],
       db_manifests = [(''one'', \<lparr> mf_frame_set_uid = ''one'', mf_capture_session_id = ''capture'', mf_capture_run_id = ''run'',
         mf_frame_set_id = 1, mf_anchor_timestamp_ms = 100, mf_freshness_origin_ms = 100, mf_synchronization_span_ms = 0,
         mf_manifest_digest = ''digest-one'', mf_manifest_json = manifest, mf_created_at_ms = 10,
         mf_archive_state = ''ARCHIVE_DURABLE'', mf_archive_error = None, mf_sync_window_ms = 50, mf_synchronized_at_ms = 100,
         mf_member_count = 1, mf_tenant_id = Some ''tenant'', mf_site_id = Some ''site'', mf_processing_job_id = Some ''job'',
         mf_profile_digest = Some ''profile'', mf_authorized_subject = Some ''subject'', mf_session_token_jti = Some ''jti'' \<rparr>)],
       db_members = [\<lparr> mm_frame_set_uid = ''one'', mm_frame_id = Some 1, mm_source_frame_uid = ''A-100'',
         mm_source_session_id = ''session'', mm_camera_stream_id = ''A'', mm_frame_sequence = 100, mm_capture_timestamp_ms = 100,
         mm_content_type = ''image/jpeg'', mm_image_size = 2, mm_content_digest = ''digest'', mm_file_path = ''/A'',
         mm_authorized_camera_id = Some ''A'', mm_camera_claim_id = None, mm_authorized_subject = Some ''subject'',
         mm_session_token_jti = Some ''jti'' \<rparr>],
       db_projections = [(''one'', \<lparr> pj_archive_state = ''ARCHIVE_DURABLE'', pj_live_state = ''ELIGIBLE'',
         pj_legacy_relay_state = ''NOT_ENQUEUED'', pj_last_reason = None, pj_updated_at_ms = 10 \<rparr>)] \<rparr>"

lemma demo_rows_stored: "persist_frame_set_manifest id 10 (demo_set ''one'' 1 100) empty_db = (Inr True, demo_rows ''{}'')"
  by code_simp

lemma demo_ledger_code [code]: "demo_ledger = demo_rows ''{}''"
  by (simp add: demo_ledger_def demo_rows_stored)

lemma demo_ledger_inv: "ledger_inv demo_ledger"
  unfolding demo_ledger_def by (intro persist_inv empty_db_inv)

lemma demo_persist: "fst (persist_frame_set_manifest id 10 (demo_set ''one'' 1 100) empty_db) = Inr True"
  by (simp add: demo_rows_stored)

lemma demo_persisted: "persist_frame_set_manifest id 10 (demo_set ''one'' 1 100) empty_db = (Inr True, demo_ledger)"
  using demo_persist by (simp add: demo_ledger_def prod_eq_iff)

definition demo_credit :: CreditIdentity where
  "demo_credit = \<lparr> cr_processor_instance_id = ''p'', cr_stream_epoch = ''e'', cr_credit_id = ''c'' \<rparr>"

definition demo_live :: LiveDb where
  "demo_live = \<lparr> lv_ledger = demo_ledger, lv_state = None \<rparr>"

lemma demo_live_step: "demo_live = live_step empty_live (LedgerOp (Persist 10 (demo_set ''one'' 1 100)))"
  by (simp add: demo_live_def demo_ledger_def empty_live_def)

lemma demo_live_inv: "live_inv demo_live"
  unfolding demo_live_step by (rule live_step_inv [OF empty_live_inv]) simp

lemma demo_claim:
  obtains claim d where "claim_latest id 20 demo_credit None demo_live = (Inr (Some claim), d)"
proof -
  have "map_sum id (\<lambda>c. c \<noteq> None) (fst (claim_latest id 20 demo_credit None demo_live)) = Inr True" by code_simp
  then show ?thesis using that
    by (cases "claim_latest id 20 demo_credit None demo_live"; cases "fst (claim_latest id 20 demo_credit None demo_live)") auto
qed

text \<open>The client after the frame set is delivered, and after the next one is stored.\<close>

definition demo_done :: LiveDb where
  "demo_done = run live_step demo_live [Claim 20 demo_credit None,
     RemoteStatus 30 \<lparr> fk_capture_run_id = ''run'', fk_frame_set_id = 1, fk_frame_set_uid = ''one'' \<rparr> ''completed'' None None]"

lemma demo_done_inv: "live_inv demo_done"
  unfolding demo_done_def by (rule live.run_inv [OF demo_live_inv]) simp

definition demo_next :: LiveDb where
  "demo_next = live_step demo_done (LedgerOp (Persist 50 (demo_set ''two'' 2 200)))"

lemma demo_next_inv: "live_inv demo_next"
  unfolding demo_next_def by (rule live_step_inv [OF demo_done_inv]) simp

section \<open>A service with one camera\<close>

definition demo_service :: StreamSyncService where
  "demo_service = snd (configure ''run'' True [''A''] 50 120 20 new_service)"

lemma demo_emits:
  obtains fset s' where "handle_frame 1000 ''fresh'' demo_service (demo_frame ''A'' 100) = (Inr (Some fset), s')"
    "fs_capture_run_id fset = Some ''run''" "fs_frame_set_id fset = 1"
proof -
  define f m mt where "f = demo_stored ''A'' 100" and "m = snd (add_frame default_buffer_manager (demo_frame ''A'' 100))"
    and "mt = projr (new_matcher [''A''] 50 20 ''run'')"
  have s: "sv_matcher demo_service = Some mt" "sv_enabled demo_service" "sv_detached demo_service = None"
    "sv_buffer_manager demo_service = default_buffer_manager"
    by (simp_all add: mt_def demo_service_def configure_def new_service_def new_buffer_manager_def new_matcher_def
        default_buffer_manager_def Let_def)
  have fields: "mt_expected_cameras mt = [''A'']" "mt_window_ms mt = 50" "mt_capture_run_id mt = ''run''"
    "mt_next_frame_set_id mt = 1" "mt_capture_session_id mt = None"
    by (simp_all add: mt_def new_matcher_def)
  have "map_prod (map_option (\<lambda>x. x = f)) (\<lambda>_. ()) (add_frame default_buffer_manager (demo_frame ''A'' 100)) = (Some True, ())"
    unfolding f_def by code_simp
  then have a: "add_frame default_buffer_manager (demo_frame ''A'' 100) = (Some f, m)"
    by (cases "add_frame default_buffer_manager (demo_frame ''A'' 100)") (auto simp: m_def)
  have sel: "select_min_span_candidate m [''A''] 50 = Inr (Some ([(''A'', f)], 0), [])" unfolding f_def m_def by code_simp
  have "resolve_authorization [f] = Inr (Some
      \<lparr> ak_tenant_id = Some ''tenant'', ak_site_id = Some ''site'', ak_capture_session_id = Some ''capture'',
        ak_processing_job_id = Some ''job'', ak_profile_digest = Some ''profile'',
        ak_authorized_subject = Some ''subject'', ak_session_token_jti = Some ''jti'' \<rparr>)" unfolding f_def m_def by code_simp
  moreover have "list_all identity_complete [f]" unfolding f_def m_def by code_simp
  ultimately obtain config key where r: "resolve_capture_identity [(''A'', f)] = Inr (IDENTITY_MODE_V2, Some ''capture'', config, Some key)"
    by (simp add: resolve_capture_identity_def Let_def)
  have "map_sum id (\<lambda>_. ()) (fst (consume_through m [(''A'', f)])) = Inr ()" unfolding f_def m_def by code_simp
  then obtain n m' where c: "consume_through m [(''A'', f)] = (Inr n, m')"
    by (cases "consume_through m [(''A'', f)]"; cases "fst (consume_through m [(''A'', f)])") auto
  have d: "f_device_id f = ''A''" by (simp add: f_def demo_stored_def demo_frame_def)
  have "\<exists>fset st. try_match 1000 ''fresh'' (mt, m) f = (Inr (Some fset), st)
      \<and> fs_capture_run_id fset = Some ''run'' \<and> fs_frame_set_id fset = 1"
    by (simp add: try_match_def fields d sel r c emit_frame_set_eq rotate_run_def Let_def del: consume_through.simps)
  then obtain fset mt1 m1 where t: "try_match 1000 ''fresh'' (mt, m) f = (Inr (Some fset), mt1, m1)"
    "fs_capture_run_id fset = Some ''run''" "fs_frame_set_id fset = 1" by auto
  show ?thesis
    by (rule that [OF _ t(2,3)]) (simp add: handle_frame_def s a matcher_manager_def t(1) Let_def)
qed

section \<open>A token, its signing key and the answers of the Main service\<close>

definition demo_uuid :: "char \<Rightarrow> string" where
  "demo_uuid c = replicate 8 c @ ''-'' @ replicate 4 c @ ''-'' @ replicate 4 c @ ''-'' @ replicate 4 c @ ''-'' @ replicate 12 c"

definition demo_claims :: claims where
  "demo_claims =
     [(''iss'', JStr ''main''), (''aud'', JStr ''stream''), (''sub'', JStr ''device''), (''credential_kind'', JStr ''CAMERA_INGEST''),
      (''tenant_id'', JStr (demo_uuid CHR ''A'')), (''site_id'', JStr (demo_uuid CHR ''b'')),
      (''capture_session_id'', JStr (demo_uuid CHR ''c'')), (''processing_job_id'', JStr (demo_uuid CHR ''d'')),
      (''profile_digest'', JStr (replicate 64 CHR ''0'')), (''camera_claim_id'', JStr (demo_uuid CHR ''1'')),
      (''camera_id'', JStr (demo_uuid CHR ''2'')), (''device_id'', JStr ''phone''),
      (''iat'', JInt 10), (''nbf'', JInt 10), (''exp'', JInt 100), (''jti'', JStr (demo_uuid CHR ''3''))]"

definition demo_jwt :: "unit JwtLibrary" where
  "demo_jwt =
     \<lparr> jw_header = \<lambda>token. Some \<lparr> jh_alg = JStr ''RS256'', jh_kid = Some ''k'' \<rparr>,
       jw_unverified = \<lambda>token. Some demo_claims,
       jw_decode = \<lambda>token key issuer audience leeway required.
         if list_all (\<lambda>name. dict_get demo_claims name \<noteq> None) required then Some demo_claims else None,
       jw_parse_jwk = \<lambda>raw. Some () \<rparr>"

definition demo_auth_inputs :: AuthInputs where
  "demo_auth_inputs =
     \<lparr> ai_jwks_now = 0, ai_jwks_now' = 0,
       ai_jwks = Some (JObj [(''keys'', JList [JObj [(''kid'', JStr ''k''), (''kty'', JStr ''RSA''), (''alg'', JStr ''RS256'')]])]),
       ai_jwks' = None, ai_now = 50, ai_status_now = 0,
       ai_status = \<lambda>job. Some (JObj [(''processingJobId'', JStr job), (''known'', JBool True), (''active'', JBool True)]),
       ai_credential_now = 0, ai_credential = \<lambda>jti. None \<rparr>"

definition demo_versioned :: VersionedVerifier where
  "demo_versioned = \<lparr> vv_legacy = None,
     vv_camera_ingest = Some \<lparr> vf_issuer = ''main'', vf_audience = ''stream'', vf_leeway = 5 \<rparr> \<rparr>"

definition demo_caches :: "unit AuthCaches" where
  "demo_caches = \<lparr> au_keys = projr (new_jwks_key_cache ''u'' 300 2),
     au_status = Some (projr (new_session_status_cache ''/{processing_job_id}'' 1 1)), au_credentials = None \<rparr>"

lemma demo_uuid_bytes:
  assumes "hex_byte b = [c, c]" shows "str_uuid (replicate 16 b) = demo_uuid c"
  using assms by (simp add: str_uuid_def hex_def demo_uuid_def eval_nat_numeral)

lemma double_byte:
  assumes "d < 16" shows "hex_byte (word_of_nat (17 * d)) = [hex_char d, hex_char d]"
proof -
  have "17 * d < 2 ^ LENGTH(8)" using assms by simp
  then have "unat (word_of_nat (17 * d) :: byte) = 17 * d" by (simp only: unat_of_nat mod_less)
  moreover have "(d + d * 16) div 16 = d" "(d + d * 16) mod 16 = d" "17 * d = d + d * 16"
    using assms by (simp_all only: div_mult_self1 mod_mult_self1 div_less mod_less)
  ultimately show ?thesis unfolding hex_byte_def by metis
qed

lemma demo_uuid_canonical:
  assumes "is_hex_lower (lower_char c)"
  shows "canonical_uuid (JStr (demo_uuid c)) name = Inr (demo_uuid (lower_char c))"
proof -
  let ?d = "hex_value (lower_char c)"
  have d: "?d < 16" "hex_char ?d = lower_char c"
    using hex_char_value [OF assms] by blast+
  then have "hex_byte (word_of_nat (17 * ?d)) = [lower_char c, lower_char c]" using double_byte [OF d(1)] by simp
  then have "str_uuid (replicate 16 (word_of_nat (17 * ?d))) = demo_uuid (lower_char c)" by (rule demo_uuid_bytes)
  moreover have "demo_uuid (lower_char c) = lower (demo_uuid c)" by (simp add: demo_uuid_def lower_def lower_char_def)
  ultimately show ?thesis unfolding canonical_uuid_iff by (intro conjI exI [of _ "replicate 16 (word_of_nat (17 * ?d))"]) simp_all
qed

lemma demo_scope:
  "\<exists>scope. camera_ingest_scope_from_claims demo_claims = Inr scope \<and> ci_processing_job_id scope = demo_uuid CHR ''d''
    \<and> ci_expires_at scope = 100"
proof -
  have get: "json_get demo_claims ''tenant_id'' = JStr (demo_uuid CHR ''A'')" "json_get demo_claims ''site_id'' = JStr (demo_uuid CHR ''b'')"
    "json_get demo_claims ''capture_session_id'' = JStr (demo_uuid CHR ''c'')" "json_get demo_claims ''processing_job_id'' = JStr (demo_uuid CHR ''d'')"
    "json_get demo_claims ''camera_claim_id'' = JStr (demo_uuid CHR ''1'')" "json_get demo_claims ''camera_id'' = JStr (demo_uuid CHR ''2'')"
    "json_get demo_claims ''jti'' = JStr (demo_uuid CHR ''3'')"
    by (simp_all add: demo_claims_def json_get_def)
  have lower: "lower_char CHR ''A'' = CHR ''a''" "lower_char CHR ''b'' = CHR ''b''" "lower_char CHR ''c'' = CHR ''c''"
    "lower_char CHR ''d'' = CHR ''d''" "lower_char CHR ''1'' = CHR ''1''" "lower_char CHR ''2'' = CHR ''2''" "lower_char CHR ''3'' = CHR ''3''"
    by code_simp+
  have digits: "is_hex_lower CHR ''a''" "is_hex_lower CHR ''b''" "is_hex_lower CHR ''c''" "is_hex_lower CHR ''d''"
    "is_hex_lower CHR ''1''" "is_hex_lower CHR ''2''" "is_hex_lower CHR ''3''" by code_simp+
  have "profile_digest_claim demo_claims = Inr (replicate 64 CHR ''0'')" by code_simp
  moreover have "required_text_claim (json_get demo_claims ''sub'') ''sub'' = Inr ''device''"
    "required_text_claim (json_get demo_claims ''device_id'') ''device_id'' = Inr ''phone''"
    "int_claim (json_get demo_claims ''iat'') ''iat'' = Inr 10" "int_claim (json_get demo_claims ''exp'') ''exp'' = Inr 100"
    "json_get demo_claims ''credential_kind'' = JStr ''CAMERA_INGEST''" by code_simp+
  ultimately show ?thesis
    by (simp add: camera_ingest_scope_from_claims_def uuid_claim_def get demo_uuid_canonical lower digits)
qed

lemma demo_verified:
  obtains scope caches where "versioned_verify demo_jwt demo_auth_inputs demo_versioned ''token'' demo_caches = (Inr (CameraScope scope), caches)"
proof -
  obtain scope where s: "camera_ingest_scope_from_claims demo_claims = Inr scope" "ci_expires_at scope = 100"
      "ci_processing_job_id scope = demo_uuid CHR ''d''"
    using demo_scope by blast
  let ?v = "\<lparr> vf_issuer = ''main'', vf_audience = ''stream'', vf_leeway = 5 \<rparr>"
  have "fst (verified_claims demo_jwt demo_auth_inputs ?v CAMERA_INGEST_REQUIRED_CLAIMS ''camera ingest credential'' ''token'' demo_caches) = Inr demo_claims"
    by code_simp
  then obtain mid where v: "verified_claims demo_jwt demo_auth_inputs ?v CAMERA_INGEST_REQUIRED_CLAIMS ''camera ingest credential'' ''token'' demo_caches
      = (Inr demo_claims, mid)" by (metis prod.collapse)
  have "au_credentials demo_caches = None" "au_status demo_caches = Some \<lparr> st_ttl = 1, st_active_until = [] \<rparr>" by code_simp+
  then have "au_credentials mid = None" "au_status mid = Some \<lparr> st_ttl = 1, st_active_until = [] \<rparr>"
    using verified_claims_Inr [OF v] by simp_all
  then have "\<exists>caches. camera_scope_active demo_auth_inputs scope mid = (Inr (), caches)"
    by (simp add: camera_scope_active_def check_session_status_def check_credential_status_def session_assert_active_def
        fresh_entry_def demo_auth_inputs_def s json_get_def)
  then obtain caches where "camera_scope_active demo_auth_inputs scope mid = (Inr (), caches)" by blast
  then have "camera_verify demo_jwt demo_auth_inputs ?v ''token'' demo_caches = (Inr scope, caches)"
    by (simp add: camera_verify_def v s)
  moreover have "jw_unverified demo_jwt ''token'' = Some demo_claims" by (simp add: demo_jwt_def)
  moreover have "json_get demo_claims ''credential_kind'' = JStr ''CAMERA_INGEST''" by code_simp
  ultimately show ?thesis using that by (simp add: versioned_verify_def demo_versioned_def)
qed

definition demo_session_scope :: AuthorizedSessionScope where
  "demo_session_scope = \<lparr> ss_tenant_id = ''tenant'', ss_site_id = ''site'', ss_capture_session_id = ''capture'',
     ss_processing_job_id = ''job'', ss_camera_ids = {''A''}, ss_profile_digest = ''profile'',
     ss_authorized_subject = ''subject'', ss_token_jti = ''jti'', ss_expires_at = 100 \<rparr>"

section \<open>A frame set on the wire\<close>

text \<open>One frame whose archived bytes have the recorded digest \<open>dg\<close>.\<close>

definition wire_frame :: "string \<Rightarrow> StoredSyncFrame" where
  "wire_frame dg = (demo_stored ''A'' 100)\<lparr> f_content_digest := Some dg \<rparr>"

definition wire_payload :: "string \<Rightarrow> json" where
  "wire_payload dg = build_manifest_payload None [(''A'', wire_frame dg)] ''V2'' 50 0 100 None"

definition wire_members :: "string \<Rightarrow> selection" where
  "wire_members dg = archive_members (\<lambda>_. Some 1) (\<lambda>d. ''/'' @ d) [(''A'', wire_frame dg)]"

definition wire_set :: "string \<Rightarrow> SynchronizedFrameSet" where
  "wire_set dg = (demo_set ''one'' 1 100)\<lparr> fs_frames := wire_members dg,
     fs_manifest_json := Some (canonical_json (wire_payload dg)) \<rparr>"

definition demo_floats :: FloatLibrary where
  "demo_floats = \<lparr> fl_repr = id, fl_int = \<lambda>r. Inr 0 \<rparr>"

definition wire_config :: ProtocolConfig where
  "wire_config = \<lparr> pc_producer_session_id = ''producer'', pc_processing_profile_digest = Some ''profile'',
     pc_producer_freshness_budget_ms = 1000, pc_maximum_clock_uncertainty_ms = 5, pc_protocol_version = 2,
     pc_schema_version = 1, pc_clock_source = ''STREAM_SERVER_UTC'' \<rparr>"

definition wire_session :: NegotiatedSession where
  "wire_session = \<lparr> ng_processing_job_id = ''job'', ng_processor_instance_id = ''p'', ng_stream_epoch = ''e'',
     ng_maximum_payload_bytes = 100, ng_processing_profile_digest = ''profile'' \<rparr>"

definition wire_credit :: ProcessorCredit where
  "wire_credit = \<lparr> cd_scope = demo_credit, cd_credit_lease_duration_ms = 50,
     cd_earliest_acceptable_freshness_origin_utc_ms = 0, cd_ingress_reserve_ms = 10, cd_maximum_payload_bytes = 80,
     cd_schema_version = 1, cd_maximum_frame_age_ms = 500 \<rparr>"

lemma wire_fields [simp]:
  "f_camera_stream_id (wire_frame dg) = Some ''A''" "f_capture_config_digest (wire_frame dg) = Some ''config''"
  "f_capture_metadata_json (wire_frame dg) = None" "f_authorized_camera_id (wire_frame dg) = Some ''A''"
  "f_content_digest (wire_frame dg) = Some dg" "f_image_size (wire_frame dg) = 2"
  "f_source_frame_uid (wire_frame dg) = Some ''A-100''" "f_source_session_id (wire_frame dg) = Some ''session''"
  "f_sequence (wire_frame dg) = Some 100" "f_timestamp_ms (wire_frame dg) = 100" "f_device_id (wire_frame dg) = ''A''"
  "f_tenant_id (wire_frame dg) = Some ''tenant''" "f_site_id (wire_frame dg) = Some ''site''"
  "f_capture_session_id (wire_frame dg) = Some ''capture''" "f_processing_job_id (wire_frame dg) = Some ''job''"
  "f_profile_digest (wire_frame dg) = Some ''profile''" "f_authorized_subject (wire_frame dg) = Some ''subject''"
  "f_session_token_jti (wire_frame dg) = Some ''jti''"
proof -
  have "py_str_int 100 = ''100''" by code_simp
  then show "f_source_frame_uid (wire_frame dg) = Some ''A-100''"
    by (simp add: wire_frame_def demo_stored_def demo_frame_def stored_of_input_def SyncInputFrame.defs StoredSyncFrame.defs)
qed (simp_all add: wire_frame_def demo_stored_def demo_frame_def stored_of_input_def SyncInputFrame.defs StoredSyncFrame.defs)

lemma loads_empty: "loads fl (JStr ''{}'') = Inr (JObj [])"
  using json_loads_canonical [of "JObj []" "fl_repr fl"] by (simp add: loads_def)

lemma wire_readable: "readable demo_floats (wire_frame dg)"
  by (simp add: readable_def manifest_entry_def manifest_member_def json_get_or_def jopt_def json_or_def loads_empty
      capture_config_def nonnegative_int_def Let_def)

lemma wire_manifest_nonempty: "canonical_json (wire_payload dg) \<noteq> []"
proof -
  show ?thesis unfolding wire_payload_def by (rule manifest_text_nonempty)
qed

lemma wire_persisted:
  assumes "dg \<noteq> []"
  shows "fst (persist_frame_set_manifest id 10 (wire_set dg) empty_db) = Inr True"
proof -
  have members: "wire_members dg = [(''A'', archived (Some 1) (Some ''/A'') ARCHIVE_DURABLE None (wire_frame dg))]"
    by (simp add: wire_members_def archive_members_def)
  have "validate_v2_frame_set (wire_set dg) = Inr ()"
    using assms wire_manifest_nonempty
    by (simp add: validate_v2_frame_set_def wire_set_def demo_set_def any_blank_def truthy_iff members member_durable_def
        member_in_scope_def member_participates_def Let_def)
  moreover have "\<exists>ch. manifest_changes 10 (wire_set dg) empty_db = Inr ch \<and> ch_members ch = [member_row ''one'' (archived (Some 1) (Some ''/A'') ARCHIVE_DURABLE None (wire_frame dg))]"
    by (simp add: manifest_changes_def empty_db_def wire_set_def demo_set_def members Let_def)
  then obtain ch where "manifest_changes 10 (wire_set dg) empty_db = Inr ch"
      "ch_members ch = [member_row ''one'' (archived (Some 1) (Some ''/A'') ARCHIVE_DURABLE None (wire_frame dg))]" by blast
  moreover from this have "\<exists>db. commit_changes ch empty_db = Inr db"
    by (simp add: commit_changes_def constraints_hold_def empty_db_def Let_def split: option.splits)
  moreover have "fs_identity_mode (wire_set dg) = IDENTITY_MODE_V2" by (simp add: wire_set_def demo_set_def IDENTITY_MODE_V2_def)
  ultimately show ?thesis by (auto simp: persist_frame_set_manifest_def empty_db_def)
qed

text \<open>The claim of the stored frame set, and the archive that holds its bytes.\<close>

definition wire_db :: "string \<Rightarrow> ManifestDb" where
  "wire_db dg = snd (persist_frame_set_manifest id 10 (wire_set dg) empty_db)"

definition wire_claim :: "string \<Rightarrow> ClaimedFrameSet" where
  "wire_claim dg = live_snapshot (wire_db dg) (manifest_row 10 (wire_set dg)) demo_credit 20"

definition wire_files :: "string \<Rightarrow> bytes option" where
  "wire_files path = (if path = ''/A'' then Some [1, 2] else None)"

lemma wire_stored: "dg \<noteq> [] \<Longrightarrow> persist_frame_set_manifest id 10 (wire_set dg) empty_db = (Inr True, wire_db dg)"
  using wire_persisted by (simp add: wire_db_def prod_eq_iff)

lemma wire_claim_members:
  assumes "dg \<noteq> []"
  shows "cl_members (wire_claim dg) = [live_member (member_row ''one'' (archived (Some 1) (Some ''/A'') ARCHIVE_DURABLE None (wire_frame dg)))]"
  using stored_members [OF ledger_inv_wf [OF empty_db_inv] wire_stored [OF assms]]
  by (simp add: wire_claim_def live_snapshot_def manifest_row_def wire_set_def demo_set_def wire_members_def archive_members_def)

lemma wire_digest: "sha256_bytes [1, 2] \<noteq> []"
  unfolding sha256_bytes_def by (metis length_hex length_sha256 list.size(3) mult_eq_0_iff zero_neq_numeral)

lemma wire_fresh:
  "cd_earliest_acceptable_freshness_origin_utc_ms wire_credit \<le> cl_freshness_origin_ms (wire_claim dg)"
  "200 + cd_ingress_reserve_ms wire_credit < effective_deadline (wire_claim dg) wire_credit wire_config"
  by (simp_all add: wire_credit_def wire_claim_def live_snapshot_def manifest_row_def wire_set_def demo_set_def wire_members_def
      archive_members_def effective_deadline_def wire_config_def)

lemma wire_intact:
  assumes "dg = sha256_bytes [1, 2]"
  shows "\<forall>member \<in> set (cl_members (wire_claim dg)). intact wire_files member"
proof -
  have "dg \<noteq> []" unfolding assms by (rule wire_digest)
  from wire_claim_members [OF this] show ?thesis
    by (simp add: intact_def wire_files_def live_member_def member_row_def archived_def assms)
qed

lemma wire_built:
  assumes "ms < 1050" "ms' < 1050"
  shows "\<exists>cf. build_credited_frame_set demo_floats wire_files (\<lambda>_. [0]) (wire_claim (sha256_bytes [1, 2])) wire_credit wire_session wire_config 1000 ms ms' 200
      = Inr (FrameSetEnvelope cf) \<and> length (cf_frames cf) = 1"
proof -
  let ?dg = "sha256_bytes [1, 2]"
  have manifest_text: "cl_manifest_json (wire_claim ?dg) = canonical_json (build_manifest_payload None [(''A'', wire_frame ?dg)] ''V2'' 50 0 100 None)"
    using wire_manifest_nonempty [of ?dg] by (simp add: wire_claim_def live_snapshot_def manifest_row_def wire_set_def wire_payload_def)
  have cams: "map lm_camera_stream_id (cl_members (wire_claim ?dg)) = sort (map camera_of (dict_values [(''A'', wire_frame ?dg)]))"
    by (simp add: wire_claim_members [OF wire_digest] live_member_def member_row_def camera_of_def archived_def)
  have r: "\<forall>f \<in> set (dict_values [(''A'', wire_frame ?dg)]). readable demo_floats f" by (simp add: wire_readable)
  have lease: "ms < lease_deadline 1000 wire_credit" "ms' < lease_deadline 1000 wire_credit"
    using assms by (simp_all add: lease_deadline_def wire_credit_def)
  have l: "0 < min (ng_maximum_payload_bytes wire_session) (cd_maximum_payload_bytes wire_credit)"
    by (simp add: wire_session_def wire_credit_def)
  obtain cf where "build_credited_frame_set demo_floats wire_files (\<lambda>_. [0]) (wire_claim ?dg) wire_credit wire_session wire_config 1000 ms ms' 200
      = bind_result (validate_size (int (length [0 :: byte])) (min (ng_maximum_payload_bytes wire_session) (cd_maximum_payload_bytes wire_credit)))
          (\<lambda>_. Inr (FrameSetEnvelope cf))"
      "list_all2 (carries wire_files) (cl_members (wire_claim ?dg)) (cf_frames cf)"
    using sendable [OF manifest_text cams r wire_intact [OF refl] lease wire_fresh l, where serialize = "\<lambda>_. [0]"] by blast
  moreover have "length (cl_members (wire_claim ?dg)) = 1" by (simp add: wire_claim_members [OF wire_digest])
  ultimately show ?thesis by (auto simp: validate_size_def wire_session_def wire_credit_def dest: list_all2_lengthD)
qed

lemma wire_tables:
  assumes "dg \<noteq> []"
  shows "db_manifests (wire_db dg) = [(''one'', manifest_row 10 (wire_set dg))]"
    "db_projections (wire_db dg) = [(''one'', new_delivery_projection 10 ''ELIGIBLE'' None)]"
proof -
  obtain ch where ch: "manifest_changes 10 (wire_set dg) empty_db = Inr ch" "commit_changes ch empty_db = Inr (wire_db dg)"
    using ledger_inv_wf [OF empty_db_inv]
    by (cases rule: persist_cases [of empty_db "wire_set dg" 10]) (use wire_stored [OF assms] in simp_all)
  have uid: "str_or (fs_frame_set_uid (wire_set dg)) [] = ''one''" by (simp add: wire_set_def demo_set_def)
  have e: "db_manifests empty_db = []" "db_projections empty_db = []" by (simp_all add: empty_db_def)
  then have "ch_projection ch = new_delivery_projection 10 ''ELIGIBLE'' None"
    using ch(1) by (auto simp: manifest_changes_def newer_eligible_exists_def eligible_rows_def Let_def split: if_splits)
  then show "db_manifests (wire_db dg) = [(''one'', manifest_row 10 (wire_set dg))]"
    "db_projections (wire_db dg) = [(''one'', new_delivery_projection 10 ''ELIGIBLE'' None)]"
    using commit_tables(3,5) [OF ch] by (simp_all add: uid e insert_row_def update_rows_def)
qed

text \<open>The client whose store holds just that frame set.\<close>

definition wire_live :: "string \<Rightarrow> LiveDb" where
  "wire_live dg = \<lparr> lv_ledger = wire_db dg, lv_state = None \<rparr>"

lemma wire_newest:
  assumes "dg \<noteq> []"
  shows "get_newest_eligible_manifest (wire_db dg) = Some (manifest_row 10 (wire_set dg))"
  by (simp add: get_newest_eligible_manifest_def deliverable_def wire_tables [OF assms] new_delivery_projection_def archive_state_defs)

lemma wire_live_inv:
  assumes "dg \<noteq> []" shows "live_inv (wire_live dg)"
proof -
  have "wire_live dg = live_step empty_live (LedgerOp (Persist 10 (wire_set dg)))"
    using wire_stored [OF assms] by (simp add: wire_live_def empty_live_def)
  then show ?thesis using live_step_inv [OF empty_live_inv, of "LedgerOp (Persist 10 (wire_set dg))"] by simp
qed

lemma wire_claimed:
  assumes "dg \<noteq> []"
  obtains d where "claim_latest id now demo_credit (Some 20) (wire_live dg) = (Inr (Some (wire_claim dg)), d)"
    "snapshot_for_hello (wire_live dg) \<noteq> Inr None" "\<not> isl (snapshot_for_hello (wire_live dg))"
proof -
  have n: "newest_eligible (wire_db dg) (state_row t (wire_live dg)) = Inr (Some (manifest_row 10 (wire_set dg)))" for t
    by (simp add: newest_eligible_def wire_newest [OF assms] wire_live_def state_row_def fresh_state_def)
  have f: "rs_in_flight_frame_set_uid (state_row t (wire_live dg)) = None" for t
    by (simp add: wire_live_def state_row_def fresh_state_def)
  have uid: "mf_frame_set_uid (manifest_row 10 (wire_set dg)) = ''one''"
    by (simp add: manifest_row_def wire_set_def demo_set_def)
  have p: "dict_get (db_projections (wire_db dg)) ''one'' = Some (new_delivery_projection 10 ''ELIGIBLE'' None)"
    by (simp add: wire_tables [OF assms])
  have l: "lv_ledger (wire_live dg) = wire_db dg" by (simp add: wire_live_def)
  have snap: "live_snapshot (set_projection u q (wire_db dg)) = live_snapshot (wire_db dg)" for u q
    by (intro ext) (simp add: live_snapshot_def set_projection_def)
  show ?thesis
    by (rule that)
      (simp_all add: claim_latest_def snapshot_for_hello_def n f uid p l snap wire_claim_def Let_def
        new_delivery_projection_def archive_state_defs)
qed

text \<open>A message as its image bytes, one after another: enough to have a size that depends on the frames.\<close>

definition wire_bytes :: "ProducerEnvelope \<Rightarrow> bytes" where
  "wire_bytes envelope = (case envelope of FrameSetEnvelope cf \<Rightarrow> concat (map fp_image_bytes (cf_frames cf)) | _ \<Rightarrow> [])"

lemma wire_carried:
  assumes "list_all2 (carries wire_files) (cl_members (wire_claim (sha256_bytes [1, 2]))) (cf_frames cf)"
  shows "wire_bytes (FrameSetEnvelope cf) = [1, 2]"
  using assms unfolding wire_claim_members [OF wire_digest]
  by (auto simp: wire_bytes_def list_all2_Cons1 carries_def wire_files_def live_member_def member_row_def archived_def)

section \<open>An alert delivered twice\<close>

definition demo_alert :: RelayV2AlertEnvelope where
  "demo_alert =
     \<lparr> ae_contract_version = 1, ae_idempotency_key = ''k1'',
       ae_payload_digest = sha256_bytes (encode_utf8 (canonical_json (JObj []))), ae_processing_job_id = ''job'',
       ae_frame_set_uid = ''frames'', ae_transition_event_id = ''event'', ae_hazard_key = ''zone'',
       ae_from_state = ''CLEAR'', ae_to_state = ''DANGER'', ae_from_version = 0, ae_to_version = 1,
       ae_severity = ''danger'', ae_observation_event_utc_ms = 5, ae_delivery_deadline_utc_ms = 50,
       ae_alert_payload = JObj [] \<rparr>"

lemma demo_alert_digest: "payload_digest (ae_alert_payload demo_alert) = Inr (ae_payload_digest demo_alert)"
  by (simp add: demo_alert_def payload_digest_def canonical_payload_def)

lemma demo_alert_valid: "validate_alert demo_alert (ae_payload_digest demo_alert) = None"
proof -
  have "ae_payload_digest demo_alert \<noteq> []" "strip (ae_payload_digest demo_alert) = ae_payload_digest demo_alert"
    by (simp_all add: demo_alert_def sha256_bytes_def strip_hex)
      (metis length_hex length_sha256 list.size(3) mult_eq_0_iff zero_neq_numeral)
  moreover have "strip ''k1'' \<noteq> []" "strip ''job'' \<noteq> []" "strip ''frames'' \<noteq> []" "strip ''event'' \<noteq> []" "strip ''zone'' \<noteq> []"
    by code_simp+
  ultimately show ?thesis
    by (simp add: validate_alert_def demo_alert_def RECEIVER_CONTRACT_VERSION_def VALID_STATES_def EXPECTED_SEVERITY_def)
qed

lemma demo_alert_applied:
  "receive 10 demo_alert empty_receiver =
     (Inr (receive_result demo_alert ''APPLIED'' 1 10 (Some True) True), applied_db empty_receiver demo_alert 10)"
proof -
  have "receive_first 10 (ae_payload_digest demo_alert) demo_alert empty_receiver = apply_alert 10 demo_alert empty_receiver"
    by (simp add: receive_first_def demo_alert_valid empty_receiver_def Let_def) (simp add: demo_alert_def)
  moreover have "apply_alert 10 demo_alert empty_receiver =
      Inr (receive_result demo_alert ''APPLIED'' 1 10 (Some True) True, applied_db empty_receiver demo_alert 10)"
    using applied_commit [OF empty_receiver_inv, of demo_alert 10]
    by (simp add: empty_receiver_def hazard_version_def demo_alert_def in_int64_def)
  ultimately show ?thesis by (simp add: receive_def demo_alert_digest) (simp add: empty_receiver_def)
qed

lemma demo_alert_again:
  "fst (receive 20 demo_alert (applied_db empty_receiver demo_alert 10)) =
     Inr (receive_result demo_alert ''DUPLICATE'' 1 20 (Some True) False)"
proof -
  have inv: "receiver_inv (applied_db empty_receiver demo_alert 10)"
    using receive_step_inv [OF empty_receiver_inv, of "(10, demo_alert)"] by (simp add: receive_step_def demo_alert_applied)
  have row: "dict_get (rd_receipts (applied_db empty_receiver demo_alert 10)) (ae_idempotency_key demo_alert)
      = Some (receipt_row demo_alert 10 ''APPLIED'' 1 (Some True))"
    by (simp add: applied_db_def Let_def demo_alert_def)
  show ?thesis
    unfolding receive_def demo_alert_digest
    by (simp add: row receive_again_def commit_receiver_ok [OF inv]) (simp add: receipt_row_def int_of_bool_def)
qed

section \<open>A relay credential for a claim\<close>

definition relay_claims :: claims where
  "relay_claims =
     [(''iss'', JStr ''main''), (''aud'', JStr ''relay''), (''sub'', JStr ''stream''), (''credential_kind'', JStr ''PROCESSING_RELAY''),
      (''tenant_id'', JStr (demo_uuid CHR ''a'')), (''site_id'', JStr (demo_uuid CHR ''b'')),
      (''capture_session_id'', JStr (demo_uuid CHR ''c'')), (''processing_job_id'', JStr (demo_uuid CHR ''d'')),
      (''profile_digest'', JStr (replicate 64 CHR ''0'')), (''coordinator_subject'', JStr ''coordinator''),
      (''camera_ids'', JList [JStr (demo_uuid CHR ''2'')]),
      (''iat'', JInt 10), (''nbf'', JInt 10), (''exp'', JInt 100), (''jti'', JStr (demo_uuid CHR ''3''))]"

definition relay_jwt :: "unit JwtLibrary" where
  "relay_jwt = demo_jwt\<lparr> jw_decode := \<lambda>token key issuer audience leeway required.
     if list_all (\<lambda>name. dict_get relay_claims name \<noteq> None) required then Some relay_claims else None \<rparr>"

definition relay_claim :: ClaimedFrameSet where
  "relay_claim =
     \<lparr> cl_key = \<lparr> fk_capture_run_id = ''run'', fk_frame_set_id = 1, fk_frame_set_uid = ''one'' \<rparr>, cl_credit = demo_credit,
       cl_capture_session_id = demo_uuid CHR ''c'', cl_anchor_timestamp_ms = 100, cl_freshness_origin_ms = 100,
       cl_synchronization_span_ms = 0, cl_synchronized_at_ms = 100, cl_manifest_digest = ''digest'', cl_manifest_json = ''{}'',
       cl_offered_at_ms = 20,
       cl_members = [\<lparr> lm_source_frame_uid = ''uid'', lm_source_session_id = ''session'', lm_camera_stream_id = ''A'',
         lm_frame_sequence = 1, lm_capture_timestamp_ms = 100, lm_content_type = ''image/jpeg'', lm_image_size = 2,
         lm_content_digest = ''digest'', lm_file_path = ''/A'', lm_authorized_camera_id = Some (demo_uuid CHR ''2''),
         lm_camera_claim_id = None, lm_authorized_subject = Some ''subject'', lm_session_token_jti = Some ''jti'' \<rparr>],
       cl_tenant_id = Some (demo_uuid CHR ''a''), cl_site_id = Some (demo_uuid CHR ''b''),
       cl_processing_job_id = Some (demo_uuid CHR ''d''), cl_profile_digest = Some (replicate 64 CHR ''0''),
       cl_authorized_subject = Some ''subject'', cl_session_token_jti = Some ''jti'' \<rparr>"

definition relay_inputs :: RelayInputs where
  "relay_inputs =
     \<lparr> ri_now = 50, ri_token_now = 0,
       ri_token_answer = Inr (JObj [(''access_token'', JStr ''access''), (''expires_in'', JInt 60)]),
       ri_post = (\<lambda>tenant job access. Inr
         \<lparr> rn_status_code = 200, rn_raise_for_status = Inr (), rn_relay_token = Some ''relay-token'',
           rn_json = Inr (JObj [(''credentialId'', JStr (demo_uuid CHR ''3'')), (''captureSessionId'', JStr (demo_uuid CHR ''c'')),
             (''processingJobId'', JStr (demo_uuid CHR ''d'')), (''credentialKind'', JStr ''PROCESSING_RELAY''),
             (''cameraIds'', JList [JStr (demo_uuid CHR ''2'')])]) \<rparr>),
       ri_auth = demo_auth_inputs \<rparr>"

definition relay_provider :: "unit RelayProvider" where
  "relay_provider = \<lparr> rp_token_provider = \<lparr> tp_units = 1000, tp_float_units = (\<lambda>r. 0), tp_refresh_skew = 15000 \<rparr>,
     rp_verifier = \<lparr> vf_issuer = ''main'', vf_audience = ''relay'', vf_leeway = 5 \<rparr>, rp_refresh_skew = 15,
     rp_access_token = None, rp_auth = demo_caches, rp_credentials = [] \<rparr>"

lemma relay_scope:
  "relay_scope_from_claims relay_claims = Inr
     \<lparr> pr_tenant_id = demo_uuid CHR ''a'', pr_site_id = demo_uuid CHR ''b'', pr_capture_session_id = demo_uuid CHR ''c'',
       pr_processing_job_id = demo_uuid CHR ''d'', pr_profile_digest = replicate 64 CHR ''0'',
       pr_coordinator_subject = ''coordinator'', pr_camera_ids = {demo_uuid CHR ''2''}, pr_workload_subject = ''stream'',
       pr_token_jti = demo_uuid CHR ''3'', pr_expires_at = 100 \<rparr>"
proof -
  have get: "json_get relay_claims ''tenant_id'' = JStr (demo_uuid CHR ''a'')" "json_get relay_claims ''site_id'' = JStr (demo_uuid CHR ''b'')"
    "json_get relay_claims ''capture_session_id'' = JStr (demo_uuid CHR ''c'')" "json_get relay_claims ''processing_job_id'' = JStr (demo_uuid CHR ''d'')"
    "json_get relay_claims ''camera_ids'' = JList [JStr (demo_uuid CHR ''2'')]" "json_get relay_claims ''jti'' = JStr (demo_uuid CHR ''3'')"
    by (simp_all add: relay_claims_def json_get_def)
  have lower: "lower_char CHR ''a'' = CHR ''a''" "lower_char CHR ''b'' = CHR ''b''" "lower_char CHR ''c'' = CHR ''c''"
    "lower_char CHR ''d'' = CHR ''d''" "lower_char CHR ''2'' = CHR ''2''" "lower_char CHR ''3'' = CHR ''3''" by code_simp+
  have digits: "is_hex_lower CHR ''a''" "is_hex_lower CHR ''b''" "is_hex_lower CHR ''c''" "is_hex_lower CHR ''d''"
    "is_hex_lower CHR ''2''" "is_hex_lower CHR ''3''" by code_simp+
  have "profile_digest_claim relay_claims = Inr (replicate 64 CHR ''0'')" by code_simp
  moreover have "relay_required_text (json_get relay_claims ''sub'') ''sub'' = Inr ''stream''"
    "relay_required_text (json_get relay_claims ''coordinator_subject'') ''coordinator_subject'' = Inr ''coordinator''"
    "int_claim (json_get relay_claims ''exp'') ''exp'' = Inr 100"
    "json_get relay_claims ''credential_kind'' = JStr ''PROCESSING_RELAY''" by code_simp+
  moreover have "camera_ids_claim relay_claims = Inr {demo_uuid CHR ''2''}"
    by (simp add: camera_ids_claim_def get demo_uuid_canonical lower digits)
  ultimately show ?thesis
    by (simp add: relay_scope_from_claims_def uuid_claim_def get demo_uuid_canonical lower digits)
qed

lemma relay_resolved:
  obtains credential p where "resolve_relay_credential relay_jwt relay_inputs relay_claim relay_provider = (Inr credential, p)"
    "ac_token credential = ''relay-token''"
proof -
  let ?v = "\<lparr> vf_issuer = ''main'', vf_audience = ''relay'', vf_leeway = 5 \<rparr>"
  have "fst (verified_claims relay_jwt demo_auth_inputs ?v RELAY_CREDENTIAL_REQUIRED_CLAIMS ''processing relay credential'' ''relay-token'' demo_caches) = Inr relay_claims"
    by code_simp
  then obtain mid where v: "verified_claims relay_jwt demo_auth_inputs ?v RELAY_CREDENTIAL_REQUIRED_CLAIMS ''processing relay credential'' ''relay-token'' demo_caches
      = (Inr relay_claims, mid)" by (metis prod.collapse)
  have "ai_now demo_auth_inputs = 50" by (simp add: demo_auth_inputs_def)
  then have "\<exists>scope. relay_verify relay_jwt demo_auth_inputs ?v ''relay-token'' demo_caches = (Inr scope, mid)
      \<and> relay_matches_claim scope relay_claim \<and> pr_camera_ids scope = {demo_uuid CHR ''2''} \<and> pr_token_jti scope = demo_uuid CHR ''3''
      \<and> pr_capture_session_id scope = demo_uuid CHR ''c'' \<and> pr_processing_job_id scope = demo_uuid CHR ''d''"
    by (simp add: relay_verify_def v relay_scope relay_matches_claim_def relay_claim_def authorized_camera_ids_def demo_uuid_def)
  then obtain scope where s: "relay_verify relay_jwt demo_auth_inputs ?v ''relay-token'' demo_caches = (Inr scope, mid)"
      "relay_matches_claim scope relay_claim" "pr_camera_ids scope = {demo_uuid CHR ''2''}" "pr_token_jti scope = demo_uuid CHR ''3''"
      "pr_capture_session_id scope = demo_uuid CHR ''c''" "pr_processing_job_id scope = demo_uuid CHR ''d''" by blast
  have "demo_uuid CHR ''d'' \<noteq> []" by (simp add: demo_uuid_def)
  moreover have "resolve_access_token (rp_token_provider relay_provider) 0 (Inr (JObj [(''access_token'', JStr ''access''), (''expires_in'', JInt 60)])) None
      = (Inr ''access'', Some \<lparr> wt_value = ''access'', wt_expires_at = 60000 \<rparr>)" by code_simp
  moreover have "cl_processing_job_id relay_claim = Some (demo_uuid CHR ''d'')" by (simp add: relay_claim_def)
  ultimately show thesis
    by (intro that) (auto simp: resolve_relay_credential_def issue_relay_credential_def accept_relay_answer_def relay_inputs_def
        relay_provider_def s response_matches_scope_def frozenset_of_def json_get_def Let_def)
qed

section \<open>A connection of the relay client\<close>

definition talk_set :: SynchronizedFrameSet where
  "talk_set = (demo_set ''one'' 1 100)\<lparr> fs_manifest_json :=
     Some (concat [''{'', [CHR 0x22], ''members'', [CHR 0x22], '':[{'', [CHR 0x22], ''camera_stream_id'', [CHR 0x22], '':'',
       [CHR 0x22], ''A'', [CHR 0x22], '','', [CHR 0x22], ''capture_config_digest'', [CHR 0x22], '':'', [CHR 0x22], ''config'',
       [CHR 0x22], ''}]}'']) \<rparr>"

definition talk_db :: LiveDb where
  "talk_db = live_step empty_live (LedgerOp (Persist 10 talk_set))"

lemma talk_db_code [code]: "talk_db = \<lparr> lv_ledger = demo_rows (the (fs_manifest_json talk_set)), lv_state = None \<rparr>"
  by code_simp

definition talk_env :: "unit RelayEnv" where
  "talk_env = \<lparr> en_library = demo_jwt, en_floats = demo_floats, en_files = (\<lambda>_. None), en_serialize = (\<lambda>_. [0]),
     en_os_error_name = (\<lambda>_. ''FileNotFoundError''), en_exn_text = (\<lambda>_. ''error'') \<rparr>"

definition talk_client :: "unit RelayClient" where
  "talk_client =
     \<lparr> rl_enabled = True, rl_target = ''processor'', rl_last_error = None, rl_has_store = True,
       rl_protocol_config = Some wire_config, rl_running = True, rl_backoff = default_backoff,
       rl_connection_count = 0, rl_reconnect_count = 0,
       rl_offered_count = 0, rl_no_data_count = 0, rl_provider = None,
       rl_sessions = [(''job'', \<lparr> ac_token = ''token'', ac_scope = demo_session_scope \<rparr>)],
       rl_db = talk_db, rl_outgoing = [] \<rparr>"

definition talk_open :: OpenInputs where
  "talk_open = \<lparr> oi_utc_ms = 20, oi_now_ms = 20, oi_relay = relay_inputs, oi_session_now = 50, oi_stopping = False \<rparr>"

definition talk_hello :: RelayEnvelope where
  "talk_hello = HelloAcceptedEnvelope \<lparr> ha_protocol_version = 2, ha_schema_version = 1, ha_processing_job_id = ''job'',
     ha_processor_instance_id = ''p'', ha_stream_epoch = ''e'', ha_maximum_payload_bytes = 100,
     ha_processing_profile_digest = ''profile'' \<rparr> False []"

definition talk_credit :: "int \<Rightarrow> ProcessorCredit" where
  "talk_credit earliest = wire_credit\<lparr> cd_earliest_acceptable_freshness_origin_utc_ms := earliest \<rparr>"

definition talk_times :: CreditInputs where
  "talk_times = \<lparr> ki_received_ms = 1000, ki_claim_utc_ms = 30, ki_mono_ms = 1010, ki_utc_ms = 30, ki_now_ms = 30, ki_stopping = False \<rparr>"

definition talk_in :: EnvelopeInputs where
  "talk_in = \<lparr> vi_utc_ms = 25, vi_now_ms = 25, vi_credit = talk_times \<rparr>"

text \<open>The processor takes the hello and its credit, and asks for frames fresher than there are.\<close>

definition talk_events :: "RelayEvent list" where
  "talk_events = [Response False talk_in talk_hello, Response False talk_in (CreditEnvelope (talk_credit 1000)),
     Meanwhile (Persist 40 (demo_set ''two'' 2 200))]"

lemma talk_start: "live_inv (rl_db talk_client)"
proof -
  have "live_inv (live_step empty_live (LedgerOp (Persist 10 talk_set)))" by (rule live_step_inv [OF empty_live_inv]) simp
  then show "live_inv (rl_db talk_client)" by (simp add: talk_client_def talk_db_def)
qed

definition talk_session :: NegotiatedSession where
  "talk_session = \<lparr> ng_processing_job_id = ''job'', ng_processor_instance_id = ''p'', ng_stream_epoch = ''e'',
     ng_maximum_payload_bytes = 100, ng_processing_profile_digest = ''profile'' \<rparr>"

text \<open>The client is asked for a frame set and sends that one.\<close>

definition wire_client :: "unit RelayClient" where
  "wire_client = talk_client\<lparr> rl_db := wire_live (sha256_bytes [1, 2]) \<rparr>"

definition wire_env :: "unit RelayEnv" where
  "wire_env = talk_env\<lparr> en_files := wire_files \<rparr>"

definition wire_times :: CreditInputs where
  "wire_times = \<lparr> ki_received_ms = 1000, ki_claim_utc_ms = 20, ki_mono_ms = 1010, ki_utc_ms = 200, ki_now_ms = 200, ki_stopping = False \<rparr>"

lemma wire_sent:
  obtains c cf where "handle_credit wire_env wire_times wire_credit wire_session None wire_config None wire_client = (Inr (), c)"
    "rl_outgoing c = rl_outgoing wire_client @ [FrameSetEnvelope cf]" "length (cf_frames cf) = 1"
proof -
  obtain d where d: "claim_latest id 200 demo_credit (Some 20) (wire_live (sha256_bytes [1, 2])) = (Inr (Some (wire_claim (sha256_bytes [1, 2]))), d)"
      "snapshot_for_hello (wire_live (sha256_bytes [1, 2])) \<noteq> Inr None" "\<not> isl (snapshot_for_hello (wire_live (sha256_bytes [1, 2])))"
    by (rule wire_claimed [OF wire_digest])
  then obtain hello where hello: "snapshot_for_hello (wire_live (sha256_bytes [1, 2])) = Inr (Some hello)"
    by (cases "snapshot_for_hello (wire_live (sha256_bytes [1, 2]))") auto
  obtain cf where cf: "build_credited_frame_set demo_floats wire_files (\<lambda>_. [0]) (wire_claim (sha256_bytes [1, 2])) wire_credit wire_session wire_config 1000 1010 1010 200
      = Inr (FrameSetEnvelope cf)" "length (cf_frames cf) = 1"
    using wire_built [of 1010 1010] by auto
  have "credit_identity wire_credit wire_session = Inr demo_credit" by code_simp
  moreover have "rl_has_store wire_client" "rl_db wire_client = wire_live (sha256_bytes [1, 2])"
    "en_floats wire_env = demo_floats" "en_files wire_env = wire_files" "en_serialize wire_env = (\<lambda>_. [0])"
    by (simp_all add: wire_client_def talk_client_def wire_env_def talk_env_def)
  ultimately have "\<exists>c. handle_credit wire_env wire_times wire_credit wire_session None wire_config None wire_client = (Inr (), c)
      \<and> rl_outgoing c = rl_outgoing wire_client @ [FrameSetEnvelope cf]"
    by (simp add: handle_credit_def required_store_def hello d(1) bind_relay_scope_def send_claimed_def with_db_def put_def
        wire_times_def cf(1) Let_def)
  then show thesis using that cf(2) by blast
qed

text \<open>The client with its frame set on offer, and the processor's word that it is all it knows.\<close>

definition talk_offered :: "unit RelayClient" where
  "talk_offered = talk_client\<lparr> rl_db := live_step (rl_db talk_client) (Claim 30 demo_credit (Some 30)) \<rparr>"

text \<open>The client after a restart of the service: the frame set is there, its session's credential is not.\<close>

definition talk_lost :: "string option \<Rightarrow> int \<Rightarrow> unit RelayClient" where
  "talk_lost e n = talk_client\<lparr> rl_sessions := [], rl_last_error := e, rl_reconnect_count := n \<rparr>"

definition talk_round :: Round where
  "talk_round = \<lparr> rd_open = talk_open, rd_events = [], rd_close_ms = 50, rd_stopping = False, rd_random = 1 / 2 \<rparr>"

lemma talk_lost_fails:
  "run_connection talk_env talk_open [] 50 (talk_lost e n) =
     (Inl (SessionTokenError ''active session credential is unavailable''), talk_lost e n)"
proof -
  let ?db = "rl_db talk_client"
  define hello where "hello = the (projr (snapshot_for_hello ?db))"
  define config where "config = projr (bind_authorized_claim wire_config hello)"
  have "\<not> isl (snapshot_for_hello ?db) \<and> projr (snapshot_for_hello ?db) \<noteq> None" by code_simp
  then have 1: "snapshot_for_hello ?db = Inr (Some hello)" by (cases "snapshot_for_hello ?db") (auto simp: hello_def)
  have "\<not> isl (bind_authorized_claim wire_config hello)" unfolding hello_def by code_simp
  then have 2: "bind_authorized_claim wire_config hello = Inr config" by (cases "bind_authorized_claim wire_config hello") (auto simp: config_def)
  have "truthy (cl_processing_job_id hello) \<and> resolve_for_claim 50 hello [] =
      (Inl (SessionTokenError ''active session credential is unavailable''), [])" unfolding hello_def by code_simp
  moreover define c where "c = talk_lost e n"
  then have "rl_has_store c" "rl_protocol_config c = Some wire_config" "rl_db c = ?db" "rl_provider c = None"
      "rl_sessions c = []" "c\<lparr> rl_sessions := [] \<rparr> = c"
    by (simp_all add: talk_lost_def talk_client_def)
  moreover have "oi_session_now talk_open = 50" by (simp add: talk_open_def)
  ultimately show ?thesis using 1 2 unfolding c_def [symmetric]
    by (simp add: run_connection_def open_connection_def authorize_hello_def required_store_def required_config_def)
qed

lemma talk_outage: "outage talk_env (replicate k talk_round) (talk_lost e n)"
proof (induction k arbitrary: e n)
  case (Suc k)
  have f: "rd_open talk_round = talk_open" "rd_events talk_round = []" "rd_close_ms talk_round = 50" "\<not> rd_stopping talk_round"
    by (simp_all add: talk_round_def)
  have "(talk_lost e n)\<lparr> rl_last_error := m, rl_reconnect_count := i \<rparr> = talk_lost m i" for m i
    by (simp add: talk_lost_def)
  with Suc show ?case unfolding replicate_Suc outage.simps f talk_lost_fails by (simp add: f)
qed simp

section \<open>Two cameras before the gate\<close>

definition gate_env :: "(unit, IngestRequest list) IngestEnv" where
  "gate_env = \<lparr> ie_library = demo_jwt, ie_ingest = (\<lambda>request log. (Inr None, log @ [request])),
     ie_write_sidecar = (\<lambda>path content log. (Inr (), log)) \<rparr>"

definition gate_service :: "string list \<Rightarrow> VersionedVerifier option \<Rightarrow> GrpcIngestService" where
  "gate_service devices verifier = configure_ingest ''[::]:50051'' True None (Some devices) verifier new_ingest_service"

definition gate_packet :: "string \<Rightarrow> int \<Rightarrow> FramePacket" where
  "gate_packet device t = \<lparr> fp_camera_id = ''cam'', fp_device_id = device, fp_frame_sequence = 1, fp_device_timestamp_ms = t,
     fp_format = ''jpeg'', fp_session_id = None, fp_jpeg = [0], fp_session_scope = None, fp_metadata_payload = [] \<rparr>"

definition gate_input :: "string \<Rightarrow> int \<Rightarrow> StepInputs" where
  "gate_input device t = \<lparr> si_auth = demo_auth_inputs, si_now = 50, si_time_ms = t + 5, si_monotonic_ns = 0,
     si_incoming = NextFrame (gate_packet device t) \<rparr>"

text \<open>A frame of stream \<open>k\<close> up to the gate, and the frames of two phones: the gate opens at the second, at time 130.\<close>

definition gate_frame :: "nat \<Rightarrow> string \<Rightarrow> int \<Rightarrow> ServerEvent list" where
  "gate_frame k device t = replicate 3 (StepStream k (gate_input device t))"

definition gate_start :: "(unit, IngestRequest list) IngestServer" where
  "gate_start = started_server (gate_service [''p1'', ''p2''] None) demo_caches [] [] []"

definition gate_shut :: "ServerEvent list" where
  "gate_shut = [OpenStream 0 None (gate_input [] 0), OpenStream 1 None (gate_input [] 0)]
     @ gate_frame 0 ''p1'' 130 @ [StepStream 0 (gate_input [] 0)] @ gate_frame 1 ''p2'' 120"

definition gate_opened :: "ServerEvent list" where
  "gate_opened = gate_shut @ [StepStream 1 (gate_input [] 0)] @ gate_frame 0 ''p1'' 140"

section \<open>Frames on their way to the archive\<close>

definition calm_faults :: WriteFaults where
  "calm_faults = \<lparr> wf_mkdir = None, wf_open = None, wf_write = None, wf_fsync = None, wf_replace = None,
     wf_unlink = False, wf_partial = 0 \<rparr>"

definition calm_archive :: ArchiveInputs where
  "calm_archive = \<lparr> av_writer = durable_write_bytes calm_faults ''token'', av_exn_text = (\<lambda>_. ''OSError''), av_others = id,
     av_fresh_id = 1, av_db_fault = None \<rparr>"

definition calm_inputs :: IngestInputs where
  "calm_inputs = \<lparr> in_now_ms = 10, in_match_ms = 20, in_fresh_uuid = ''fresh'', in_build_path = (\<lambda>_ _ _ _. Inr ''/frame''),
     in_archive = calm_archive, in_state_ms = 30, in_manifest_ms = 40, in_manifest_others = id, in_manifest_fault = None,
     in_projection_ms = 50, in_projection_fault = None, in_others = (\<lambda>_ w. w) \<rparr>"

definition plain_call :: IngestCall where
  "plain_call = \<lparr> ic_device_id = ''A'', ic_timestamp_ms = 100, ic_image_bytes = [1, 2], ic_sequence = Some 1,
     ic_content_type = ''image/jpeg'', ic_filename = None, ic_session_id = None, ic_camera_stream_id = None,
     ic_relay_mode = None, ic_received_at_ms = None, ic_capture_metadata = None, ic_authorization_scope = None \<rparr>"

definition idle_world :: IngestWorld where
  "idle_world = \<lparr> iw_sync = new_service, iw_ledger = empty_db, iw_frames = [], iw_files = [], iw_state = [],
     iw_raw = new_relay_service, iw_sets = new_relay_service \<rparr>"

lemma calm_others: "others_keep_manifests calm_inputs" "others_keep_frames calm_inputs"
  by (simp_all add: others_keep_manifests_def others_keep_frames_def calm_inputs_def calm_archive_def)

lemma no_frames_ok [simp]: "frames_ok []"
  by (simp add: frames_ok_def)

lemma plain_ingest:
  obtains r w where "ingest_frame calm_inputs plain_call idle_world = (Inr r, w)"
    "ir_synchronized_frame_set r = None" "ir_archive_state r = ARCHIVE_DURABLE"
proof -
  have "finalize_archive default_buffer_manager key a b st er = (None, default_buffer_manager)" for key a b st er
    by (simp add: finalize_archive_def default_buffer_manager_def)
  then have "case ingest_frame calm_inputs plain_call idle_world of (Inl e, w) \<Rightarrow> False
      | (Inr r, w) \<Rightarrow> ir_synchronized_frame_set r = None \<and> ir_archive_state r = ARCHIVE_DURABLE"
    by (simp add: ingest_frame_def live_part_def memory_frame_def resolved_camera_stream_id_def resolve_frame_identity_def
        resolve_ingest_relay_mode_def enabled_relay_mode_def handle_frame_def archive_part_def archive_frame_def
        persist_frame_archive_def write_archive_file_def create_frame_def find_existing_frame_def durable_write_bytes_def
        finalize_frame_archive_def update_frame_def calm_inputs_def calm_archive_def calm_faults_def plain_call_def idle_world_def
        new_service_def new_relay_service_def frame_row_def authorization_scope_fields_def relay_mode_defs with_archive_def error_text_def
        Let_def)
  then show ?thesis using that by (auto split: prod.splits sum.splits)
qed

text \<open>A frame with an identity: as the call brings it, and as the table holds it under a digest.\<close>

definition demo_call_row :: "string \<Rightarrow> FrameRow" where
  "demo_call_row digest =
     \<lparr> fr_device_id = ''A'', fr_timestamp = 100, fr_file_path = None, fr_source_session_id = Some ''s'',
       fr_camera_stream_id = Some ''cam'', fr_frame_sequence = Some 1, fr_source_frame_uid = None,
       fr_content_digest = Some digest, fr_identity_mode = IDENTITY_MODE_LEGACY, fr_archive_state = ARCHIVE_DURABLE,
       fr_archive_error = None, fr_file_size = None, fr_content_type = Some ''image/jpeg'', fr_received_at_ms = Some 100,
       fr_capture_config_digest = None, fr_capture_metadata_json = None, fr_scope = no_scope \<rparr>"

definition demo_frame_uid :: string where
  "demo_frame_uid = str_uuid (uuid5 SOURCE_FRAME_NAMESPACE (canonical_json (JList [JStr ''s'', JStr ''cam'', JInt 1])))"

definition demo_table_row :: "string \<Rightarrow> FrameRow" where
  "demo_table_row digest =
     (demo_call_row digest)\<lparr> fr_source_frame_uid := Some demo_frame_uid, fr_identity_mode := IDENTITY_MODE_V2, fr_file_path := Some ''/p'' \<rparr>"

lemma demo_digest: "sha256_bytes [1] \<noteq> ''other''" "strip (sha256_bytes [1]) \<noteq> []" "strip ''other'' \<noteq> []"
proof -
  have l: "length (sha256_bytes [1]) = 64" by (simp add: sha256_bytes_def)
  then have "length (sha256_bytes [1]) \<noteq> length ''other''" by simp
  then show "sha256_bytes [1] \<noteq> ''other''" by metis
  have "strip (sha256_bytes [1]) = sha256_bytes [1]" by (simp add: sha256_bytes_def)
  then show "strip (sha256_bytes [1]) \<noteq> []" using l by auto
  show "strip ''other'' \<noteq> []" by code_simp
qed

lemma demo_named:
  assumes "strip digest \<noteq> []"
  shows "resolve_frame_identity (Some ''s'') (Some ''cam'') (Some 1) (Some digest) = Inr (Some demo_frame_uid, IDENTITY_MODE_V2)"
proof -
  have s: "strip ''s'' = ''s''" "strip ''cam'' = ''cam''" by code_simp+
  then have "build_source_frame_uid ''s'' ''cam'' 1 = Inr demo_frame_uid" by (simp add: source_frame_name demo_frame_uid_def)
  then show ?thesis using assms s by (simp add: resolve_frame_identity_def nonblank_def)
qed

lemma demo_row_fields [simp]:
  "fr_source_session_id (demo_call_row d) = Some ''s''" "fr_camera_stream_id (demo_call_row d) = Some ''cam''"
  "fr_frame_sequence (demo_call_row d) = Some 1" "fr_content_digest (demo_call_row d) = Some d" "fr_scope (demo_call_row d) = no_scope"
  "fr_source_session_id (demo_table_row d) = Some ''s''" "fr_camera_stream_id (demo_table_row d) = Some ''cam''"
  "fr_frame_sequence (demo_table_row d) = Some 1" "fr_content_digest (demo_table_row d) = Some d"
  "fr_source_frame_uid (demo_table_row d) = Some demo_frame_uid" "fr_identity_mode (demo_table_row d) = IDENTITY_MODE_V2"
  "fr_file_path (demo_table_row d) = Some ''/p''" "fr_archive_state (demo_table_row d) = ARCHIVE_DURABLE" "fr_file_size (demo_table_row d) = None"
  by (simp_all add: demo_call_row_def demo_table_row_def)

lemma demo_table_ok: "strip d \<noteq> [] \<Longrightarrow> frames_ok [(1, demo_table_row d)]"
  by (auto simp: frames_ok_def identified_def demo_named split: if_splits)

section \<open>A check of the archive\<close>

definition demo_check :: ReconcileInputs where
  "demo_check = \<lparr> rn_run_id = ''check'', rn_detected_at_ms = 500, rn_resolve = id, rn_root = [], rn_listing = [], rn_read_error = (\<lambda>_. None) \<rparr>"

lemma demo_checked:
  "validate_frame_file demo_check [(''/p'', [1])] (demo_table_row (sha256_bytes [1]))
     = (None, (demo_table_row (sha256_bytes [1]))\<lparr> fr_file_size := Some 1, fr_content_digest := Some (sha256_bytes [1]) \<rparr>)"
  "validate_frame_file demo_check [(''/p'', [1])] (demo_table_row ''other'')
     = (Some (''DIGEST_MISMATCH'', ''content SHA-256 mismatch: /p''), demo_table_row ''other'')"
  using demo_digest(1) by (auto simp: validate_frame_file_def demo_check_def is_relative_to_def Let_def)

lemma demo_check_healthy:
  "\<exists>report issues frames'. reconcile_archive demo_check [(''/p'', [1])] ([(1, demo_table_row (sha256_bytes [1]))], demo_ledger)
     = (Inr (report, issues), frames', demo_ledger)"
  by (simp add: reconcile_archive_def reconcile_frame_def demo_checked refer_to_def start_reconciliation_def Let_def)
    (simp add: demo_check_def)

lemma demo_check_broken:
  "\<exists>report issues frames' db'. reconcile_archive demo_check [(''/p'', [1])] ([(1, demo_table_row ''other'')], empty_db)
     = (Inr (report, issues), frames', db') \<and> map_option fr_archive_state (dict_get frames' 1) = Some ARCHIVE_DEGRADED_LIVE_ONLY"
  by (simp add: reconcile_archive_def reconcile_frame_def demo_checked refer_to_def start_reconciliation_def frame_set_uids_def
      empty_db_def Let_def) (simp add: demo_check_def)

lemma demo_offered:
  obtains mf m where "mf \<in> set (deliverable demo_ledger)" "mf_frame_set_uid mf = mm_frame_set_uid m" "m \<in> set (db_members demo_ledger)"
    "mm_frame_id m = Some 1"
proof -
  have "list_ex (\<lambda>mf. list_ex (\<lambda>m. mf_frame_set_uid mf = mm_frame_set_uid m \<and> mm_frame_id m = Some 1) (db_members demo_ledger))
      (deliverable demo_ledger)" by code_simp
  then show ?thesis using that by (auto simp: list_ex_iff)
qed

section \<open>A recording of two cameras\<close>

definition demo_recorded :: "int \<Rightarrow> string \<Rightarrow> int \<Rightarrow> int \<times> string \<times> ReplayFrame" where
  "demo_recorded n camera t =
     (0, [], \<lparr> rp_frame_id = n, rp_device_id = camera, rp_timestamp_ms = t, rp_original_timestamp_ms = t,
               rp_server_received_at_ms = None, rp_server_receive_sequence = None, rp_sequence = n,
               rp_file_path = camera, rp_content_type = ''image/jpeg'' \<rparr>)"

definition demo_recording :: "(int \<times> string \<times> ReplayFrame) list" where
  "demo_recording = [demo_recorded 1 ''A'' 0, demo_recorded 2 ''B'' 5, demo_recorded 3 ''A'' 100, demo_recorded 4 ''B'' 120]"

end
