(* ===== verification/FurtherProperties.thy ===== *)
theory FurtherProperties
  imports Examples
begin

text \<open>
  More of what holds of the components, stated over their operations, each with an instance at a concrete state.
\<close>

section \<open>Frame sets\<close>

text \<open>The manifest of an emitted frame set is bound to its content: its digest is the SHA-256 of
  the manifest text, and the identifier of a V2 frame set is derived from that digest alone.\<close>

theorem emitted_identity_is_content:
  assumes "manager_inv m" "try_match t u (mt, m) trigger = (Inr (Some fset), mt1, m1)"
  shows "\<exists>text. fs_manifest_json fset = Some text
    \<and> fs_manifest_digest fset = Some (sha256_bytes (encode_utf8 text))
    \<and> fs_frame_set_uid fset = (if fs_identity_mode fset = IDENTITY_MODE_V2
        then Some (str_uuid (uuid5 FRAME_SET_NAMESPACE (sha256_bytes (encode_utf8 text)))) else None)"
  by (rule emitted_manifest [OF assms])

theorem emitted_identity_is_content_witness:
  "\<exists>fset mt1 m1 text. try_match 1000 ''fresh'' (demo_matcher, demo_manager) (demo_stored ''B'' 105) = (Inr (Some fset), mt1, m1)
    \<and> fs_manifest_json fset = Some text \<and> fs_manifest_digest fset = Some (sha256_bytes (encode_utf8 text))"
  by (rule demo_match) (blast dest: emitted_identity_is_content [OF demo_manager_inv])

text \<open>\<open>nearest_frame\<close> returns a buffered frame inside the window that is not excluded and is as
  close to the anchor as any other such frame, and nothing only when there is none.\<close>

theorem nearest_frame_is_nearest:
  "case buffer_nearest_frame b anchor window excluded of
     None \<Rightarrow> \<forall>f \<in> set (cb_frames b). \<not> near_candidate anchor window excluded f
   | Some g \<Rightarrow> g \<in> set (cb_frames b) \<and> near_candidate anchor window excluded g
       \<and> (\<forall>f \<in> set (cb_frames b). near_candidate anchor window excluded f \<longrightarrow>
            \<bar>f_timestamp_ms g - anchor\<bar> \<le> \<bar>f_timestamp_ms f - anchor\<bar>)"
  by (rule buffer_nearest_frame_spec)

theorem nearest_frame_is_nearest_witness:
  "let b = (new_camera_buffer 5)\<lparr> cb_frames := [demo_stored ''A'' 100, demo_stored ''A'' 130] \<rparr>
   in buffer_nearest_frame b 120 20 {} = Some (demo_stored ''A'' 130)
      \<and> near_candidate 120 20 {} (demo_stored ''A'' 130)"
proof -
  let ?b = "(new_camera_buffer 5)\<lparr> cb_frames := [demo_stored ''A'' 100, demo_stored ''A'' 130] \<rparr>"
  have "buffer_nearest_frame ?b 120 20 {} = Some (demo_stored ''A'' 130)"
    by (simp add: buffer_nearest_frame_def demo_stored_def demo_frame_def)
  then show ?thesis using nearest_frame_is_nearest [of ?b 120 20 "{}"] by simp
qed

text \<open>An accepted frame can be found: it is in the index under its key and in the ring of its
  camera, and exactly one of the accepted, duplicate and out-of-order counters moves per frame.\<close>

theorem added_frame_is_found:
  assumes "manager_inv m"
  shows "handled_count (snd (add_frame m frame)) = handled_count m + 1
    \<and> (case add_frame m frame of
         (None, m') \<Rightarrow> bm_received_count m' = bm_received_count m
       | (Some f, m') \<Rightarrow> bm_received_count m' = bm_received_count m + 1 \<and> f = stored_of_input frame
           \<and> dict_get (bm_frames_by_key m') (build_buffer_key frame) = Some f
           \<and> (\<exists>b. dict_get (bm_buffers m') (f_device_id f) = Some b \<and> f \<in> set (cb_frames b)))"
  using add_frame_counts [OF assms, of frame] add_frame_accepts [OF assms, of frame]
  by (fastforce split: prod.splits option.splits)

theorem added_frame_is_found_witness:
  "bm_received_count (snd (add_frame default_buffer_manager (demo_frame ''A'' 1))) = 1
   \<and> handled_count (snd (add_frame default_buffer_manager (demo_frame ''A'' 1))) = 1"
proof -
  have "map_prod (\<lambda>x. x \<noteq> None) (\<lambda>_. ()) (add_frame default_buffer_manager (demo_frame ''A'' 1)) = (True, ())" by code_simp
  then obtain f m' where "add_frame default_buffer_manager (demo_frame ''A'' 1) = (Some f, m')"
    by (cases "add_frame default_buffer_manager (demo_frame ''A'' 1)") auto
  then show ?thesis using added_frame_is_found [OF default_manager_inv, of "demo_frame ''A'' 1"]
    by (simp add: handled_count_def default_buffer_manager_def)
qed

text \<open>The buffer manager keeps its invariant over any sequence of operations: no camera holds
  or remembers more frames than the buffer size, the index knows exactly the remembered keys, each
  frame lies in its own camera's ring, and the index as a whole is bounded.\<close>

theorem buffers_stay_consistent:
  assumes "new_buffer_manager n = Inr m"
  shows "manager_inv (run buffer_step m ops)
    \<and> length (bm_frames_by_key (run buffer_step m ops))
        \<le> length (bm_buffers (run buffer_step m ops)) * bm_buffer_size (run buffer_step m ops)"
  using bufm.run_inv [OF new_buffer_manager_inv [OF assms], of ops] index_size_bound by (simp add: list_all_iff)

theorem buffers_stay_consistent_witness:
  "manager_inv (run buffer_step default_buffer_manager [OpAdd (demo_frame ''A'' 1), OpClear, OpAdd (demo_frame ''A'' 1)])"
  by (rule buffers_stay_consistent [of 120, THEN conjunct1])
    (simp add: new_buffer_manager_def default_buffer_manager_def)

text \<open>Delivering an accepted frame again changes nothing but the duplicate counter.\<close>

theorem replay_is_ignored:
  assumes "manager_inv m" "add_frame m frame = (Some f, m')"
  shows "add_frame m' frame = (None, m'\<lparr> bm_duplicate_frame_count := bm_duplicate_frame_count m' + 1 \<rparr>)"
  by (rule add_frame_replay [OF assms])

theorem replay_is_ignored_witness:
  "fst (add_frame (snd (add_frame default_buffer_manager (demo_frame ''A'' 1))) (demo_frame ''A'' 1)) = None"
proof -
  have "map_prod (\<lambda>x. x \<noteq> None) (\<lambda>_. ()) (add_frame default_buffer_manager (demo_frame ''A'' 1)) = (True, ())" by code_simp
  then obtain f m' where "add_frame default_buffer_manager (demo_frame ''A'' 1) = (Some f, m')"
    by (cases "add_frame default_buffer_manager (demo_frame ''A'' 1)") auto
  with replay_is_ignored [OF default_manager_inv this] show ?thesis by simp
qed

section \<open>Identities and manifests\<close>

text \<open>Two payloads with the same manifest digest are the same value, or exhibit a SHA-256
  collision of their canonical texts.\<close>

theorem manifest_digest_identifies_payload:
  assumes "float_free p" "float_free q" "build_manifest_digest p = build_manifest_digest q"
  shows "jnorm p = jnorm q
    \<or> collision sha256 (encode_utf8 (canonical_json p)) (encode_utf8 (canonical_json q))"
proof (cases "encode_utf8 (canonical_json p) = encode_utf8 (canonical_json q)")
  case True
  then show ?thesis using manifest_digest_determines [OF assms] by blast
next
  case False
  then show ?thesis using assms(3) by (auto simp: collision_def build_manifest_digest_def dest: inj_hex)
qed

theorem manifest_digest_identifies_payload_witness:
  "jnorm (JObj [(''b'', JInt 2), (''a'', JInt 1)]) = jnorm (JObj [(''a'', JInt 1), (''b'', JInt 2)])
   \<or> collision sha256 (encode_utf8 (canonical_json (JObj [(''b'', JInt 2), (''a'', JInt 1)])))
        (encode_utf8 (canonical_json (JObj [(''a'', JInt 1), (''b'', JInt 2)])))"
proof (rule manifest_digest_identifies_payload)
  show "build_manifest_digest (JObj [(''b'', JInt 2), (''a'', JInt 1)]) = build_manifest_digest (JObj [(''a'', JInt 1), (''b'', JInt 2)])"
    unfolding build_manifest_digest_def by (subst canonical_json_key_order [where lvs = "[(''a'', JInt 1), (''b'', JInt 2)]"]) simp_all
qed simp_all

text \<open>A source-frame identifier names one frame: two frames with the same identifier have the
  same session, camera stream and sequence number (up to surrounding white space), or exhibit a
  collision of the name-based UUID.\<close>

theorem source_frame_uid_names_frame:
  assumes "build_source_frame_uid s c n = Inr u" "build_source_frame_uid s' c' n' = Inr u"
  shows "strip s = strip s' \<and> strip c = strip c' \<and> n = n'
    \<or> collision (uuid5 SOURCE_FRAME_NAMESPACE) (source_name s c n) (source_name s' c' n')"
proof (cases "source_name s c n = source_name s' c' n'")
  case True
  then show ?thesis using source_frame_uid_determines [OF assms] by (simp only: source_name_def simp_thms)
next
  case False
  have "uuid5 SOURCE_FRAME_NAMESPACE (source_name s c n) = uuid5 SOURCE_FRAME_NAMESPACE (source_name s' c' n')"
    by (rule str_uuid_inj) (use assms in \<open>auto simp: source_frame_name source_name_def\<close>)
  with False show ?thesis by (simp add: collision_def)
qed

theorem source_frame_uid_names_frame_witness:
  "strip '' s'' = strip ''s'' \<and> strip ''c'' = strip ''c'' \<and> (7::int) = 7
   \<or> collision (uuid5 SOURCE_FRAME_NAMESPACE) (source_name '' s'' ''c'' 7) (source_name ''s'' ''c'' 7)"
proof (rule source_frame_uid_names_frame)
  have strips: "strip '' s'' = ''s''" "strip ''s'' = ''s''" "strip ''c'' = ''c''" by code_simp+
  show "build_source_frame_uid ''s'' ''c'' 7
      = Inr (str_uuid (uuid5 SOURCE_FRAME_NAMESPACE (canonical_json (JList [JStr ''s'', JStr ''c'', JInt 7]))))"
    "build_source_frame_uid '' s'' ''c'' 7
      = Inr (str_uuid (uuid5 SOURCE_FRAME_NAMESPACE (canonical_json (JList [JStr ''s'', JStr ''c'', JInt 7]))))"
    unfolding source_frame_name strips by simp_all
qed

text \<open>The capture-session identifier does not depend on the order in which the cameras joined.\<close>

theorem capture_session_id_ignores_order:
  assumes "mset ys = mset xs"
  shows "build_capture_session_id xs = Inr u \<longleftrightarrow> build_capture_session_id ys = Inr u"
  using build_capture_session_id_perm assms by metis

theorem capture_session_id_ignores_order_witness:
  "build_capture_session_id [(''a'', ''s''), (''b'', ''t'')] = Inr ''x'' \<longleftrightarrow> build_capture_session_id [(''b'', ''t''), (''a'', ''s'')] = Inr ''x''"
  by (rule capture_session_id_ignores_order) simp

text \<open>The key a legacy frame is buffered under, when it has neither a source identifier nor a
  row, identifies its camera, time, sequence number and digest, although camera names may contain
  the separator, as long as digests do not.\<close>

theorem legacy_key_identifies_frame:
  assumes "build_buffer_key a = build_buffer_key b"
    and "\<not> truthy (f_source_frame_uid a)" "f_frame_id a = None" "\<not> truthy (f_source_frame_uid b)" "f_frame_id b = None"
    and "CHR '':'' \<notin> set (frame_digest a)" "CHR '':'' \<notin> set (frame_digest b)"
  shows "f_device_id a = f_device_id b \<and> f_timestamp_ms a = f_timestamp_ms b
    \<and> f_sequence a = f_sequence b \<and> frame_digest a = frame_digest b"
proof (rule legacy_text_unique [OF _ assms(6,7)])
  have "build_buffer_key f = (''legacy:'' @ f_device_id f @ '':'' @ py_str_int (f_timestamp_ms f)
          @ '':'' @ sequence_text (f_sequence f)) @ '':'' @ frame_digest f"
    if "\<not> truthy (f_source_frame_uid f)" "f_frame_id f = None" for f :: SyncInputFrame
    using that by (cases "f_source_frame_uid f") (auto simp: build_buffer_key_alt)
  then show "(''legacy:'' @ f_device_id a @ '':'' @ py_str_int (f_timestamp_ms a) @ '':'' @ sequence_text (f_sequence a))
      @ '':'' @ frame_digest a =
    (''legacy:'' @ f_device_id b @ '':'' @ py_str_int (f_timestamp_ms b) @ '':'' @ sequence_text (f_sequence b))
      @ '':'' @ frame_digest b"
    using assms by metis
qed

theorem legacy_key_identifies_frame_witness:
  "let f = (demo_frame ''A:1'' 5)\<lparr> f_source_frame_uid := None \<rparr>; g = f\<lparr> f_content_type := ''image/png'' \<rparr>
   in build_buffer_key f = build_buffer_key g \<and> f_device_id f = f_device_id g \<and> frame_digest f = frame_digest g"
proof -
  let ?f = "(demo_frame ''A:1'' 5)\<lparr> f_source_frame_uid := None \<rparr>"
  let ?g = "?f\<lparr> f_content_type := ''image/png'' \<rparr>"
  have key: "build_buffer_key ?f = build_buffer_key ?g"
    by (simp add: build_buffer_key_def demo_frame_def)
  have "f_device_id ?f = f_device_id ?g \<and> f_timestamp_ms ?f = f_timestamp_ms ?g
    \<and> f_sequence ?f = f_sequence ?g \<and> frame_digest ?f = frame_digest ?g"
    by (rule legacy_key_identifies_frame [OF key]) (simp_all add: demo_frame_def frame_digest_def)
  with key show ?thesis by (simp add: Let_def)
qed

text \<open>The manifest, and so the digest and the identifier, does not depend on the order in which
  the cameras of a selection are listed, when their camera streams differ.\<close>

theorem manifest_ignores_selection_order:
  assumes "mset (dict_values sel) = mset (dict_values sel')" "distinct (map member_order (dict_values sel))"
  shows "build_manifest_payload session sel mode window width anchor key
    = build_manifest_payload session sel' mode window width anchor key"
  by (rule manifest_payload_perm [OF assms])

theorem manifest_ignores_selection_order_witness:
  "build_manifest_payload None demo_selection ''V2'' 50 5 105 None
    = build_manifest_payload None (rev demo_selection) ''V2'' 50 5 105 None"
proof (rule manifest_ignores_selection_order)
  show "mset (dict_values demo_selection) = mset (dict_values (rev demo_selection))"
    by (simp add: demo_selection_def)
  show "distinct (map member_order (dict_values demo_selection))" by code_simp
qed

section \<open>The ledger and live delivery\<close>

text \<open>The ledger only grows: no sequence of operations changes or removes a stored manifest.\<close>

theorem stored_manifests_are_kept:
  assumes "ledger_inv db" "list_all ledger_op_ok ops" "dict_get (db_manifests db) uid = Some mf"
  shows "dict_get (db_manifests (run ledger_step db ops)) uid = Some mf"
  using ledger.run_mono [OF assms(1,2)] assms(3) by (auto simp: stored_manifests_def)

theorem stored_manifests_are_kept_witness:
  "dict_get (db_manifests (run ledger_step demo_ledger [Persist 20 (demo_set ''two'' 2 200)])) ''one''
     = Some (manifest_row 10 (demo_set ''one'' 1 100))"
  by (rule stored_manifests_are_kept [OF demo_ledger_inv]) (simp, code_simp)

text \<open>A frame set is stored as a whole or not at all: unless the call reports that it stored the
  manifest, the tables are what they were.\<close>

theorem persist_is_atomic:
  assumes "ledger_inv db" "persist_frame_set_manifest id t fset db = (r, db')"
  shows "if r = Inr True
    then dict_get (db_manifests db') (str_or (fs_frame_set_uid fset) []) = Some (manifest_row t fset)
      \<and> db_members db' = db_members db @ map (member_row (str_or (fs_frame_set_uid fset) []))
          (sort_key camera_of (dict_values (fs_frames fset)))
      \<and> (\<forall>uid. eligible db' uid \<longleftrightarrow> (if newer_eligible_exists db fset then eligible db uid
           else uid = str_or (fs_frame_set_uid fset) []))
    else db' = db"
proof (cases "r = Inr True")
  case True
  show ?thesis using stored_rows [OF ledger_inv_wf [OF assms(1)] assms(2) [unfolded True]] by (simp add: True)
next
  case False
  then show ?thesis using persist_all_or_nothing [OF ledger_inv_wf [OF assms(1)] assms(2)] by simp
qed

theorem persist_is_atomic_witness:
  "dict_get (db_manifests demo_ledger) ''one'' = Some (manifest_row 10 (demo_set ''one'' 1 100))
   \<and> snd (persist_frame_set_manifest id 20 ((demo_set ''two'' 2 200)\<lparr> fs_manifest_json := None \<rparr>) demo_ledger) = demo_ledger"
proof -
  from persist_is_atomic [OF empty_db_inv demo_persisted]
  have "dict_get (db_manifests demo_ledger) ''one'' = Some (manifest_row 10 (demo_set ''one'' 1 100))"
    by (simp add: demo_set_def)
  moreover have "map_sum (\<lambda>_. ()) id (fst (persist_frame_set_manifest id 20 ((demo_set ''two'' 2 200)\<lparr> fs_manifest_json := None \<rparr>) demo_ledger)) = Inl ()"
    by code_simp
  then have "fst (persist_frame_set_manifest id 20 ((demo_set ''two'' 2 200)\<lparr> fs_manifest_json := None \<rparr>) demo_ledger) \<noteq> Inr True"
    by auto
  ultimately show ?thesis
    using persist_is_atomic [OF demo_ledger_inv, of 20 "(demo_set ''two'' 2 200)\<lparr> fs_manifest_json := None \<rparr>"]
    by (metis prod.collapse)
qed

text \<open>Storing a frame set again, at any later time, reports that it is known and changes nothing.\<close>

theorem persist_is_idempotent:
  assumes "ledger_inv db" "persist_frame_set_manifest id t fset db = (Inr True, db')"
  shows "persist_frame_set_manifest others t' fset db' = (Inr False, db')"
  using stored_rows [OF ledger_inv_wf [OF assms(1)] assms(2)]
  by (intro persist_known [OF _ _ _ _ verify_own_row]) simp_all

theorem persist_is_idempotent_witness:
  "persist_frame_set_manifest id 99 (demo_set ''one'' 1 100) demo_ledger = (Inr False, demo_ledger)"
  by (rule persist_is_idempotent [OF empty_db_inv demo_persisted])

text \<open>Two sessions that store the same frame set at once store it once: the one whose commit
  comes second finds the manifest of the first and reports it as known.\<close>

theorem concurrent_persist_stores_once:
  assumes "ledger_inv db" "fst (persist_frame_set_manifest id t fset db) = Inr True"
    and "persist_frame_set_manifest id t' fset db = (Inr True, db')"
  shows "persist_frame_set_manifest (\<lambda>_. db') t fset db = (Inr False, db')"
  by (rule persist_race [OF ledger_inv_wf [OF assms(1)] assms(2,3)])

theorem concurrent_persist_stores_once_witness:
  "persist_frame_set_manifest (\<lambda>_. demo_ledger) 10 (demo_set ''one'' 1 100) empty_db = (Inr False, demo_ledger)"
  by (rule concurrent_persist_stores_once [OF empty_db_inv demo_persist demo_persisted])

text \<open>The manifest chosen for delivery is deliverable (archived and eligible) and the latest such
  in synchronization time, creation time and identifier; none is chosen only when none is.\<close>

theorem newest_deliverable_is_chosen:
  "case get_newest_eligible_manifest db of
     None \<Rightarrow> deliverable db = []
   | Some mf \<Rightarrow> mf \<in> set (deliverable db) \<and> (\<forall>mf' \<in> set (deliverable db). delivery_order mf' \<le> delivery_order mf)"
  by (rule newest_spec)

theorem newest_deliverable_is_chosen_witness:
  "\<exists>mf. get_newest_eligible_manifest demo_ledger = Some mf \<and> mf \<in> set (deliverable demo_ledger)"
proof -
  have "map_option (\<lambda>mf. ()) (get_newest_eligible_manifest demo_ledger) = Some ()" by code_simp
  then obtain mf where "get_newest_eligible_manifest demo_ledger = Some mf" by auto
  then show ?thesis using newest_deliverable_is_chosen [of demo_ledger] by auto
qed

text \<open>A claim offers the newest deliverable frame set, only when nothing is in flight, and only
  one that is newer than the last one offered or was explicitly freed for a new offer; the claim
  carries the stored manifest and exactly its stored members, in camera order.\<close>

theorem claim_offers_newest:
  assumes "live_inv d" "claim_latest id now credit off d = (Inr (Some claim), d')"
  shows "\<exists>mf t. claim = live_snapshot (lv_ledger d) mf credit t
    \<and> get_newest_eligible_manifest (lv_ledger d) = Some mf \<and> in_flight d = None
    \<and> (case watermark d of None \<Rightarrow> True
       | Some w \<Rightarrow> reoffer d = Some (mf_frame_set_uid mf)
           \<or> (\<exists>wm. dict_get (db_manifests (lv_ledger d)) w = Some wm \<and> newer_than mf wm))
    \<and> in_flight d' = Some (mf_frame_set_uid mf) \<and> watermark d' = Some (mf_frame_set_uid mf)
    \<and> live_state_of d' (mf_frame_set_uid mf) = Some ''OFFERED''"
proof -
  obtain mf t where "claim = live_snapshot (lv_ledger d') mf credit t"
    "get_newest_eligible_manifest (lv_ledger d) = Some mf" "in_flight d = None"
    "case watermark d of None \<Rightarrow> True
     | Some w \<Rightarrow> reoffer d = Some (mf_frame_set_uid mf)
         \<or> (\<exists>wm. dict_get (db_manifests (lv_ledger d)) w = Some wm \<and> newer_than mf wm)"
    "in_flight d' = Some (mf_frame_set_uid mf)" "watermark d' = Some (mf_frame_set_uid mf)"
    "live_state_of d' (mf_frame_set_uid mf) = Some ''OFFERED''" "db_members (lv_ledger d') = db_members (lv_ledger d)"
    by (rule claim_offers [OF assms])
  moreover from this have "live_snapshot (lv_ledger d') mf credit t = live_snapshot (lv_ledger d) mf credit t"
    by (simp add: live_snapshot_def)
  ultimately show ?thesis by (intro exI [of _ mf] exI [of _ t] conjI) simp_all
qed

theorem claim_offers_newest_witness:
  "\<exists>claim d. claim_latest id 20 demo_credit None demo_live = (Inr (Some claim), d) \<and> in_flight d \<noteq> None
    \<and> cl_credit claim = demo_credit"
  by (rule demo_claim) (auto dest!: claim_offers_newest [OF demo_live_inv] simp: live_snapshot_def)

text \<open>In a ledger whose runs are numbered in delivery order, offers never go back in time: a claim
  moves the watermark to a strictly later frame set, or repeats the last one when that was freed.\<close>

theorem offers_never_go_back:
  assumes "live_inv d" "claim_latest id now credit off d = (Inr (Some claim), d')" "runs_ordered (lv_ledger d)"
    and "watermark d = Some w" "dict_get (db_manifests (lv_ledger d)) w = Some wm"
    and "dict_get (db_manifests (lv_ledger d)) (fk_frame_set_uid (cl_key claim)) = Some mf"
  shows "delivery_order wm < delivery_order mf \<or> fk_frame_set_uid (cl_key claim) = w"
proof (rule claim_offers [OF assms(1,2)])
  fix mf' t
  assume c: "claim = live_snapshot (lv_ledger d') mf' credit t"
    "dict_get (db_manifests (lv_ledger d)) (mf_frame_set_uid mf') = Some mf'"
    "case watermark d of None \<Rightarrow> True
     | Some w \<Rightarrow> reoffer d = Some (mf_frame_set_uid mf')
         \<or> (\<exists>wm. dict_get (db_manifests (lv_ledger d)) w = Some wm \<and> newer_than mf' wm)"
  have uid: "fk_frame_set_uid (cl_key claim) = mf_frame_set_uid mf'" by (simp add: c(1) live_snapshot_def key_of_def)
  then have "mf' = mf" using assms(6) c(2) by simp
  moreover have "mf_frame_set_uid mf' = w" if "reoffer d = Some (mf_frame_set_uid mf')"
    using assms(1,4) that by (auto simp: live_inv_def)
  ultimately show ?thesis using c(2,3) assms(4,5) uid newer_than_order [OF assms(3) _ c(2) assms(5)] by auto
qed

theorem offers_never_go_back_witness:
  "\<exists>claim d. claim_latest id 60 demo_credit None demo_next = (Inr (Some claim), d)
     \<and> fk_frame_set_uid (cl_key claim) = ''two''
     \<and> delivery_order (manifest_row 10 (demo_set ''one'' 1 100)) < delivery_order (manifest_row 50 (demo_set ''two'' 2 200))"
proof -
  have "map_sum id (map_option (\<lambda>c. fk_frame_set_uid (cl_key c))) (fst (claim_latest id 60 demo_credit None demo_next))
      = Inr (Some ''two'')" by code_simp
  then obtain claim d where c: "claim_latest id 60 demo_credit None demo_next = (Inr (Some claim), d)"
      "fk_frame_set_uid (cl_key claim) = ''two''"
    by (cases "claim_latest id 60 demo_credit None demo_next"; cases "fst (claim_latest id 60 demo_credit None demo_next)") auto
  have "list_all (\<lambda>a. list_all (\<lambda>b. mf_capture_run_id a = mf_capture_run_id b \<longrightarrow> mf_frame_set_id a < mf_frame_set_id b
      \<longrightarrow> delivery_order a < delivery_order b) (dict_values (db_manifests (lv_ledger demo_next))))
      (dict_values (db_manifests (lv_ledger demo_next)))" by code_simp
  then have o: "runs_ordered (lv_ledger demo_next)" unfolding runs_ordered_def list_all_iff by blast
  have w: "watermark demo_next = Some ''one''" by code_simp
  have k1: "dict_get (db_manifests (lv_ledger demo_next)) ''one'' = Some (manifest_row 10 (demo_set ''one'' 1 100))" by code_simp
  have k2: "dict_get (db_manifests (lv_ledger demo_next)) (fk_frame_set_uid (cl_key claim))
      = Some (manifest_row 50 (demo_set ''two'' 2 200))" unfolding c(2) by code_simp
  show ?thesis using offers_never_go_back [OF demo_next_inv c(1) o w k1 k2] c by auto
qed

text \<open>Clients that race for the next frame set never both get one: whatever is committed between
  a client's reads and its conditional writes, a claim comes back empty if another one is in flight.\<close>

theorem racing_claim_is_refused:
  assumes "in_flight (others d) \<noteq> None"
  shows "\<nexists>claim. fst (claim_latest others now credit off d) = Inr (Some claim)"
  using assms by (rule claim_race [where others = others and d = d])

theorem racing_claim_is_refused_witness:
  "\<nexists>claim. fst (claim_latest (\<lambda>d. snd (claim_latest id 20 demo_credit None d)) 21 demo_credit None demo_live) = Inr (Some claim)"
  by (rule racing_claim_is_refused) code_simp

text \<open>Reconciliation leaves nothing hanging: when the processor's complete answer does not mention the frame
  set in flight, it is freed, either to be offered again or, when a newer one is waiting, superseded.\<close>

theorem reconciliation_frees_the_unseen:
  assumes "live_inv (rl_db c)" "apply_reconciliation now statuses True c = (Inr b, c')"
    and "in_flight (rl_db c) = Some uid" "uid \<notin> set (map (fk_frame_set_uid \<circ> fx_key) statuses)"
  shows "b \<and> in_flight (rl_db c') = None
    \<and> (live_state_of (rl_db c') uid = Some ''ELIGIBLE'' \<and> reoffer (rl_db c') = Some uid
       \<or> live_state_of (rl_db c') uid = Some ''SUPERSEDED_BEFORE_OFFER'' \<and> reoffer (rl_db c') = None)"
  using assms by (rule reconciled)

theorem reconciliation_frees_the_unseen_witness:
  "\<exists>c. apply_reconciliation 40 [] True talk_offered = (Inr True, c) \<and> in_flight (rl_db c) = None"
proof -
  have inv: "live_inv (rl_db talk_offered)"
    using live_step_inv [OF talk_start(1), of "Claim 30 demo_credit (Some 30)"] by (simp add: talk_offered_def)
  have flight: "in_flight (rl_db talk_offered) = Some ''one''" by code_simp
  have "fst (apply_reconciliation 40 [] True talk_offered) = Inr True" by code_simp
  then obtain c where c: "apply_reconciliation 40 [] True talk_offered = (Inr True, c)" by (metis prod.collapse)
  from reconciliation_frees_the_unseen [OF inv c flight] c show ?thesis by simp
qed

section \<open>Credentials and the relay\<close>

text \<open>A processing job is bound to a capture run once: after a successful bind it is read back, and
  binding another job to the same run is refused without a change.\<close>

theorem processing_job_is_bound_once:
  assumes "bind_processing_job now capture job u d = (Inr (), d')" "job' \<noteq> []" "job' \<noteq> job"
  shows "processing_job_for d' capture = Some job
    \<and> bind_processing_job now' capture job' u' d'
        = (Inl (RuntimeError ''processing job changed within one capture run''), d')"
proof -
  have "processing_job_for d' capture = Some job" using bind_then_read [of now capture job u d] assms(1) by simp
  moreover have "capture \<noteq> []" using assms(1) by (auto simp: bind_processing_job_def)
  ultimately show ?thesis using bind_conflict [of d' capture job job'] assms(2,3) by simp
qed

theorem processing_job_is_bound_once_witness:
  "processing_job_for (snd (bind_processing_job 5 ''run'' ''job'' None demo_live)) ''run'' = Some ''job''"
proof -
  have "fst (bind_processing_job 5 ''run'' ''job'' None demo_live) = Inr ()" by code_simp
  then have "bind_processing_job 5 ''run'' ''job'' None demo_live = (Inr (), snd (bind_processing_job 5 ''run'' ''job'' None demo_live))"
    by (metis prod.collapse)
  from processing_job_is_bound_once [OF this, of "''other''"] show ?thesis by simp
qed

text \<open>A session or credential passes for active only on a confirmation by the Main service for that
  very session or credential, given within the cache's lifetime before the check; the credential
  cache never holds more than 1024 entries.\<close>

theorem active_status_was_confirmed:
  assumes "new_session_status_cache url ttl timeout = Inr c" "new_credential_status_cache url' ttl' timeout' = Inr c'"
  shows "(fst (session_assert_active now job answer (run (\<lambda>c (t, k, a). snd (session_assert_active t k a c)) c calls)) = Inr () \<longrightarrow>
      (\<exists>t p. (t, job, Some p) \<in> set (calls @ [(now, job, answer)]) \<and> session_confirmed job p \<and> now < t + ttl))
    \<and> (fst (credential_assert_active now key answer (run (\<lambda>c (t, k, a). snd (credential_assert_active t k a c)) c' calls')) = Inr () \<longrightarrow>
      (\<exists>t p. (t, key, Some p) \<in> set (calls' @ [(now, key, answer)]) \<and> credential_confirmed key p \<and> now < t + ttl'))
    \<and> length (st_active_until (run (\<lambda>c (t, k, a). snd (credential_assert_active t k a c)) c' calls')) \<le> 1024"
proof -
  have c: "st_active_until c = []" "0 < st_ttl c" "st_ttl c = ttl" "st_active_until c' = []" "0 < st_ttl c'" "st_ttl c' = ttl'"
    using assms by (auto simp: new_session_status_cache_def new_credential_status_cache_def split: if_splits)
  have "length (st_active_until (run (\<lambda>c (t, k, a). snd (credential_assert_active t k a c)) c' calls')) \<le> 1024"
    by (rule credential_bound.run_inv) (simp_all add: c list_all_iff)
  then show ?thesis
    using session_status.accepted_backed [OF c(1,2), of now job answer calls]
      credential_status.accepted_backed [OF c(4,5), of now key answer calls'] c(3,6) by blast
qed

theorem active_status_was_confirmed_witness:
  "\<exists>t p. (t, ''job'', Some p) \<in> set [(0 :: int, ''job'', ai_status demo_auth_inputs ''job''), (1, ''job'', None)] \<and> session_confirmed ''job'' p \<and> 1 < t + 2"
proof -
  have "new_session_status_cache ''/{processing_job_id}'' 2 1 = Inr \<lparr> st_ttl = 2, st_active_until = [] \<rparr>"
    "new_credential_status_cache ''/{credential_id}'' 2 1 = Inr \<lparr> st_ttl = 2, st_active_until = [] \<rparr>" by code_simp+
  note c = active_status_was_confirmed [OF this, of 1 "''job''" None "[(0, ''job'', ai_status demo_auth_inputs ''job'')]"]
  have "fst (session_assert_active 1 ''job'' None (run (\<lambda>c (t, k, a). snd (session_assert_active t k a c))
      \<lparr> st_ttl = 2, st_active_until = [] \<rparr> [(0, ''job'', ai_status demo_auth_inputs ''job'')])) = Inr ()" by code_simp
  with c show ?thesis by simp
qed

text \<open>Frame sets are delivered under the credential they were accepted under: the credential found for a
  claim was registered while it was valid, is still valid, and its scope is the claim's own
  authorization, camera for camera.\<close>

theorem claim_gets_its_credential:
  assumes "resolve_for_claim now claim (run session_step [] ops) = (Inr credential, creds)"
  shows "(\<exists>t. SRegister t (ac_token credential) (ac_scope credential) \<in> set ops \<and> t < ss_expires_at (ac_scope credential))
    \<and> now < ss_expires_at (ac_scope credential) \<and> claim_matches_scope claim (ac_scope credential)"
proof -
  have c: "dict_get (run session_step [] ops) (str_or (cl_processing_job_id claim) []) = Some credential"
      "now < ss_expires_at (ac_scope credential)" "claim_matches_scope claim (ac_scope credential)"
    using assms by (auto simp: resolve_for_claim_def Let_def split: option.splits if_splits)
  obtain op where "op \<in> set ops" "session_registers op = Some (ac_token credential, ac_scope credential)"
    using sessions.found_registered [OF c(1)] by blast
  with c show ?thesis by (cases op) (auto split: if_splits)
qed

theorem claim_gets_its_credential_witness:
  "\<exists>claim d credential creds. claim_latest id 20 demo_credit None demo_live = (Inr (Some claim), d)
    \<and> resolve_for_claim 50 claim (run session_step [] [SRegister 10 ''token'' demo_session_scope]) = (Inr credential, creds)
    \<and> claim_matches_scope claim (ac_scope credential)"
proof (rule demo_claim)
  fix claim d
  assume c: "claim_latest id 20 demo_credit None demo_live = (Inr (Some claim), d)"
  have "map_sum id (map_option (\<lambda>c. cl_processing_job_id c = Some ''job'' \<and> claim_matches_scope c demo_session_scope))
      (fst (claim_latest id 20 demo_credit None demo_live)) = Inr (Some True)" by code_simp
  then have m: "cl_processing_job_id claim = Some ''job''" "claim_matches_scope claim demo_session_scope" by (simp_all add: c)
  let ?c = "\<lparr> ac_token = ''token'', ac_scope = demo_session_scope \<rparr>"
  have eq: "run session_step [] [SRegister 10 ''token'' demo_session_scope] = [(''job'', ?c)]"
    by (simp add: register_session_def demo_session_scope_def Let_def)
  have "ss_expires_at demo_session_scope = 100" by (simp add: demo_session_scope_def)
  then have r: "resolve_for_claim 50 claim (run session_step [] [SRegister 10 ''token'' demo_session_scope]) = (Inr ?c, [(''job'', ?c)])"
    unfolding eq using m by (simp add: resolve_for_claim_def)
  show ?thesis using c r claim_gets_its_credential [OF r] by blast
qed

text \<open>A UUID claim is accepted exactly when it is written in canonical form, in either letter case, and
  then stands for its lowercase text; every other spelling \<open>uuid.UUID\<close> would read is refused.\<close>

theorem uuid_claims_are_canonical:
  "canonical_uuid v name = Inr w \<longleftrightarrow> (\<exists>s u. v = JStr s \<and> w = lower s \<and> length u = 16 \<and> w = str_uuid u)"
proof (cases v)
  case (JStr s)
  then show ?thesis by (auto simp: canonical_uuid_iff)
qed (simp_all add: canonical_uuid_def)

text \<open>Reconnecting repeats the claim: after a claim, the hello snapshot is the claimed frame set,
  with the same members, credit and offer time.\<close>

theorem hello_repeats_the_claim:
  assumes "live_inv d" "claim_latest id now credit off d = (Inr (Some claim), d')"
  shows "snapshot_for_hello d' = Inr (Some claim)"
  by (rule hello_repeats_claim [OF assms])

theorem hello_repeats_the_claim_witness:
  "\<exists>claim d. claim_latest id 20 demo_credit None demo_live = (Inr (Some claim), d) \<and> snapshot_for_hello d = Inr (Some claim)"
  by (rule demo_claim) (blast dest: hello_repeats_the_claim [OF demo_live_inv])

text \<open>Each call of \<open>try_match\<close> that does not raise is counted once: as matched when it emits, and
  as missed or ignored when it does not.\<close>

theorem every_call_is_counted:
  assumes "manager_inv m" "try_match t u (mt, m) trigger = (Inr r, mt1, m1)"
  shows "mt_matched_count mt1 = mt_matched_count mt + (if r = None then 0 else 1)
    \<and> mt_missed_count mt1 + mt_ignored_count mt1
       = mt_missed_count mt + mt_ignored_count mt + (if r = None then 1 else 0)"
  using try_match_counts [OF assms] by blast

theorem every_call_is_counted_witness:
  "\<exists>fset mt1 m1. try_match 1000 ''fresh'' (demo_matcher, demo_manager) (demo_stored ''B'' 105) = (Inr (Some fset), mt1, m1)
    \<and> mt_matched_count mt1 = mt_matched_count demo_matcher + 1"
  by (rule demo_match) (auto dest: every_call_is_counted [OF demo_manager_inv])

end
