(* ===== verification/Spec2Isabelle.thy ===== *)
theory Spec2Isabelle
  imports Examples FurtherProperties
begin

text \<open>
  A development for the GC image stream service (Python, under src/app). Cameras deliver JPEG frames; the service buffers them per camera, matches one frame per
  camera into a frame set whose timestamps lie in a window, stores the frame set with its manifest,
  and offers the newest stored frame set to a processing service over a live relay. The processing
  service sends alerts back, and a Main service issues the tokens under which all of this happens.

  The parts of the program and the theories that model them:

  \<^item> Prelude: ordered dictionaries as association lists (\<open>dict_get\<close>, \<open>dict_set\<close>, ...), the error
    type (one constructor per Python exception the code raises or lets through), the result type
    \<open>error + 'a\<close>, extrema and stable sorting of lists, and \<open>monotone_machine\<close>, the interface of a
    component whose operations keep an invariant and only move forward in a preorder.
  \<^item> Hashing: SHA-256, SHA-1 and UUIDv5 of the Python standard library on 32-bit words.
  \<^item> Json and Identity (services/identity.py): JSON values, canonical JSON text
    (equal for two values exactly when they are the same but for the order of their keys), and the identifiers of sessions, frames, manifests and frame sets.
  \<^item> SyncModels (services/sync/models.py): the frame and frame-set records; the fields of
    \<open>SyncInputFrame\<close> and \<open>StoredSyncFrame\<close> start with f_, those of \<open>SynchronizedFrameSet\<close> with fs_.
  \<^item> FrameBuffer (services/sync/frame_buffer.py): the per-camera ring (cb_), the buffer manager
    (bm_) with its key index and counters, and every operation of both classes.
  \<^item> MinSpan (services/sync/matcher.py, \<open>_select_min_span_candidate\<close>): the heap search for the
    selection of least span, with its termination and optimality proof.
  \<^item> Matcher (the rest of matcher.py): resolving the common scope of a selection, building the
    manifest, rotating runs, emitting frame sets, dropping stale frames, late archive results.
  \<^item> SyncService (services/sync/service.py): configuration, the frame handler and the status of
    the service; \<open>sync_trace\<close> is the relation of its reachable states and emitted frame sets.
  \<^item> ManifestStore (models/frame_set_manifest.py, services/sync/manifest_store.py): the tables with
    their unique keys and checks, and the transaction that stores a frame set.
  \<^item> LatestLive (services/relay_v2/latest_live.py): the client state row and every operation of the
    store of live offers: claims, status reports, releases, reconciliation, retirement.
  \<^item> JsonParse: reading JSON text, inverse to the writer of Json on the values the manifests use.
  \<^item> SessionIdentity (services/session_identity.py): the scopes of session and camera tokens, the stores of
    active credentials, the caches of session status and signing keys, and the verifiers; locales
    \<open>credential_store\<close> and the interpretations on both stores.
  \<^item> RelayProtocol (services/relay_v2/protocol.py, infrastructure/grpc/relay_v2_contract.py): the messages
    of the live relay, the checks of a credit, and the frame set a credit is answered with.
  \<^item> RelayCredentials (services/relay_credentials.py): the access tokens and the relay credentials of claims.
  \<^item> RelayClient (infrastructure/grpc/live_relay_v2_client.py): a connection to the processor as the list of
    events it sees, the worker that reconnects, and its waits. \<open>store_steps\<close> says that the client
    changes the database by operations of LatestLive only.
  \<^item> AlertReceiver (services/alerts/relay_v2_receiver.py): the tables of received alerts with their
    keys and checks, and the transaction of one delivery.
  \<^item> IngestGate and IngestServer (infrastructure/grpc/grpc_ingest_server.py): the gate of the ingest
    service, one operation per locked section, and the threads of its streams, one step per operation; \<open>server_step\<close>
    interleaves them.
  \<^item> FrameArchive (services/frames/service.py, models/frame.py, services/ingest/archive.py): the table of frames
    with its unique constraints, the writing of a file step by step, and the archiving of a frame; locale
    \<open>archive_writer\<close>, interpreted on the code's writer.
  \<^item> ProcessingRelay (infrastructure/grpc/processing_relay_client.py): the two relays to the processing service,
    their queue, their threads and the request iterators of their calls as events.
  \<^item> StreamState (services/stream/state.py) and Monitoring (services/monitoring/service.py): the running state of
    each camera, and what an operator sees of it.
  \<^item> IngestPipeline (services/ingest/ingest_pipeline.py, core/relay.py): a frame's way through synchronizer, relays,
    archive, stream state and ledger, with what other threads do between its steps.
  \<^item> Reconciliation (services/ingest/reconciliation.py): the check of the archive when the program starts.
  \<^item> AlertForwarding (services/alerts/processing_alerts.py, services/alerts/phone_delivery.py): the store of
    recent alerts and their delivery to the phones that listen.
  \<^item> StorageReplay (scripts/storage_sync_replay): the replay of a recorded session by the live matching or by the
    anchor matcher.
  \<^item> FurtherProperties: more of what holds of the components above.
  \<^item> Examples: the concrete states at which the witnesses below are evaluated.

  What the groups of properties show. The search is exact against the specification \<open>selects\<close> and
  \<open>selection_span\<close>; a frame set is emitted exactly when a selection fits the window and its scope resolves;
  what is emitted is minimal, of one scope, named by its content, accepted by the store, and
  numbered without repetition in its run. Then the buffer manager's invariant and the order of its rings; what
  identifiers identify, up to a collision of the hash that the conclusion names; the ledger's invariant,
  atomicity, conflicts and races of stores; at most one frame set is in flight, settled
  frame sets stay settled, offers never go back. Verified tokens are what their issuer signed and active ones were confirmed; what is
  sent is admissible under the credit, and the client keeps the store's contract over any course of
  its connections. Alerts take effect once and in order. The gate's books are exact under any
  interleaving, frames pass only an open gate, and the gate opens when its devices are there and stays open until the collection
  is stopped, unless there are more devices than threads. The call that ingests a frame keeps the live path free of the archive, gives the relays
  one copy and reports as durable only what is stored; files and rows of the archive agree, after a frame as after the
  check at the start, except where a refused frame has overwritten a file or a frame without identity has taken over a
  degraded row. The relays keep the order, the
  running state of a camera is the summary of its frames, and the anchor replay uses no frame twice.

  How the model corresponds to the code.

  \<^item> Classes with mutable fields are records, methods are functions from the state to the result and
    the new state. A raised exception is \<open>Inl\<close>; the state beside it is what the code has
    left behind at that point.
  \<^item> Text is a list of ASCII characters; Python integers are \<open>int\<close>, and
    JSON floats are carried as the text \<open>repr\<close> gives.
  \<^item> The clock (\<open>time.time\<close>), \<open>uuid.uuid4\<close> and the identifiers the database assigns are arguments.
  \<^item> The locks of the service make each method one step; the heap of \<open>heapq\<close> is a list whose least
    entry is taken (entries are compared as Python compares tuples).
  \<^item> A database session is a function of the tables: the changes of a transaction are collected and
    committed at once, a failed check or an exception leaves the tables as they were. What other sessions commit
    between the reads and the writes of a transaction is the argument \<open>others\<close>; \<open>id\<close> is a
    transaction that runs alone.
  \<^item> No fuel is used: the search loop is a \<open>function\<close> with a measure on the remaining frames, and
    every other loop is structural. A loop that waits for others (a connection, the worker, a stream) runs over the list
    of what it sees, so that every property holds for each finite run.
  \<^item> PyJWT, the HTTP answers of the Main service, protobuf serialization, the reading of floats, gRPC, and for the relay
    the files of the archive are parameters (\<open>JwtLibrary\<close>, \<open>AuthInputs\<close>, \<open>FloatLibrary\<close>, \<open>RelayEnv\<close>,
    \<open>IngestEnv\<close>). Waits in seconds are rationals instead of floats, with the overflow of the conversion kept.

  Not modelled: the HTTP routes other than the one that receives alerts, the camera adapters that pull frames over
  HTTP and start sessions on cameras, the start and stop of the process, schema migrations, the experiment recorder
  and the command-line scripts around the replay (input and output around the parts above); of the monitoring views those
  that copy fields, and of the replay tool the reading of folders and the statistics of its summaries.
\<close>

section \<open>Matching\<close>

text \<open>C1: The minimum-span search is exact. When every expected camera has a buffered frame it
  returns the selection of one frame per camera whose time span is smallest among all selections,
  if that span fits the window, and nothing exactly when no selection fits; otherwise it returns
  the expected cameras that have no frame.\<close>

theorem min_span_search_exact:
  "case select_min_span_candidate m expected window of
     Inl e \<Rightarrow> False
   | Inr (Some (sel, width), missing) \<Rightarrow>
       missing = [] \<and> selects m expected sel \<and> selection_span sel width \<and> width \<le> window
       \<and> (\<forall>sel' s. selects m expected sel' \<and> selection_span sel' s \<longrightarrow> width \<le> s)
   | Inr (None, missing) \<Rightarrow>
       missing = filter (\<lambda>d. available_frames m d {} = []) expected
       \<and> (missing = [] \<longrightarrow> (\<forall>sel' s. selects m expected sel' \<and> selection_span sel' s \<longrightarrow> window < s))"
  by (rule select_min_span_candidate_correct)

theorem min_span_search_exact_witness:
  "select_min_span_candidate demo_manager [''A'', ''B''] 50 = Inr (Some (demo_selection, 5), [])
   \<and> selects demo_manager [''A'', ''B''] demo_selection \<and> selection_span demo_selection 5"
  using min_span_search_exact [of demo_manager "[''A'', ''B'']" 50] by (simp add: demo_select)

text \<open>C2: Every frame set \<open>try_match\<close> emits has one buffered frame of each expected camera and no
  other camera, its span is the distance of its extreme timestamps and fits the window, no
  selection of the buffered frames has a smaller span, and its anchor is its latest timestamp.\<close>

theorem emitted_frame_set_is_minimal:
  assumes "manager_inv m" "try_match t u (mt, m) trigger = (Inr (Some fset), mt1, m1)"
  shows "set (dict_keys (fs_frames fset)) = set (mt_expected_cameras mt)
    \<and> (\<forall>d f. dict_get (fs_frames fset) d = Some f \<longrightarrow> f \<in> set (available_frames m d {}))
    \<and> fs_span_ms fset = Some (list_max (map f_timestamp_ms (dict_values (fs_frames fset)))
                            - list_min (map f_timestamp_ms (dict_values (fs_frames fset))))
    \<and> fs_anchor_timestamp_ms fset = list_max (map f_timestamp_ms (dict_values (fs_frames fset)))
    \<and> (\<forall>width. fs_span_ms fset = Some width \<longrightarrow> width \<le> mt_window_ms mt
         \<and> (\<forall>sel s. selects m (mt_expected_cameras mt) sel \<and> selection_span sel s \<longrightarrow> width \<le> s))"
proof -
  obtain ident width n mc mt' where e: "selects m (mt_expected_cameras mt) (fs_frames fset)"
      "width \<le> mt_window_ms mt" "selection_span (fs_frames fset) width"
      "\<forall>sel s. selects m (mt_expected_cameras mt) sel \<and> selection_span sel s \<longrightarrow> width \<le> s"
      "fset = emitted mt' ident (fs_frames fset) width"
    by (rule try_match_SomeE [OF assms]) blast
  have "fs_span_ms fset = Some width" by (subst e(5)) simp
  then show ?thesis using e(1,2,4) emitted_span [OF assms] unfolding selects_def by auto
qed

theorem emitted_frame_set_is_minimal_witness:
  "\<exists>fset mt1 m1. try_match 1000 ''fresh'' (demo_matcher, demo_manager) (demo_stored ''B'' 105) = (Inr (Some fset), mt1, m1)
    \<and> set (dict_keys (fs_frames fset)) = {''A'', ''B''} \<and> fs_anchor_timestamp_ms fset = 105"
proof (rule demo_match)
  fix fset mt1 m1
  assume m: "try_match 1000 ''fresh'' (demo_matcher, demo_manager) (demo_stored ''B'' 105) = (Inr (Some fset), mt1, m1)"
    and f: "fs_frames fset = demo_selection"
  have "fs_anchor_timestamp_ms fset = list_max (map f_timestamp_ms (dict_values demo_selection))"
    "set (dict_keys (fs_frames fset)) = {''A'', ''B''}"
    using emitted_frame_set_is_minimal [OF demo_manager_inv m] by (simp_all add: f)
  moreover have "list_max (map f_timestamp_ms (dict_values demo_selection)) = 105" by code_simp
  ultimately show ?thesis using m by metis
qed

text \<open>C3: The matcher does not miss. If the trigger's camera is expected and some selection of the
  buffered frames fits the window, \<open>try_match\<close> settles on a selection that is no wider and emits
  it; the only other outcomes are a counted miss with the reason of a scope conflict among the
  chosen members, or the exception their identity raises, which leaves the state unchanged.\<close>

theorem window_selection_is_emitted:
  assumes "manager_inv m" "f_device_id trigger \<in> set (mt_expected_cameras mt)"
    and "selects m (mt_expected_cameras mt) sel" "selection_span sel s" "s \<le> mt_window_ms mt"
  shows "\<exists>chosen width. selects m (mt_expected_cameras mt) chosen \<and> selection_span chosen width \<and> width \<le> s
    \<and> (case resolve_capture_identity chosen of
         Inr ident \<Rightarrow> (\<exists>fset mt1 m1. try_match t u (mt, m) trigger = (Inr (Some fset), mt1, m1)
             \<and> fs_frames fset = chosen \<and> fs_identity_mode fset = fst ident \<and> fs_span_ms fset = Some width)
       | Inl (FrameScopeConflict reason) \<Rightarrow> (\<exists>mt1 m1. try_match t u (mt, m) trigger = (Inr None, mt1, m1)
             \<and> mt_last_reason mt1 = Some reason \<and> mt_missed_count mt1 = mt_missed_count mt + 1)
       | Inl e \<Rightarrow> try_match t u (mt, m) trigger = (Inl e, mt, m))"
  by (rule try_match_commits [OF assms, of t u]) blast

theorem window_selection_is_emitted_witness:
  "\<exists>chosen width. selects demo_manager [''A'', ''B''] chosen \<and> selection_span chosen width \<and> width \<le> 5"
  using window_selection_is_emitted [OF demo_manager_inv, of "demo_stored ''B'' 105" demo_matcher demo_selection 5]
    demo_selects by (auto simp: demo_stored_def demo_frame_def)

text \<open>C4: No frame is used twice and none is overtaken: when a frame set is emitted, every frame a
  member's camera still has buffered was captured strictly after that member.\<close>

theorem emitted_members_are_consumed:
  assumes "manager_inv m" "try_match t u (mt, m) trigger = (Inr (Some fset), mt1, m1)"
    and "dict_get (fs_frames fset) d = Some c" "dict_get (bm_buffers m1) d = Some b" "f \<in> set (cb_frames b)"
  shows "f_timestamp_ms c < f_timestamp_ms f"
  by (rule emitted_consumed [OF assms])

theorem emitted_members_are_consumed_witness:
  "\<exists>fset mt1 m1 b. try_match 1000 ''fresh'' (demo_matcher, demo_manager) (demo_stored ''B'' 105) = (Inr (Some fset), mt1, m1)
    \<and> dict_get (bm_buffers m1) ''A'' = Some b \<and> map f_timestamp_ms (cb_frames b) = [120]
    \<and> f_timestamp_ms (demo_stored ''A'' 100) < f_timestamp_ms (hd (cb_frames b))"
proof (rule demo_match)
  fix fset mt1 m1
  assume m: "try_match 1000 ''fresh'' (demo_matcher, demo_manager) (demo_stored ''B'' 105) = (Inr (Some fset), mt1, m1)"
    and f: "fs_frames fset = demo_selection"
    and left: "map_option (\<lambda>b. map f_timestamp_ms (cb_frames b)) (dict_get (bm_buffers m1) ''A'') = Some [120]"
  from left obtain b where b: "dict_get (bm_buffers m1) ''A'' = Some b" "map f_timestamp_ms (cb_frames b) = [120]" by auto
  then have "hd (cb_frames b) \<in> set (cb_frames b)" by (cases "cb_frames b") auto
  then have "f_timestamp_ms (demo_stored ''A'' 100) < f_timestamp_ms (hd (cb_frames b))"
    using emitted_members_are_consumed [OF demo_manager_inv m _ b(1)] by (simp add: f demo_selection_def)
  with m b show ?thesis by (intro exI conjI)
qed

text \<open>C5: A V2 frame set never mixes authorization scopes. Either no member carries any scope and
  the set has none, or every member carries the complete scope, all agree with the set on tenant,
  site, capture session, processing job and profile, and their authorized cameras differ.\<close>

theorem emitted_scope_is_uniform:
  assumes "manager_inv m" "try_match t u (mt, m) trigger = (Inr (Some fset), mt1, m1)"
    and "fs_identity_mode fset = IDENTITY_MODE_V2"
  shows "(\<forall>f \<in> set (dict_values (fs_frames fset)). identity_complete f) \<and>
    (if fs_tenant_id fset = None
     then (\<forall>f \<in> set (dict_values (fs_frames fset)). \<not> list_ex truthy (scope_values f))
     else distinct (map f_authorized_camera_id (dict_values (fs_frames fset)))
        \<and> (\<forall>f \<in> set (dict_values (fs_frames fset)). list_all truthy (scope_values f)
             \<and> f_tenant_id f = fs_tenant_id fset \<and> f_site_id f = fs_site_id fset
             \<and> f_capture_session_id f = fs_capture_session_id fset
             \<and> f_processing_job_id f = fs_processing_job_id fset
             \<and> f_profile_digest f = fs_profile_digest fset))"
  by (rule emitted_scope [OF assms])

theorem emitted_scope_is_uniform_witness:
  "\<exists>fset mt1 m1. try_match 1000 ''fresh'' (demo_matcher, demo_manager) (demo_stored ''B'' 105) = (Inr (Some fset), mt1, m1)
    \<and> fs_tenant_id fset = Some ''tenant'' \<and> fs_processing_job_id fset = Some ''job''"
proof (rule demo_match)
  fix fset mt1 m1
  assume m: "try_match 1000 ''fresh'' (demo_matcher, demo_manager) (demo_stored ''B'' 105) = (Inr (Some fset), mt1, m1)"
    and f: "fs_frames fset = demo_selection" "fs_identity_mode fset = IDENTITY_MODE_V2"
  have member: "demo_stored ''A'' 100 \<in> set (dict_values (fs_frames fset))" by (simp add: f demo_selection_def)
  have scoped: "list_ex truthy (scope_values (demo_stored ''A'' 100))"
    "f_tenant_id (demo_stored ''A'' 100) = Some ''tenant''" "f_processing_job_id (demo_stored ''A'' 100) = Some ''job''"
    by code_simp+
  show ?thesis
    using emitted_scope_is_uniform [OF demo_manager_inv m f(2)] member scoped m by (metis (no_types, lifting))
qed

text \<open>C6: What the matcher emits the store accepts. A V2 frame set whose members have since been
  archived, each with a path, passes the store's validation.\<close>

theorem emitted_frame_set_validates:
  assumes "manager_inv m" "try_match t u (mt, m) trigger = (Inr (Some fset), mt1, m1)"
    and "fs_identity_mode fset = IDENTITY_MODE_V2" "mt_capture_run_id mt \<noteq> []" "u \<noteq> []"
    and "\<And>d. path d \<noteq> []"
  shows "validate_v2_frame_set (fset\<lparr> fs_frames := archive_members ids path (fs_frames fset) \<rparr>) = Inr ()"
  by (rule emitted_accepted [OF assms])

theorem emitted_frame_set_validates_witness:
  "\<exists>fset mt1 m1. try_match 1000 ''fresh'' (demo_matcher, demo_manager) (demo_stored ''B'' 105) = (Inr (Some fset), mt1, m1)
    \<and> validate_v2_frame_set (fset\<lparr> fs_frames := archive_members (\<lambda>_. Some 1) (\<lambda>d. ''/'' @ d) (fs_frames fset) \<rparr>) = Inr ()"
proof (rule demo_match)
  fix fset mt1 m1
  assume m: "try_match 1000 ''fresh'' (demo_matcher, demo_manager) (demo_stored ''B'' 105) = (Inr (Some fset), mt1, m1)"
    and f: "fs_identity_mode fset = IDENTITY_MODE_V2"
  show ?thesis using m emitted_frame_set_validates [OF demo_manager_inv m f, of "\<lambda>d. ''/'' @ d" "\<lambda>_. Some 1"] by simp
qed

text \<open>C7: Within a run of the service no two frame sets share a number: over any sequence of
  configurations, frames and late archive results, with fresh random identifiers, the frame sets of
  one capture run carry strictly increasing numbers and strictly increasing synchronization times.\<close>

theorem frame_set_numbers_are_unique:
  assumes "sync_trace used s out"
  shows "sorted_wrt later_set out \<and> distinct (map set_key out)"
proof -
  have "sorted_wrt later_set out" using sync_trace_inv [OF assms] by (simp add: service_inv_def)
  moreover have "distinct (map set_key out)"
    by (rule sorted_wrt_later_distinct) (rule calculation)
  ultimately show ?thesis ..
qed

theorem frame_set_numbers_are_unique_witness:
  "\<exists>s fset. sync_trace {''fresh'', ''run''} s [fset] \<and> fs_frame_set_id fset = 1
    \<and> distinct (map set_key [fset])"
proof (rule demo_emits)
  fix fset s'
  assume h: "handle_frame 1000 ''fresh'' demo_service (demo_frame ''A'' 100) = (Inr (Some fset), s')"
    and n: "fs_frame_set_id fset = 1"
  have "sync_trace (insert ''run'' {}) demo_service []"
    unfolding demo_service_def by (intro sync_trace.configured sync_trace.start) simp
  from sync_trace.handled [OF this _ h, simplified] have "sync_trace {''fresh'', ''run''} s' [fset]" by simp
  with n frame_set_numbers_are_unique [OF this] show ?thesis by blast
qed

section \<open>Buffers\<close>

text \<open>C8: With V2 frames only, each camera's ring stays ordered: times never decrease, sequence
  numbers strictly increase, all frames come from the camera's current source, and the index holds
  exactly the buffered version of every buffered frame.\<close>

theorem v2_rings_stay_ordered:
  assumes "new_buffer_manager n = Inr m" "list_all v2_op ops"
    and "dict_get (bm_buffers (run buffer_step m ops)) d = Some b"
  shows "sorted_wrt frame_before (cb_frames b)
    \<and> (\<forall>f \<in> set (cb_frames b). cb_source_identity b = Some (frame_identity f)
         \<and> dict_get (bm_frames_by_key (run buffer_step m ops)) (f_buffer_key f) = Some f)"
proof -
  have "ordered_inv m" using assms(1) new_buffer_manager_inv [OF assms(1)]
    by (auto simp: ordered_inv_def new_buffer_manager_def split: if_splits)
  from bufo.run_inv [OF this assms(2)] assms(3) show ?thesis
    by (auto simp: ordered_inv_def camera_ordered_def)
qed

theorem v2_rings_stay_ordered_witness:
  "\<exists>b. dict_get (bm_buffers (run buffer_step default_buffer_manager [OpAdd (demo_frame ''A'' 1), OpAdd (demo_frame ''A'' 2)])) ''A'' = Some b
    \<and> map f_timestamp_ms (cb_frames b) = [1, 2] \<and> sorted_wrt frame_before (cb_frames b)"
proof -
  let ?ops = "[OpAdd (demo_frame ''A'' 1), OpAdd (demo_frame ''A'' 2)]"
  have "map_option (\<lambda>b. map f_timestamp_ms (cb_frames b)) (dict_get (bm_buffers (run buffer_step default_buffer_manager ?ops)) ''A'') = Some [1, 2]"
    by code_simp
  then obtain b where b: "dict_get (bm_buffers (run buffer_step default_buffer_manager ?ops)) ''A'' = Some b"
    "map f_timestamp_ms (cb_frames b) = [1, 2]" by auto
  have "new_buffer_manager 120 = Inr default_buffer_manager" by (simp add: new_buffer_manager_def default_buffer_manager_def)
  then have "sorted_wrt frame_before (cb_frames b)"
    by (rule v2_rings_stay_ordered [OF _ _ b(1), THEN conjunct1]) code_simp
  with b show ?thesis by (intro exI conjI)
qed

section \<open>Identifiers\<close>

text \<open>C9: Canonical JSON names a value: for values without floats whose objects have distinct keys, two
  values have the same canonical text exactly when they are the same value up to the order in which
  objects list their keys, at every depth - so neither the order a dictionary was filled in nor the
  content of a string can change or confuse a digest - and the text has no blank outside its string
  literals.\<close>

theorem canonical_text_determines_value:
  assumes "float_free v" "float_free w" "keys_distinct v" "keys_distinct w"
  shows "(canonical_json v = canonical_json w \<longleftrightarrow> json_same v w)
    \<and> CHR '' '' \<notin> set (unquoted False (canonical_json v))"
  using canonical_json_same_iff [OF assms] canonical_json_unspaced [OF assms(1)] by blast

theorem canonical_text_determines_value_witness:
  "canonical_json (JObj [(''b'', JList [JStr ''x y'']), (''a'', JObj [(''d'', JNull), (''c'', JInt 2)])])
    = canonical_json (JObj [(''a'', JObj [(''c'', JInt 2), (''d'', JNull)]), (''b'', JList [JStr ''x y''])])
   \<and> canonical_json (JObj [(''a'', JInt 1), (''b'', JInt 2)]) \<noteq> canonical_json (JObj [(''b'', JInt 1), (''a'', JInt 2)])"
proof (intro conjI notI)
  have "json_same (JObj [(''b'', JList [JStr ''x y'']), (''a'', JObj [(''d'', JNull), (''c'', JInt 2)])])
    (JObj [(''a'', JObj [(''c'', JInt 2), (''d'', JNull)]), (''b'', JList [JStr ''x y''])])" by code_simp
  then show "canonical_json (JObj [(''b'', JList [JStr ''x y'']), (''a'', JObj [(''d'', JNull), (''c'', JInt 2)])])
    = canonical_json (JObj [(''a'', JObj [(''c'', JInt 2), (''d'', JNull)]), (''b'', JList [JStr ''x y''])])"
    by (subst canonical_text_determines_value [THEN conjunct1]) (code_simp+)
next
  assume "canonical_json (JObj [(''a'', JInt 1), (''b'', JInt 2)]) = canonical_json (JObj [(''b'', JInt 1), (''a'', JInt 2)])"
  moreover have "\<not> json_same (JObj [(''a'', JInt 1), (''b'', JInt 2)]) (JObj [(''b'', JInt 1), (''a'', JInt 2)])" by code_simp
  ultimately show False by (subst (asm) canonical_text_determines_value [THEN conjunct1]) (code_simp+)
qed

section \<open>The ledger of frame sets\<close>

text \<open>C10: The ledger stays well formed over any sequence of its operations: its keys and unique
  columns hold, every manifest has its run, session and delivery projection, and at most one
  session is open, one run is open and one frame set waits for delivery.\<close>

theorem ledger_stays_well_formed:
  assumes "list_all ledger_op_ok ops"
  shows "ledger_inv (run ledger_step empty_db ops)"
  by (rule ledger.run_inv [OF empty_db_inv assms])

theorem ledger_stays_well_formed_witness:
  "ledger_inv (run ledger_step empty_db [Persist 10 (demo_set ''one'' 1 100), Persist 20 (demo_set ''two'' 2 200),
     Project 30 ''two'' None None (Some ''RAW_ENQUEUED'') None])"
  by (rule ledger_stays_well_formed) simp

text \<open>C11: A stored identifier cannot be reused for other content. Once the ledger has accepted a frame
  set, another one with the same identifier that differs in its digest, its manifest text, its tenant,
  site, job or profile, or in the subject or token it was authorized by is refused and changes
  nothing: by any later call, after whatever operations, with the integrity error that names the
  reuse when the frame set is valid in itself; and by a call that had already looked and found the
  identifier free before the first frame set was stored.\<close>

theorem reused_identifier_is_refused:
  assumes "ledger_inv db" "persist_frame_set_manifest id t fset db = (Inr stored, db1)"
    and "list_all ledger_op_ok ops"
    and "fs_identity_mode fset = IDENTITY_MODE_V2" "fs_identity_mode other = IDENTITY_MODE_V2"
    and "str_or (fs_frame_set_uid other) [] = str_or (fs_frame_set_uid fset) []"
    and differs: "fs_manifest_digest other \<noteq> fs_manifest_digest fset \<or> fs_manifest_json other \<noteq> fs_manifest_json fset
      \<or> fs_tenant_id other \<noteq> fs_tenant_id fset \<or> fs_site_id other \<noteq> fs_site_id fset
      \<or> fs_processing_job_id other \<noteq> fs_processing_job_id fset \<or> fs_profile_digest other \<noteq> fs_profile_digest fset
      \<or> fs_authorized_subject other \<noteq> fs_authorized_subject fset \<or> fs_session_token_jti other \<noteq> fs_session_token_jti fset"
  shows "(let db2 = run ledger_step db1 ops in
      \<exists>e. persist_frame_set_manifest others t' other db2 = (Inl e, db2)
        \<and> (validate_v2_frame_set other = Inr ()
           \<longrightarrow> e = ManifestIntegrityError ''frame_set_uid was reused with different manifest content''))
    \<and> (dict_get (db_manifests db) (str_or (fs_frame_set_uid other) []) = None
       \<longrightarrow> (\<exists>e d. persist_frame_set_manifest (\<lambda>_. db1) t' other db = (Inl e, d) \<and> d \<in> {db, db1}))"
proof -
  obtain row where row: "dict_get (db_manifests db1) (str_or (fs_frame_set_uid other) []) = Some row"
      "verify_existing_manifest row fset = Inr ()"
    using persisted_row [OF ledger_inv_wf assms(2,4)] assms(1,6) by auto
  have "ledger_inv db1" using persist_inv [of db t fset] assms(1,2) by simp
  from ledger.run_mono [OF this assms(3)] row(1)
  have kept: "dict_get (db_manifests (run ledger_step db1 ops)) (str_or (fs_frame_set_uid other) []) = Some row"
    by (auto simp: stored_manifests_def)
  have "\<not> same_content fset other" using differs by (auto simp: same_content_def)
  then obtain e where e: "verify_existing_manifest row other = Inl e"
    using verified_same_content [OF row(2), of other] by (cases "verify_existing_manifest row other") auto
  show ?thesis
    using persist_reused [OF assms(5) e kept] persist_reused_race [OF assms(5) e, of db "\<lambda>_. db1"] row(1)
    by (simp add: Let_def)
qed

theorem reused_identifier_is_refused_witness:
  "persist_frame_set_manifest id 20 ((demo_set ''one'' 1 100)\<lparr> fs_manifest_json := Some ''[]'' \<rparr>) demo_ledger
    = (Inl (ManifestIntegrityError ''frame_set_uid was reused with different manifest content''), demo_ledger)"
proof -
  let ?other = "(demo_set ''one'' 1 100)\<lparr> fs_manifest_json := Some ''[]'' \<rparr>"
  have "validate_v2_frame_set ?other = Inr ()" by code_simp
  with reused_identifier_is_refused [OF empty_db_inv demo_persisted, of "[]" ?other id 20] show ?thesis
    by (simp add: demo_set_def IDENTITY_MODE_V2_def Let_def)
qed

section \<open>Live delivery\<close>

text \<open>C12: At most one frame set is being delivered. Over any sequence of stores, claims, status
  reports, releases, reconciliations and retirements, the frame sets that are offered, accepted,
  started or unresolved are exactly the one the client state has in flight.\<close>

theorem one_frame_set_in_flight:
  assumes "list_all live_op_ok ops" "active (run live_step empty_live ops) uid"
  shows "in_flight (run live_step empty_live ops) = Some uid
    \<and> watermark (run live_step empty_live ops) = Some uid
    \<and> (\<forall>uid'. active (run live_step empty_live ops) uid' \<longrightarrow> uid' = uid)"
  using live.run_inv [OF empty_live_inv assms(1)] assms(2) by (auto simp: live_inv_def)

theorem one_frame_set_in_flight_witness:
  "in_flight (run live_step empty_live [LedgerOp (Persist 10 (demo_set ''one'' 1 100)), Claim 20 demo_credit None]) = Some ''one''"
  by (rule one_frame_set_in_flight [THEN conjunct1]) code_simp+

text \<open>C13: A frame set that is settled - superseded, rejected, completed, failed, expired or retired -
  is never offered again: its state is the same after any further operations.\<close>

theorem settled_is_final:
  assumes "live_inv d" "list_all live_op_ok ops"
    and "live_state_of d uid = Some st" "st \<notin> set (''ELIGIBLE'' # ACTIVE_STATES)"
  shows "live_state_of (run live_step d ops) uid = Some st"
  using live.run_mono [OF assms(1,2)] assms(3,4) by (auto simp: settled_def)

theorem settled_is_final_witness:
  "live_state_of (run live_step demo_done [Claim 40 demo_credit None, LedgerOp (Persist 50 (demo_set ''two'' 2 200))]) ''one''
     = Some ''COMPLETED''"
proof (rule settled_is_final [OF demo_done_inv])
  show "live_state_of demo_done ''one'' = Some ''COMPLETED''" by code_simp
qed (simp_all add: ACTIVE_STATES_def)

section \<open>Who may send frames\<close>

text \<open>C14: A scope is handed out only for a current token: its signing key is listed under the token's
  kid in a key set that is not stale, every field of the scope is what the verified claims say, the
  token has not expired, and the session (and the camera credential) is known to be active. A token
  with a credential kind never yields a session scope, and one without never a camera scope.\<close>

theorem verified_scope_is_authorized:
  assumes "jwt_same_claims lib" "versioned_verify lib inp vv token caches = (Inr ingest_scope, caches')"
  shows "\<exists>claims key. signing_key lib inp token (au_keys caches) (au_keys caches') key
    \<and> (case ingest_scope of
         SessionScope scope \<Rightarrow> json_get claims ''credential_kind'' = JNull
           \<and> (\<exists>v. vv_legacy vv = Some v
                \<and> jw_decode lib token key (vf_issuer v) (vf_audience v) (vf_leeway v) LEGACY_REQUIRED_CLAIMS = Some claims)
           \<and> states_session claims scope \<and> ai_now inp < ss_expires_at scope
           \<and> session_known_active inp (ss_processing_job_id scope) caches
       | CameraScope scope \<Rightarrow>
           (\<exists>v. vv_camera_ingest vv = Some v
              \<and> jw_decode lib token key (vf_issuer v) (vf_audience v) (vf_leeway v) CAMERA_INGEST_REQUIRED_CLAIMS = Some claims)
           \<and> states_camera claims scope \<and> ai_now inp < ci_expires_at scope
           \<and> session_known_active inp (ci_processing_job_id scope) caches
           \<and> credential_known_active inp (ci_token_jti scope) (ci_processing_job_id scope) caches)"
proof (cases ingest_scope)
  case (SessionScope scope)
  then obtain v unverified where v: "vv_legacy vv = Some v" "jw_unverified lib token = Some unverified"
      "json_get unverified ''credential_kind'' = JNull" "session_verify lib inp v token caches = (Inr scope, caches')"
    using assms(2) by (auto simp: versioned_verify_def Let_def map_sum_Inr split: option.splits if_splits prod.splits)
  show ?thesis using session_verify_Inr [OF v(4)] assms(1) v(1-3) SessionScope
    unfolding jwt_same_claims_def by fastforce
next
  case (CameraScope scope)
  then obtain v where v: "vv_camera_ingest vv = Some v" "camera_verify lib inp v token caches = (Inr scope, caches')"
    using assms(2) by (auto simp: versioned_verify_def Let_def map_sum_Inr split: option.splits if_splits prod.splits)
  show ?thesis using camera_verify_Inr [OF v(2)] v(1) CameraScope by fastforce
qed

theorem verified_scope_is_authorized_witness:
  "\<exists>scope caches key. versioned_verify demo_jwt demo_auth_inputs demo_versioned ''token'' demo_caches = (Inr (CameraScope scope), caches)
    \<and> states_camera demo_claims scope \<and> 50 < ci_expires_at scope"
proof (rule demo_verified)
  fix scope caches
  assume v: "versioned_verify demo_jwt demo_auth_inputs demo_versioned ''token'' demo_caches = (Inr (CameraScope scope), caches)"
  have "jwt_same_claims demo_jwt" by (simp add: jwt_same_claims_def demo_jwt_def)
  from verified_scope_is_authorized [OF this v] v show ?thesis
    by (auto simp: demo_jwt_def demo_auth_inputs_def split: if_splits)
qed

section \<open>Ingesting a frame\<close>

text \<open>C15: Archiving never stops or changes what is live: a call whose path, writer, frame table, manifest store or
  projection behaves differently, or fails in any way, still returns whenever the call does, with the same relay mode and
  the same answer of the live relay of frame sets, and raises what the call raises.\<close>

theorem archive_never_stops_live:
  "let inp' = inp\<lparr> in_build_path := build_path, in_archive := archive, in_state_ms := state_ms, in_manifest_ms := manifest_ms,
         in_manifest_others := manifest_others, in_manifest_fault := manifest_fault, in_projection_ms := projection_ms,
         in_projection_fault := projection_fault \<rparr>
   in case fst (ingest_frame inp c w) of
        Inl e \<Rightarrow> fst (ingest_frame inp' c w) = Inl e
      | Inr r \<Rightarrow> \<exists>r'. fst (ingest_frame inp' c w) = Inr r' \<and> ir_relay_mode r' = ir_relay_mode r
          \<and> ir_frame_set_relay_enqueued r' = ir_frame_set_relay_enqueued r"
  unfolding Let_def by (rule archive_never_stops_live_lemma) (simp add: same_live_inputs_def)

text \<open>C16: A frame goes to the processing service once: a call that returns has put the frame's image into the queue of
  single frames, or at most one message into the queue of frame sets, never both, and exactly when it says so; a call that
  raises has touched neither the relays nor the archive, the ledger or the stream state.\<close>

theorem relay_gets_one_copy:
  "case ingest_frame (inp\<lparr> in_others := \<lambda>_ w. w \<rparr>) c w of
     (Inl e, w') \<Rightarrow> iw_frames w' = iw_frames w \<and> iw_files w' = iw_files w \<and> iw_ledger w' = iw_ledger w
       \<and> iw_state w' = iw_state w \<and> iw_raw w' = iw_raw w \<and> iw_sets w' = iw_sets w
   | (Inr r, w') \<Rightarrow> \<not> (ir_relay_enqueued r \<and> ir_frame_set_relay_enqueued r)
       \<and> (if ir_relay_enqueued r
          then \<exists>m. rf_image_bytes m = ic_image_bytes c \<and> rf_device_id m = ic_device_id c
            \<and> pq_queue (iw_raw w') = pq_queue (iw_raw w) @ [m]
          else iw_raw w' = iw_raw w)
       \<and> (\<exists>m. pq_queue (iw_sets w') = pq_queue (iw_sets w) @ (if ir_frame_set_relay_enqueued r then [m] else []))"
proof (cases rule: ingest_cases [of "inp\<lparr> in_others := \<lambda>_ w. w \<rparr>" c w])
  case (failed e w')
  then show ?thesis using live_part_archive [OF _ failed(1)] by simp
next
  case (ingested frame mode fset enqueued w1)
  obtain r w' where a: "archive_part (inp\<lparr> in_others := \<lambda>_ w. w \<rparr>) c (frame, mode, fset, enqueued) w1 = (r, w')" by fastforce
  have live: "iw_raw w1 = iw_raw w" "enqueued \<longrightarrow> mode = STREAM_RELAY_MODE_FRAME_SET"
      "\<exists>m. pq_queue (iw_sets w1) = pq_queue (iw_sets w) @ (if enqueued then [m] else [])"
      "f_image_bytes frame = ic_image_bytes c" "f_device_id frame = ic_device_id c"
    using live_queues [OF _ ingested(1)] memory_frame_fields by auto
  have "ir_frame_set_relay_enqueued r = enqueued" using archive_part_live a by (metis fst_conv)
  then show ?thesis using archive_queues [OF _ a] live ingested(2) a by (auto simp: relay_mode_defs)
qed

text \<open>C17: What a call reports as durable is stored, whatever the other threads do that keep the stored rows: for a V2
  frame set the ledger holds its manifest, with the digest and the text of the frame set; with no frame set the table holds
  the frame's row, and the row is durable.\<close>

theorem durable_report_is_stored:
  assumes "ingest_frame inp c w = (Inr r, w')" "ir_archive_state r = ARCHIVE_DURABLE"
    and "others_keep_manifests inp" "others_keep_frames inp" "frames_ok (iw_frames w)"
  shows "case ir_synchronized_frame_set r of
      Some y \<Rightarrow> fs_identity_mode y = IDENTITY_MODE_V2 \<longrightarrow> stored_manifest y (iw_ledger w')
    | None \<Rightarrow> stored_frame (ir_frame r) (iw_frames w')"
  using ingest_durable [OF assms(1,3) _ _ assms(2)] ingest_durable_frame [OF assms(1,4,5) _ assms(2)]
  by (simp split: option.split)

theorem durable_report_is_stored_witness:
  "\<exists>r w. ingest_frame calm_inputs plain_call idle_world = (Inr r, w) \<and> stored_frame (ir_frame r) (iw_frames w)"
proof (rule plain_ingest)
  fix r w
  assume r: "ingest_frame calm_inputs plain_call idle_world = (Inr r, w)" "ir_synchronized_frame_set r = None"
    "ir_archive_state r = ARCHIVE_DURABLE"
  have "frames_ok (iw_frames idle_world)" by (simp add: idle_world_def)
  from durable_report_is_stored [OF r(1,3) calm_others this] r show ?thesis by auto
qed



section \<open>The archive\<close>

text \<open>C19: Archiving a frame keeps the archive trustworthy: if behind every durable row there is a file with the content the
  row's digest names, this still holds afterwards, wherever the write fails and whatever other sessions store in
  between, as long as the path and its temporary name are not those of a durable row with other content, and, for a frame
  without a source identity, the row it is matched with by device and time (if there is one) has the frame's digest,
  which the code does not check.\<close>

theorem archive_stays_backed:
  assumes "persist_frame_archive inp row image_bytes (Some path) initial_error (table, files) = (out, table', files')"
    and "av_writer inp = durable_write_bytes faults token"
    and "frames_ok table" "table_step table (av_others inp table)"
    and "fr_content_digest row = Some (sha256_bytes image_bytes)"
    and "\<And>mode. resolve_frame_identity (fr_source_session_id row) (fr_camera_stream_id row) (fr_frame_sequence row)
          (fr_content_digest row) = Inr (None, mode) \<Longrightarrow> same_by_time table row mode \<and> same_by_time (av_others inp table) row mode"
    and "archive_backed table files" "archive_backed (av_others inp table) files"
    and "undisturbed table (temporary_path token path) path (fr_content_digest row)"
    and "undisturbed (av_others inp table) (temporary_path token path) path (fr_content_digest row)"
  shows "archive_backed table' files'"
  by (rule durable_writer.archive_keeps_backed [OF assms])

theorem archive_stays_backed_witness:
  "\<exists>out table files. persist_frame_archive calm_archive (demo_call_row (sha256_bytes [1])) [1] (Some ''/p'') None ([], []) = (out, table, files)
     \<and> map_option fr_archive_state (dict_get table 1) = Some ARCHIVE_DURABLE \<and> archive_backed table files"
proof -
  obtain out table files where p: "persist_frame_archive calm_archive (demo_call_row (sha256_bytes [1])) [1] (Some ''/p'') None ([], []) = (out, table, files)"
    by (metis surj_pair)
  then have "map_option fr_archive_state (dict_get table 1) = Some ARCHIVE_DURABLE"
    by (auto simp: persist_frame_archive_def write_archive_file_def create_frame_def find_existing_frame_def demo_named demo_digest
        calm_archive_def calm_faults_def durable_write_bytes_def Let_def)
  moreover have "archive_backed table files"
    by (rule archive_stays_backed [OF p, where faults = calm_faults and token = "''token''"])
      (simp_all add: calm_archive_def demo_named demo_digest archive_backed_def undisturbed_def)
  ultimately show ?thesis using p by blast
qed

text \<open>C20: A frame that reuses the identity of a stored one with other content is refused, but only after its image has been
  written: the row stays, and where both have the same path the stored frame's file now holds the refused image.\<close>

theorem conflicting_frame_overwrites_archive:
  assumes "frames_ok table" "dict_get table k = Some old" "fr_source_frame_uid old = Some uid" "fr_content_digest old \<noteq> None"
    and "resolve_frame_identity (fr_source_session_id row) (fr_camera_stream_id row) (fr_frame_sequence row)
          (fr_content_digest row) = Inr (Some uid, mode)"
    and "fr_content_digest row = Some (sha256_bytes image_bytes)" "fr_content_digest old \<noteq> fr_content_digest row"
    and "av_writer inp = durable_write_bytes faults token" "av_writer inp path image_bytes files = (Inr (), written)"
    and "fr_archive_state old = ARCHIVE_DURABLE" "fr_file_path old = Some path"
  shows "\<exists>out files'. persist_frame_archive inp row image_bytes (Some path) None (table, files) = (out, table, files')
    \<and> ao_frame out = None \<and> ao_state out = ARCHIVE_DEGRADED_LIVE_ONLY \<and> dict_get files' path = Some image_bytes
    \<and> \<not> archive_backed table files'"
proof -
  obtain out table' files' where p: "persist_frame_archive inp row image_bytes (Some path) None (table, files) = (out, table', files')"
    by (metis surj_pair)
  from conflicting_frame_overwrites [OF assms(1-9) p] show ?thesis using assms(10,11) p by blast
qed

theorem conflicting_frame_overwrites_archive_witness:
  "\<exists>out files. persist_frame_archive calm_archive (demo_call_row (sha256_bytes [1])) [1] (Some ''/p'') None ([(1, demo_table_row ''other'')], [])
       = (out, [(1, demo_table_row ''other'')], files)
     \<and> ao_state out = ARCHIVE_DEGRADED_LIVE_ONLY \<and> dict_get files ''/p'' = Some [1]
     \<and> \<not> archive_backed [(1, demo_table_row ''other'')] files"
proof -
  obtain written where w: "av_writer calm_archive ''/p'' [1] [] = (Inr (), written)"
    by (auto simp: calm_archive_def calm_faults_def durable_write_bytes_def Let_def)
  have other: "Some ''other'' \<noteq> Some (sha256_bytes [1])" using demo_digest(1) by auto
  show ?thesis
    using conflicting_frame_overwrites_archive [OF demo_table_ok [OF demo_digest(3)], of 1 "demo_table_row ''other''" demo_frame_uid
        "demo_call_row (sha256_bytes [1])" IDENTITY_MODE_V2 "[1]" calm_archive calm_faults "''token''" "''/p''" "[]" written]
      w other demo_digest(2) by (auto simp: demo_named calm_archive_def)
qed

text \<open>C21: The check of the archive at the start restores what the archive promises: after a run that commits, behind every
  durable row there is a file with the content its digest names, whatever the files were before, where paths resolve to
  themselves; and it reports the rows it checked, each of them either healthy or degraded with an issue.\<close>

theorem reconciliation_restores_archive:
  assumes "reconcile_archive inp files (frames, db) = (Inr (report, issues), frames', db')"
    and "\<forall>k row path. dict_get frames k = Some row \<and> fr_file_path row = Some path \<longrightarrow> rn_resolve inp path = path"
  shows "archive_backed frames' files \<and> dict_keys frames' = dict_keys frames
    \<and> ap_checked_frames report = durable_frames frames
    \<and> ap_healthy_frames report = durable_frames frames'
    \<and> ap_degraded_frames report = durable_frames frames - durable_frames frames'
    \<and> int (length issues) = ap_degraded_frames report + ap_orphan_files report + ap_partial_files report"
proof -
  have "archive_backed frames' files" by (rule reconcile_restores [OF assms(1)]) (use assms(2) in blast)
  moreover note reconciled_counts [OF assms(1)]
  ultimately show ?thesis by blast
qed

theorem reconciliation_restores_archive_witness:
  "\<exists>report issues frames db. reconcile_archive demo_check [(''/p'', [1])] ([(1, demo_table_row ''other'')], empty_db)
       = (Inr (report, issues), frames, db)
     \<and> map_option fr_archive_state (dict_get frames 1) = Some ARCHIVE_DEGRADED_LIVE_ONLY \<and> archive_backed frames [(''/p'', [1])]"
proof -
  obtain report issues frames db where r: "reconcile_archive demo_check [(''/p'', [1])] ([(1, demo_table_row ''other'')], empty_db)
       = (Inr (report, issues), frames, db)" "map_option fr_archive_state (dict_get frames 1) = Some ARCHIVE_DEGRADED_LIVE_ONLY"
    using demo_check_broken by blast
  from reconciliation_restores_archive [OF r(1)] r show ?thesis by (simp add: demo_check_def)
qed

text \<open>C22: After the check every member, with a durable frame, of a frame set that is offered for delivery has a sound file: the
  file is there, inside the archive and readable, and has the size and the digest the frame's row recorded; the row is
  still durable. A frame set with a member whose file is missing, damaged or outside the archive is no longer offered.\<close>

theorem reconciliation_withdraws_broken_sets:
  assumes "reconcile_archive inp files (frames, db) = (Inr (report, issues), frames', db')"
    and "mf \<in> set (deliverable db')" "mf_frame_set_uid mf = mm_frame_set_uid m" "m \<in> set (db_members db)" "mm_frame_id m = Some k"
    and "ledger_wf db" "distinct (dict_keys frames)" "dict_get frames k = Some row" "fr_archive_state row = ARCHIVE_DURABLE"
  shows "sound_file inp files row \<and> (\<exists>row'. dict_get frames' k = Some row' \<and> fr_archive_state row' = ARCHIVE_DURABLE)"
  by (rule reconcile_withdraws [OF assms(1-6,8,9,7)])

theorem reconciliation_withdraws_broken_sets_witness:
  "\<exists>report issues frames row. reconcile_archive demo_check [(''/p'', [1])] ([(1, demo_table_row (sha256_bytes [1]))], demo_ledger)
       = (Inr (report, issues), frames, demo_ledger)
     \<and> dict_get frames 1 = Some row \<and> fr_archive_state row = ARCHIVE_DURABLE
     \<and> sound_file demo_check [(''/p'', [1])] (demo_table_row (sha256_bytes [1]))"
proof -
  obtain report issues frames where r: "reconcile_archive demo_check [(''/p'', [1])] ([(1, demo_table_row (sha256_bytes [1]))], demo_ledger)
       = (Inr (report, issues), frames, demo_ledger)" using demo_check_healthy by blast
  obtain mf m where m: "mf \<in> set (deliverable demo_ledger)" "mf_frame_set_uid mf = mm_frame_set_uid m" "m \<in> set (db_members demo_ledger)"
      "mm_frame_id m = Some 1" by (rule demo_offered)
  show ?thesis using reconciliation_withdraws_broken_sets [OF r m ledger_inv_wf [OF demo_ledger_inv]] r by simp
qed

section \<open>On the wire\<close>

text \<open>C23: Only an admissible frame set goes on the wire. When the client answers a credit with a frame set, it is the
  newest deliverable one of the ledger, now in flight; the lease of the credit had not run out when the client read its
  clock, just before it assembled the payload (the check after that sees the same reading again); the frame set is no
  older than the credit allows and can reach admission before its deadline; there is one payload per stored member, in
  camera order, with the archived bytes, the recorded size and the recorded digest; and the message fits both payload
  limits.\<close>

theorem sent_frame_set_is_admissible:
  assumes "live_inv (rl_db c)"
    and "handle_credit env inp credit session expected config scope c = (r, c')"
    and "rl_outgoing c' = rl_outgoing c @ [FrameSetEnvelope cf]"
  shows "r = Inr () \<and> (\<exists>mf. get_newest_eligible_manifest (lv_ledger (rl_db c)) = Some mf
    \<and> in_flight (rl_db c') = Some (mf_frame_set_uid mf)
    \<and> cf_key cf = key_of mf \<and> cf_manifest_digest cf = mf_manifest_digest mf \<and> cf_credit_scope cf = cd_scope credit
    \<and> list_all2 (carries (en_files env))
        (map live_member (sort_key mm_camera_stream_id
          (filter (\<lambda>m. mm_frame_set_uid m = mf_frame_set_uid mf) (db_members (lv_ledger (rl_db c)))))) (cf_frames cf)
    \<and> ki_mono_ms inp < ki_received_ms inp + cd_credit_lease_duration_ms credit
    \<and> cd_earliest_acceptable_freshness_origin_utc_ms credit \<le> mf_freshness_origin_ms mf
    \<and> ki_utc_ms inp + cd_ingress_reserve_ms credit < cf_effective_deadline_utc_ms cf
    \<and> cf_effective_deadline_utc_ms cf + pc_maximum_clock_uncertainty_ms config
        \<le> mf_freshness_origin_ms mf + cd_maximum_frame_age_ms credit
    \<and> int (length (en_serialize env (FrameSetEnvelope cf))) \<le> min (ng_maximum_payload_bytes session) (cd_maximum_payload_bytes credit))"
proof (rule sent_admissible [OF assms])
  fix mf claim
  assume s: "r = Inr ()" "get_newest_eligible_manifest (lv_ledger (rl_db c)) = Some mf"
    "cl_key claim = key_of mf" "cl_freshness_origin_ms claim = mf_freshness_origin_ms mf" "cl_manifest_digest claim = mf_manifest_digest mf"
    "cl_members claim = map live_member (sort_key mm_camera_stream_id
       (filter (\<lambda>m. mm_frame_set_uid m = mf_frame_set_uid mf) (db_members (lv_ledger (rl_db c)))))"
    "build_credited_frame_set (en_floats env) (en_files env) (en_serialize env) claim credit session config
      (ki_received_ms inp) (ki_mono_ms inp) (ki_mono_ms inp) (ki_utc_ms inp) = Inr (FrameSetEnvelope cf)"
    "in_flight (rl_db c') = Some (mf_frame_set_uid mf)"
  from s(7) show ?thesis
    by (rule build_credited_Inr)
      (use s in \<open>auto simp: credited_frame_set_def lease_deadline_def effective_deadline_def intro!: exI [of _ mf]\<close>)
qed

theorem sent_frame_set_is_admissible_witness:
  "\<exists>c cf. handle_credit wire_env wire_times wire_credit wire_session None wire_config None wire_client = (Inr (), c)
     \<and> rl_outgoing c = rl_outgoing wire_client @ [FrameSetEnvelope cf]
     \<and> 200 + 10 < cf_effective_deadline_utc_ms cf \<and> length (cf_frames cf) = 1"
proof -
  obtain c cf where sent: "handle_credit wire_env wire_times wire_credit wire_session None wire_config None wire_client = (Inr (), c)"
      "rl_outgoing c = rl_outgoing wire_client @ [FrameSetEnvelope cf]" "length (cf_frames cf) = 1"
    by (rule wire_sent)
  have "live_inv (rl_db wire_client)" using wire_live_inv [OF wire_digest] by (simp add: wire_client_def)
  from sent_frame_set_is_admissible [OF this sent(1,2)] sent show ?thesis
    by (auto simp: wire_credit_def wire_times_def)
qed

text \<open>C24: What was stored can be sent. When the manifest text of a frame set is the canonical text of its
  payload and the frame set is stored, then every claim of it is turned into a message as long as
  the credit is valid, the archive is intact and the frames' capture metadata is readable: the message names the
  frame set and its digest and has one payload and one configuration per camera, in camera order; it is sent if its
  serialized length is within the limits, and otherwise refused for its size and nothing else.\<close>

theorem stored_frame_set_can_be_sent:
  assumes stored: "ledger_inv db" "persist_frame_set_manifest id t fset db = (Inr True, db')"
    and manifest: "fs_manifest_json fset = Some (canonical_json (build_manifest_payload s frames mode window width anchor key))"
    and archived: "fs_frames fset = archive_members ids path frames"
    and readable: "\<forall>f \<in> set (dict_values frames). readable fl f"
    and claim: "claim = live_snapshot db' (manifest_row t fset) c off"
    and intact: "\<forall>member \<in> set (cl_members claim). intact files member"
    and lease: "ms < lease_deadline received credit" "ms' < lease_deadline received credit"
    and fresh: "cd_earliest_acceptable_freshness_origin_utc_ms credit \<le> cl_freshness_origin_ms claim"
      "utc + cd_ingress_reserve_ms credit < effective_deadline claim credit config"
    and limit: "0 < min (ng_maximum_payload_bytes session) (cd_maximum_payload_bytes credit)"
  shows "\<exists>cf. list_all2 (carries files) (cl_members claim) (cf_frames cf)
    \<and> cf_key cf = key_of (manifest_row t fset) \<and> Some (cf_manifest_digest cf) = fs_manifest_digest fset
    \<and> map fp_camera_stream_id (cf_frames cf) = sort (map camera_of (dict_values frames))
    \<and> map cc_camera_stream_id (cf_capture_configs cf) = map fp_camera_stream_id (cf_frames cf)
    \<and> (if int (length (serialize (FrameSetEnvelope cf))) \<le> min (ng_maximum_payload_bytes session) (cd_maximum_payload_bytes credit)
       then build_credited_frame_set fl files serialize claim credit session config received ms ms' utc = Inr (FrameSetEnvelope cf)
       else \<exists>why. build_credited_frame_set fl files serialize claim credit session config received ms ms' utc
              = Inl (PayloadLimitExceeded why))"
proof -
  note wf = ledger_inv_wf [OF stored(1)]
  have cams: "map lm_camera_stream_id (cl_members claim) = sort (map camera_of (dict_values frames))"
    unfolding claim stored_claim_members [OF wf stored(2)] archived archived_cameras ..
  have "canonical_json (build_manifest_payload s frames mode window width anchor key) \<noteq> []"
    by (rule manifest_text_nonempty)
  then have manifest_text: "cl_manifest_json claim = canonical_json (build_manifest_payload s frames mode window width anchor key)"
    by (simp add: claim live_snapshot_def manifest_row_def manifest)
  obtain cf where cf: "build_credited_frame_set fl files serialize claim credit session config received ms ms' utc
      = bind_result (validate_size (int (length (serialize (FrameSetEnvelope cf)))) (min (ng_maximum_payload_bytes session) (cd_maximum_payload_bytes credit)))
          (\<lambda>_. Inr (FrameSetEnvelope cf))"
      "cf_key cf = cl_key claim" "cf_manifest_digest cf = cl_manifest_digest claim"
      "list_all2 (carries files) (cl_members claim) (cf_frames cf)"
      "map cc_camera_stream_id (cf_capture_configs cf) = map fp_camera_stream_id (cf_frames cf)"
    using sendable [OF manifest_text cams readable intact lease fresh limit] by blast
  have "map fp_camera_stream_id (cf_frames cf) = map lm_camera_stream_id (cl_members claim)"
    using cf(4) by (induction rule: list_all2_induct) (auto simp: carries_def)
  moreover have "Some (cl_manifest_digest claim) = fs_manifest_digest fset"
    using validate_required(4) [OF stored_rows(4) [OF wf stored(2)]]
    by (auto simp: claim live_snapshot_def manifest_row_def truthy_iff)
  moreover have "cl_key claim = key_of (manifest_row t fset)" by (simp add: claim live_snapshot_def)
  ultimately show ?thesis using cf cams by (intro exI [of _ cf]) (auto simp: validate_size_def)
qed

theorem stored_frame_set_can_be_sent_witness:
  "(\<exists>cf. build_credited_frame_set demo_floats wire_files wire_bytes (wire_claim (sha256_bytes [1, 2])) wire_credit wire_session wire_config 1000 1010 1020 200
      = Inr (FrameSetEnvelope cf) \<and> map fp_camera_stream_id (cf_frames cf) = [''A'']
      \<and> wire_bytes (FrameSetEnvelope cf) = [1, 2])
   \<and> (\<exists>why. build_credited_frame_set demo_floats wire_files (\<lambda>e. replicate 80 0 @ wire_bytes e) (wire_claim (sha256_bytes [1, 2]))
        wire_credit wire_session wire_config 1000 1010 1020 200 = Inl (PayloadLimitExceeded why))"
proof -
  have m: "fs_manifest_json (wire_set dg) = Some (canonical_json (build_manifest_payload None [(''A'', wire_frame dg)] ''V2'' 50 0 100 None))"
    "fs_frames (wire_set dg) = archive_members (\<lambda>_. Some 1) (\<lambda>d. ''/'' @ d) [(''A'', wire_frame dg)]" for dg
    by (simp_all add: wire_set_def wire_payload_def wire_members_def)
  have r: "\<forall>f \<in> set (dict_values [(''A'', wire_frame (sha256_bytes [1, 2]))]). readable demo_floats f" by (simp add: wire_readable)
  have l: "(1010 :: int) < lease_deadline 1000 wire_credit" "(1020 :: int) < lease_deadline 1000 wire_credit"
    by (simp_all add: lease_deadline_def wire_credit_def)
  have p: "0 < min (ng_maximum_payload_bytes wire_session) (cd_maximum_payload_bytes wire_credit)"
    by (simp add: wire_session_def wire_credit_def)
  note sent = stored_frame_set_can_be_sent [OF empty_db_inv wire_stored [OF wire_digest] m r wire_claim_def wire_intact [OF refl] l wire_fresh p]
  have limit: "min (ng_maximum_payload_bytes wire_session) (cd_maximum_payload_bytes wire_credit) = 80"
    by (simp add: wire_session_def wire_credit_def)
  show ?thesis
    using sent [where serialize = wire_bytes] sent [where serialize = "\<lambda>e. replicate 80 0 @ wire_bytes e"] wire_carried
    unfolding limit by (fastforce simp: camera_of_def)
qed

section \<open>Alerts\<close>

text \<open>C25: Over any sequence of deliveries the effects of a hazard carry the versions 1, 2, 3, ... up to the
  hazard's current version, each once and in this order; and there is one effect for each receipt that
  says its alert was applied, under the same idempotency key.\<close>

theorem hazard_effects_are_consecutive:
  "map ef_hazard_version (hazard_effects (run receive_step empty_receiver deliveries) hazard)
      = [1..hazard_version (run receive_step empty_receiver deliveries) hazard]
   \<and> distinct (dict_keys (rd_effects (run receive_step empty_receiver deliveries)))
   \<and> (dict_get (rd_effects (run receive_step empty_receiver deliveries)) key \<noteq> None
        \<longleftrightarrow> (\<exists>r. dict_get (rd_receipts (run receive_step empty_receiver deliveries)) key = Some r \<and> rc_status r = ''APPLIED''))"
proof -
  have "receiver_inv (run receive_step empty_receiver deliveries)"
    by (rule receiver.run_inv [OF empty_receiver_inv]) (simp add: list_all_iff)
  then show ?thesis unfolding receiver_inv_def by blast
qed

text \<open>C26: The tables of the receiver stay well typed over any sequence of deliveries, whatever the alerts say:
  hazards are in one of the four states, versions and times fit SQLite's 64-bit integers, statuses are
  those of the contract, and a receipt has a deadline verdict (0 or 1) exactly when it was applied.\<close>

theorem receiver_tables_are_typed: "receiver_typed (run receive_step empty_receiver deliveries)"
  using receiver_tables.run_inv [of empty_receiver deliveries] by (simp add: empty_receiver_inv empty_receiver_typed list_all_iff)

text \<open>C27: An alert takes effect once: after a delivery that was applied, no later delivery under the same
  idempotency key has an effect; with the same payload digest it is answered as a duplicate with
  the first delivery's version and deadline verdict, with another digest as a conflict.\<close>

theorem alert_takes_effect_once:
  assumes "i < j" "j < length deliveries"
    and key: "ae_idempotency_key (snd (deliveries ! j)) = ae_idempotency_key (snd (deliveries ! i))"
    and first: "answers empty_receiver deliveries ! i = Inr a" "rv_user_visible_effect_applied a"
    and later: "answers empty_receiver deliveries ! j = Inr b"
  shows "\<not> rv_user_visible_effect_applied b
    \<and> (if ae_payload_digest (snd (deliveries ! j)) = ae_payload_digest (snd (deliveries ! i))
       then rv_status b = ''DUPLICATE'' \<and> rv_receiver_hazard_version b = rv_receiver_hazard_version a
         \<and> rv_delivery_deadline_met b = rv_delivery_deadline_met a
       else rv_status b = ''CONFLICT'')"
proof -
  let ?db = "\<lambda>n. run receive_step empty_receiver (take n deliveries)"
  have inv: "receiver_inv (?db n)" for n by (rule receiver.run_inv [OF empty_receiver_inv]) (simp add: list_all_iff)
  obtain d where d: "receive (fst (deliveries ! i)) (snd (deliveries ! i)) (?db i) = (Inr a, d)"
    using answers_receive [OF first(1) less_trans [OF assms(1,2)]] by blast
  have next_db: "?db (Suc i) = d"
    using assms(1,2) d by (simp add: take_Suc_conv_app_nth run_append receive_step_def)
  have "receipts (?db (Suc i)) \<subseteq> receipts (?db j)"
    using receiver.run_mono [OF inv [of "Suc i"], of "take (j - Suc i) (drop (Suc i) deliveries)"] assms(1)
    by (simp add: list_all_iff run_split [of "Suc i" j])
  then have "(ae_idempotency_key (snd (deliveries ! j)),
      receipt_row (snd (deliveries ! i)) (fst (deliveries ! i)) ''APPLIED'' (rv_receiver_hazard_version a) (rv_delivery_deadline_met a)) \<in> receipts (?db j)"
    using applied_receipt(1) [OF inv d first(2)] unfolding next_db key by blast
  moreover obtain d' where "receive (fst (deliveries ! j)) (snd (deliveries ! j)) (?db j) = (Inr b, d')"
    using answers_receive [OF later assms(2)] by blast
  ultimately show ?thesis
    using known_delivery [OF inv] applied_receipt(3) [OF inv d first(2)]
    by (fastforce simp: receipt_row_def int_of_bool_def)
qed

theorem alert_takes_effect_once_witness:
  "\<exists>b. answers empty_receiver [(10, demo_alert), (20, demo_alert)] ! 1 = Inr b \<and> rv_status b = ''DUPLICATE''
     \<and> rv_receiver_hazard_version b = 1 \<and> rv_delivery_deadline_met b = Some True"
proof -
  let ?ds = "[(10, demo_alert), (20, demo_alert)]"
  have first: "answers empty_receiver ?ds ! 0 = Inr (receive_result demo_alert ''APPLIED'' 1 10 (Some True) True)"
    and later: "answers empty_receiver ?ds ! 1 = Inr (receive_result demo_alert ''DUPLICATE'' 1 20 (Some True) False)"
    by (simp_all add: demo_alert_applied demo_alert_again receive_step_def)
  have applied: "rv_user_visible_effect_applied (receive_result demo_alert ''APPLIED'' 1 10 (Some True) True)"
    by (simp add: receive_result_def)
  show ?thesis
    using alert_takes_effect_once [OF zero_less_one _ _ first applied later] later by (auto simp: receive_result_def)
qed



section \<open>The relay client\<close>

text \<open>C29: The relay worker keeps the contract of the store: whatever the processor sends and however
  connections end, all it does to the database is a sequence of store operations, so the invariant
  of live delivery (one frame set in flight) is kept; and when its connections have ended it leaves no frame set
  on offer that was not on offer when it started (a crashed process leaves one): each one it offered was settled,
  reported on, or marked unresolved.\<close>

theorem relay_worker_keeps_the_contract:
  assumes "run_worker env rounds attempt c = (waits, c')" "live_inv (rl_db c)"
    and "list_all (\<lambda>r. list_all event_ok (rd_events r)) rounds"
  shows "(\<exists>ops. list_all live_op_ok ops \<and> rl_db c' = run live_step (rl_db c) ops)
    \<and> live_inv (rl_db c')
    \<and> {uid. live_state_of (rl_db c') uid = Some ''OFFERED''} \<subseteq> {uid. live_state_of (rl_db c) uid = Some ''OFFERED''}"
  using run_worker_steps [OF assms(1,3)] run_worker_offered [OF assms] unfolding store_steps_def offered_def by blast

theorem relay_worker_keeps_the_contract_witness:
  "\<exists>waits c. run_worker talk_env [\<lparr> rd_open = talk_open, rd_events = talk_events, rd_close_ms = 50, rd_stopping = True, rd_random = 0 \<rparr>] 0 talk_client = (waits, c)
     \<and> live_inv (rl_db c) \<and> live_state_of (rl_db c) ''one'' \<noteq> Some ''OFFERED''"
proof -
  let ?rounds = "[\<lparr> rd_open = talk_open, rd_events = talk_events, rd_close_ms = 50, rd_stopping = True, rd_random = 0 \<rparr>]"
  obtain waits c where r: "run_worker talk_env ?rounds 0 talk_client = (waits, c)" by fastforce
  have "live_state_of (rl_db talk_client) ''one'' = Some ''ELIGIBLE''" by code_simp
  with relay_worker_keeps_the_contract [OF r talk_start] r show ?thesis by (auto simp: talk_events_def)
qed

text \<open>C30: A credit is answered at most once. Unless the worker is stopping, a credit whose handling returns is answered by
  exactly one message that names it: either a
  frame set, which was not in flight before and is the one in flight afterwards, or no data; then
  nothing else is in flight than before, and a frame set that was taken but not sent (too old, damaged
  or too large) is settled and named in the answer. A credit whose handling raises (a fenced or expired credit, a
  changed capture run, a claim outside the relay credential), which ends the connection, gets no message at all.\<close>

theorem credit_is_answered_once:
  assumes "live_inv (rl_db c)" "\<not> ki_stopping inp"
    and "handle_credit env inp credit session expected config scope c = (r, c')"
  shows "case r of Inl e \<Rightarrow> rl_outgoing c' = rl_outgoing c | Inr _ \<Rightarrow>
     (\<exists>cf. rl_outgoing c' = rl_outgoing c @ [FrameSetEnvelope cf] \<and> cf_credit_scope cf = cd_scope credit
        \<and> in_flight (rl_db c) = None \<and> in_flight (rl_db c') = Some (fk_frame_set_uid (cf_key cf))
        \<and> live_state_of (rl_db c') (fk_frame_set_uid (cf_key cf)) = Some ''OFFERED'')
    \<or> (\<exists>nd. rl_outgoing c' = rl_outgoing c @ [NoDataEnvelope nd] \<and> nd_scope nd = cd_scope credit
        \<and> in_flight (rl_db c') = in_flight (rl_db c)
        \<and> (nd_reason nd = ''NO_DATA'' \<or> (\<exists>key. nd_newest_known_frame_set nd = Some key
             \<and> live_state_of (rl_db c') (fk_frame_set_uid key) \<in> {Some ''EXPIRED_BEFORE_OFFER'', Some ''REJECTED''})))"
proof (cases r)
  case (Inl e)
  then show ?thesis using raised_sends_nothing assms(3) by simp
next
  case (Inr u)
  with assms(3) have h: "handle_credit env inp credit session expected config scope c = (Inr (), c')" by simp
  show ?thesis using credit_answered [OF assms(1,2) h] Inr by simp
qed

theorem credit_is_answered_once_witness:
  "\<exists>c nd. handle_credit talk_env talk_times (talk_credit 1000) talk_session None wire_config None talk_client = (Inr (), c)
     \<and> rl_outgoing c = [NoDataEnvelope nd] \<and> nd_scope nd = demo_credit \<and> live_state_of (rl_db c) ''one'' = Some ''EXPIRED_BEFORE_OFFER''"
proof -
  obtain r c where h: "handle_credit talk_env talk_times (talk_credit 1000) talk_session None wire_config None talk_client = (r, c)" by fastforce
  have "(\<lambda>(r, c). r = Inr () \<and> map (\<lambda>e. case e of NoDataEnvelope nd \<Rightarrow> True | _ \<Rightarrow> False) (rl_outgoing c) = [True]
      \<and> live_state_of (rl_db c) ''one'' = Some ''EXPIRED_BEFORE_OFFER'')
    (handle_credit talk_env talk_times (talk_credit 1000) talk_session None wire_config None talk_client)" by code_simp
  then have e: "r = Inr ()" "map (\<lambda>e. case e of NoDataEnvelope nd \<Rightarrow> True | _ \<Rightarrow> False) (rl_outgoing c) = [True]"
      "live_state_of (rl_db c) ''one'' = Some ''EXPIRED_BEFORE_OFFER''"
    unfolding h by simp_all
  have "\<not> ki_stopping talk_times" by (simp add: talk_times_def)
  from credit_is_answered_once [OF talk_start this h] h e show ?thesis
    by (auto simp: talk_client_def talk_credit_def wire_credit_def)
qed

text \<open>C31: The waits of the relay worker are bounded: with the default backoff, and random values between zero and
  one, it never sleeps longer than six seconds between two connections, whatever those did.\<close>

theorem reconnect_waits_are_bounded:
  assumes "run_worker env rounds attempt c = (waits, c')" "rl_backoff c = default_backoff"
    and "list_all (\<lambda>r. 0 \<le> rd_random r \<and> rd_random r \<le> 1) rounds"
  shows "set waits \<subseteq> {0..6}"
  using worker_waits [OF assms] by (auto simp: list_all_iff)

theorem reconnect_waits_are_bounded_witness:
  "\<exists>waits c. run_worker talk_env [talk_round] 3 (talk_lost None 0) = (waits, c) \<and> set waits \<subseteq> {0..6}"
proof -
  obtain waits c where r: "run_worker talk_env [talk_round] 3 (talk_lost None 0) = (waits, c)" by fastforce
  have "rl_backoff (talk_lost None 0) = default_backoff" by (simp add: talk_lost_def talk_client_def)
  from reconnect_waits_are_bounded [OF r this] r show ?thesis by (simp add: talk_round_def)
qed

text \<open>C32: A lasting outage ends the relay worker: while every connection fails with an exception (the processor is
  down, or the session's credential is gone) it reconnects at most 1024 times in a row; one more failed
  connection and the computation of the next wait overflows, which ends the worker's thread for good.\<close>

theorem lasting_outage_ends_worker:
  assumes "outage env rounds c" "run_worker env rounds 0 c = (waits, c')"
  shows "length waits = min (length rounds) 1024 \<and> rl_running c' = (rl_running c \<and> length rounds \<le> 1024)"
  using outage_ends_worker [OF assms] by simp

theorem lasting_outage_ends_worker_witness:
  "\<exists>waits c. run_worker talk_env (replicate 1025 talk_round) 0 (talk_lost None 0) = (waits, c)
     \<and> length waits = 1024 \<and> rl_enabled (talk_lost None 0) \<and> \<not> rl_running c"
proof -
  obtain waits c where r: "run_worker talk_env (replicate 1025 talk_round) 0 (talk_lost None 0) = (waits, c)"
    by (cases "run_worker talk_env (replicate 1025 talk_round) 0 (talk_lost None 0)")
  from lasting_outage_ends_worker [OF talk_outage r] r show ?thesis by (auto simp: talk_lost_def talk_client_def)
qed

section \<open>The ingest gate\<close>

text \<open>C33: The gate's books are exact under any interleaving of its streams: each device is counted once per open stream
  that holds it and is active exactly while one does, the collection counts its open authorized streams, which
  all belong to one capture session, and the frames under way carry different receive numbers.\<close>

theorem ingest_books_stay_exact:
  "let w = run (server_step env) (started_server (configure_ingest bind enabled expected_count expected_ids verifier g)
             caches sessions cameras world) events;
       ss = dict_values (sv_streams w)
   in (\<forall>d. stream_count (sv_gate w) d = int (length (filter (\<lambda>s. holds s d) ss)))
    \<and> gi_active_device_ids (sv_gate w) = {d. \<exists>s \<in> set ss. holds s d}
    \<and> gi_active_authorized_stream_count (sv_gate w) = int (length (filter owns ss))
    \<and> (\<exists>session. set (map (scope_capture_session_id \<circ> the \<circ> sm_scope) (filter owns ss)) \<subseteq> {session})
    \<and> distinct (numbers ss)"
proof -
  let ?w = "run (server_step env) (started_server (configure_ingest bind enabled expected_count expected_ids verifier g)
             caches sessions cameras world) events"
  let ?ss = "dict_values (sv_streams ?w)"
  have ok: "books (sv_gate ?w) ?ss" "distinct (numbers ?ss)"
    using reached_ok [OF started_server_ok, of env bind enabled expected_count expected_ids verifier g caches sessions cameras world events]
    by (simp_all only: server_ok_def service_ok_def)
  have "set (map (scope_capture_session_id \<circ> the \<circ> sm_scope) (filter owns ?ss)) \<subseteq> {the (gi_collection_capture_session_id (sv_gate ?w))}"
    using ok(1) by (auto simp: books_def)
  then show ?thesis using ok unfolding Let_def books_def holders_pos unfolding holders_def owners_def by blast
qed

text \<open>C34: A frame is handed to the ingest function only through the gate: when its thread is let through, the gate is
  open and the collection not stopped, the device is expected, and with the gate on every expected
  device holds an open stream and the frame is not older than the gate's start.\<close>

theorem admitted_frame_passed_the_gate:
  assumes "w = run (server_step env) (started_server (configure_ingest bind enabled expected_count expected_ids verifier g)
      caches sessions cameras world) events"
    and "dict_get (sv_streams w) k = Some s" "stream_step env inp s w = (s', w')" "sm_phase s' = Admitted d"
  shows "gi_gate_open (sv_gate w) \<and> \<not> gi_collection_stopped (sv_gate w)
    \<and> (gi_expected_device_ids (sv_gate w) \<noteq> {} \<longrightarrow> internal_device_id (pd_packet d) \<in> gi_expected_device_ids (sv_gate w))
    \<and> (gate_enabled (sv_gate w) \<longrightarrow>
        (\<forall>e \<in> gi_expected_device_ids (sv_gate w). \<exists>t \<in> set (dict_values (sv_streams w)). holds t e)
        \<and> (\<exists>start. gi_gate_start_timestamp_ms (sv_gate w) = Some start \<and> start \<le> fp_device_timestamp_ms (pd_packet d)))"
proof -
  have "server_ok w" unfolding assms(1) by (rule reached_ok [OF started_server_ok])
  then show ?thesis by (rule admitted_passed [OF _ assms(2-4)])
qed

theorem admitted_frame_passed_the_gate_witness:
  "let w = run (server_step gate_env) gate_start gate_opened
   in \<exists>s d. dict_get (sv_streams w) 0 = Some s \<and> sm_phase (fst (stream_step gate_env (gate_input ''p1'' 140) s w)) = Admitted d
     \<and> gi_gate_open (sv_gate w) \<and> \<not> gi_collection_stopped (sv_gate w)"
proof -
  let ?w = "run (server_step gate_env) gate_start gate_opened" and ?step = "stream_step gate_env (gate_input ''p1'' 140)"
  have w: "?w = run (server_step gate_env) (started_server (configure_ingest ''[::]:50051'' True None (Some [''p1'', ''p2'']) None
      new_ingest_service) demo_caches [] [] []) gate_opened" by (simp only: gate_start_def gate_service_def)
  have "case dict_get (sv_streams ?w) 0 of None \<Rightarrow> False
      | Some s \<Rightarrow> (case sm_phase (fst (?step s ?w)) of Admitted d \<Rightarrow> True | _ \<Rightarrow> False)" by code_simp
  then obtain s d where s: "dict_get (sv_streams ?w) 0 = Some s" "sm_phase (fst (?step s ?w)) = Admitted d"
    by (auto split: option.splits Phase.splits)
  obtain s' w' where st: "?step s ?w = (s', w')" by fastforce
  have "sm_phase s' = Admitted d" using s(2) st by simp
  from admitted_frame_passed_the_gate [OF w s(1) st this] s show ?thesis unfolding Let_def by blast
qed

text \<open>C35: The gate opens once every device is connected: the next frame that reaches it from an expected device is still
  dropped but opens it, with a start time. From then on, whatever the streams do, the gate is open with that start and any
  frame of an expected device that is not older than the start is let through, until the collection is stopped (a device
  is lost) or reset (another capture session takes the server).\<close>

theorem gate_opens_when_all_are_connected:
  assumes "w = run (server_step env) (started_server (configure_ingest bind enabled expected_count expected_ids verifier g)
      caches sessions cameras world) events"
    and "dict_get (sv_streams w) k = Some s" "sm_phase s = Stamped d"
    and "gate_enabled (sv_gate w)" "\<not> gi_gate_open (sv_gate w)" "\<not> gi_collection_stopped (sv_gate w)" "all_devices_seen (sv_gate w)"
    and "gi_expected_device_ids (sv_gate w) \<noteq> {} \<longrightarrow> internal_device_id (pd_packet d) \<in> gi_expected_device_ids (sv_gate w)"
    and "stream_step env inp s w = (s', w')"
  shows "sm_phase s' = Ready \<and> gi_gate_open (sv_gate w')
    \<and> (\<exists>start. gi_gate_start_timestamp_ms (sv_gate w') = Some start
        \<and> (\<forall>device t. (gi_expected_device_ids (sv_gate w) \<noteq> {} \<longrightarrow> device \<in> gi_expected_device_ids (sv_gate w)) \<and> start \<le> t
             \<longrightarrow> fst (allow_ingest device (Some t) (sv_gate w')))
        \<and> (\<forall>later. let reach = (\<lambda>es. sv_gate (run (server_step env) (server_step env w (StepStream k inp)) es)) in
             (\<exists>before after. later = before @ after
                \<and> (gi_collection_stopped (reach before) \<or> \<not> gi_collection_started (reach before)))
             \<or> gi_gate_open (reach later) \<and> gi_gate_start_timestamp_ms (reach later) = Some start
               \<and> (\<forall>device t. (gi_expected_device_ids (sv_gate w) \<noteq> {} \<longrightarrow> device \<in> gi_expected_device_ids (sv_gate w)) \<and> start \<le> t
                    \<longrightarrow> fst (allow_ingest device (Some t) (reach later)))))"
proof -
  have "server_ok w" unfolding assms(1) by (rule reached_ok [OF started_server_ok])
  then obtain start where start: "sm_phase s' = Ready" "open_since start (gi_expected_device_ids (sv_gate w)) (sv_gate w')"
    using gate_opens_since [OF _ assms(2-9)] by blast
  have w': "sv_gate (server_step env w (StepStream k inp)) = sv_gate w'" using assms(2,9) by simp
  show ?thesis
  proof (intro conjI exI [of _ start] allI impI)
    fix later
    show "let reach = (\<lambda>es. sv_gate (run (server_step env) (server_step env w (StepStream k inp)) es)) in
             (\<exists>before after. later = before @ after
                \<and> (gi_collection_stopped (reach before) \<or> \<not> gi_collection_started (reach before)))
             \<or> gi_gate_open (reach later) \<and> gi_gate_start_timestamp_ms (reach later) = Some start
               \<and> (\<forall>device t. (gi_expected_device_ids (sv_gate w) \<noteq> {} \<longrightarrow> device \<in> gi_expected_device_ids (sv_gate w)) \<and> start \<le> t
                    \<longrightarrow> fst (allow_ingest device (Some t) (reach later)))"
      using open_since_run [of start _ "server_step env w (StepStream k inp)" env later, unfolded w', OF start(2)] open_since_allows
      unfolding Let_def ended_def by (fastforce simp: open_since_def)
  qed (use start open_since_allows [OF start(2)] in \<open>auto simp: open_since_def\<close>)
qed

theorem gate_opens_when_all_are_connected_witness:
  "\<exists>s. dict_get (sv_streams (run (server_step gate_env) gate_start gate_shut)) 1 = Some s
     \<and> gi_gate_open (sv_gate (snd (stream_step gate_env (gate_input [] 0) s (run (server_step gate_env) gate_start gate_shut))))"
proof -
  let ?w = "run (server_step gate_env) gate_start gate_shut" and ?step = "stream_step gate_env (gate_input [] 0)"
  have "(case dict_get (sv_streams ?w) 1 of None \<Rightarrow> False
      | Some s \<Rightarrow> (case sm_phase s of Stamped d \<Rightarrow> internal_device_id (pd_packet d) \<in> gi_expected_device_ids (sv_gate ?w) | _ \<Rightarrow> False))
      \<and> gate_enabled (sv_gate ?w) \<and> \<not> gi_gate_open (sv_gate ?w) \<and> \<not> gi_collection_stopped (sv_gate ?w) \<and> all_devices_seen (sv_gate ?w)"
    by code_simp
  then obtain s d where s: "dict_get (sv_streams ?w) 1 = Some s" "sm_phase s = Stamped d"
      "internal_device_id (pd_packet d) \<in> gi_expected_device_ids (sv_gate ?w)"
      "gate_enabled (sv_gate ?w)" "\<not> gi_gate_open (sv_gate ?w)" "\<not> gi_collection_stopped (sv_gate ?w)" "all_devices_seen (sv_gate ?w)"
    by (auto split: option.splits Phase.splits)
  obtain s' w' where st: "?step s ?w = (s', w')" by fastforce
  have w: "?w = run (server_step gate_env) (started_server (configure_ingest ''[::]:50051'' True None (Some [''p1'', ''p2'']) None
      new_ingest_service) demo_caches [] [] []) gate_shut" by (simp only: gate_start_def gate_service_def)
  from gate_opens_when_all_are_connected [OF w s(1,2,4,5,6,7) _ st] s st show ?thesis by (metis snd_conv)
qed

text \<open>C36: More cameras than threads never start: the server has four threads and a stream keeps one; so with camera
  credentials, each good for one device, a collection that waits for more than four devices never opens its gate,
  whatever calls and frames arrive, and nothing is ever ingested.\<close>

theorem more_cameras_than_threads_never_start:
  assumes "service = configure_ingest bind enabled expected_count expected_ids (Some v) g" "vv_legacy v = None"
    and "gi_expected_device_count service = Some n" "4 < n"
  shows "\<not> gi_gate_open (sv_gate (run (server_step env) (started_server service caches sessions cameras world) events))
    \<and> sv_world (run (server_step env) (started_server service caches sessions cameras world) events) = world"
proof -
  have v: "gi_session_token_verifier service = Some v" by (simp add: assms(1) configure_ingest_def Let_def)
  have ok: "server_ok (started_server service caches sessions cameras world)" unfolding assms(1) by (rule started_server_ok)
  have n: "gi_expected_device_ids service \<noteq> {} \<longrightarrow> n = int (card (gi_expected_device_ids service))"
    using configured_count assms(3) unfolding assms(1) by blast
  have "crowded world (started_server service caches sessions cameras world)"
    unfolding crowded_def started_fields open_streams_def
    by (intro conjI exI [of _ v] exI [of _ n] ok v n assms(2-4)) simp_all
  then have c: "crowded world (run (server_step env) (started_server service caches sessions cameras world) events)"
    by (rule crowded_run)
  then have "sv_world (run (server_step env) (started_server service caches sessions cameras world) events) = world"
    unfolding crowded_def by (elim conjE)
  with crowded_shut [OF c] show ?thesis by (rule conjI)
qed

theorem more_cameras_than_threads_never_start_witness:
  "\<not> gi_gate_open (sv_gate (run (server_step gate_env)
     (started_server (gate_service [''p1'', ''p2'', ''p3'', ''p4'', ''p5''] (Some demo_versioned)) demo_caches [] [] [])
     (OpenStream 0 (Some [(''authorization'', ''Bearer token'')]) (gate_input [] 0) # gate_frame 0 ''p1'' 100)))"
proof -
  let ?service = "gate_service [''p1'', ''p2'', ''p3'', ''p4'', ''p5''] (Some demo_versioned)"
  have count: "gi_expected_device_count ?service = Some 5" by code_simp
  have legacy: "vv_legacy demo_versioned = None" by (simp add: demo_versioned_def)
  have service: "?service = configure_ingest ''[::]:50051'' True None (Some [''p1'', ''p2'', ''p3'', ''p4'', ''p5'']) (Some demo_versioned) new_ingest_service"
    by (rule gate_service_def)
  have "4 < (5::int)" by simp
  from conjunct1 [OF more_cameras_than_threads_never_start [OF service legacy count this]] show ?thesis .
qed

section \<open>Relays, counters, alerts and replays\<close>

text \<open>C37: A processing relay hands every accepted frame to at most one call, in the order of acceptance and without a gap, whatever
  its threads, failures and restarts do, and also when the iterator of a call that has ended still takes one: since the
  relay was last cleared, the frames handed over followed by those still in the queue are the frames it accepted, and
  the counters count them.\<close>

theorem relay_keeps_order:
  "let r = run relay_service_step new_relay_service events
   in pq_sent r @ pq_queue r = accepted_frames new_relay_service events
    \<and> pq_sent_count r = int (length (pq_sent r))
    \<and> pq_enqueued_count r = int (length (accepted_frames new_relay_service events))"
  using relay_conserves [of _ events] by (simp add: Let_def)

text \<open>C38: The running state of a device is the summary of its own frames: the last frame, their number, how many numbers lie
  strictly between one sequence number and the next (frames without one aside), summed up, the last sequence number, and
  the times of the newest 300, in order; the frames of other devices do not matter.\<close>

theorem stream_state_is_summary:
  "let fs = frames_of device_id frames; ns = sequences fs
   in case get_camera device_id (run (\<lambda>s f. snd (update_frame f s)) [] frames) of
        None \<Rightarrow> fs = []
      | Some c \<Rightarrow> fs \<noteq> [] \<and> ca_device_id c = device_id
          \<and> ca_latest_frame c = Some (last fs)
          \<and> ca_frame_count c = int (length fs)
          \<and> ca_last_sequence c = (if ns = [] then None else Some (last ns))
          \<and> ca_sequence_gap_count c = (\<Sum>(l, n) \<leftarrow> zip ns (tl ns). int (card {k. l < k \<and> k < n}))
          \<and> ca_recent_timestamps_ms c = drop (length fs - 300) (map sf_timestamp fs)
          \<and> ca_recent_received_at_ms c = drop (length fs - 300) (map sf_received_at_ms fs)"
proof -
  have "gaps ns = (\<Sum>(l, n) \<leftarrow> zip ns (tl ns). int (card {k. l < k \<and> k < n}))" for ns
    by (simp add: gaps_def greaterThanLessThan_def greaterThan_def lessThan_def Collect_conj_eq)
  then show ?thesis
    by (auto simp: stream_state_summary camera_summary_def Let_def RECENT_LIMIT_def deque_of_def)
qed

text \<open>C39: The store of alerts knows exactly the alerts it retains, which are at most its limit and have different event ids, and
  those decide its answer: an alert is a duplicate if one with its event id is retained; if not, it has expired if its
  time and its time to live lie before the clock; if not, it is accepted (a store of size 0 raises instead) and becomes the
  newest record, the oldest one going when the store is full; every other answer leaves the records as they are. So an
  alert whose first copy has been pushed out is not recognised: it is accepted again unless it has expired.\<close>

theorem alert_store_is_exact:
  "let s = run (\<lambda>s (t, alert). snd (add_alert t alert s)) (new_alert_store n) arrivals
   in as_event_ids s = event_id_of ` set (as_records s) \<and> distinct (map event_id_of (as_records s))
    \<and> length (as_records s) \<le> n
    \<and> (\<forall>t alert. case add_alert t alert s of (answer, s') \<Rightarrow>
         answer =
           (if pe_event_id alert \<in> event_id_of ` set (as_records s) then Inr (alert_record t alert, ''duplicate'')
            else if pe_timestamp_ms alert + pe_ttl_ms alert < t then Inr (alert_record t alert, ''expired'')
            else if n = 0 then Inl (IndexError ''deque index out of range'')
            else Inr (alert_record t alert, ''accepted''))
         \<and> as_records s' =
             (if answer = Inr (alert_record t alert, ''accepted'')
              then (if length (as_records s) = n then tl (as_records s) else as_records s) @ [alert_record t alert]
              else as_records s))"
proof -
  let ?s = "run (\<lambda>s (t, alert). snd (add_alert t alert s)) (new_alert_store n) arrivals"
  have ok: "store_ok ?s" "as_max_alerts ?s = n" using reached_alert_store [of n arrivals] by auto
  note answer = add_alert_answer [OF ok(1), unfolded ok(2)]
  have "case add_alert t alert ?s of (answer, s') \<Rightarrow>
         answer =
           (if pe_event_id alert \<in> event_id_of ` set (as_records ?s) then Inr (alert_record t alert, ''duplicate'')
            else if pe_timestamp_ms alert + pe_ttl_ms alert < t then Inr (alert_record t alert, ''expired'')
            else if n = 0 then Inl (IndexError ''deque index out of range'')
            else Inr (alert_record t alert, ''accepted''))
         \<and> as_records s' =
             (if answer = Inr (alert_record t alert, ''accepted'')
              then (if length (as_records ?s) = n then tl (as_records ?s) else as_records ?s) @ [alert_record t alert]
              else as_records ?s)" for t alert
    using answer [of t alert] by (cases "add_alert t alert ?s") simp
  with ok show ?thesis unfolding Let_def store_ok_def by simp
qed

text \<open>C40: The anchor replay uses no frame in two frame sets: the frame sets it reports are numbered from 1 on, have different
  frames, and each has exactly one frame of every expected camera, filed under the camera it comes from, all within the
  window around its anchor; no duplicate is ever counted, and there is at most one report, of a frame set or of none, per
  frame of the recording.\<close>

theorem anchor_replay_is_disjoint:
  assumes "replay_frames read_bytes relative u ''anchor'' expected window buffer_size recent frames = Inr (status, matched, no_set)"
  shows "map fs_frame_set_id matched = map int [1..<length matched + 1]
    \<and> sorted_wrt (\<lambda>x y. set_keys x \<inter> set_keys y = {}) matched \<and> list_all (anchored expected window) matched
    \<and> rs_matched_count status = int (length matched) \<and> rs_duplicate_count status = 0
    \<and> length matched + length no_set \<le> length frames"
  using replay_anchor_ok [OF assms] by (auto simp: anchor_ok_def list_all_iff)

theorem anchor_replay_is_disjoint_witness:
  "\<exists>status matched no_set. replay_frames (\<lambda>_. []) id [] ''anchor'' [''A'', ''B''] 50 10 10 demo_recording = Inr (status, matched, no_set)
     \<and> length matched = 2 \<and> rs_matched_count status = 2 \<and> sorted_wrt (\<lambda>x y. set_keys x \<inter> set_keys y = {}) matched"
proof -
  have "map_sum (\<lambda>_. ()) (\<lambda>(_, matched, _). length matched)
      (replay_frames (\<lambda>_. []) id [] ''anchor'' [''A'', ''B''] 50 10 10 demo_recording) = Inr 2" by code_simp
  then obtain status matched no_set where r: "replay_frames (\<lambda>_. []) id [] ''anchor'' [''A'', ''B''] 50 10 10 demo_recording
      = Inr (status, matched, no_set)" "length matched = 2"
    by (cases "replay_frames (\<lambda>_. []) id [] ''anchor'' [''A'', ''B''] 50 10 10 demo_recording") auto
  from anchor_replay_is_disjoint [OF r(1)] r show ?thesis by simp
qed

end
